(* ===== verification/Go_Prelude.thy ===== *)
theory Go_Prelude
  imports Main "HOL-Library.Finite_Map" "HOL-Library.Word" "HOL-Library.List_Lexorder"
    "HOL-Library.Char_ord" "HOL-Library.Sublist"
begin

text \<open>
  The part of Go and of its standard library that the modelled packages use, and the lemmas the
  component theories share.

  \<^item> A Go string is a byte string: \<open>string\<close>, a list of 8-bit characters, ordered
    lexicographically by byte as Go's \<open><\<close> orders strings.
  \<^item> A Go map is a finite map \<open>fmap\<close>: extensional, finite, enumerable through its domain.
  \<^item> A \<open>time.Time\<close> is the number of nanoseconds since Go's zero time, so that
    \<open>time.Time{}\<close> is 0, \<open>IsZero\<close> is equality with 0 and \<open>Before\<close> is \<open><\<close>.
    A \<open>time.Duration\<close> is a signed 64-bit nanosecond count: products with \<open>time.Second\<close>
    wrap, and \<open>Time.Sub\<close> saturates.
  \<^item> \<open>fmt\<close> and \<open>strconv\<close> decimal and hexadecimal formatting and parsing.
\<close>

section \<open>Collections\<close>

named_theorems store_defs \<open>definitions of the store operations, unfolded in their lemmas\<close>
named_theorems inv_simps \<open>how the operations act on the parts an invariant reads\<close>

section \<open>Panics and defaults\<close>

text \<open>An operation that may panic returns \<open>Panic\<close> or \<open>Ret\<close> of its results.\<close>

datatype 'a go_result = Panic | Ret 'a

text \<open>
  Sequencing of operations that may panic or return an error: a panic and an error end the sequence.
\<close>

definition go_bind :: "('e + 'a) go_result \<Rightarrow> ('a \<Rightarrow> ('e + 'b) go_result) \<Rightarrow> ('e + 'b) go_result" where
  "go_bind r f = (case r of Panic \<Rightarrow> Panic | Ret (Inl e) \<Rightarrow> Ret (Inl e) | Ret (Inr a) \<Rightarrow> f a)"

lemma go_bind_simps [simp]:
  "go_bind Panic f = Panic" "go_bind (Ret (Inl e)) f = Ret (Inl e)" "go_bind (Ret (Inr a)) f = f a"
  by (simp_all add: go_bind_def)

lemma go_bind_Ret_Inr: "go_bind r f = Ret (Inr b) \<longleftrightarrow> (\<exists>a. r = Ret (Inr a) \<and> f a = Ret (Inr b))"
  by (simp add: go_bind_def split: go_result.splits sum.splits)

definition the_default :: "'a \<Rightarrow> 'a option \<Rightarrow> 'a" where
  "the_default d x = (case x of None \<Rightarrow> d | Some y \<Rightarrow> y)"

lemma the_default_simps [simp]: "the_default d None = d" "the_default d (Some y) = y"
  by (simp_all add: the_default_def)

section \<open>Subsequences\<close>

lemma subseq_set: "subseq xs ys \<Longrightarrow> x \<in> set xs \<Longrightarrow> x \<in> set ys"
  by (auto simp: subseq_conv_nths dest: in_set_nthsD)

lemma subseq_distinct: "subseq xs ys \<Longrightarrow> distinct ys \<Longrightarrow> distinct xs"
  by (auto simp: subseq_conv_nths intro: distinct_nthsI)

lemma subseq_drop_mid: "subseq (xs @ ys) (xs @ m # ys)"
  by (induction xs) auto

lemma sorted_wrt_nths: "sorted_wrt P xs \<Longrightarrow> sorted_wrt P (nths xs N)"
  by (induction xs arbitrary: N) (auto simp: nths_Cons dest: in_set_nthsD)

lemma in_set_map_filter: "x \<in> set (List.map_filter f xs) \<longleftrightarrow> (\<exists>y \<in> set xs. f y = Some x)"
  by (induction xs) (auto simp: List.map_filter_simps split: option.splits)

lemma distinct_map_filter:
  assumes "\<And>k x. f k = Some x \<Longrightarrow> k = h (g x)"
  shows "distinct ks \<Longrightarrow> distinct (map g (List.map_filter f ks))"
proof (induction ks)
  case (Cons k ks)
  show ?case
  proof (cases "f k")
    case (Some x)
    have "g x \<notin> g ` set (List.map_filter f ks)"
    proof
      assume "g x \<in> g ` set (List.map_filter f ks)"
      then obtain y k' where y: "k' \<in> set ks" "f k' = Some y" "g y = g x" by (auto simp: in_set_map_filter)
      from assms [OF Some] assms [OF y(2)] y(3) have "k' = k" by simp
      with y Cons.prems show False by simp
    qed
    with Cons Some show ?thesis by (simp add: List.map_filter_simps)
  qed (use Cons in \<open>simp add: List.map_filter_simps\<close>)
qed (simp add: List.map_filter_simps)

section \<open>Sorting\<close>

lemma insort_key_cong: "\<forall>y \<in> insert x (set ys). f y = g y \<Longrightarrow> insort_key f x ys = insort_key g x ys"
  by (induction ys) auto

lemma sort_key_cong: "\<forall>x \<in> set xs. f x = g x \<Longrightarrow> sort_key f xs = sort_key g xs"
  by (induction xs) (auto intro!: insort_key_cong)

section \<open>Machine integers, times and durations\<close>

definition wrap64 :: "int \<Rightarrow> int" where
  "wrap64 x = (x + 2 ^ 63) mod 2 ^ 64 - 2 ^ 63"

definition in_int64 :: "int \<Rightarrow> bool" where
  "in_int64 x \<longleftrightarrow> - (2 ^ 63) \<le> x \<and> x < 2 ^ 63"

lemma wrap64_id [simp]: "in_int64 x \<Longrightarrow> wrap64 x = x"
  by (simp add: wrap64_def in_int64_def)

lemma wrap64_range: "in_int64 (wrap64 x)"
proof -
  have "(x + 2 ^ 63) mod 2 ^ 64 < 2 ^ 64" and "0 \<le> (x + 2 ^ 63) mod 2 ^ 64"
    by (rule pos_mod_bound, simp) (rule pos_mod_sign, simp)
  then show ?thesis by (simp add: wrap64_def in_int64_def)
qed

lemma wrap64_inc_neq [simp]: "wrap64 (v + 1) \<noteq> v"
proof (cases "in_int64 v \<and> v \<noteq> 2 ^ 63 - 1")
  case True
  then have "in_int64 (v + 1)" by (simp add: in_int64_def)
  then show ?thesis by simp
next
  case False
  have "wrap64 (2 ^ 63 - 1 + 1) \<noteq> 2 ^ 63 - 1" by (simp add: wrap64_def)
  with False show ?thesis by (metis wrap64_range)
qed

type_synonym time = int
type_synonym duration = int

definition Second :: duration where "Second = 1000000000"
definition Minute :: duration where "Minute = 60 * Second"
definition Hour :: duration where "Hour = 60 * Minute"

definition IsZero :: "time \<Rightarrow> bool" where
  "IsZero t \<longleftrightarrow> t = 0"

text \<open>\<open>time.Duration(n) * unit\<close>: a wrapping 64-bit product.\<close>

definition duration_of :: "int \<Rightarrow> duration \<Rightarrow> duration" where
  "duration_of n unit = wrap64 (n * unit)"

text \<open>\<open>t.Sub(u)\<close>: the difference, saturated to the range of a duration.\<close>

definition time_Sub :: "time \<Rightarrow> time \<Rightarrow> duration" where
  "time_Sub t u = max (- (2 ^ 63)) (min (2 ^ 63 - 1) (t - u))"

text \<open>\<open>d.Milliseconds()\<close>: integer division truncated towards zero.\<close>

definition Milliseconds :: "duration \<Rightarrow> int" where
  "Milliseconds d = sgn d * (\<bar>d\<bar> div 1000000)"

lemma duration_of_small:
  "0 \<le> n \<Longrightarrow> n \<le> 9000000000 \<Longrightarrow> duration_of n Second = n * Second"
  by (simp add: duration_of_def Second_def in_int64_def)

lemma duration_of_neg_small:
  "0 \<le> n \<Longrightarrow> n \<le> 9000000000 \<Longrightarrow> duration_of (- n) Second = - n * Second"
  by (simp add: duration_of_def Second_def in_int64_def)

section \<open>Strings\<close>

text \<open>\<open>strings.HasPrefix\<close>.\<close>

definition HasPrefix :: "string \<Rightarrow> string \<Rightarrow> bool" where
  "HasPrefix str p \<longleftrightarrow> take (length p) str = p"

text \<open>\<open>strings.Contains\<close>.\<close>

fun Contains :: "string \<Rightarrow> string \<Rightarrow> bool" where
  "Contains [] sub = (sub = [])"
| "Contains (c # cs) sub = (HasPrefix (c # cs) sub \<or> Contains cs sub)"

text \<open>\<open>strings.SplitN(s, ":", n)\<close> for \<open>n > 0\<close>: at most \<open>n\<close> parts, the last one unsplit.\<close>

fun splitN_loop :: "char \<Rightarrow> nat \<Rightarrow> string \<Rightarrow> string \<Rightarrow> string list" where
  "splitN_loop c n cur [] = [rev cur]"
| "splitN_loop c n cur (x # xs) =
     (if x = c \<and> 1 < n then rev cur # splitN_loop c (n - 1) [] xs else splitN_loop c n (x # cur) xs)"

definition SplitN :: "string \<Rightarrow> char \<Rightarrow> nat \<Rightarrow> string list" where
  "SplitN s c n = splitN_loop c n [] s"

lemma HasPrefix_append [simp]: "HasPrefix (p @ s) p"
  by (simp add: HasPrefix_def)

lemma HasPrefix_iff: "HasPrefix s p \<longleftrightarrow> (\<exists>t. s = p @ t)"
  unfolding HasPrefix_def by (metis append_take_drop_id append_eq_conv_conj)

lemma splitN_loop_field:
  "c \<notin> set w \<Longrightarrow> splitN_loop c n cur (w @ c # rest) =
     (if 1 < n then (rev cur @ w) # splitN_loop c (n - 1) [] rest else splitN_loop c n (c # rev w @ cur) rest)"
  by (induction w arbitrary: cur) auto

lemma splitN_loop_last: "n \<le> 1 \<Longrightarrow> splitN_loop c n cur s = [rev cur @ s]"
  by (induction s arbitrary: cur) auto

text \<open>Two texts split at their first separator agree field by field.\<close>

lemma field_cancel:
  assumes "c \<notin> set u" and "c \<notin> set v"
  shows "u @ c # x = v @ c # y \<longleftrightarrow> u = v \<and> x = y"
proof
  assume eq: "u @ c # x = v @ c # y"
  have "takeWhile (\<lambda>d. d \<noteq> c) (u @ c # x) = u" "takeWhile (\<lambda>d. d \<noteq> c) (v @ c # y) = v"
    using assms by (auto simp: takeWhile_append)
  with eq have "u = v" by metis
  with eq show "u = v \<and> x = y" by simp
qed simp

section \<open>Decimal and hexadecimal text\<close>

definition digit_char :: "nat \<Rightarrow> char" where
  "digit_char d = char_of (48 + d)"

definition hex_char :: "nat \<Rightarrow> char" where
  "hex_char d = (if d < 10 then char_of (48 + d) else char_of (87 + d))"

fun digits_base :: "nat \<Rightarrow> nat \<Rightarrow> nat list" where
  "digits_base b n = (if b < 2 \<or> n < b then [n] else digits_base b (n div b) @ [n mod b])"

declare digits_base.simps [simp del]

definition dec_of_nat :: "nat \<Rightarrow> string" where
  "dec_of_nat n = map digit_char (digits_base 10 n)"

text \<open>\<open>strconv.Itoa\<close>, \<open>FormatInt(_, 10)\<close> and \<open>big.Int.String\<close>.\<close>

definition Itoa :: "int \<Rightarrow> string" where
  "Itoa i = (if i < 0 then CHR ''-'' # dec_of_nat (nat (- i)) else dec_of_nat (nat i))"

text \<open>The verb \<open>%0wd\<close> of \<open>fmt.Sprintf\<close>: the sign counts towards the width.\<close>

definition zpad :: "nat \<Rightarrow> nat \<Rightarrow> string" where
  "zpad w n = (let ds = dec_of_nat n in replicate (w - length ds) (CHR ''0'') @ ds)"

definition fmt_0d :: "nat \<Rightarrow> int \<Rightarrow> string" where
  "fmt_0d w i = (if i < 0 then CHR ''-'' # zpad (w - 1) (nat (- i)) else zpad w (nat i))"

text \<open>The verb \<open>%x\<close> on a non-negative integer.\<close>

definition fmt_x :: "nat \<Rightarrow> string" where
  "fmt_x n = map hex_char (digits_base 16 n)"

text \<open>
  \<open>big.Int.SetString(s, 10)\<close>: an optional sign and at least one decimal digit; nothing else.
\<close>

definition is_digit :: "char \<Rightarrow> bool" where
  "is_digit c \<longleftrightarrow> CHR ''0'' \<le> c \<and> c \<le> CHR ''9''"

definition digit_val :: "char \<Rightarrow> nat" where
  "digit_val c = of_char c - 48"

fun dec_val :: "nat \<Rightarrow> string \<Rightarrow> nat" where
  "dec_val acc [] = acc"
| "dec_val acc (c # cs) = dec_val (10 * acc + digit_val c) cs"

definition parse_nat :: "string \<Rightarrow> nat option" where
  "parse_nat s = (if s \<noteq> [] \<and> list_all is_digit s then Some (dec_val 0 s) else None)"

definition parse_int :: "string \<Rightarrow> int option" where
  "parse_int s =
     (case s of
        [] \<Rightarrow> None
      | c # cs \<Rightarrow>
          if c = CHR ''-'' then map_option (\<lambda>n. - int n) (parse_nat cs)
          else if c = CHR ''+'' then map_option int (parse_nat cs)
          else map_option int (parse_nat s))"

text \<open>\<open>strconv.Atoi\<close>: the same syntax, with a range check.\<close>

definition Atoi :: "string \<Rightarrow> int option" where
  "Atoi s = (case parse_int s of None \<Rightarrow> None | Some i \<Rightarrow> if in_int64 i then Some i else None)"

subsection \<open>Digits\<close>

lemma digits_base_bound: "2 \<le> b \<Longrightarrow> d \<in> set (digits_base b n) \<Longrightarrow> d < b"
proof (induction b n rule: digits_base.induct)
  case (1 b n)
  then show ?case
    by (subst (asm) (2) digits_base.simps) (auto split: if_splits)
qed

lemma digits_base_nonempty [simp]: "digits_base b n \<noteq> []"
  by (subst digits_base.simps) simp

lemma of_char_digit_char: "d < 10 \<Longrightarrow> of_char (digit_char d) = (48 + d :: nat)"
  by (simp add: digit_char_def)

lemma is_digit_iff: "is_digit c \<longleftrightarrow> 48 \<le> (of_char c :: nat) \<and> (of_char c :: nat) \<le> 57"
  by (simp add: is_digit_def less_eq_char_def)

lemma is_digit_digit_char [simp]: "d < 10 \<Longrightarrow> is_digit (digit_char d)"
  by (simp add: is_digit_iff of_char_digit_char)

lemma digit_val_digit_char [simp]: "d < 10 \<Longrightarrow> digit_val (digit_char d) = d"
  by (simp add: digit_val_def of_char_digit_char)

lemma dec_val_append: "dec_val acc (xs @ [c]) = 10 * dec_val acc xs + digit_val c"
  by (induction xs arbitrary: acc) simp_all

lemma dec_val_zeros: "dec_val 0 (replicate n (CHR ''0'') @ s) = dec_val 0 s"
  by (induction n) (simp_all add: digit_val_def)

lemma dec_val_dec_of_nat: "dec_val 0 (dec_of_nat n) = n"
proof (induction n rule: less_induct)
  case (less n)
  show ?case
  proof (cases "n < 10")
    case True
    then show ?thesis
      by (simp add: dec_of_nat_def digits_base.simps [of 10 n])
  next
    case False
    then have "dec_val 0 (dec_of_nat (n div 10)) = n div 10" by (intro less) simp
    then show ?thesis using False
      by (simp add: dec_of_nat_def digits_base.simps [of 10 n] dec_val_append)
  qed
qed

lemma list_all_is_digit_dec [simp]: "list_all is_digit (dec_of_nat n)"
  using digits_base_bound [of 10 _ n] by (auto simp: dec_of_nat_def list_all_iff)

lemma dec_of_nat_nonempty [simp]: "dec_of_nat n \<noteq> []"
  by (simp add: dec_of_nat_def)

lemma parse_nat_dec_of_nat [simp]: "parse_nat (dec_of_nat n) = Some n"
  by (simp add: parse_nat_def dec_val_dec_of_nat)

lemma dec_of_nat_inj [simp]: "dec_of_nat m = dec_of_nat n \<longleftrightarrow> m = n"
  by (metis dec_val_dec_of_nat)

lemma is_digit_not_sign: "is_digit c \<Longrightarrow> c \<noteq> CHR ''-'' \<and> c \<noteq> CHR ''+'' \<and> c \<noteq> CHR ''/''"
  by (auto simp: is_digit_iff)

lemma parse_int_Itoa [simp]: "parse_int (Itoa i) = Some i"
proof (cases "i < 0")
  case True
  then show ?thesis by (simp add: Itoa_def parse_int_def)
next
  case False
  obtain c cs where c: "dec_of_nat (nat i) = c # cs"
    by (cases "dec_of_nat (nat i)") auto
  then have "is_digit c"
    using list_all_is_digit_dec [of "nat i"] by simp
  with False c show ?thesis
    using parse_nat_dec_of_nat [of "nat i"]
    by (auto simp: Itoa_def parse_int_def dest: is_digit_not_sign)
qed

lemma Atoi_Itoa: "in_int64 i \<Longrightarrow> Atoi (Itoa i) = Some i"
  by (simp add: Atoi_def)

lemma Itoa_inj [simp]: "Itoa i = Itoa j \<longleftrightarrow> i = j"
  by (metis option.inject parse_int_Itoa)

subsection \<open>Zero-padded numbers sort as text the way they sort as numbers\<close>

fun fixw :: "nat \<Rightarrow> nat \<Rightarrow> nat list" where
  "fixw 0 n = []"
| "fixw (Suc w) n = fixw w (n div 10) @ [n mod 10]"

lemma length_fixw [simp]: "length (fixw w n) = w"
  by (induction w arbitrary: n) simp_all

lemma fixw_bound: "d \<in> set (fixw w n) \<Longrightarrow> d < 10"
  by (induction w arbitrary: n) auto

lemma fixw_0: "fixw w 0 = replicate w 0"
  by (induction w) (simp_all add: replicate_append_same)

lemma digits_base_length_le: "n < 10 ^ w \<Longrightarrow> 0 < w \<Longrightarrow> length (digits_base 10 n) \<le> w"
proof (induction w arbitrary: n)
  case 0
  then show ?case by simp
next
  case (Suc w)
  show ?case
  proof (cases "n < 10")
    case True
    then show ?thesis by (subst digits_base.simps) simp
  next
    case False
    with Suc.prems have "n div 10 < 10 ^ w" and "0 < w"
      by (simp, cases w) auto
    then have "length (digits_base 10 (n div 10)) \<le> w" by (rule Suc.IH)
    with False show ?thesis by (subst digits_base.simps) simp
  qed
qed

lemma replicate_0_digits: "n < 10 ^ w \<Longrightarrow> 0 < w \<Longrightarrow>
    replicate (w - length (digits_base 10 n)) 0 @ digits_base 10 n = fixw w n"
proof (induction w arbitrary: n)
  case 0
  then show ?case by simp
next
  case (Suc w)
  show ?case
  proof (cases "n < 10")
    case True
    then show ?thesis by (simp add: digits_base.simps [of 10 n] fixw_0)
  next
    case False
    with Suc.prems have lt: "n div 10 < 10 ^ w" and w: "0 < w"
      by (simp, cases w) auto
    from Suc.IH [OF lt w] False show ?thesis
      by (simp add: digits_base.simps [of 10 n])
  qed
qed

lemma digit_char_0: "digit_char 0 = CHR ''0''"
  by (simp add: digit_char_def char_of_def bit_simps) 

lemma zpad_fixw: "n < 10 ^ w \<Longrightarrow> 0 < w \<Longrightarrow> zpad w n = map digit_char (fixw w n)"
  by (simp add: zpad_def dec_of_nat_def Let_def digit_char_0
      flip: replicate_0_digits)

lemma length_zpad: "n < 10 ^ w \<Longrightarrow> 0 < w \<Longrightarrow> length (zpad w n) = w"
  by (simp add: zpad_fixw)

lemma less_append_same_length:
  fixes xs ys :: "'a :: linorder list"
  shows "length xs = length ys \<Longrightarrow>
    (xs @ [a] < ys @ [b]) \<longleftrightarrow> xs < ys \<or> (xs = ys \<and> a < b)"
  by (induction xs ys rule: list_induct2) auto

lemma nat_less_div_mod10:
  "(m div 10 < n div 10 \<or> (m div 10 = n div 10 \<and> m mod 10 < n mod 10)) \<longleftrightarrow> m < (n :: nat)"
proof -
  have *: "(a < b \<or> (a = b \<and> r < s)) \<longleftrightarrow> 10 * a + r < 10 * b + s"
    if "r < 10" "s < 10" for a b r s :: nat
    using that by linarith
  show ?thesis
    using * [of "m mod 10" "n mod 10" "m div 10" "n div 10"] by simp
qed

lemma fixw_less: "m < 10 ^ w \<Longrightarrow> n < 10 ^ w \<Longrightarrow> fixw w m < fixw w n \<longleftrightarrow> m < n"
proof (induction w arbitrary: m n)
  case 0
  then show ?case by simp
next
  case (Suc w)
  then have m: "m div 10 < 10 ^ w" and n: "n div 10 < 10 ^ w" by auto
  have eq: "fixw w (m div 10) = fixw w (n div 10) \<longleftrightarrow> m div 10 = n div 10"
    using Suc.IH [OF m n] Suc.IH [OF n m] by (metis less_irrefl linorder_neqE_nat)
  show ?case
    by (simp add: less_append_same_length eq Suc.IH [OF m n] nat_less_div_mod10)
qed

lemma digit_char_less: "x < 10 \<Longrightarrow> y < 10 \<Longrightarrow> digit_char x < digit_char y \<longleftrightarrow> x < y"
  by (simp add: less_char_def of_char_digit_char)

lemma digit_char_eq: "x < 10 \<Longrightarrow> y < 10 \<Longrightarrow> digit_char x = digit_char y \<longleftrightarrow> x = y"
  by (metis digit_val_digit_char)

lemma map_digit_char_less: "length xs = length ys \<Longrightarrow>
    \<forall>d \<in> set xs \<union> set ys. d < 10 \<Longrightarrow> map digit_char xs < map digit_char ys \<longleftrightarrow> xs < ys"
  by (induction xs ys rule: list_induct2) (auto simp: digit_char_less digit_char_eq)

theorem zpad_less_iff:
  assumes "m < 10 ^ w" and "n < 10 ^ w" and "0 < w"
  shows "zpad w m < zpad w n \<longleftrightarrow> m < n"
proof -
  have "map digit_char (fixw w m) < map digit_char (fixw w n) \<longleftrightarrow> fixw w m < fixw w n"
    by (rule map_digit_char_less) (auto dest: fixw_bound)
  with assms show ?thesis by (simp add: zpad_fixw fixw_less)
qed

lemma zpad_eq_iff:
  assumes "m < 10 ^ w" and "n < 10 ^ w" and "0 < w"
  shows "zpad w m = zpad w n \<longleftrightarrow> m = n"
  using zpad_less_iff [OF assms] zpad_less_iff [OF assms(2,1,3)]
  by (metis less_irrefl linorder_neqE_nat)

end
