(* ===== verification/Lease_Contract.thy ===== *)
theory Lease_Contract
  imports Go_Prelude
begin

text \<open>
  The contract the message stores of the two clouds share. SQS \<open>Receive\<close> and Pub/Sub
  \<open>Pull\<close> both hand out messages under a lease: a message is returned only when it is not
  withheld, and returning it withholds it until the lease ends. Competing consumers of a queue
  rely on this and nothing more.

  \<open>withheld s i t\<close> says that store \<open>s\<close> does not deliver message \<open>i\<close> at time
  \<open>t\<close> (it is leased, or it is not there); \<open>receive s a now\<close> is one call with arguments
  \<open>a\<close> at time \<open>now\<close>, giving the new store and the identifiers returned; \<open>lease a\<close>
  is how long the call withholds what it returns.
\<close>

text \<open>The identifiers handed out by a sequence of calls of \<open>receive\<close>, in order.\<close>

fun deliveries :: "('s \<Rightarrow> 'a \<Rightarrow> time \<Rightarrow> 's \<times> 'i list) \<Rightarrow> 's \<Rightarrow> ('a \<times> time) list \<Rightarrow> 'i list" where
  "deliveries receive s [] = []"
| "deliveries receive s ((a, now) # calls) =
     snd (receive s a now) @ deliveries receive (fst (receive s a now)) calls"

locale lease_store =
  fixes invar :: "'s \<Rightarrow> bool"
    and withheld :: "'s \<Rightarrow> 'i \<Rightarrow> time \<Rightarrow> bool"
    and receive :: "'s \<Rightarrow> 'a \<Rightarrow> time \<Rightarrow> 's \<times> 'i list"
    and lease :: "'a \<Rightarrow> duration"
  assumes receive_invar: "invar s \<Longrightarrow> invar (fst (receive s a now))"
    and receive_distinct: "invar s \<Longrightarrow> distinct (snd (receive s a now))"
    and receive_available: "invar s \<Longrightarrow> i \<in> set (snd (receive s a now)) \<Longrightarrow> \<not> withheld s i now"
    and receive_withholds: "invar s \<Longrightarrow> i \<in> set (snd (receive s a now)) \<Longrightarrow>
          0 \<le> t \<Longrightarrow> t < now + lease a \<Longrightarrow> withheld (fst (receive s a now)) i t"
    and receive_frame: "invar s \<Longrightarrow> withheld s i t \<Longrightarrow> i \<notin> set (snd (receive s a now)) \<Longrightarrow>
          withheld (fst (receive s a now)) i t"
begin

lemma withheld_not_delivered:
  "invar s \<Longrightarrow> \<forall>(a, t) \<in> set calls. withheld s i t \<Longrightarrow> i \<notin> set (deliveries receive s calls)"
proof (induction calls arbitrary: s)
  case (Cons call calls)
  obtain a now where call: "call = (a, now)" by (cases call)
  note 2 = Cons [unfolded call]
  from 2(2,3) have no: "i \<notin> set (snd (receive s a now))"
    by (auto dest: receive_available)
  with 2(2,3) have "\<forall>(b, t) \<in> set calls. withheld (fst (receive s a now)) i t"
    by (auto intro: receive_frame)
  with 2 no show ?case by (simp add: call receive_invar)
qed simp

text \<open>
  Calls whose times all fall within the leases of the earlier ones never return a message twice.
\<close>

lemma deliveries_distinct:
  "invar s \<Longrightarrow> \<forall>(a, t) \<in> set calls. 0 \<le> t \<Longrightarrow>
    sorted_wrt (\<lambda>(a, t) (b, u). u < t + lease a) calls \<Longrightarrow> distinct (deliveries receive s calls)"
proof (induction calls arbitrary: s)
  case (Cons call calls)
  obtain a now where call: "call = (a, now)" by (cases call)
  note 2 = Cons [unfolded call]
  have "i \<notin> set (deliveries receive (fst (receive s a now)) calls)" if "i \<in> set (snd (receive s a now))" for i
  proof (rule withheld_not_delivered)
    show "invar (fst (receive s a now))" using 2(2) by (rule receive_invar)
    show "\<forall>(b, t) \<in> set calls. withheld (fst (receive s a now)) i t"
      using 2(2-4) that by (auto intro!: receive_withholds)
  qed
  with 2 show ?case by (auto simp: call receive_invar receive_distinct)
qed simp

end

end
