(* ===== verification/Sqs_Store.thy ===== *)
theory Sqs_Store
  imports Lease_Contract
begin

text \<open>
  The SQS message store, \<open>src/internal/aws/store/sqs\<close> (\<open>store.go\<close> and \<open>memory.go\<close>).

  The store keeps, per queue URL, the messages in send order with the queue's retention period; the
  FIFO deduplication table; and a sequence counter per queue. Every operation of the interface
  \<open>SQSMessageStore\<close> is a definition below that takes the store and returns the new one.
  The mutex makes each operation atomic, so an execution is a sequence of these definitions.
  The readings of \<open>clock.Now()\<close>, the values of \<open>rand.Int63()\<close> and the MD5 digest are
  arguments; the \<open>account\<close> and \<open>region\<close> arguments, which the store ignores, are left out.
\<close>

section \<open>Data\<close>

record MessageAttribute =
  DataType :: string
  StringValue :: string
  BinaryValue :: string

record SQSMessage =
  MessageID :: string
  ReceiptHandle :: string
  QueueURL :: string
  Body :: string
  MD5OfBody :: string
  Attributes :: "(string, string) fmap"
  MessageAttributes :: "(string, MessageAttribute) fmap"
  GroupID :: string
  DeduplicationID :: string
  DedupScope :: string
  VisibleAt :: time
  SentAt :: time
  DelayUntil :: time
  ReceiveCount :: int
  FirstReceivedAt :: "time option"
  SequenceNumber :: string

record dedupEntry =
  expiry :: time
  messageID :: string

record queueData =
  messages :: "SQSMessage list"
  retentionSecs :: int

record MemoryMessageStore =
  queues :: "(string, queueData) fmap"
  dedup :: "(string, dedupEntry) fmap"
  seqCounter :: "(string, int) fmap"

definition defaultRetentionSecs :: int where
  "defaultRetentionSecs = 345600"

definition retention :: "queueData \<Rightarrow> int" where
  "retention q = (if retentionSecs q \<le> 0 then defaultRetentionSecs else retentionSecs q)"

definition NewMemoryMessageStore :: MemoryMessageStore where
  "NewMemoryMessageStore = \<lparr>queues = fmempty, dedup = fmempty, seqCounter = fmempty\<rparr>"

definition empty_queueData :: queueData where
  "empty_queueData = \<lparr>messages = [], retentionSecs = 0\<rparr>"

section \<open>Operations\<close>

text \<open>The body of the retention worker's tick: every queue drops its expired messages.\<close>

definition removeExpiredMessages :: "time \<Rightarrow> MemoryMessageStore \<Rightarrow> MemoryMessageStore" where
  "removeExpiredMessages now s =
     s\<lparr>queues := fmmap (\<lambda>q.
         let threshold = now + duration_of (- retention q) Second
         in q\<lparr>messages := filter (\<lambda>m. \<not> SentAt m < threshold) (messages q)\<rparr>) (queues s)\<rparr>"

definition getOrCreateQueue :: "string \<Rightarrow> MemoryMessageStore \<Rightarrow> queueData" where
  "getOrCreateQueue url s =
     (case fmlookup (queues s) url of Some q \<Rightarrow> q | None \<Rightarrow> empty_queueData)"

definition newHandle :: "nat \<Rightarrow> string" where
  "newHandle r = fmt_x r"

definition dedupKey :: "SQSMessage \<Rightarrow> string" where
  "dedupKey msg =
     (if DedupScope msg = ''messageGroup''
      then QueueURL msg @ '':'' @ GroupID msg @ '':'' @ DeduplicationID msg
      else QueueURL msg @ '':'' @ DeduplicationID msg)"

text \<open>\<open>fmt.Sprintf("%x", md5.Sum(b))\<close>: the sixteen bytes, two hexadecimal digits each.\<close>

definition md5_hex :: "128 word \<Rightarrow> string" where
  "md5_hex w = (let s = fmt_x (unat w) in replicate (32 - length s) (CHR ''0'') @ s)"

text \<open>
  \<open>Send\<close> after the deduplication check: number the message, stamp it, append it. Returns the
  store and the sequence number.
\<close>

definition enqueue ::
    "(string \<Rightarrow> 128 word) \<Rightarrow> nat \<Rightarrow> time \<Rightarrow> SQSMessage \<Rightarrow> MemoryMessageStore \<Rightarrow> MemoryMessageStore \<times> string" where
  "enqueue md5 r now_sent msg s =
     (let url = QueueURL msg;
          n = wrap64 (the_default 0 (fmlookup (seqCounter s) url) + 1);
          s1 = (if GroupID msg \<noteq> [] then s\<lparr>seqCounter := fmupd url n (seqCounter s)\<rparr> else s);
          msg1 = (if GroupID msg \<noteq> [] then msg\<lparr>SequenceNumber := fmt_0d 20 n\<rparr> else msg);
          msg2 = msg1\<lparr>MD5OfBody := md5_hex (md5 (Body msg)), ReceiptHandle := newHandle r,
                      SentAt := now_sent\<rparr>;
          q = getOrCreateQueue url s1;
          q' = q\<lparr>messages := messages q @ [msg2]\<rparr>
      in (s1\<lparr>queues := fmupd url q' (queues s1)\<rparr>, SequenceNumber msg2))"

definition record_dedup :: "time \<Rightarrow> SQSMessage \<Rightarrow> MemoryMessageStore \<Rightarrow> MemoryMessageStore" where
  "record_dedup now_expiry msg s =
     s\<lparr>dedup := fmupd (dedupKey msg) \<lparr>expiry = now_expiry + 5 * Minute, messageID = MessageID msg\<rparr> (dedup s)\<rparr>"

text \<open>
  \<open>Send\<close>: the result is the pair (dedupMessageID, sequenceNumber). The three times are the
  three readings of the clock: for the expiry check, for the new expiry, and for \<open>SentAt\<close>.
\<close>

definition Send ::
    "(string \<Rightarrow> 128 word) \<Rightarrow> nat \<Rightarrow> time \<Rightarrow> time \<Rightarrow> time \<Rightarrow> SQSMessage \<Rightarrow> MemoryMessageStore \<Rightarrow>
     MemoryMessageStore \<times> string \<times> string" where
  "Send md5 r now_check now_expiry now_sent msg s =
     (let accept = (\<lambda>s1. let (s2, sn) = enqueue md5 r now_sent msg s1 in (s2, [], sn))
      in if DeduplicationID msg \<noteq> [] then
           (case fmlookup (dedup s) (dedupKey msg) of
              Some entry \<Rightarrow> if now_check < expiry entry then (s, messageID entry, [])
                            else accept (record_dedup now_expiry msg s)
            | None \<Rightarrow> accept (record_dedup now_expiry msg s))
         else accept s)"

definition delayed_at :: "time \<Rightarrow> SQSMessage \<Rightarrow> bool" where
  "delayed_at now m \<longleftrightarrow> \<not> IsZero (DelayUntil m) \<and> now < DelayUntil m"

definition in_flight_at :: "time \<Rightarrow> SQSMessage \<Rightarrow> bool" where
  "in_flight_at now m \<longleftrightarrow> \<not> IsZero (VisibleAt m) \<and> now < VisibleAt m"

text \<open>The groups with a message in flight, collected before any message is claimed.\<close>

definition inFlightGroups :: "time \<Rightarrow> SQSMessage list \<Rightarrow> string set" where
  "inFlightGroups now msgs =
     set (map GroupID (filter (\<lambda>m. GroupID m \<noteq> [] \<and> in_flight_at now m) msgs))"

text \<open>What a receive writes into the message it returns.\<close>

definition claim :: "time \<Rightarrow> nat \<Rightarrow> SQSMessage \<Rightarrow> SQSMessage" where
  "claim now r m =
     m\<lparr>ReceiptHandle := newHandle r,
       ReceiveCount := ReceiveCount m + 1,
       FirstReceivedAt := (case FirstReceivedAt m of None \<Rightarrow> Some now | Some t \<Rightarrow> Some t),
       VisibleAt := now + 30 * Second\<rparr>"

text \<open>
  The second loop of \<open>Receive\<close>. \<open>n\<close> is the length of the result so far and
  \<open>rnd n\<close> the random value drawn for the next claim; the result pairs the queue's messages
  after the loop with the copies returned.
\<close>

fun receive_loop ::
    "time \<Rightarrow> (nat \<Rightarrow> nat) \<Rightarrow> int \<Rightarrow> string set \<Rightarrow> nat \<Rightarrow> SQSMessage list \<Rightarrow> SQSMessage list \<times> SQSMessage list" where
  "receive_loop now rnd maxMessages grp n [] = ([], [])"
| "receive_loop now rnd maxMessages grp n (m # ms) =
     (if maxMessages \<le> int n then (m # ms, [])
      else if delayed_at now m then
        (let (ms', res) = receive_loop now rnd maxMessages grp n ms in (m # ms', res))
      else if in_flight_at now m then
        (let (ms', res) = receive_loop now rnd maxMessages grp n ms in (m # ms', res))
      else if GroupID m \<noteq> [] \<and> GroupID m \<in> grp then
        (let (ms', res) = receive_loop now rnd maxMessages grp n ms in (m # ms', res))
      else
        (let m' = claim now (rnd n) m;
             grp' = (if GroupID m \<noteq> [] then insert (GroupID m) grp else grp);
             (ms', res) = receive_loop now rnd maxMessages grp' (Suc n) ms
         in (m' # ms', m' # res)))"

definition Receive ::
    "(nat \<Rightarrow> nat) \<Rightarrow> string \<Rightarrow> int \<Rightarrow> time \<Rightarrow> MemoryMessageStore \<Rightarrow> MemoryMessageStore \<times> SQSMessage list" where
  "Receive rnd url maxMessages now s =
     (case fmlookup (queues s) url of
        None \<Rightarrow> (s, [])
      | Some q \<Rightarrow>
          (let (ms', res) = receive_loop now rnd maxMessages (inFlightGroups now (messages q)) 0 (messages q)
           in (s\<lparr>queues := fmupd url (q\<lparr>messages := ms'\<rparr>) (queues s)\<rparr>, res)))"

definition not_found :: string where
  "not_found = ''receipt handle not found''"

text \<open>The loops of \<open>Delete\<close> and \<open>ChangeVisibility\<close>: the first message with the handle.\<close>

fun delete_first :: "string \<Rightarrow> SQSMessage list \<Rightarrow> SQSMessage list option" where
  "delete_first h [] = None"
| "delete_first h (m # ms) =
     (if ReceiptHandle m = h then Some ms else map_option ((#) m) (delete_first h ms))"

definition Delete :: "string \<Rightarrow> string \<Rightarrow> MemoryMessageStore \<Rightarrow> string + MemoryMessageStore" where
  "Delete url h s =
     (case fmlookup (queues s) url of
        None \<Rightarrow> Inl not_found
      | Some q \<Rightarrow>
          (case delete_first h (messages q) of
             None \<Rightarrow> Inl not_found
           | Some ms \<Rightarrow> Inr (s\<lparr>queues := fmupd url (q\<lparr>messages := ms\<rparr>) (queues s)\<rparr>)))"

fun update_first :: "string \<Rightarrow> (SQSMessage \<Rightarrow> SQSMessage) \<Rightarrow> SQSMessage list \<Rightarrow> SQSMessage list option" where
  "update_first h f [] = None"
| "update_first h f (m # ms) =
     (if ReceiptHandle m = h then Some (f m # ms) else map_option ((#) m) (update_first h f ms))"

definition ChangeVisibility ::
    "string \<Rightarrow> string \<Rightarrow> int \<Rightarrow> time \<Rightarrow> MemoryMessageStore \<Rightarrow> string + MemoryMessageStore" where
  "ChangeVisibility url h timeoutSec now s =
     (case fmlookup (queues s) url of
        None \<Rightarrow> Inl not_found
      | Some q \<Rightarrow>
          (case update_first h
                  (\<lambda>m. m\<lparr>VisibleAt := (if timeoutSec = 0 then 0 else now + duration_of timeoutSec Second)\<rparr>)
                  (messages q) of
             None \<Rightarrow> Inl not_found
           | Some ms \<Rightarrow> Inr (s\<lparr>queues := fmupd url (q\<lparr>messages := ms\<rparr>) (queues s)\<rparr>)))"

definition Purge :: "string \<Rightarrow> MemoryMessageStore \<Rightarrow> MemoryMessageStore" where
  "Purge url s =
     (case fmlookup (queues s) url of
        None \<Rightarrow> s
      | Some q \<Rightarrow> s\<lparr>queues := fmupd url (q\<lparr>messages := []\<rparr>) (queues s)\<rparr>)"

text \<open>The counting loop: visible, not visible, delayed.\<close>

fun count_loop :: "time \<Rightarrow> SQSMessage list \<Rightarrow> nat \<times> nat \<times> nat" where
  "count_loop now [] = (0, 0, 0)"
| "count_loop now (m # ms) =
     (case count_loop now ms of (v, n, d) \<Rightarrow>
        if delayed_at now m then (v, n, Suc d)
        else if in_flight_at now m then (v, Suc n, d)
        else (Suc v, n, d))"

definition GetApproximateCounts :: "string \<Rightarrow> time \<Rightarrow> MemoryMessageStore \<Rightarrow> nat \<times> nat \<times> nat" where
  "GetApproximateCounts url now s =
     (case fmlookup (queues s) url of None \<Rightarrow> (0, 0, 0) | Some q \<Rightarrow> count_loop now (messages q))"

text \<open>
  \<open>Peek\<close>: a negative offset indexes before the slice, and a sum that wraps makes a negative
  length; both panic.
\<close>

definition Peek :: "string \<Rightarrow> int \<Rightarrow> int \<Rightarrow> MemoryMessageStore \<Rightarrow> (SQSMessage list \<times> nat) go_result" where
  "Peek url offset limit s =
     (case fmlookup (queues s) url of
        None \<Rightarrow> Ret ([], 0)
      | Some q \<Rightarrow>
          (let limit' = (if limit \<le> 0 then 100 else limit);
               msgs = messages q;
               total = length msgs
           in if int total \<le> offset then Ret ([], total)
              else
                (let end0 = wrap64 (offset + limit');
                     end1 = (if int total < end0 then int total else end0)
                 in if end1 - offset < 0 \<or> (offset < 0 \<and> 0 < end1 - offset) then Panic
                    else Ret (take (nat (end1 - offset)) (drop (nat offset) msgs), total))))"

definition SetQueueRetention :: "string \<Rightarrow> int \<Rightarrow> MemoryMessageStore \<Rightarrow> MemoryMessageStore" where
  "SetQueueRetention url secs s =
     s\<lparr>queues := fmupd url ((getOrCreateQueue url s)\<lparr>retentionSecs := secs\<rparr>) (queues s)\<rparr>"

text \<open>\<open>Reset\<close> stops the worker, empties the three maps and starts a new worker.\<close>

definition Reset :: "MemoryMessageStore \<Rightarrow> MemoryMessageStore" where
  "Reset s = s\<lparr>queues := fmempty, dedup := fmempty, seqCounter := fmempty\<rparr>"

definition IsEmpty :: "MemoryMessageStore \<Rightarrow> bool" where
  "IsEmpty s \<longleftrightarrow> fmpred (\<lambda>_ q. \<not> 0 < length (messages q)) (queues s)"

section \<open>Snapshots\<close>

record sqsDedupEntrySnap =
  snap_Expiry :: time
  snap_MessageID :: string

record sqsQueueDataSnap =
  snap_Messages :: "SQSMessage list"
  snap_RetentionSecs :: int

text \<open>
  The value handed to the JSON encoder, and what the decoder yields: a queue may be \<open>null\<close>
  and the counter map may be absent.
\<close>

record sqsMemSnap =
  snap_Queues :: "(string, sqsQueueDataSnap option) fmap"
  snap_Dedup :: "(string, sqsDedupEntrySnap) fmap"
  snap_SeqCounter :: "(string, int) fmap option"

definition Snapshot :: "MemoryMessageStore \<Rightarrow> sqsMemSnap" where
  "Snapshot s =
     \<lparr>snap_Queues = fmmap (\<lambda>q. Some \<lparr>snap_Messages = messages q, snap_RetentionSecs = retentionSecs q\<rparr>) (queues s),
      snap_Dedup = fmmap (\<lambda>e. \<lparr>snap_Expiry = expiry e, snap_MessageID = messageID e\<rparr>) (dedup s),
      snap_SeqCounter = Some (seqCounter s)\<rparr>"

text \<open>\<open>Restore\<close> of a decoded snapshot; a decoding error leaves the store as it is.\<close>

definition restore_queue :: "sqsQueueDataSnap option \<Rightarrow> queueData" where
  "restore_queue v =
     (case v of None \<Rightarrow> empty_queueData
      | Some d \<Rightarrow> \<lparr>messages = snap_Messages d, retentionSecs = snap_RetentionSecs d\<rparr>)"

definition Restore :: "string + sqsMemSnap \<Rightarrow> MemoryMessageStore \<Rightarrow> string + MemoryMessageStore" where
  "Restore decoded s =
     (case decoded of
        Inl err \<Rightarrow> Inl err
      | Inr snap \<Rightarrow>
          Inr (s\<lparr>queues := fmmap restore_queue
                   (fmfilter (\<lambda>k. fmlookup (snap_Queues snap) k \<noteq> Some None) (snap_Queues snap)),
                 dedup := fmmap (\<lambda>e. \<lparr>expiry = snap_Expiry e, messageID = snap_MessageID e\<rparr>) (snap_Dedup snap),
                 seqCounter := (case snap_SeqCounter snap of Some c \<Rightarrow> c | None \<Rightarrow> fmempty)\<rparr>))"

section \<open>The receive loop\<close>

text \<open>What a receive never changes of a message.\<close>

definition payload :: "SQSMessage \<Rightarrow> SQSMessage" where
  "payload m = m\<lparr>ReceiptHandle := [], ReceiveCount := 0, FirstReceivedAt := None, VisibleAt := 0\<rparr>"

definition visible_at :: "time \<Rightarrow> SQSMessage \<Rightarrow> bool" where
  "visible_at now m \<longleftrightarrow> \<not> delayed_at now m \<and> \<not> in_flight_at now m"

lemma claim_simps [simp]:
  "MessageID (claim now r m) = MessageID m"
  "GroupID (claim now r m) = GroupID m"
  "SentAt (claim now r m) = SentAt m"
  "SequenceNumber (claim now r m) = SequenceNumber m"
  "DelayUntil (claim now r m) = DelayUntil m"
  "VisibleAt (claim now r m) = now + 30 * Second"
  "ReceiptHandle (claim now r m) = newHandle r"
  "ReceiveCount (claim now r m) = ReceiveCount m + 1"
  "payload (claim now r m) = payload m"
  by (simp_all add: claim_def payload_def)

lemma in_flight_claim: "0 \<le> now \<Longrightarrow> t < now + 30 * Second \<Longrightarrow> in_flight_at t (claim now r m)"
  by (simp add: in_flight_at_def IsZero_def Second_def)

text \<open>The loop with its three skipping branches joined.\<close>

definition skips :: "time \<Rightarrow> string set \<Rightarrow> SQSMessage \<Rightarrow> bool" where
  "skips now grp m \<longleftrightarrow> \<not> visible_at now m \<or> (GroupID m \<noteq> [] \<and> GroupID m \<in> grp)"

definition gate :: "SQSMessage \<Rightarrow> string set \<Rightarrow> string set" where
  "gate m grp = (if GroupID m \<noteq> [] then insert (GroupID m) grp else grp)"

lemma receive_loop_Cons:
  "receive_loop now rnd mx grp n (m # ms) =
     (if mx \<le> int n then (m # ms, [])
      else if skips now grp m then map_prod ((#) m) id (receive_loop now rnd mx grp n ms)
      else map_prod ((#) (claim now (rnd n) m)) ((#) (claim now (rnd n) m))
             (receive_loop now rnd mx (gate m grp) (Suc n) ms))"
  by (simp add: skips_def visible_at_def gate_def Let_def map_prod_def split: prod.splits)

lemmas receive_loop_eqs = receive_loop.simps(1) receive_loop_Cons

declare receive_loop.simps(2) [simp del]

lemma receive_loop_payload:
  "map payload (fst (receive_loop now rnd mx grp n ms)) = map payload ms"
  by (induction ms arbitrary: grp n) (simp_all add: receive_loop_Cons)

lemma receive_loop_subseq:
  "subseq (snd (receive_loop now rnd mx grp n ms)) (fst (receive_loop now rnd mx grp n ms))"
  by (induction ms arbitrary: grp n) (auto simp: receive_loop_Cons)

lemma receive_loop_bound:
  "int (length (snd (receive_loop now rnd mx grp n ms))) \<le> max 0 (mx - int n)"
proof (induction ms arbitrary: grp n)
  case (Cons m ms)
  from Cons [of grp n] Cons [of "gate m grp" "Suc n"] show ?case by (auto simp: receive_loop_Cons)
qed simp

lemma receive_loop_claims:
  "m' \<in> set (snd (receive_loop now rnd mx grp n ms)) \<Longrightarrow>
     \<exists>m \<in> set ms. \<exists>k. m' = claim now (rnd k) m \<and> visible_at now m"
proof (induction ms arbitrary: grp n)
  case (Cons m ms)
  then show ?case by (auto simp: receive_loop_Cons skips_def split: if_splits)
qed simp

lemma receive_loop_fst:
  "m \<in> set (fst (receive_loop now rnd mx grp n ms)) \<Longrightarrow>
     m \<in> set ms \<or> m \<in> set (snd (receive_loop now rnd mx grp n ms))"
proof (induction ms arbitrary: grp n)
  case (Cons x ms)
  then show ?case by (auto simp: receive_loop_Cons split: if_splits)
qed simp

lemma receive_loop_not_gated:
  "m' \<in> set (snd (receive_loop now rnd mx grp n ms)) \<Longrightarrow> GroupID m' \<noteq> [] \<Longrightarrow> GroupID m' \<notin> grp"
proof (induction ms arbitrary: grp n)
  case (Cons m ms)
  then show ?case by (auto simp: receive_loop_Cons skips_def gate_def split: if_splits)
qed simp

lemma receive_loop_one_per_group:
  "distinct (filter (\<lambda>g. g \<noteq> []) (map GroupID (snd (receive_loop now rnd mx grp n ms))))"
proof (induction ms arbitrary: grp n)
  case (Cons m ms)
  then show ?case
    by (auto simp: receive_loop_Cons gate_def dest: receive_loop_not_gated)
qed simp

text \<open>
  A message of a group is returned only when every earlier message of its group is delayed.
\<close>

lemma receive_loop_group_head:
  assumes "m' \<in> set (snd (receive_loop now rnd mx grp n ms))" and "GroupID m' \<noteq> []"
    and "inFlightGroups now ms \<subseteq> grp"
  shows "\<exists>xs m ys k. ms = xs @ m # ys \<and> m' = claim now (rnd k) m \<and> visible_at now m \<and>
           (\<forall>x \<in> set xs. GroupID x = GroupID m \<longrightarrow> delayed_at now x)"
  using assms
proof (induction ms arbitrary: grp n)
  case (Cons m ms)
  have sub: "inFlightGroups now ms \<subseteq> grp"
    using Cons.prems(3) by (auto simp: inFlightGroups_def)
  then have sub': "inFlightGroups now ms \<subseteq> gate m grp" by (auto simp: gate_def)
  have extend: ?case
    if tail: "m' \<in> set (snd (receive_loop now rnd mx g k ms))" and g: "inFlightGroups now ms \<subseteq> g"
      and m: "GroupID m = GroupID m' \<longrightarrow> delayed_at now m" for g k
  proof -
    from Cons.IH [OF tail Cons.prems(2) g] obtain xs m0 ys j where
      "ms = xs @ m0 # ys" "m' = claim now (rnd j) m0" "visible_at now m0"
      "\<forall>x \<in> set xs. GroupID x = GroupID m0 \<longrightarrow> delayed_at now x"
      by blast
    with m show ?thesis by (intro exI [of _ "m # xs"]) auto
  qed
  show ?case
  proof (cases "skips now grp m")
    case True
    with Cons.prems(1) have tail: "m' \<in> set (snd (receive_loop now rnd mx grp n ms))"
      by (auto simp: receive_loop_Cons split: if_splits)
    from receive_loop_not_gated [OF tail Cons.prems(2)] True Cons.prems(2,3)
    have "GroupID m = GroupID m' \<longrightarrow> delayed_at now m"
      by (auto simp: skips_def visible_at_def inFlightGroups_def split: if_splits)
    with tail sub show ?thesis by (rule extend)
  next
    case False
    with Cons.prems(1) consider "m' = claim now (rnd n) m"
      | "m' \<in> set (snd (receive_loop now rnd mx (gate m grp) (Suc n) ms))"
      by (auto simp: receive_loop_Cons split: if_splits)
    then show ?thesis
    proof cases
      case 1
      with False show ?thesis by (intro exI [of _ "[]"]) (auto simp: skips_def)
    next
      case 2
      from receive_loop_not_gated [OF 2 Cons.prems(2)] Cons.prems(2)
      have "GroupID m = GroupID m' \<longrightarrow> delayed_at now m" by (auto simp: gate_def split: if_splits)
      with 2 sub' show ?thesis by (rule extend)
    qed
  qed
qed simp

text \<open>On a queue without groups the loop returns the first visible messages, as many as asked.\<close>

lemma receive_loop_standard:
  assumes "\<forall>m \<in> set ms. GroupID m = []"
  shows "map payload (snd (receive_loop now rnd mx grp n ms)) =
           map payload (take (nat (mx - int n)) (filter (visible_at now) ms))"
  using assms
proof (induction ms arbitrary: grp n)
  case (Cons m ms)
  show ?case
  proof (cases "mx \<le> int n")
    case False
    then have "nat (mx - int n) = Suc (nat (mx - int (Suc n)))" by simp
    with Cons False show ?thesis by (simp add: receive_loop_Cons skips_def gate_def)
  qed (simp add: receive_loop_Cons)
qed simp

lemma payload_fields:
  assumes "payload m = payload m'"
  shows "MessageID m = MessageID m'" "GroupID m = GroupID m'" "SequenceNumber m = SequenceNumber m'"
    "Body m = Body m'" "SentAt m = SentAt m'" "DelayUntil m = DelayUntil m'" "QueueURL m = QueueURL m'"
  using assms by (cases m, cases m', simp add: payload_def)+

lemma map_payload_field:
  assumes "map payload ms = map payload ms'" and "\<And>m m'. payload m = payload m' \<Longrightarrow> f m = f m'"
  shows "map f ms = map f ms'"
  using assms(1)
proof (induction ms arbitrary: ms')
  case (Cons m ms)
  from Cons.prems obtain m' ms'' where ms': "ms' = m' # ms''" and eq: "payload m = payload m'"
    and "map payload ms = map payload ms''"
    by (cases ms') auto
  with Cons.IH assms(2) [OF eq] show ?case by simp
qed simp

section \<open>Queue contents\<close>

definition queue_msgs :: "MemoryMessageStore \<Rightarrow> string \<Rightarrow> SQSMessage list" where
  "queue_msgs s url = (case fmlookup (queues s) url of None \<Rightarrow> [] | Some q \<Rightarrow> messages q)"

definition received_loop ::
    "(nat \<Rightarrow> nat) \<Rightarrow> int \<Rightarrow> time \<Rightarrow> SQSMessage list \<Rightarrow> SQSMessage list \<times> SQSMessage list" where
  "received_loop rnd mx now ms = receive_loop now rnd mx (inFlightGroups now ms) 0 ms"

lemma Receive_msgs [inv_simps]:
  "queue_msgs (fst (Receive rnd url mx now s)) url' =
     (if url' = url then fst (received_loop rnd mx now (queue_msgs s url)) else queue_msgs s url')"
  "snd (Receive rnd url mx now s) = snd (received_loop rnd mx now (queue_msgs s url))"
  by (auto simp: Receive_def queue_msgs_def received_loop_def split: option.splits prod.splits)

lemma enqueue_msgs [inv_simps]:
  "queue_msgs (fst (enqueue md5 r t msg s)) url =
     queue_msgs s url @
       (if url = QueueURL msg
        then [msg\<lparr>SequenceNumber := snd (enqueue md5 r t msg s), MD5OfBody := md5_hex (md5 (Body msg)),
                  ReceiptHandle := newHandle r, SentAt := t\<rparr>] else [])"
  by (simp add: enqueue_def queue_msgs_def getOrCreateQueue_def empty_queueData_def Let_def
      split: option.splits)

lemma delete_first_append:
  "\<forall>x \<in> set xs. ReceiptHandle x \<noteq> h \<Longrightarrow> ReceiptHandle m = h \<Longrightarrow>
     delete_first h (xs @ m # ys) = Some (xs @ ys)"
  by (induction xs) auto

lemma delete_first_SomeE:
  assumes "delete_first h ms = Some ms'"
  obtains xs m ys where "ms = xs @ m # ys" "ms' = xs @ ys" "ReceiptHandle m = h"
    "\<forall>x \<in> set xs. ReceiptHandle x \<noteq> h"
proof -
  from assms have "\<exists>m \<in> set ms. ReceiptHandle m = h"
    by (induction ms arbitrary: ms') (auto split: if_splits)
  from split_list_first_propE [OF this]
  obtain xs m ys where ms: "ms = xs @ m # ys" "ReceiptHandle m = h"
    "\<forall>x \<in> set xs. ReceiptHandle x \<noteq> h" .
  with assms delete_first_append [OF ms(3,2), of ys] have "ms' = xs @ ys" by simp
  with ms that show thesis by blast
qed

lemma delete_first_None: "delete_first h ms = None \<longleftrightarrow> h \<notin> ReceiptHandle ` set ms"
  by (induction ms) auto

lemma update_first_payload:
  assumes "update_first h (\<lambda>m. m\<lparr>VisibleAt := v m\<rparr>) ms = Some ms'"
  shows "map payload ms' = map payload ms"
  using assms by (induction ms arbitrary: ms') (auto simp: payload_def split: if_splits)

lemma Delete_msgs:
  assumes "Delete url h s = Inr s'"
  shows "delete_first h (queue_msgs s url) = Some (queue_msgs s' url)"
    and "url' \<noteq> url \<Longrightarrow> queue_msgs s' url' = queue_msgs s url'"
    and "seqCounter s' = seqCounter s"
  using assms by (auto simp: Delete_def queue_msgs_def split: option.splits)

lemma ChangeVisibility_msgs:
  assumes "ChangeVisibility url h secs now s = Inr s'"
  shows "map payload (queue_msgs s' url') = map payload (queue_msgs s url')"
    and "seqCounter s' = seqCounter s"
proof -
  from assms obtain q ms where "fmlookup (queues s) url = Some q"
    "map payload ms = map payload (messages q)" "s' = s\<lparr>queues := fmupd url (q\<lparr>messages := ms\<rparr>) (queues s)\<rparr>"
    by (auto simp: ChangeVisibility_def split: option.splits dest!: update_first_payload)
  then show "map payload (queue_msgs s' url') = map payload (queue_msgs s url')"
    and "seqCounter s' = seqCounter s"
    by (auto simp: queue_msgs_def)
qed

section \<open>Leases\<close>

text \<open>The lease contract of one queue, identified by its URL.\<close>

definition ids_distinct :: "string \<Rightarrow> MemoryMessageStore \<Rightarrow> bool" where
  "ids_distinct url s \<longleftrightarrow> distinct (map MessageID (queue_msgs s url))"

definition withheld_in :: "string \<Rightarrow> MemoryMessageStore \<Rightarrow> string \<Rightarrow> time \<Rightarrow> bool" where
  "withheld_in url s i t \<longleftrightarrow> (\<forall>m \<in> set (queue_msgs s url). MessageID m = i \<longrightarrow> in_flight_at t m)"

definition receive_ids ::
    "string \<Rightarrow> MemoryMessageStore \<Rightarrow> (nat \<Rightarrow> nat) \<times> int \<Rightarrow> time \<Rightarrow> MemoryMessageStore \<times> string list" where
  "receive_ids url s a now =
     (let (s', res) = Receive (fst a) url (snd a) now s in (s', map MessageID res))"

lemma receive_ids_simps [simp]:
  "fst (receive_ids url s a now) = fst (Receive (fst a) url (snd a) now s)"
  "snd (receive_ids url s a now) = map MessageID (snd (Receive (fst a) url (snd a) now s))"
  by (simp_all add: receive_ids_def split: prod.splits)

lemma received_loop_ids:
  "map MessageID (fst (received_loop rnd mx now ms)) = map MessageID ms"
  unfolding received_loop_def
  by (rule map_payload_field [OF receive_loop_payload]) (rule payload_fields)

lemma received_loop_ids_subseq:
  "subseq (map MessageID (snd (received_loop rnd mx now ms))) (map MessageID ms)"
  using subseq_map [OF receive_loop_subseq, of MessageID] received_loop_ids
  by (metis received_loop_def)

lemma received_loop_in_fst:
  "m \<in> set (snd (received_loop rnd mx now ms)) \<Longrightarrow> m \<in> set (fst (received_loop rnd mx now ms))"
  unfolding received_loop_def by (rule subseq_set [OF receive_loop_subseq])

interpretation sqs: lease_store "ids_distinct url" "withheld_in url" "receive_ids url" "\<lambda>_. 30 * Second"
  for url
proof
  fix s :: MemoryMessageStore and a now and i t
  let ?ms = "queue_msgs s url"
  let ?r = "received_loop (fst a) (snd a) now ?ms"
  assume inv: "ids_distinct url s"
  show "ids_distinct url (fst (receive_ids url s a now))"
    using inv by (simp add: ids_distinct_def inv_simps received_loop_ids)
  show "distinct (snd (receive_ids url s a now))"
    using inv subseq_distinct [OF received_loop_ids_subseq] by (simp add: ids_distinct_def inv_simps)
  show "\<not> withheld_in url s i now" if "i \<in> set (snd (receive_ids url s a now))"
    using that by (auto simp: inv_simps received_loop_def withheld_in_def visible_at_def
        dest!: receive_loop_claims)
  show "withheld_in url (fst (receive_ids url s a now)) i t"
    if ret: "i \<in> set (snd (receive_ids url s a now))" and t: "0 \<le> t" "t < now + 30 * Second"
    unfolding withheld_in_def
  proof (intro ballI impI)
    fix m assume m: "m \<in> set (queue_msgs (fst (receive_ids url s a now)) url)" "MessageID m = i"
    from ret obtain m' where m': "m' \<in> set (snd ?r)" "MessageID m' = i"
      by (auto simp: inv_simps)
    have "distinct (map MessageID (fst ?r))"
      using inv by (simp add: ids_distinct_def received_loop_ids)
    with m m' have "m = m'"
      by (auto simp: inv_simps distinct_map dest!: received_loop_in_fst inj_onD)
    with m'(1) t show "in_flight_at t m"
      by (auto simp: received_loop_def in_flight_at_def IsZero_def dest!: receive_loop_claims)
  qed
  show "withheld_in url (fst (receive_ids url s a now)) i t"
    if "withheld_in url s i t" and "i \<notin> set (snd (receive_ids url s a now))"
    using that by (auto simp: withheld_in_def inv_simps received_loop_def dest: receive_loop_fst)
qed

text \<open>
  C2: no double delivery. Whatever sequence of \<open>Receive\<close> calls competing consumers make on one
  queue of the SQS store, with whatever batch sizes, no message is returned twice while its
  thirty-second lease runs.
\<close>

theorem receive_no_double_delivery:
  assumes "ids_distinct url s"
    and "\<forall>(a, t) \<in> set calls. 0 \<le> t"
    and "sorted_wrt (\<lambda>(a, t) (b, u). u < t + 30 * Second) calls"
  shows "distinct (deliveries (receive_ids url) s calls)"
  using assms by (rule sqs.deliveries_distinct)

text \<open>A queue with two standard messages, for the closed instances below.\<close>

definition sample_msg :: "string \<Rightarrow> string \<Rightarrow> SQSMessage" where
  "sample_msg i g =
     \<lparr>MessageID = i, ReceiptHandle = [], QueueURL = ''q'', Body = ''b'', MD5OfBody = [],
      Attributes = fmempty, MessageAttributes = fmempty, GroupID = g, DeduplicationID = [],
      DedupScope = [], VisibleAt = 0, SentAt = 0, DelayUntil = 0, ReceiveCount = 0,
      FirstReceivedAt = None, SequenceNumber = []\<rparr>"

definition sample_store :: "SQSMessage list \<Rightarrow> MemoryMessageStore" where
  "sample_store ms =
     \<lparr>queues = fmupd ''q'' \<lparr>messages = ms, retentionSecs = 0\<rparr> fmempty, dedup = fmempty, seqCounter = fmempty\<rparr>"

lemma sample_msgs [simp]: "queue_msgs (sample_store ms) ''q'' = ms"
  by (simp add: queue_msgs_def sample_store_def)

lemma sample_fields [simp]:
  "MessageID (sample_msg i g) = i" "GroupID (sample_msg i g) = g" "QueueURL (sample_msg i g) = ''q''"
  "visible_at t (sample_msg i g)" "DeduplicationID (sample_msg i g) = []"
  by (simp_all add: sample_msg_def visible_at_def delayed_at_def in_flight_at_def IsZero_def)

theorem receive_no_double_delivery_witness:
  "distinct (deliveries (receive_ids ''q'') (sample_store [sample_msg ''1'' [], sample_msg ''2'' []])
     [((\<lambda>n. n, 1), 5), ((\<lambda>n. n, 10), 6)])"
  by (rule receive_no_double_delivery) (simp_all add: ids_distinct_def Second_def)

section \<open>Order and completeness of a receive\<close>

text \<open>
  C4: FIFO order. A message of a message group is returned by \<open>Receive\<close> only when nothing of
  its group is in flight and every earlier message of the group is still delayed, and one call never
  returns two messages of one group.
\<close>

theorem receive_fifo_order:
  assumes "m' \<in> set (snd (Receive rnd url mx now s))" and "GroupID m' \<noteq> []"
  shows "GroupID m' \<notin> inFlightGroups now (queue_msgs s url) \<and>
    distinct (filter (\<lambda>g. g \<noteq> []) (map GroupID (snd (Receive rnd url mx now s)))) \<and>
    (\<exists>xs m ys k. queue_msgs s url = xs @ m # ys \<and> m' = claim now (rnd k) m \<and> visible_at now m \<and>
       (\<forall>x \<in> set xs. GroupID x = GroupID m \<longrightarrow> delayed_at now x))"
  using assms receive_loop_not_gated receive_loop_one_per_group receive_loop_group_head
  by (simp add: inv_simps received_loop_def)

theorem receive_fifo_order_witness:
  "GroupID (claim 5 0 (sample_msg ''1'' ''g'')) \<notin> inFlightGroups 5 (queue_msgs (sample_store [sample_msg ''1'' ''g'', sample_msg ''2'' ''g'']) ''q'')"
proof -
  have "claim 5 0 (sample_msg ''1'' ''g'') \<in>
     set (snd (Receive (\<lambda>n. n) ''q'' 10 5 (sample_store [sample_msg ''1'' ''g'', sample_msg ''2'' ''g''])))"
    by (simp add: inv_simps received_loop_def receive_loop_Cons skips_def inFlightGroups_def
        in_flight_at_def IsZero_def sample_msg_def visible_at_def delayed_at_def)
  from receive_fifo_order [OF this] show ?thesis by simp
qed

lemma count_loop_eq:
  "count_loop now ms =
     (length (filter (visible_at now) ms),
      length (filter (\<lambda>m. \<not> delayed_at now m \<and> in_flight_at now m) ms),
      length (filter (delayed_at now) ms))"
  by (induction ms) (auto simp: visible_at_def)

text \<open>
  C6: on a standard queue a \<open>Receive\<close> returns exactly the first visible messages, as many as it
  is asked for, with their bodies and attributes unchanged; and the visible count that
  \<open>GetApproximateCounts\<close> reports is the number of messages a large enough \<open>Receive\<close> returns.
\<close>

theorem receive_standard_complete:
  assumes "\<forall>m \<in> set (queue_msgs s url). GroupID m = []"
  shows "map payload (snd (Receive rnd url mx now s)) =
           map payload (take (nat mx) (filter (visible_at now) (queue_msgs s url))) \<and>
         (int (length (queue_msgs s url)) \<le> mx \<longrightarrow>
           fst (GetApproximateCounts url now s) = length (snd (Receive rnd url mx now s)))"
proof -
  have eq: "map payload (snd (Receive rnd url mx now s)) =
      map payload (take (nat mx) (filter (visible_at now) (queue_msgs s url)))"
    using receive_loop_standard [OF assms] by (simp add: inv_simps received_loop_def)
  have count: "fst (GetApproximateCounts url now s) = length (filter (visible_at now) (queue_msgs s url))"
    by (simp add: GetApproximateCounts_def queue_msgs_def count_loop_eq split: option.splits)
  have "length (filter (visible_at now) (queue_msgs s url)) \<le> nat mx"
    if "int (length (queue_msgs s url)) \<le> mx"
    using that length_filter_le [of "visible_at now" "queue_msgs s url"] by linarith
  with arg_cong [OF eq, of length] count have "int (length (queue_msgs s url)) \<le> mx \<longrightarrow>
      fst (GetApproximateCounts url now s) = length (snd (Receive rnd url mx now s))"
    by (simp add: min_absorb1)
  with eq show ?thesis by blast
qed

theorem receive_standard_complete_witness:
  "map payload (snd (Receive (\<lambda>n. n) ''q'' 2 5 (sample_store [sample_msg ''1'' [], sample_msg ''2'' []]))) =
     map payload (take 2 (filter (visible_at 5) [sample_msg ''1'' [], sample_msg ''2'' []]))"
  using receive_standard_complete [of "sample_store [sample_msg ''1'' [], sample_msg ''2'' []]" "''q''" "\<lambda>n. n" 2 5]
  by simp

section \<open>Deduplication\<close>

definition live_entry :: "MemoryMessageStore \<Rightarrow> SQSMessage \<Rightarrow> time \<Rightarrow> bool" where
  "live_entry s msg now \<longleftrightarrow>
     (case fmlookup (dedup s) (dedupKey msg) of None \<Rightarrow> False | Some e \<Rightarrow> now < expiry e)"

lemma enqueue_dedup [simp]: "dedup (fst (enqueue md5 r t msg s)) = dedup s"
  by (simp add: enqueue_def Let_def)

lemma Send_live:
  "DeduplicationID msg \<noteq> [] \<Longrightarrow> live_entry s msg t1 \<Longrightarrow>
     Send md5 r t1 t2 t3 msg s = (s, messageID (the (fmlookup (dedup s) (dedupKey msg))), [])"
  by (auto simp: Send_def live_entry_def split: option.splits)

lemma Send_accept:
  assumes "DeduplicationID msg = [] \<or> \<not> live_entry s msg t1"
  shows "Send md5 r t1 t2 t3 msg s =
    (let s1 = (if DeduplicationID msg = [] then s else record_dedup t2 msg s)
     in (fst (enqueue md5 r t3 msg s1), [], snd (enqueue md5 r t3 msg s1)))"
  using assms
  by (auto simp: Send_def live_entry_def Let_def split: option.splits prod.splits)

lemma record_dedup_simps [simp]:
  "queues (record_dedup t msg s) = queues s" "seqCounter (record_dedup t msg s) = seqCounter s"
  "queue_msgs (record_dedup t msg s) url = queue_msgs s url"
  "fmlookup (dedup (record_dedup t msg s)) k =
     (if k = dedupKey msg then Some \<lparr>expiry = t + 5 * Minute, messageID = MessageID msg\<rparr>
      else fmlookup (dedup s) k)"
  by (simp_all add: record_dedup_def queue_msgs_def)

lemma Send_accept_length:
  assumes "DeduplicationID msg = [] \<or> \<not> live_entry s msg t1"
  shows "length (queue_msgs (fst (Send md5 r t1 t2 t3 msg s)) (QueueURL msg)) =
           Suc (length (queue_msgs s (QueueURL msg)))"
  by (simp add: Send_accept [OF assms] inv_simps Let_def)

text \<open>
  C7: exactly-once intake. Once a message with a deduplication id is accepted, a later \<open>Send\<close>
  with the same deduplication key, on any store with that deduplication table, changes nothing and
  answers with the first message's id for five minutes; after the five minutes it is accepted and
  its queue grows by one message.
\<close>

theorem send_deduplicates:
  assumes "DeduplicationID msg \<noteq> []" and "\<not> live_entry s msg t1"
    and "dedupKey msg' = dedupKey msg" and "DeduplicationID msg' \<noteq> []"
    and "dedup s' = dedup (fst (Send md5 r t1 t2 t3 msg s))"
  shows "if u1 < t2 + 5 * Minute
         then Send md5 r' u1 u2 u3 msg' s' = (s', MessageID msg, [])
         else fst (snd (Send md5 r' u1 u2 u3 msg' s')) = [] \<and>
           length (queue_msgs (fst (Send md5 r' u1 u2 u3 msg' s')) (QueueURL msg')) =
             Suc (length (queue_msgs s' (QueueURL msg')))"
proof -
  from Send_accept [of msg s t1 md5 r t2 t3] assms
  have "fmlookup (dedup s') (dedupKey msg') = Some \<lparr>expiry = t2 + 5 * Minute, messageID = MessageID msg\<rparr>"
    by (simp add: Let_def)
  moreover from this have "live_entry s' msg' u1 \<longleftrightarrow> u1 < t2 + 5 * Minute"
    by (simp add: live_entry_def)
  ultimately show ?thesis
    using assms(4) Send_live [of msg' s' u1] Send_accept [of msg' s' u1] Send_accept_length [of msg' s' u1]
    by (simp add: Let_def)
qed

theorem send_deduplicates_witness:
  "let msg = (sample_msg ''1'' ''g'')\<lparr>DeduplicationID := ''d''\<rparr>;
       msg' = (sample_msg ''2'' ''h'')\<lparr>DeduplicationID := ''d''\<rparr>;
       s' = fst (Send (\<lambda>_. 0) 1 0 0 0 msg NewMemoryMessageStore)
   in Send (\<lambda>_. 0) 2 7 7 7 msg' s' = (s', ''1'', [])"
proof -
  let ?msg = "(sample_msg ''1'' ''g'')\<lparr>DeduplicationID := ''d''\<rparr>"
  let ?msg' = "(sample_msg ''2'' ''h'')\<lparr>DeduplicationID := ''d''\<rparr>"
  show ?thesis
    using send_deduplicates [of ?msg NewMemoryMessageStore 0 ?msg'
        "fst (Send (\<lambda>_. 0) 1 0 0 0 ?msg NewMemoryMessageStore)" "\<lambda>_. 0" 1 0 0 7 2 7 7]
    by (simp add: live_entry_def NewMemoryMessageStore_def dedupKey_def sample_msg_def Minute_def Second_def)
qed

text \<open>
  The deduplication key of the \<open>messageGroup\<close> scope does not determine the group. The key joins
  queue, group and deduplication id with colons, and both identifiers may contain colons: a message
  of group \<open>a:b\<close> is dropped as a duplicate of a message of group \<open>a\<close>.
\<close>

theorem dedup_group_collision:
  "\<exists>msg msg'. DedupScope msg = ''messageGroup'' \<and> DedupScope msg' = ''messageGroup'' \<and>
     QueueURL msg = QueueURL msg' \<and> GroupID msg \<noteq> GroupID msg' \<and>
     (let s = fst (Send md5 r t1 t2 t3 msg NewMemoryMessageStore)
      in Send md5 r' t2 u2 u3 msg' s = (s, MessageID msg, []))"
proof -
  define m where "m g d = (sample_msg ''1'' g)\<lparr>DedupScope := ''messageGroup'', DeduplicationID := d\<rparr>" for g d
  let ?m = "m ''a'' ''b:c''" and ?m' = "m ''a:b'' ''c''"
  have "DedupScope ?m = ''messageGroup''" "DedupScope ?m' = ''messageGroup''" "QueueURL ?m = QueueURL ?m'"
    "GroupID ?m \<noteq> GroupID ?m'"
    by (simp_all add: m_def)
  moreover have "live_entry (fst (Send md5 r t1 t2 t3 ?m NewMemoryMessageStore)) ?m' t2"
    "messageID (the (fmlookup (dedup (fst (Send md5 r t1 t2 t3 ?m NewMemoryMessageStore))) (dedupKey ?m'))) = MessageID ?m"
    using Send_accept [of ?m NewMemoryMessageStore t1 md5 r t2 t3]
    by (simp_all add: m_def live_entry_def dedupKey_def NewMemoryMessageStore_def Minute_def Second_def Let_def)
  ultimately show ?thesis
    using Send_live [of ?m' "fst (Send md5 r t1 t2 t3 ?m NewMemoryMessageStore)" t2 md5 r' u2 u3]
    by (intro exI [of _ ?m] exI [of _ ?m']) (simp add: m_def Let_def)
qed

section \<open>Reachable stores\<close>

text \<open>
  The stores an execution can reach. A \<open>Send\<close> is a step while its queue's 64-bit counter has not
  run out; a restore brings back a snapshot of a reachable store.
\<close>

inductive sqs_reach :: "MemoryMessageStore \<Rightarrow> bool" where
  new: "sqs_reach NewMemoryMessageStore"
| send: "sqs_reach s \<Longrightarrow> the_default 0 (fmlookup (seqCounter s) (QueueURL msg)) < 2 ^ 63 - 1 \<Longrightarrow>
     sqs_reach (fst (Send md5 r t1 t2 t3 msg s))"
| receive: "sqs_reach s \<Longrightarrow> sqs_reach (fst (Receive rnd url mx now s))"
| delete: "sqs_reach s \<Longrightarrow> Delete url h s = Inr s' \<Longrightarrow> sqs_reach s'"
| change: "sqs_reach s \<Longrightarrow> ChangeVisibility url h secs now s = Inr s' \<Longrightarrow> sqs_reach s'"
| purge: "sqs_reach s \<Longrightarrow> sqs_reach (Purge url s)"
| retain: "sqs_reach s \<Longrightarrow> sqs_reach (SetQueueRetention url secs s)"
| expire: "sqs_reach s \<Longrightarrow> sqs_reach (removeExpiredMessages now s)"
| reset: "sqs_reach s \<Longrightarrow> sqs_reach (Reset s)"
| restore: "sqs_reach s \<Longrightarrow> sqs_reach s0 \<Longrightarrow> Restore (Inr (Snapshot s0)) s = Inr s' \<Longrightarrow> sqs_reach s'"

lemma restore_queues_Snapshot:
  "fmmap restore_queue (fmfilter (\<lambda>k. fmlookup (snap_Queues (Snapshot s0)) k \<noteq> Some None)
      (snap_Queues (Snapshot s0))) = queues s0"
proof (rule fmap_ext)
  fix k
  show "fmlookup (fmmap restore_queue (fmfilter (\<lambda>k. fmlookup (snap_Queues (Snapshot s0)) k \<noteq> Some None)
      (snap_Queues (Snapshot s0)))) k = fmlookup (queues s0) k"
    by (cases "fmlookup (queues s0) k") (simp_all add: Snapshot_def restore_queue_def)
qed

lemma restore_dedup_Snapshot:
  "fmmap (\<lambda>e. \<lparr>expiry = snap_Expiry e, messageID = snap_MessageID e\<rparr>) (snap_Dedup (Snapshot s0)) = dedup s0"
proof (rule fmap_ext)
  fix k
  show "fmlookup (fmmap (\<lambda>e. \<lparr>expiry = snap_Expiry e, messageID = snap_MessageID e\<rparr>) (snap_Dedup (Snapshot s0))) k =
      fmlookup (dedup s0) k"
    by (cases "fmlookup (dedup s0) k") (simp_all add: Snapshot_def)
qed

lemma restore_Snapshot: "Restore (Inr (Snapshot s0)) s = Inr s0"
proof -
  have "Restore (Inr (Snapshot s0)) s =
      Inr (s\<lparr>queues := queues s0, dedup := dedup s0, seqCounter := seqCounter s0\<rparr>)"
    by (simp add: Restore_def restore_queues_Snapshot restore_dedup_Snapshot) (simp add: Snapshot_def)
  then show ?thesis by simp
qed

text \<open>
  A snapshot restores exactly. Decoding the snapshot of a store and restoring it into any store
  gives back that store, and the JSON \<open>null\<close> queues a foreign snapshot may hold are dropped; a
  snapshot that does not decode leaves the store unchanged with the decoder's error.
\<close>

theorem sqs_snapshot_restore:
  "Restore (Inr (Snapshot s0)) s = Inr s0 \<and> Restore (Inl err) s = Inl err \<and>
   (Restore (Inr snap) s = Inr s' \<longrightarrow> fmlookup (snap_Queues snap) k = Some None \<longrightarrow>
      fmlookup (queues s') k = None)"
  unfolding restore_Snapshot by (auto simp: Restore_def)

theorem sqs_snapshot_restore_witness:
  "Restore (Inr (Snapshot (sample_store [sample_msg ''1'' []]))) NewMemoryMessageStore =
     Inr (sample_store [sample_msg ''1'' []])"
  using sqs_snapshot_restore by blast

text \<open>
  The sequence numbers of a queue's grouped messages, as text and as numbers: strictly increasing,
  and none above the counter.
\<close>

definition fifo_seqs :: "SQSMessage list \<Rightarrow> string list" where
  "fifo_seqs ms = map SequenceNumber (filter (\<lambda>m. GroupID m \<noteq> []) ms)"

definition numbered :: "int \<Rightarrow> SQSMessage list \<Rightarrow> bool" where
  "numbered c ms \<longleftrightarrow> (\<exists>ns. fifo_seqs ms = map (fmt_0d 20) ns \<and> sorted_wrt (<) ns \<and>
     (\<forall>n \<in> set ns. 0 < n \<and> n \<le> c))"

definition seq_inv :: "MemoryMessageStore \<Rightarrow> bool" where
  "seq_inv s \<longleftrightarrow> (\<forall>url. let c = the_default 0 (fmlookup (seqCounter s) url)
     in 0 \<le> c \<and> c < 2 ^ 63 \<and> numbered c (queue_msgs s url))"

lemma fifo_seqs_payload:
  assumes "map payload ms = map payload ms'"
  shows "fifo_seqs ms = fifo_seqs ms'"
proof -
  have "map (\<lambda>m. (GroupID m, SequenceNumber m)) ms = map (\<lambda>m. (GroupID m, SequenceNumber m)) ms'"
    using assms by (rule map_payload_field) (auto dest: payload_fields)
  moreover have "fifo_seqs ms = map snd (filter (\<lambda>p. fst p \<noteq> []) (map (\<lambda>m. (GroupID m, SequenceNumber m)) ms))" for ms
    by (simp add: fifo_seqs_def filter_map comp_def)
  ultimately show ?thesis by simp
qed

lemma numbered_subseq:
  assumes "numbered c ms" and "subseq ms' ms"
  shows "numbered c ms'"
proof -
  from assms(1) obtain ns where ns: "fifo_seqs ms = map (fmt_0d 20) ns" "sorted_wrt (<) ns"
    "\<forall>n \<in> set ns. 0 < n \<and> n \<le> c"
    by (auto simp: numbered_def)
  have "subseq (fifo_seqs ms') (map (fmt_0d 20) ns)"
    unfolding ns(1) [symmetric] fifo_seqs_def using assms(2) by (intro subseq_map subseq_filter)
  then obtain N where "fifo_seqs ms' = map (fmt_0d 20) (nths ns N)"
    by (auto simp: subseq_conv_nths nths_map)
  with ns show ?thesis
    unfolding numbered_def by (intro exI [of _ "nths ns N"]) (auto simp: sorted_wrt_nths dest: in_set_nthsD)
qed

lemma numbered_payload: "map payload ms = map payload ms' \<Longrightarrow> numbered c ms = numbered c ms'"
  unfolding numbered_def by (drule fifo_seqs_payload) simp

lemma seq_invI:
  assumes "seq_inv s" and "seqCounter s' = seqCounter s"
    and "\<And>url. numbered (the_default 0 (fmlookup (seqCounter s) url)) (queue_msgs s url) \<Longrightarrow>
           numbered (the_default 0 (fmlookup (seqCounter s) url)) (queue_msgs s' url)"
  shows "seq_inv s'"
  using assms by (auto simp: seq_inv_def Let_def)

lemma enqueue_counter:
  "seqCounter (fst (enqueue md5 r t msg s)) =
     (if GroupID msg \<noteq> [] then fmupd (QueueURL msg) (wrap64 (the_default 0 (fmlookup (seqCounter s) (QueueURL msg)) + 1)) (seqCounter s)
      else seqCounter s)"
  "GroupID msg \<noteq> [] \<Longrightarrow> snd (enqueue md5 r t msg s) =
     fmt_0d 20 (wrap64 (the_default 0 (fmlookup (seqCounter s) (QueueURL msg)) + 1))"
  by (simp_all add: enqueue_def Let_def)

lemma numbered_snoc:
  assumes "numbered c ms" and "0 \<le> c" and "GroupID m \<noteq> []" and "SequenceNumber m = fmt_0d 20 (c + 1)"
  shows "numbered (c + 1) (ms @ [m])"
proof -
  from assms(1) obtain ns where ns: "fifo_seqs ms = map (fmt_0d 20) ns" "sorted_wrt (<) ns"
    "\<forall>n \<in> set ns. 0 < n \<and> n \<le> c"
    by (auto simp: numbered_def)
  with assms(2-4) show ?thesis
    unfolding numbered_def
    by (intro exI [of _ "ns @ [c + 1]"]) (fastforce simp: fifo_seqs_def sorted_wrt_append)
qed

lemma numbered_snoc_plain: "numbered c ms \<Longrightarrow> GroupID m = [] \<Longrightarrow> numbered c (ms @ [m])"
  by (simp add: numbered_def fifo_seqs_def)

lemma enqueue_seq_inv:
  assumes "seq_inv s" and "the_default 0 (fmlookup (seqCounter s) (QueueURL msg)) < 2 ^ 63 - 1"
  shows "seq_inv (fst (enqueue md5 r t msg s))"
  unfolding seq_inv_def Let_def
proof
  fix url
  let ?c = "the_default 0 (fmlookup (seqCounter s) url)"
  let ?s' = "fst (enqueue md5 r t msg s)"
  from assms(1) have c: "0 \<le> ?c" "?c < 2 ^ 63" "numbered ?c (queue_msgs s url)"
    by (simp_all add: seq_inv_def Let_def)
  show "0 \<le> the_default 0 (fmlookup (seqCounter ?s') url) \<and> the_default 0 (fmlookup (seqCounter ?s') url) < 2 ^ 63 \<and>
      numbered (the_default 0 (fmlookup (seqCounter ?s') url)) (queue_msgs ?s' url)"
  proof (cases "url = QueueURL msg \<and> GroupID msg \<noteq> []")
    case True
    then have w: "wrap64 (?c + 1) = ?c + 1" using assms(2) c by (simp add: in_int64_def)
    with True c assms(2) show ?thesis by (auto simp: enqueue_counter inv_simps intro: numbered_snoc)
  next
    case False
    with c show ?thesis by (auto simp: enqueue_counter inv_simps intro: numbered_snoc_plain)
  qed
qed

lemma Send_seq_inv:
  assumes "seq_inv s" and "the_default 0 (fmlookup (seqCounter s) (QueueURL msg)) < 2 ^ 63 - 1"
  shows "seq_inv (fst (Send md5 r t1 t2 t3 msg s))"
proof (cases "DeduplicationID msg \<noteq> [] \<and> live_entry s msg t1")
  case True
  with assms show ?thesis by (simp add: Send_live)
next
  case False
  have "seq_inv (record_dedup t2 msg s)" using assms(1) by (rule seq_invI) simp_all
  with False assms show ?thesis by (auto simp: Send_accept Let_def intro!: enqueue_seq_inv)
qed

lemma Receive_seq_inv: "seq_inv s \<Longrightarrow> seq_inv (fst (Receive rnd url mx now s))"
proof (erule seq_invI)
  show "seqCounter (fst (Receive rnd url mx now s)) = seqCounter s"
    by (simp add: Receive_def split: option.splits prod.splits)
next
  fix url'
  have "map payload (fst (received_loop rnd mx now (queue_msgs s url))) = map payload (queue_msgs s url)"
    by (simp add: received_loop_def receive_loop_payload)
  from numbered_payload [OF this]
  show "numbered c (queue_msgs s url') \<Longrightarrow> numbered c (queue_msgs (fst (Receive rnd url mx now s)) url')" for c
    by (cases "url' = url") (simp_all add: inv_simps)
qed

lemma shrink_seq_inv:
  assumes "seqCounter s' = seqCounter s" and "\<And>url. subseq (queue_msgs s' url) (queue_msgs s url)" and "seq_inv s"
  shows "seq_inv s'"
  using assms(3,1) by (rule seq_invI) (erule numbered_subseq, rule assms(2))

lemma Delete_seq_inv:
  assumes "Delete url h s = Inr s'" and "seq_inv s" shows "seq_inv s'"
  using Delete_msgs(3) [OF assms(1)] _ assms(2)
proof (rule shrink_seq_inv)
  show "subseq (queue_msgs s' url') (queue_msgs s url')" for url'
    using Delete_msgs(1,2) [OF assms(1)] by (cases "url' = url") (auto elim!: delete_first_SomeE intro: subseq_drop_mid)
qed

lemma ChangeVisibility_seq_inv:
  assumes "ChangeVisibility url h secs now s = Inr s'" and "seq_inv s" shows "seq_inv s'"
  using assms(2) ChangeVisibility_msgs(2) [OF assms(1)]
  by (rule seq_invI) (use numbered_payload ChangeVisibility_msgs(1) [OF assms(1)] in blast)

lemma Purge_seq_inv: "seq_inv s \<Longrightarrow> seq_inv (Purge url s)"
  by (rule shrink_seq_inv) (auto simp: Purge_def queue_msgs_def split: option.splits)

lemma SetQueueRetention_seq_inv: "seq_inv s \<Longrightarrow> seq_inv (SetQueueRetention url secs s)"
  by (rule shrink_seq_inv)
    (auto simp: SetQueueRetention_def getOrCreateQueue_def empty_queueData_def queue_msgs_def split: option.splits)

lemma removeExpired_seq_inv: "seq_inv s \<Longrightarrow> seq_inv (removeExpiredMessages now s)"
  by (rule shrink_seq_inv) (auto simp: removeExpiredMessages_def queue_msgs_def Let_def split: option.splits)

lemma empty_seq_inv: "seq_inv \<lparr>queues = fmempty, dedup = fmempty, seqCounter = fmempty\<rparr>"
  by (simp add: seq_inv_def queue_msgs_def numbered_def fifo_seqs_def)

lemma sqs_reach_seq_inv: "sqs_reach s \<Longrightarrow> seq_inv s"
proof (induction rule: sqs_reach.induct)
  case new
  then show ?case by (simp add: NewMemoryMessageStore_def empty_seq_inv)
next
  case (reset s)
  have "Reset s = NewMemoryMessageStore" by (cases s) (simp add: Reset_def NewMemoryMessageStore_def)
  then show ?case by (simp add: NewMemoryMessageStore_def empty_seq_inv)
next
  case (restore s s0 s')
  then show ?case by (simp add: restore_Snapshot)
qed (auto intro: Send_seq_inv Receive_seq_inv Delete_seq_inv ChangeVisibility_seq_inv Purge_seq_inv
      SetQueueRetention_seq_inv removeExpired_seq_inv)

text \<open>
  C10: in every reachable store the messages of a FIFO queue stand in the queue in strictly increasing
  order of their sequence numbers, compared as the twenty-digit text a client sees.
\<close>

theorem fifo_sequence_numbers_increase:
  assumes "sqs_reach s"
  shows "sorted_wrt (<) (fifo_seqs (queue_msgs s url))"
proof -
  from sqs_reach_seq_inv [OF assms] obtain ns where ns: "fifo_seqs (queue_msgs s url) = map (fmt_0d 20) ns"
    "sorted_wrt (<) ns" "\<forall>n \<in> set ns. 0 < n \<and> n < 2 ^ 63"
    by (force simp: seq_inv_def numbered_def Let_def)
  have "fmt_0d 20 m < fmt_0d 20 n" if "0 < m" "m < 2 ^ 63" "0 < n" "n < 2 ^ 63" "m < n" for m n :: int
    using that by (simp add: fmt_0d_def zpad_less_iff)
  with ns(2,3) have "sorted_wrt (\<lambda>m n. fmt_0d 20 m < fmt_0d 20 n) ns"
    by (auto intro: sorted_wrt_mono_rel [rotated])
  then show ?thesis by (simp add: ns(1) sorted_wrt_map)
qed

theorem fifo_sequence_numbers_increase_witness:
  "sorted_wrt (<) (fifo_seqs (queue_msgs
     (fst (Send (\<lambda>_. 0) 2 0 0 0 (sample_msg ''2'' ''g'')
       (fst (Send (\<lambda>_. 0) 1 0 0 0 (sample_msg ''1'' ''g'') NewMemoryMessageStore)))) ''q''))"
proof (rule fifo_sequence_numbers_increase)
  let ?s = "fst (Send (\<lambda>_. 0) 1 0 0 0 (sample_msg ''1'' ''g'') NewMemoryMessageStore)"
  have "sqs_reach ?s" by (rule sqs_reach.send [OF sqs_reach.new]) (simp add: NewMemoryMessageStore_def)
  then show "sqs_reach (fst (Send (\<lambda>_. 0) 2 0 0 0 (sample_msg ''2'' ''g'') ?s))"
    by (rule sqs_reach.send)
      (simp add: Send_accept Let_def enqueue_counter NewMemoryMessageStore_def wrap64_def)
qed

section \<open>Deleting and expiring\<close>

text \<open>
  A receipt handle deletes the message it was issued for. When the handles in the queue differ,
  \<open>Delete\<close> with the handle of a message just received removes that message and no other, leaves
  the order and every other queue alone, and a second \<open>Delete\<close> with the handle is an error.
\<close>

theorem delete_received:
  assumes "m \<in> set (snd (Receive rnd url mx now s))"
    and "distinct (map ReceiptHandle (queue_msgs (fst (Receive rnd url mx now s)) url))"
  shows "\<exists>xs ys s2. queue_msgs (fst (Receive rnd url mx now s)) url = xs @ m # ys \<and>
           Delete url (ReceiptHandle m) (fst (Receive rnd url mx now s)) = Inr s2 \<and>
           queue_msgs s2 url = xs @ ys \<and>
           (\<forall>url'. url' \<noteq> url \<longrightarrow> queue_msgs s2 url' = queue_msgs s url') \<and>
           Delete url (ReceiptHandle m) s2 = Inl not_found"
proof -
  let ?s1 = "fst (Receive rnd url mx now s)"
  from assms(1) have "m \<in> set (queue_msgs ?s1 url)"
    by (simp add: inv_simps received_loop_in_fst)
  then obtain xs ys where ms: "queue_msgs ?s1 url = xs @ m # ys" by (auto dest: split_list)
  with assms(2) have rest: "ReceiptHandle m \<notin> ReceiptHandle ` set (xs @ ys)" by auto
  then have xs: "\<forall>x \<in> set xs. ReceiptHandle x \<noteq> ReceiptHandle m"
    by (metis UnCI image_eqI set_append)
  from ms obtain q where q: "fmlookup (queues ?s1) url = Some q" "messages q = xs @ m # ys"
    by (auto simp: queue_msgs_def split: option.splits)
  define s2 where "s2 = ?s1\<lparr>queues := fmupd url (q\<lparr>messages := xs @ ys\<rparr>) (queues ?s1)\<rparr>"
  have del: "Delete url (ReceiptHandle m) ?s1 = Inr s2"
    by (simp add: Delete_def q delete_first_append [OF xs] s2_def)
  have "delete_first (ReceiptHandle m) (xs @ ys) = None" using rest by (simp add: delete_first_None)
  then have "Delete url (ReceiptHandle m) s2 = Inl not_found" by (simp add: Delete_def s2_def)
  moreover have "queue_msgs s2 url = xs @ ys" by (simp add: s2_def queue_msgs_def)
  moreover have "\<forall>url'. url' \<noteq> url \<longrightarrow> queue_msgs s2 url' = queue_msgs s url'"
    using Delete_msgs(2) [OF del] by (simp add: inv_simps)
  ultimately show ?thesis using ms del by blast
qed

theorem delete_received_witness:
  "\<exists>xs ys s2. queue_msgs (fst (Receive (\<lambda>n. n) ''q'' 1 5 (sample_store [sample_msg ''1'' []]))) ''q'' =
       xs @ claim 5 0 (sample_msg ''1'' []) # ys \<and>
     Delete ''q'' (ReceiptHandle (claim 5 0 (sample_msg ''1'' [])))
       (fst (Receive (\<lambda>n. n) ''q'' 1 5 (sample_store [sample_msg ''1'' []]))) = Inr s2 \<and>
     queue_msgs s2 ''q'' = xs @ ys"
  using delete_received [of "claim 5 0 (sample_msg ''1'' [])" "\<lambda>n. n" "''q''" 1 5 "sample_store [sample_msg ''1'' []]"]
  by (auto simp: inv_simps received_loop_def receive_loop_Cons skips_def)

text \<open>
  The retention sweep drops exactly the expired messages. After \<open>removeExpiredMessages\<close> every
  queue holds, in order, exactly its messages sent within its retention period (four days when none
  is set), for every period whose nanoseconds fit a 64-bit duration; no message claimed by a consumer
  is exempt.
\<close>

theorem retention_sweep_exact:
  assumes "fmlookup (queues s) url = Some q" and "retentionSecs q \<le> 9000000000"
  shows "queue_msgs (removeExpiredMessages now s) url =
     filter (\<lambda>m. now - (if retentionSecs q \<le> 0 then 345600 else retentionSecs q) * Second \<le> SentAt m)
       (queue_msgs s url)"
proof -
  let ?r = "if retentionSecs q \<le> 0 then 345600 else retentionSecs q"
  have r: "retention q = ?r" by (simp add: retention_def defaultRetentionSecs_def)
  have "duration_of (- retention q) Second = - ?r * Second"
    unfolding r using assms(2) by (intro duration_of_neg_small) auto
  with assms(1) show ?thesis
    by (simp add: removeExpiredMessages_def queue_msgs_def Let_def not_less)
qed

theorem retention_sweep_exact_witness:
  "queue_msgs (removeExpiredMessages (345601 * Second) (sample_store [sample_msg ''1'' []])) ''q'' = []"
  using retention_sweep_exact [of "sample_store [sample_msg ''1'' []]" "''q''"
      "\<lparr>messages = [sample_msg ''1'' []], retentionSecs = 0\<rparr>" "345601 * Second"]
  by (simp add: sample_store_def sample_msg_def Second_def queue_msgs_def)

end
