(* ===== verification/Kinesis_Store.thy ===== *)
theory Kinesis_Store
  imports Go_Prelude
begin

text \<open>
  The Kinesis store, \<open>src/internal/aws/store/kinesis\<close> (\<open>types.go\<close> and \<open>memory.go\<close>).

  A stream owns a list of shards; the open ones divide the 128-bit hash-key space, and records are
  routed to the shard whose range holds the MD5 of their partition key. Splits and merges close
  shards and append children. Iterators are server-side positions named by random tokens.
  Hash keys and sequence numbers are decimal text, as in the code, and are parsed where the code parses
  them. A dereference of a missing stream or of an unparsable bound is a panic.
  Clock readings, tokens and the MD5 digest are arguments. The order in which Go ranges over a map is
  an argument (a list of keys) where the result depends on it.
\<close>

section \<open>Data\<close>

definition StreamStatusActive :: string where "StreamStatusActive = ''ACTIVE''"
definition IterTrimHorizon :: string where "IterTrimHorizon = ''TRIM_HORIZON''"
definition IterLatest :: string where "IterLatest = ''LATEST''"
definition IterAtSequenceNumber :: string where "IterAtSequenceNumber = ''AT_SEQUENCE_NUMBER''"
definition IterAfterSequenceNumber :: string where "IterAfterSequenceNumber = ''AFTER_SEQUENCE_NUMBER''"
definition IterAtTimestamp :: string where "IterAtTimestamp = ''AT_TIMESTAMP''"

record Stream =
  Name :: string
  ARN :: string
  Status :: string
  Mode :: string
  RetentionPeriodHours :: int
  CreatedAt :: time
  EncryptionType :: string
  KeyID :: string
  Tags :: "(string, string) fmap"
  ResourcePolicy :: string

record HashKeyRange =
  StartingHashKey :: string
  EndingHashKey :: string

record SequenceNumberRange =
  StartingSequenceNumber :: string
  EndingSequenceNumber :: string

record Shard =
  ShardID :: string
  ParentShardID :: string
  AdjacentParentShardID :: string
  hashKeyRange :: HashKeyRange
  sequenceNumberRange :: SequenceNumberRange
  IsOpen :: bool

record KRecord =
  SequenceNumber :: string
  ApproximateArrivalTime :: time
  Data :: string
  PartitionKey :: string
  RecEncryptionType :: string

record Consumer =
  ConsumerName :: string
  ConsumerARN :: string
  StreamARN :: string
  ConsumerStatus :: string
  ConsumerCreatedAt :: time

record IteratorEntry =
  IterStreamARN :: string
  IterShardID :: string
  Position :: int
  IterCreatedAt :: time

record shardState =
  shard :: Shard
  Records :: "KRecord list"
  NextSeq :: "64 word"

record streamState =
  stream :: Stream
  Shards :: "shardState list"
  Consumers :: "(string, Consumer) fmap"

record MemoryKinesisStore =
  streams :: "(string, streamState) fmap"
  nameScope :: "(string, string) fmap"
  iterators :: "(string, IteratorEntry) fmap"

record KinesisError =
  Code :: string
  Message :: string
  ErrStatus :: int

type_synonym 'a kres = "(KinesisError + 'a) go_result"

definition kerr :: "string \<Rightarrow> string \<Rightarrow> KinesisError" where
  "kerr c msg = \<lparr>Code = c, Message = msg, ErrStatus = 400\<rparr>"

definition kfail :: "string \<Rightarrow> string \<Rightarrow> 'a kres" where
  "kfail c msg = Ret (Inl (kerr c msg))"

definition NewMemoryKinesisStore :: MemoryKinesisStore where
  "NewMemoryKinesisStore = \<lparr>streams = fmempty, nameScope = fmempty, iterators = fmempty\<rparr>"

section \<open>Helpers\<close>

definition seqNum :: "64 word \<Rightarrow> string" where
  "seqNum n = zpad 56 (unat n)"

definition maxHashKey :: int where
  "maxHashKey = 2 ^ 128 - 1"

definition hash_range :: "int \<Rightarrow> int \<Rightarrow> HashKeyRange" where
  "hash_range lo hi = \<lparr>StartingHashKey = Itoa lo, EndingHashKey = Itoa hi\<rparr>"

text \<open>
  Zero shards divide by zero and a negative count makes a slice of negative length: both panic.
\<close>

definition calculateHashRanges :: "int \<Rightarrow> HashKeyRange list go_result" where
  "calculateHashRanges n =
     (if n \<le> 0 then Panic
      else
        (let step = maxHashKey div n
         in Ret (map (\<lambda>i. hash_range (step * int i)
                  (if int i = n - 1 then maxHashKey else step * (int i + 1) - 1)) [0..<nat n])))"

text \<open>The parsed bounds of a shard; \<open>None\<close> where the code would use a nil \<open>big.Int\<close>.\<close>

definition bounds_of :: "shardState \<Rightarrow> (int \<times> int) option" where
  "bounds_of sh =
     (case (parse_int (StartingHashKey (hashKeyRange (shard sh))),
            parse_int (EndingHashKey (hashKeyRange (shard sh)))) of
        (Some lo, Some hi) \<Rightarrow> Some (lo, hi)
      | _ \<Rightarrow> None)"

text \<open>The loop of \<open>routeToShard\<close>: the index of the first open shard whose range holds the key.\<close>

fun route_loop :: "int \<Rightarrow> nat \<Rightarrow> shardState list \<Rightarrow> nat option go_result" where
  "route_loop h i [] = Ret None"
| "route_loop h i (sh # shs) =
     (if \<not> IsOpen (shard sh) then route_loop h (Suc i) shs
      else
        (case bounds_of sh of
           None \<Rightarrow> Panic
         | Some (lo, hi) \<Rightarrow> if lo \<le> h \<and> h \<le> hi then Ret (Some i) else route_loop h (Suc i) shs))"

definition routeToShard ::
    "(string \<Rightarrow> 128 word) \<Rightarrow> shardState list \<Rightarrow> string \<Rightarrow> string \<Rightarrow> nat option go_result" where
  "routeToShard md5 shs partitionKey explicitHashKey =
     (if explicitHashKey \<noteq> [] then
        (case parse_int explicitHashKey of None \<Rightarrow> Ret None | Some h \<Rightarrow> route_loop h 0 shs)
      else route_loop (uint (md5 partitionKey)) 0 shs)"

definition scopeKey :: "string \<Rightarrow> string \<Rightarrow> string \<Rightarrow> string" where
  "scopeKey account region name = account @ '':'' @ region @ '':'' @ name"

definition arnScope :: "string \<Rightarrow> string \<times> string" where
  "arnScope arn =
     (let parts = SplitN arn (CHR '':'') 7
      in if 6 \<le> length parts then (parts ! 4, parts ! 3) else ([], []))"

definition shard_id :: "nat \<Rightarrow> string" where
  "shard_id i = ''shardId-'' @ fmt_0d 12 (int i)"

definition new_shard :: "nat \<Rightarrow> string \<Rightarrow> string \<Rightarrow> HashKeyRange \<Rightarrow> shardState" where
  "new_shard i parent adjacent r =
     \<lparr>shard = \<lparr>ShardID = shard_id i, ParentShardID = parent, AdjacentParentShardID = adjacent,
        hashKeyRange = r,
        sequenceNumberRange = \<lparr>StartingSequenceNumber = seqNum 1, EndingSequenceNumber = []\<rparr>,
        IsOpen = True\<rparr>,
      Records = [], NextSeq = 1\<rparr>"

section \<open>Streams\<close>

definition CreateStream :: "Stream \<Rightarrow> int \<Rightarrow> MemoryKinesisStore \<Rightarrow> MemoryKinesisStore kres" where
  "CreateStream st shardCount s =
     (let (account, region) = arnScope (ARN st);
          sk = scopeKey account region (Name st)
      in if fmlookup (nameScope s) sk \<noteq> None
         then kfail ''ResourceInUseException'' (''Stream '' @ Name st @ '' already exists'')
         else
           (case calculateHashRanges shardCount of
              Panic \<Rightarrow> Panic
            | Ret ranges \<Rightarrow>
                (let shards = map (\<lambda>(i, r). new_shard i [] [] r) (enumerate 0 ranges);
                     st1 = (if RetentionPeriodHours st = 0 then st\<lparr>RetentionPeriodHours := 24\<rparr> else st);
                     st2 = (if EncryptionType st1 = [] then st1\<lparr>EncryptionType := ''NONE''\<rparr> else st1);
                     st3 = st2\<lparr>Status := StreamStatusActive\<rparr>;
                     entry = \<lparr>stream = st3, Shards = shards, Consumers = fmempty\<rparr>
                 in Ret (Inr (s\<lparr>streams := fmupd (ARN st) entry (streams s),
                                nameScope := fmupd sk (ARN st) (nameScope s)\<rparr>)))))"

definition not_found_name :: "string \<Rightarrow> 'a kres" where
  "not_found_name name = kfail ''ResourceNotFoundException'' (''Stream '' @ name @ '' not found'')"

definition not_found_arn :: "string \<Rightarrow> 'a kres" where
  "not_found_arn arn = kfail ''ResourceNotFoundException'' (''Stream not found for ARN '' @ arn)"

text \<open>
  The prologue of the \<open>...InScope\<close> operations: resolve the name, then dereference the stream.
\<close>

definition in_scope :: "string \<Rightarrow> string \<Rightarrow> string \<Rightarrow> MemoryKinesisStore \<Rightarrow> (string \<times> streamState) kres" where
  "in_scope account region name s =
     (case fmlookup (nameScope s) (scopeKey account region name) of
        None \<Rightarrow> not_found_name name
      | Some arn \<Rightarrow>
          (case fmlookup (streams s) arn of None \<Rightarrow> Panic | Some st \<Rightarrow> Ret (Inr (arn, st))))"

definition by_arn :: "string \<Rightarrow> MemoryKinesisStore \<Rightarrow> streamState kres" where
  "by_arn arn s =
     (case fmlookup (streams s) arn of None \<Rightarrow> not_found_arn arn | Some st \<Rightarrow> Ret (Inr st))"

definition put_stream :: "string \<Rightarrow> streamState \<Rightarrow> MemoryKinesisStore \<Rightarrow> MemoryKinesisStore" where
  "put_stream arn st s = s\<lparr>streams := fmupd arn st (streams s)\<rparr>"

definition GetStreamByARN :: "string \<Rightarrow> MemoryKinesisStore \<Rightarrow> Stream kres" where
  "GetStreamByARN arn s = go_bind (by_arn arn s) (\<lambda>st. Ret (Inr (stream st)))"

definition GetStreamInScope :: "string \<Rightarrow> string \<Rightarrow> string \<Rightarrow> MemoryKinesisStore \<Rightarrow> Stream kres" where
  "GetStreamInScope account region name s =
     go_bind (in_scope account region name s) (\<lambda>(arn, st). Ret (Inr (stream st)))"

definition DeleteStreamByARN :: "string \<Rightarrow> MemoryKinesisStore \<Rightarrow> MemoryKinesisStore kres" where
  "DeleteStreamByARN arn s =
     go_bind (by_arn arn s) (\<lambda>st.
       let (account, region) = arnScope arn
       in Ret (Inr (s\<lparr>nameScope := fmdrop (scopeKey account region (Name (stream st))) (nameScope s),
                      streams := fmdrop arn (streams s)\<rparr>)))"

definition DeleteStreamInScope :: "string \<Rightarrow> string \<Rightarrow> string \<Rightarrow> MemoryKinesisStore \<Rightarrow> MemoryKinesisStore kres" where
  "DeleteStreamInScope account region name s =
     (let sk = scopeKey account region name
      in case fmlookup (nameScope s) sk of
           None \<Rightarrow> not_found_name name
         | Some arn \<Rightarrow> Ret (Inr (s\<lparr>nameScope := fmdrop sk (nameScope s), streams := fmdrop arn (streams s)\<rparr>)))"

text \<open>\<open>order\<close> lists the keys of \<open>nameScope\<close> in the order Go ranges over them.\<close>

fun list_streams :: "string \<Rightarrow> MemoryKinesisStore \<Rightarrow> string list \<Rightarrow> Stream list go_result" where
  "list_streams pfx s [] = Ret []"
| "list_streams pfx s (sk # order) =
     (case fmlookup (nameScope s) sk of
        None \<Rightarrow> list_streams pfx s order
      | Some arn \<Rightarrow>
          if HasPrefix sk pfx then
            (case fmlookup (streams s) arn of
               None \<Rightarrow> Panic
             | Some st \<Rightarrow>
                 (case list_streams pfx s order of Panic \<Rightarrow> Panic | Ret out \<Rightarrow> Ret (stream st # out)))
          else list_streams pfx s order)"

definition ListStreamsInScope :: "string list \<Rightarrow> string \<Rightarrow> string \<Rightarrow> MemoryKinesisStore \<Rightarrow> Stream list go_result" where
  "ListStreamsInScope order account region s = list_streams (account @ '':'' @ region @ '':'') s order"

definition ListShardsInScope :: "string \<Rightarrow> string \<Rightarrow> string \<Rightarrow> MemoryKinesisStore \<Rightarrow> Shard list kres" where
  "ListShardsInScope account region name s =
     go_bind (in_scope account region name s) (\<lambda>(arn, st). Ret (Inr (map shard (Shards st))))"

section \<open>Records\<close>

definition PutRecordInScope ::
    "(string \<Rightarrow> 128 word) \<Rightarrow> time \<Rightarrow> string \<Rightarrow> string \<Rightarrow> string \<Rightarrow> string \<Rightarrow> string \<Rightarrow> string \<Rightarrow>
     MemoryKinesisStore \<Rightarrow> (MemoryKinesisStore \<times> string \<times> string) kres" where
  "PutRecordInScope md5 now account region name payload partitionKey explicitHashKey s =
     (if 1024 * 1024 < length payload
      then kfail ''InvalidArgumentException'' ''Data must be less than or equal to 1 MB in size''
      else if 256 < length partitionKey
      then kfail ''InvalidArgumentException'' ''PartitionKey must not exceed 256 characters''
      else
        go_bind (in_scope account region name s) (\<lambda>(arn, st).
          (case routeToShard md5 (Shards st) partitionKey explicitHashKey of
             Panic \<Rightarrow> Panic
           | Ret None \<Rightarrow> kfail ''InvalidArgumentException'' ''Could not route to shard''
           | Ret (Some i) \<Rightarrow>
               (let sh = Shards st ! i;
                    next_seq = NextSeq sh + 1;
                    rec = \<lparr>SequenceNumber = seqNum next_seq, ApproximateArrivalTime = now, Data = payload,
                           PartitionKey = partitionKey, RecEncryptionType = EncryptionType (stream st)\<rparr>;
                    sh' = sh\<lparr>NextSeq := next_seq, Records := Records sh @ [rec]\<rparr>
                in Ret (Inr (put_stream arn (st\<lparr>Shards := (Shards st)[i := sh']\<rparr>) s,
                             ShardID (shard sh), seqNum next_seq))))))"

fun findSeqPosition :: "KRecord list \<Rightarrow> string \<Rightarrow> bool \<Rightarrow> nat" where
  "findSeqPosition [] seq after = 0"
| "findSeqPosition (r # rs) seq after =
     (if SequenceNumber r = seq then (if after then 1 else 0) else Suc (findSeqPosition rs seq after))"

fun findTimestampPosition :: "KRecord list \<Rightarrow> time \<Rightarrow> nat" where
  "findTimestampPosition [] ts = 0"
| "findTimestampPosition (r # rs) ts =
     (if \<not> ApproximateArrivalTime r < ts then 0 else Suc (findTimestampPosition rs ts))"

text \<open>The search \<open>for _, sh := range st.Shards { if ID == shardID { ... break } }\<close>.\<close>

fun find_shard :: "string \<Rightarrow> shardState list \<Rightarrow> nat option" where
  "find_shard sid [] = None"
| "find_shard sid (sh # shs) =
     (if ShardID (shard sh) = sid then Some 0 else map_option Suc (find_shard sid shs))"

definition iter_position :: "shardState \<Rightarrow> string \<Rightarrow> string \<Rightarrow> time option \<Rightarrow> KinesisError + nat" where
  "iter_position ss iterType seqNumParam timestamp =
     (if iterType = IterTrimHorizon then Inr 0
      else if iterType = IterLatest then Inr (length (Records ss))
      else if iterType = IterAtSequenceNumber then
        (if seqNumParam = [] then Inl (kerr ''InvalidArgumentException'' ''SequenceNumber required'')
         else Inr (findSeqPosition (Records ss) seqNumParam False))
      else if iterType = IterAfterSequenceNumber then
        (if seqNumParam = [] then Inl (kerr ''InvalidArgumentException'' ''SequenceNumber required'')
         else Inr (findSeqPosition (Records ss) seqNumParam True))
      else if iterType = IterAtTimestamp then
        (case timestamp of None \<Rightarrow> Inr 0 | Some ts \<Rightarrow> Inr (findTimestampPosition (Records ss) ts))
      else Inl (kerr ''InvalidArgumentException'' (''Unknown iterator type: '' @ iterType)))"

definition CreateIteratorInScope ::
    "string \<Rightarrow> time \<Rightarrow> string \<Rightarrow> string \<Rightarrow> string \<Rightarrow> string \<Rightarrow> string \<Rightarrow> string \<Rightarrow> time option \<Rightarrow>
     MemoryKinesisStore \<Rightarrow> (MemoryKinesisStore \<times> string) kres" where
  "CreateIteratorInScope uuid now account region streamName shardID iterType seqNumParam timestamp s =
     go_bind (in_scope account region streamName s) (\<lambda>(arn, st).
       (case find_shard shardID (Shards st) of
          None \<Rightarrow> kfail ''ResourceNotFoundException'' (''Shard '' @ shardID @ '' not found'')
        | Some i \<Rightarrow>
            (case iter_position (Shards st ! i) iterType seqNumParam timestamp of
               Inl e \<Rightarrow> Ret (Inl e)
             | Inr pos \<Rightarrow>
                 Ret (Inr (s\<lparr>iterators := fmupd uuid \<lparr>IterStreamARN = arn, IterShardID = shardID,
                              Position = int pos, IterCreatedAt = now\<rparr> (iterators s)\<rparr>, uuid)))))"

section \<open>Resharding\<close>

definition close_shard :: "string \<Rightarrow> shardState \<Rightarrow> shardState" where
  "close_shard endSeq sh =
     sh\<lparr>shard := (shard sh)\<lparr>IsOpen := False,
          sequenceNumberRange := (sequenceNumberRange (shard sh))\<lparr>EndingSequenceNumber := endSeq\<rparr>\<rparr>\<rparr>"

text \<open>The body of \<open>SplitShardInScope\<close> on the shards of the stream.\<close>

definition split_shards :: "string \<Rightarrow> string \<Rightarrow> shardState list \<Rightarrow> shardState list kres" where
  "split_shards shardID newStartingHashKey shs =
     (case find_shard shardID shs of
        None \<Rightarrow> kfail ''ResourceNotFoundException'' (''Shard '' @ shardID @ '' not found'')
      | Some i \<Rightarrow>
          (let parent = shs ! i
           in if \<not> IsOpen (shard parent)
              then kfail ''ResourceInUseException'' (''Shard '' @ shardID @ '' is already closed'')
              else
                (case parse_int newStartingHashKey of
                   None \<Rightarrow> kfail ''InvalidArgumentException'' ''Invalid NewStartingHashKey''
                 | Some splitKey \<Rightarrow>
                     (case bounds_of parent of
                        None \<Rightarrow> Panic
                      | Some (startKey, endKey) \<Rightarrow>
                          if splitKey \<le> startKey \<or> endKey \<le> splitKey
                          then kfail ''InvalidArgumentException''
                                 ''NewStartingHashKey must be strictly within parent shard range''
                          else
                            (let nextIdx = length shs;
                                 c1 = new_shard nextIdx shardID []
                                   \<lparr>StartingHashKey = StartingHashKey (hashKeyRange (shard parent)),
                                    EndingHashKey = Itoa (splitKey - 1)\<rparr>;
                                 c2 = new_shard (nextIdx + 1) shardID []
                                   \<lparr>StartingHashKey = Itoa splitKey,
                                    EndingHashKey = EndingHashKey (hashKeyRange (shard parent))\<rparr>
                             in Ret (Inr (shs[i := close_shard (seqNum (NextSeq parent)) parent] @ [c1, c2])))))))"

definition SplitShardInScope ::
    "string \<Rightarrow> string \<Rightarrow> string \<Rightarrow> string \<Rightarrow> string \<Rightarrow> MemoryKinesisStore \<Rightarrow> MemoryKinesisStore kres" where
  "SplitShardInScope account region name shardID newStartingHashKey s =
     go_bind (in_scope account region name s) (\<lambda>(arn, st).
       go_bind (split_shards shardID newStartingHashKey (Shards st)) (\<lambda>shs.
         Ret (Inr (put_stream arn (st\<lparr>Shards := shs\<rparr>) s))))"

text \<open>The search without \<open>break\<close>: the last shard with the identifier.\<close>

fun find_last_shard :: "string \<Rightarrow> shardState list \<Rightarrow> nat option" where
  "find_last_shard sid [] = None"
| "find_last_shard sid (sh # shs) =
     (case find_last_shard sid shs of
        Some i \<Rightarrow> Some (Suc i)
      | None \<Rightarrow> if ShardID (shard sh) = sid then Some 0 else None)"

definition max64 :: "64 word \<Rightarrow> 64 word \<Rightarrow> 64 word" where
  "max64 a b = (if b < a then a else b)"

text \<open>Closing the lower and the upper shard and appending the merged child.\<close>

definition merge_at :: "nat \<Rightarrow> nat \<Rightarrow> shardState list \<Rightarrow> shardState list" where
  "merge_at lo up shs =
     (let lower = shs ! lo; upper = shs ! up;
          endSeq = seqNum (max64 (NextSeq lower) (NextSeq upper));
          merged = new_shard (length shs) (ShardID (shard lower)) (ShardID (shard upper))
            \<lparr>StartingHashKey = StartingHashKey (hashKeyRange (shard lower)),
             EndingHashKey = EndingHashKey (hashKeyRange (shard upper))\<rparr>
      in (shs[lo := close_shard endSeq lower])[up := close_shard endSeq upper] @ [merged])"

definition merge_shards :: "string \<Rightarrow> string \<Rightarrow> shardState list \<Rightarrow> shardState list kres" where
  "merge_shards shardToMerge adjacentShard shs =
     (case (find_last_shard shardToMerge shs, find_last_shard adjacentShard shs) of
        (Some i1, Some i2) \<Rightarrow>
          if \<not> IsOpen (shard (shs ! i1)) \<or> \<not> IsOpen (shard (shs ! i2))
          then kfail ''ResourceInUseException'' ''Both shards must be open to merge''
          else
            (case (bounds_of (shs ! i1), bounds_of (shs ! i2)) of
               (Some (p1Start, p1End), Some (p2Start, p2End)) \<Rightarrow>
                 if p1End + 1 = p2Start then Ret (Inr (merge_at i1 i2 shs))
                 else if p2End + 1 = p1Start then Ret (Inr (merge_at i2 i1 shs))
                 else kfail ''InvalidArgumentException'' ''Shards are not adjacent''
             | _ \<Rightarrow> Panic)
      | _ \<Rightarrow> kfail ''ResourceNotFoundException'' ''One or both shards not found'')"

definition MergeShardsInScope ::
    "string \<Rightarrow> string \<Rightarrow> string \<Rightarrow> string \<Rightarrow> string \<Rightarrow> MemoryKinesisStore \<Rightarrow> MemoryKinesisStore kres" where
  "MergeShardsInScope account region name shardToMerge adjacentShard s =
     go_bind (in_scope account region name s) (\<lambda>(arn, st).
       go_bind (merge_shards shardToMerge adjacentShard (Shards st)) (\<lambda>shs.
         Ret (Inr (put_stream arn (st\<lparr>Shards := shs\<rparr>) s))))"

section \<open>Stream settings\<close>

definition update_stream_meta :: "(Stream \<Rightarrow> Stream) \<Rightarrow> streamState \<Rightarrow> streamState" where
  "update_stream_meta f st = st\<lparr>stream := f (stream st)\<rparr>"

definition UpdateStreamModeInScope ::
    "string \<Rightarrow> string \<Rightarrow> string \<Rightarrow> string \<Rightarrow> MemoryKinesisStore \<Rightarrow> MemoryKinesisStore kres" where
  "UpdateStreamModeInScope account region name mode s =
     go_bind (in_scope account region name s) (\<lambda>(arn, st).
       Ret (Inr (put_stream arn (update_stream_meta (\<lambda>m. m\<lparr>Mode := mode\<rparr>) st) s)))"

definition SetRetentionPeriodInScope ::
    "string \<Rightarrow> string \<Rightarrow> string \<Rightarrow> int \<Rightarrow> MemoryKinesisStore \<Rightarrow> MemoryKinesisStore kres" where
  "SetRetentionPeriodInScope account region name hours s =
     (if hours < 24 \<or> 8760 < hours
      then kfail ''InvalidArgumentException'' ''RetentionPeriodHours must be between 24 and 8760''
      else
        go_bind (in_scope account region name s) (\<lambda>(arn, st).
          Ret (Inr (put_stream arn (update_stream_meta (\<lambda>m. m\<lparr>RetentionPeriodHours := hours\<rparr>) st) s))))"

text \<open>
  \<open>AddTagsInScope\<close> writes the tags before it checks their number, so its error comes with a
  changed store.
\<close>

definition AddTagsInScope ::
    "string \<Rightarrow> string \<Rightarrow> string \<Rightarrow> (string, string) fmap \<Rightarrow> MemoryKinesisStore \<Rightarrow>
     (MemoryKinesisStore \<times> KinesisError option) kres" where
  "AddTagsInScope account region name tags s =
     go_bind (in_scope account region name s) (\<lambda>(arn, st).
       let st' = update_stream_meta (\<lambda>m. m\<lparr>Tags := Tags m ++\<^sub>f tags\<rparr>) st;
           s' = put_stream arn st' s
       in Ret (Inr (s', if 50 < fcard (fmdom (Tags (stream st')))
                        then Some (kerr ''InvalidArgumentException'' ''A stream can have at most 50 tags'')
                        else None)))"

definition RemoveTagsInScope ::
    "string \<Rightarrow> string \<Rightarrow> string \<Rightarrow> string list \<Rightarrow> MemoryKinesisStore \<Rightarrow> MemoryKinesisStore kres" where
  "RemoveTagsInScope account region name keys s =
     go_bind (in_scope account region name s) (\<lambda>(arn, st).
       Ret (Inr (put_stream arn (update_stream_meta (\<lambda>m. m\<lparr>Tags := fold fmdrop keys (Tags m)\<rparr>) st) s)))"

definition GetTagsInScope :: "string \<Rightarrow> string \<Rightarrow> string \<Rightarrow> MemoryKinesisStore \<Rightarrow> (string, string) fmap kres" where
  "GetTagsInScope account region name s =
     go_bind (in_scope account region name s) (\<lambda>(arn, st). Ret (Inr (Tags (stream st))))"

section \<open>Reading\<close>

text \<open>
  The loop of \<open>GetRecords\<close> over the records from index \<open>i\<close> on: the records returned and
  the new position.
\<close>

fun records_loop :: "time \<Rightarrow> int \<Rightarrow> nat \<Rightarrow> nat \<Rightarrow> nat \<Rightarrow> nat \<Rightarrow> KRecord list \<Rightarrow> KRecord list \<times> nat" where
  "records_loop cutoff limit i newPos n totalSize [] = ([], newPos)"
| "records_loop cutoff limit i newPos n totalSize (r # rs) =
     (if limit \<le> int n then ([], newPos)
      else if ApproximateArrivalTime r < cutoff
      then records_loop cutoff limit (Suc i) (Suc i) n totalSize rs
      else if 10 * 1024 * 1024 < totalSize + length (Data r) then ([], newPos)
      else
        (let (out, p) = records_loop cutoff limit (Suc i) (Suc i) (Suc n) (totalSize + length (Data r)) rs
         in (r # out, p)))"

definition millis_behind :: "time \<Rightarrow> KRecord list \<Rightarrow> KRecord list \<Rightarrow> int" where
  "millis_behind now all_records records =
     (if all_records = [] then 0
      else
        (let latest = ApproximateArrivalTime (last all_records)
         in if records \<noteq> [] then
              (let d = time_Sub latest (ApproximateArrivalTime (last records))
               in if 0 < d then Milliseconds d else 0)
            else Milliseconds (time_Sub now latest)))"

text \<open>
  \<open>GetRecords\<close>: the store changes on several error paths too (a dead iterator is dropped), so the
  result pairs the store with an error or the records, the next token and the lag. The four times are
  the four readings of the clock.
\<close>

definition drop_iter :: "string \<Rightarrow> MemoryKinesisStore \<Rightarrow> MemoryKinesisStore" where
  "drop_iter t s = s\<lparr>iterators := fmdrop t (iterators s)\<rparr>"

definition GetRecords ::
    "string \<Rightarrow> time \<Rightarrow> time \<Rightarrow> time \<Rightarrow> time \<Rightarrow> string \<Rightarrow> int \<Rightarrow> MemoryKinesisStore \<Rightarrow>
     MemoryKinesisStore \<times> (KinesisError + KRecord list \<times> string \<times> int)" where
  "GetRecords uuid now_age now_cutoff now_lag now_next iteratorID limit0 s =
     (let limit = (if limit0 \<le> 0 then 10000 else limit0)
      in if 10000 < limit then (s, Inl (kerr ''InvalidArgumentException'' ''Limit must be between 1 and 10000''))
      else
        (case fmlookup (iterators s) iteratorID of
           None \<Rightarrow> (s, Inl (kerr ''InvalidArgumentException'' ''Invalid shard iterator''))
         | Some iter \<Rightarrow>
             if 5 * Minute < time_Sub now_age (IterCreatedAt iter)
             then (drop_iter iteratorID s, Inl (kerr ''ExpiredIteratorException'' ''Shard iterator has expired''))
             else
               (case fmlookup (streams s) (IterStreamARN iter) of
                  None \<Rightarrow> (drop_iter iteratorID s, Inl (kerr ''ResourceNotFoundException'' ''Stream not found''))
                | Some st \<Rightarrow>
                    (case find_shard (IterShardID iter) (Shards st) of
                       None \<Rightarrow> (drop_iter iteratorID s, Inl (kerr ''ResourceNotFoundException'' ''Shard not found''))
                     | Some k \<Rightarrow>
                         (let ss = Shards st ! k;
                              cutoff = now_cutoff + wrap64 (- duration_of (RetentionPeriodHours (stream st)) Hour);
                              pos = nat (Position iter);
                              (records, newPos) = records_loop cutoff limit pos pos 0 0 (drop pos (Records ss));
                              lag = millis_behind now_lag (Records ss) records;
                              s1 = drop_iter iteratorID s
                          in if IsOpen (shard ss) \<or> newPos < length (Records ss)
                             then (s1\<lparr>iterators := fmupd uuid \<lparr>IterStreamARN = IterStreamARN iter,
                                       IterShardID = IterShardID iter, Position = int newPos,
                                       IterCreatedAt = now_next\<rparr> (iterators s1)\<rparr>,
                                   Inr (records, uuid, lag))
                             else (s1, Inr (records, [], lag)))))))"

section \<open>Consumers and policies\<close>

definition RegisterConsumer ::
    "time \<Rightarrow> string \<Rightarrow> string \<Rightarrow> string \<Rightarrow> MemoryKinesisStore \<Rightarrow> (MemoryKinesisStore \<times> Consumer) kres" where
  "RegisterConsumer now streamARN consumerName consumerARN s =
     go_bind (by_arn streamARN s) (\<lambda>st.
       if \<not> fmpred (\<lambda>_ c. ConsumerName c \<noteq> consumerName) (Consumers st)
       then kfail ''ResourceInUseException'' (''Consumer '' @ consumerName @ '' already exists'')
       else if 20 \<le> fcard (fmdom (Consumers st))
       then kfail ''LimitExceededException'' ''Maximum 20 consumers per stream''
       else
         (let c = \<lparr>ConsumerName = consumerName, ConsumerARN = consumerARN, StreamARN = streamARN,
                   ConsumerStatus = ''ACTIVE'', ConsumerCreatedAt = now\<rparr>
          in Ret (Inr (put_stream streamARN (st\<lparr>Consumers := fmupd consumerARN c (Consumers st)\<rparr>) s, c))))"

text \<open>\<open>order\<close> lists the stream ARNs in the order Go ranges over the map.\<close>

fun find_consumer :: "string \<Rightarrow> MemoryKinesisStore \<Rightarrow> string list \<Rightarrow> (string \<times> streamState \<times> Consumer) option" where
  "find_consumer consumerARN s [] = None"
| "find_consumer consumerARN s (arn # order) =
     (case fmlookup (streams s) arn of
        None \<Rightarrow> find_consumer consumerARN s order
      | Some st \<Rightarrow>
          (case fmlookup (Consumers st) consumerARN of
             Some c \<Rightarrow> Some (arn, st, c)
           | None \<Rightarrow> find_consumer consumerARN s order))"

definition DeregisterConsumer :: "string list \<Rightarrow> string \<Rightarrow> MemoryKinesisStore \<Rightarrow> MemoryKinesisStore kres" where
  "DeregisterConsumer order consumerARN s =
     (case find_consumer consumerARN s order of
        None \<Rightarrow> kfail ''ResourceNotFoundException'' (''Consumer not found: '' @ consumerARN)
      | Some (arn, st, c) \<Rightarrow>
          Ret (Inr (put_stream arn (st\<lparr>Consumers := fmdrop consumerARN (Consumers st)\<rparr>) s)))"

text \<open>\<open>order\<close> lists the consumer ARNs of the stream in the order Go ranges over them.\<close>

definition ListConsumers :: "string list \<Rightarrow> string \<Rightarrow> MemoryKinesisStore \<Rightarrow> Consumer list kres" where
  "ListConsumers order streamARN s =
     go_bind (by_arn streamARN s) (\<lambda>st.
       Ret (Inr (List.map_filter (\<lambda>arn. fmlookup (Consumers st) arn) order)))"

definition GetConsumer :: "string list \<Rightarrow> string \<Rightarrow> MemoryKinesisStore \<Rightarrow> Consumer kres" where
  "GetConsumer order consumerARN s =
     (case find_consumer consumerARN s order of
        None \<Rightarrow> kfail ''ResourceNotFoundException'' (''Consumer not found: '' @ consumerARN)
      | Some (arn, st, c) \<Rightarrow> Ret (Inr c))"

definition SetResourcePolicy :: "string \<Rightarrow> string \<Rightarrow> MemoryKinesisStore \<Rightarrow> MemoryKinesisStore kres" where
  "SetResourcePolicy streamARN policy s =
     go_bind (by_arn streamARN s) (\<lambda>st.
       Ret (Inr (put_stream streamARN (update_stream_meta (\<lambda>m. m\<lparr>ResourcePolicy := policy\<rparr>) st) s)))"

definition GetResourcePolicy :: "string \<Rightarrow> MemoryKinesisStore \<Rightarrow> string kres" where
  "GetResourcePolicy streamARN s = go_bind (by_arn streamARN s) (\<lambda>st. Ret (Inr (ResourcePolicy (stream st))))"

definition DeleteResourcePolicy :: "string \<Rightarrow> MemoryKinesisStore \<Rightarrow> MemoryKinesisStore kres" where
  "DeleteResourcePolicy streamARN s =
     go_bind (by_arn streamARN s) (\<lambda>st.
       Ret (Inr (put_stream streamARN (update_stream_meta (\<lambda>m. m\<lparr>ResourcePolicy := []\<rparr>) st) s)))"

definition UpdateStreamModeByARN :: "string \<Rightarrow> string \<Rightarrow> MemoryKinesisStore \<Rightarrow> MemoryKinesisStore kres" where
  "UpdateStreamModeByARN arn mode s =
     go_bind (by_arn arn s) (\<lambda>st.
       Ret (Inr (put_stream arn (update_stream_meta (\<lambda>m. m\<lparr>Mode := mode\<rparr>) st) s)))"

section \<open>Administration\<close>

definition Reset :: "MemoryKinesisStore \<Rightarrow> MemoryKinesisStore" where
  "Reset s = s\<lparr>streams := fmempty, nameScope := fmempty, iterators := fmempty\<rparr>"

definition IsEmpty :: "MemoryKinesisStore \<Rightarrow> bool" where
  "IsEmpty s \<longleftrightarrow> streams s = fmempty"

text \<open>A snapshot is the three maps; each may be absent from a decoded one.\<close>

record snapshotData =
  SnapStreams :: "(string, streamState) fmap option"
  SnapNameScope :: "(string, string) fmap option"
  SnapIterators :: "(string, IteratorEntry) fmap option"

definition Snapshot :: "MemoryKinesisStore \<Rightarrow> snapshotData" where
  "Snapshot s = \<lparr>SnapStreams = Some (streams s), SnapNameScope = Some (nameScope s), SnapIterators = Some (iterators s)\<rparr>"

definition Restore :: "string + snapshotData \<Rightarrow> MemoryKinesisStore \<Rightarrow> string + MemoryKinesisStore" where
  "Restore decoded s =
     (case decoded of
        Inl err \<Rightarrow> Inl err
      | Inr snap \<Rightarrow>
          Inr (s\<lparr>streams := the_default fmempty (SnapStreams snap),
                 nameScope := the_default fmempty (SnapNameScope snap),
                 iterators := the_default fmempty (SnapIterators snap)\<rparr>))"

section \<open>The hash-key space\<close>

definition owns :: "int \<Rightarrow> shardState \<Rightarrow> bool" where
  "owns h sh \<longleftrightarrow> IsOpen (shard sh) \<and>
     (case bounds_of sh of None \<Rightarrow> False | Some (lo, hi) \<Rightarrow> lo \<le> h \<and> h \<le> hi)"

definition owners :: "int \<Rightarrow> shardState list \<Rightarrow> nat" where
  "owners h shs = length (filter (owns h) shs)"

definition in_key_space :: "int \<Rightarrow> bool" where
  "in_key_space h \<longleftrightarrow> 0 \<le> h \<and> h \<le> maxHashKey"

definition bounds_ok :: "shardState \<Rightarrow> bool" where
  "bounds_ok sh \<longleftrightarrow> (case bounds_of sh of None \<Rightarrow> False
     | Some (lo, hi) \<Rightarrow> 0 \<le> lo \<and> lo \<le> hi + 1 \<and> hi \<le> maxHashKey)"

definition seqs_ok :: "shardState \<Rightarrow> bool" where
  "seqs_ok sh \<longleftrightarrow> NextSeq sh = of_nat (length (Records sh) + 1) \<and>
     map SequenceNumber (Records sh) = map (\<lambda>k. seqNum (of_nat (k + 2))) [0..<length (Records sh)]"

definition ids_ok :: "shardState list \<Rightarrow> bool" where
  "ids_ok shs \<longleftrightarrow> (\<forall>i < length shs. ShardID (shard (shs ! i)) = shard_id i)"

definition shards_inv :: "shardState list \<Rightarrow> bool" where
  "shards_inv shs \<longleftrightarrow> ids_ok shs \<and> (\<forall>sh \<in> set shs. bounds_ok sh \<and> seqs_ok sh) \<and>
     (\<forall>h. in_key_space h \<longrightarrow> owners h shs = 1)"

lemma owners_simps [simp]:
  "owners h [] = 0" "owners h (sh # shs) = of_bool (owns h sh) + owners h shs"
  "owners h (xs @ ys) = owners h xs + owners h ys"
  by (simp_all add: owners_def)

lemma owners_update:
  "i < length shs \<Longrightarrow> owners h (shs[i := x]) + of_bool (owns h (shs ! i)) = owners h shs + of_bool (owns h x)"
proof (induction shs arbitrary: i)
  case (Cons y ys)
  show ?case
  proof (cases i)
    case (Suc j)
    with Cons.IH [of j] Cons.prems show ?thesis by simp
  qed simp
qed simp

lemma bounds_new_shard [simp]:
  "bounds_of (new_shard i p a r) =
     (case (parse_int (StartingHashKey r), parse_int (EndingHashKey r)) of
        (Some lo, Some hi) \<Rightarrow> Some (lo, hi) | _ \<Rightarrow> None)"
  "IsOpen (shard (new_shard i p a r))" "ShardID (shard (new_shard i p a r)) = shard_id i"
  "seqs_ok (new_shard i p a r)" "Records (new_shard i p a r) = []"
  by (simp_all add: bounds_of_def new_shard_def seqs_ok_def)

lemma close_shard_simps [simp]:
  "bounds_of (close_shard e sh) = bounds_of sh" "\<not> IsOpen (shard (close_shard e sh))"
  "\<not> owns h (close_shard e sh)" "ShardID (shard (close_shard e sh)) = ShardID (shard sh)"
  "seqs_ok (close_shard e sh) = seqs_ok sh" "bounds_ok (close_shard e sh) = bounds_ok sh"
  "Records (close_shard e sh) = Records sh"
  by (simp_all add: close_shard_def bounds_of_def owns_def seqs_ok_def bounds_ok_def)

lemma owns_new_shard [simp]:
  "owns h (new_shard i p a r) \<longleftrightarrow>
     (case (parse_int (StartingHashKey r), parse_int (EndingHashKey r)) of
        (Some lo, Some hi) \<Rightarrow> lo \<le> h \<and> h \<le> hi | _ \<Rightarrow> False)"
  by (simp add: owns_def split: option.splits)

lemma zpad_inj: "zpad w m = zpad w n \<longleftrightarrow> m = n"
  by (metis dec_val_dec_of_nat dec_val_zeros zpad_def)

lemma shard_id_inj [simp]: "shard_id i = shard_id j \<longleftrightarrow> i = j"
  by (simp add: shard_id_def fmt_0d_def zpad_inj)

subsection \<open>The initial ranges\<close>

lemma consecutive_ranges:
  assumes "\<And>i. a i \<le> a (Suc i)"
  shows "length (filter (\<lambda>i. a i \<le> h \<and> h < a (Suc i)) [0..<n]) = of_bool (a 0 \<le> h \<and> h < (a n :: int))"
proof (induction n)
  case (Suc n)
  have "a 0 \<le> a n" using assms lift_Suc_mono_le [of a 0 n] by simp
  with Suc assms [of n] show ?case by auto
qed simp

definition cut :: "nat \<Rightarrow> nat \<Rightarrow> int" where
  "cut n i = (if n \<le> i then maxHashKey + 1 else (maxHashKey div int n) * int i)"

lemma step_nonneg: "0 \<le> maxHashKey div int n"
  by (cases "n = 0") (simp_all add: maxHashKey_def pos_imp_zdiv_nonneg_iff)

lemma cut_mono: "cut n i \<le> cut n (Suc i)"
proof (cases "Suc i < n")
  case True
  with step_nonneg show ?thesis by (simp add: cut_def mult_left_mono)
next
  case False
  have "(maxHashKey div int n) * int i \<le> maxHashKey" if "i < n"
  proof -
    have "(maxHashKey div int n) * int i \<le> (maxHashKey div int n) * int n"
      using that by (intro mult_left_mono step_nonneg) simp
    also have "\<dots> \<le> maxHashKey"
      using that by (metis div_mult_mod_eq le_add_same_cancel1 of_nat_0_less_iff gr_implies_not0 pos_mod_sign neq0_conv)
    finally show ?thesis .
  qed
  with False show ?thesis by (auto simp: cut_def)
qed

lemma cut_nonneg: "0 \<le> cut n i"
  using step_nonneg [of n] by (simp add: cut_def) (simp add: maxHashKey_def)

lemma calculateHashRanges_eq:
  assumes "0 < n"
  shows "calculateHashRanges n = Ret (map (\<lambda>i. hash_range (cut (nat n) i) (cut (nat n) (Suc i) - 1)) [0..<nat n])"
proof -
  have "hash_range (maxHashKey div n * int i) (if int i = n - 1 then maxHashKey else maxHashKey div n * (int i + 1) - 1)
      = hash_range (cut (nat n) i) (cut (nat n) (Suc i) - 1)" if "i < nat n" for i
    using that assms by (auto simp: cut_def algebra_simps)
  with assms show ?thesis by (simp add: calculateHashRanges_def Let_def)
qed

lemma parse_hash_range [simp]:
  "parse_int (StartingHashKey (hash_range lo hi)) = Some lo" "parse_int (EndingHashKey (hash_range lo hi)) = Some hi"
  by (simp_all add: hash_range_def)

definition initial_shards :: "HashKeyRange list \<Rightarrow> shardState list" where
  "initial_shards ranges = map (\<lambda>(i, r). new_shard i [] [] r) (enumerate 0 ranges)"

lemma initial_shards_eq:
  assumes "calculateHashRanges n = Ret ranges"
  shows "initial_shards ranges =
    map (\<lambda>i. new_shard i [] [] (hash_range (cut (nat n) i) (cut (nat n) (Suc i) - 1))) [0..<nat n]" and "0 < n"
proof -
  show n: "0 < n" using assms by (auto simp: calculateHashRanges_def split: if_splits)
  have ranges: "ranges = map (\<lambda>i. hash_range (cut (nat n) i) (cut (nat n) (Suc i) - 1)) [0..<nat n]"
    using assms by (simp add: calculateHashRanges_eq [OF n])
  show "initial_shards ranges =
    map (\<lambda>i. new_shard i [] [] (hash_range (cut (nat n) i) (cut (nat n) (Suc i) - 1))) [0..<nat n]"
    unfolding initial_shards_def ranges by (rule nth_equalityI) (simp_all add: nth_enumerate_eq)
qed

lemma initial_shards_inv:
  assumes "calculateHashRanges n = Ret ranges"
  shows "shards_inv (initial_shards ranges)"
proof -
  note eq = initial_shards_eq [OF assms]
  have "owners h (initial_shards ranges) = 1" if "in_key_space h" for h
  proof -
    have "owners h (initial_shards ranges) =
        length (filter (\<lambda>i. cut (nat n) i \<le> h \<and> h < cut (nat n) (Suc i)) [0..<nat n])"
      by (simp add: eq owners_def filter_map comp_def)
    also have "\<dots> = 1"
      using that eq(2) consecutive_ranges [of "cut (nat n)", OF cut_mono]
      by (simp add: cut_def in_key_space_def)
    finally show ?thesis .
  qed
  moreover have "bounds_ok (new_shard i [] [] (hash_range (cut (nat n) i) (cut (nat n) (Suc i) - 1)))"
    if "i < nat n" for i
  proof -
    have "cut (nat n) (Suc i) \<le> cut (nat n) (nat n)"
      by (rule lift_Suc_mono_le [of "cut (nat n)", OF cut_mono]) (use that in simp)
    then have "cut (nat n) (Suc i) \<le> maxHashKey + 1" by (simp add: cut_def)
    then show ?thesis using cut_mono [of "nat n" i] cut_nonneg [of "nat n" i] by (simp add: bounds_ok_def)
  qed
  ultimately show ?thesis by (auto simp: shards_inv_def ids_ok_def eq(1))
qed

subsection \<open>Routing\<close>

lemma route_loop_spec:
  assumes "\<forall>sh \<in> set shs. bounds_of sh \<noteq> None"
  shows "route_loop h k shs = Ret (if owners h shs = 0 then None
           else Some (k + length (takeWhile (\<lambda>sh. \<not> owns h sh) shs)))"
  using assms
proof (induction shs arbitrary: k)
  case (Cons sh shs)
  then show ?case by (auto simp: owns_def split: option.splits)
qed simp

lemma takeWhile_owner:
  assumes "owners h shs \<noteq> 0"
  defines "i \<equiv> length (takeWhile (\<lambda>sh. \<not> owns h sh) shs)"
  shows "i < length shs" and "owns h (shs ! i)"
proof -
  from assms(1) have "\<exists>x \<in> set shs. owns h x" by (auto simp: owners_def filter_empty_conv)
  then show i: "i < length shs"
    unfolding i_def by (metis length_takeWhile_le le_neq_implies_less takeWhile_eq_all_conv takeWhile_eq_take take_all order_refl)
  then show "owns h (shs ! i)" unfolding i_def using nth_length_takeWhile by blast
qed

lemma shards_inv_route:
  assumes "shards_inv shs" and "in_key_space h"
  shows "\<exists>i. route_loop h 0 shs = Ret (Some i) \<and> i < length shs \<and> owns h (shs ! i)"
proof -
  from assms have "owners h shs \<noteq> 0" by (simp add: shards_inv_def)
  moreover from assms(1) have "\<forall>sh \<in> set shs. bounds_of sh \<noteq> None"
    by (auto simp: shards_inv_def bounds_ok_def split: option.splits)
  ultimately show ?thesis using takeWhile_owner [of h shs] by (simp add: route_loop_spec)
qed

subsection \<open>Resharding keeps the partition\<close>

lemma find_shard_Some: "find_shard sid shs = Some i \<Longrightarrow> i < length shs \<and> ShardID (shard (shs ! i)) = sid"
  by (induction shs arbitrary: i) (auto split: if_splits)

lemma find_shard_None: "find_shard sid shs = None \<Longrightarrow> i < length shs \<Longrightarrow> ShardID (shard (shs ! i)) \<noteq> sid"
  by (induction shs arbitrary: i) (auto simp: nth_Cons split: if_splits nat.splits)

lemma find_shard_id:
  assumes "ids_ok shs" and "i < length shs"
  shows "find_shard (shard_id i) shs = Some i"
proof (cases "find_shard (shard_id i) shs")
  case None
  with assms find_shard_None [OF None, of i] show ?thesis by (simp add: ids_ok_def)
next
  case (Some j)
  with assms find_shard_Some [OF Some] show ?thesis by (auto simp: ids_ok_def)
qed

lemma find_last_shard_Some:
  "find_last_shard sid shs = Some i \<Longrightarrow> i < length shs \<and> ShardID (shard (shs ! i)) = sid"
  by (induction shs arbitrary: i) (auto split: if_splits option.splits)

lemma find_last_shard_None: "find_last_shard sid shs = None \<Longrightarrow> i < length shs \<Longrightarrow> ShardID (shard (shs ! i)) \<noteq> sid"
  by (induction shs arbitrary: i) (auto simp: nth_Cons split: if_splits option.splits nat.splits)

lemma find_last_shard_id:
  assumes "ids_ok shs" and "i < length shs"
  shows "find_last_shard (shard_id i) shs = Some i"
proof (cases "find_last_shard (shard_id i) shs")
  case None
  with assms find_last_shard_None [OF None, of i] show ?thesis by (simp add: ids_ok_def)
next
  case (Some j)
  with assms find_last_shard_Some [OF Some] show ?thesis by (auto simp: ids_ok_def)
qed

lemma bounds_parse:
  assumes "bounds_of sh = Some (lo, hi)"
  shows "parse_int (StartingHashKey (hashKeyRange (shard sh))) = Some lo"
    and "parse_int (EndingHashKey (hashKeyRange (shard sh))) = Some hi"
  using assms by (auto simp: bounds_of_def split: option.splits)

lemma shards_inv_nth:
  assumes "shards_inv shs" and "i < length shs" and "bounds_of (shs ! i) = Some (lo, hi)"
  shows "0 \<le> lo" "lo \<le> hi + 1" "hi \<le> maxHashKey" "seqs_ok (shs ! i)" "bounds_ok (shs ! i)"
proof -
  from assms(1) nth_mem [OF assms(2)] show ok: "seqs_ok (shs ! i)" "bounds_ok (shs ! i)"
    by (simp_all add: shards_inv_def)
  then show "0 \<le> lo" "lo \<le> hi + 1" "hi \<le> maxHashKey" by (simp_all add: bounds_ok_def assms(3))
qed

lemma ids_ok_snoc: "ids_ok shs \<Longrightarrow> ids_ok (shs @ [new_shard (length shs) p a r])"
  by (auto simp: ids_ok_def nth_append less_Suc_eq)

lemma ids_ok_update:
  "ids_ok shs \<Longrightarrow> (i < length shs \<longrightarrow> ShardID (shard x) = ShardID (shard (shs ! i))) \<Longrightarrow> ids_ok (shs[i := x])"
  by (cases "i < length shs") (auto simp: ids_ok_def nth_list_update)

lemma set_update_close:
  "\<forall>sh \<in> set shs. bounds_ok sh \<and> seqs_ok sh \<Longrightarrow> i < length shs \<Longrightarrow>
     \<forall>sh \<in> set (shs[i := close_shard e (shs ! i)]). bounds_ok sh \<and> seqs_ok sh"
  using set_update_subset_insert [of shs i "close_shard e (shs ! i)"] by (auto dest: nth_mem)

lemma split_shards_inv:
  assumes inv: "shards_inv shs" and split: "split_shards sid key shs = Ret (Inr shs')"
  shows "shards_inv shs'"
proof -
  from split obtain i k lo hi where i: "find_shard sid shs = Some i" and op: "IsOpen (shard (shs ! i))"
    and k: "lo < k" "k < hi" and b: "bounds_of (shs ! i) = Some (lo, hi)"
    and shs': "shs' = shs[i := close_shard (seqNum (NextSeq (shs ! i))) (shs ! i)] @
        [new_shard (length shs) sid [] \<lparr>StartingHashKey = StartingHashKey (hashKeyRange (shard (shs ! i))), EndingHashKey = Itoa (k - 1)\<rparr>,
         new_shard (length shs + 1) sid [] \<lparr>StartingHashKey = Itoa k, EndingHashKey = EndingHashKey (hashKeyRange (shard (shs ! i)))\<rparr>]"
      (is "_ = ?upd @ [?c1, ?c2]")
    by (auto simp: split_shards_def kfail_def Let_def not_le split: option.splits if_splits)
  from find_shard_Some [OF i] have il: "i < length shs" by simp
  note bnd = shards_inv_nth [OF inv il b]
  have "owners h shs' = 1" if "in_key_space h" for h
    using owners_update [OF il, of h "close_shard (seqNum (NextSeq (shs ! i))) (shs ! i)"] inv that k op
    by (auto simp: shs' bounds_parse [OF b] shards_inv_def owns_def [of h "shs ! i"] b)
  moreover have "ids_ok shs'"
  proof -
    have "ids_ok ?upd" using inv by (simp add: shards_inv_def ids_ok_update)
    from ids_ok_snoc [OF ids_ok_snoc [OF this]] show ?thesis by (simp add: shs')
  qed
  moreover have "\<forall>sh \<in> set shs'. bounds_ok sh \<and> seqs_ok sh"
  proof -
    have "bounds_ok ?c1" "bounds_ok ?c2" using bnd k by (simp_all add: bounds_ok_def bounds_parse [OF b])
    moreover have "\<forall>sh \<in> set ?upd. bounds_ok sh \<and> seqs_ok sh"
      using inv il by (intro set_update_close) (auto simp: shards_inv_def)
    ultimately show ?thesis by (simp add: shs')
  qed
  ultimately show ?thesis by (simp add: shards_inv_def)
qed

lemma merge_at_inv:
  assumes inv: "shards_inv shs" and lt: "lo < length shs" "up < length shs"
    and op: "IsOpen (shard (shs ! lo))" "IsOpen (shard (shs ! up))"
    and bl: "bounds_of (shs ! lo) = Some (a, b)" and bu: "bounds_of (shs ! up) = Some (b + 1, d)"
  shows "shards_inv (merge_at lo up shs)"
proof -
  let ?e = "seqNum (max64 (NextSeq (shs ! lo)) (NextSeq (shs ! up)))"
  let ?A = "shs[lo := close_shard ?e (shs ! lo)]"
  let ?B = "?A[up := close_shard ?e (shs ! up)]"
  let ?m = "new_shard (length shs) (ShardID (shard (shs ! lo))) (ShardID (shard (shs ! up)))
     \<lparr>StartingHashKey = StartingHashKey (hashKeyRange (shard (shs ! lo))), EndingHashKey = EndingHashKey (hashKeyRange (shard (shs ! up)))\<rparr>"
  have eq: "merge_at lo up shs = ?B @ [?m]" by (simp add: merge_at_def Let_def)
  note bnd = shards_inv_nth [OF inv lt(1) bl] shards_inv_nth [OF inv lt(2) bu]
  have "owners h (merge_at lo up shs) = 1" if "in_key_space h" for h
  proof -
    have one: "owners h shs = 1" using inv that by (simp add: shards_inv_def)
    have A: "owners h ?A + of_bool (owns h (shs ! lo)) = owners h shs"
      using owners_update [OF lt(1), of h] by simp
    have B: "owners h ?B + of_bool (owns h (?A ! up)) = owners h ?A"
      using owners_update [of up ?A h] lt(2) by simp
    show ?thesis
    proof (cases "lo = up")
      case True
      with bl bu have no: "\<not> owns h (shs ! up)" by (auto simp: owns_def)
      with True A B one bl bu show ?thesis
        unfolding eq by (auto simp: bounds_parse [OF bl] bounds_parse [OF bu] lt)
    next
      case False
      have "of_bool (owns h ?m) = of_bool (owns h (shs ! lo)) + (of_bool (owns h (shs ! up)) :: nat)"
        using bnd op by (cases "h \<le> b") (auto simp: owns_def [of h "shs ! up"] owns_def [of h "shs ! lo"]
          bl bu bounds_parse [OF bl] bounds_parse [OF bu])
      with A B one False show ?thesis unfolding eq by (simp del: owns_new_shard)
    qed
  qed
  moreover have "ids_ok (merge_at lo up shs)"
  proof -
    have A: "ids_ok ?A" using inv by (simp add: shards_inv_def ids_ok_update)
    have "ShardID (shard (?A ! up)) = ShardID (shard (shs ! up))" using lt by (simp add: nth_list_update)
    with A have "ids_ok ?B" by (simp add: ids_ok_update)
    from ids_ok_snoc [OF this] show ?thesis by (simp add: eq)
  qed
  moreover have "\<forall>sh \<in> set (merge_at lo up shs). bounds_ok sh \<and> seqs_ok sh"
  proof -
    have "bounds_ok ?m" using bnd by (simp add: bounds_ok_def bounds_parse [OF bl] bounds_parse [OF bu])
    moreover have "\<forall>sh \<in> set ?B. bounds_ok sh \<and> seqs_ok sh"
    proof
      fix sh assume "sh \<in> set ?B"
      then consider "sh = close_shard ?e (shs ! up)" | "sh = close_shard ?e (shs ! lo)" | "sh \<in> set shs"
        using set_update_subset_insert [of ?A up] set_update_subset_insert [of shs lo] by blast
      then show "bounds_ok sh \<and> seqs_ok sh" using inv bnd by cases (auto simp: shards_inv_def)
    qed
    ultimately show ?thesis by (simp add: eq)
  qed
  ultimately show ?thesis by (simp add: shards_inv_def)
qed

lemma merge_shards_inv:
  assumes inv: "shards_inv shs" and merge: "merge_shards x y shs = Ret (Inr shs')"
  shows "shards_inv shs'"
  using merge inv
  by (auto simp: merge_shards_def kfail_def split: option.splits if_splits
      intro!: merge_at_inv dest!: find_last_shard_Some)

lemma shards_inv_bounds: "shards_inv shs \<Longrightarrow> i < length shs \<Longrightarrow> bounds_of (shs ! i) \<noteq> None"
  using nth_mem [of i shs] by (auto simp: shards_inv_def bounds_ok_def split: option.splits)

lemma split_shards_no_panic: "shards_inv shs \<Longrightarrow> split_shards sid key shs \<noteq> Panic"
  by (auto simp: split_shards_def kfail_def Let_def
      split: option.splits dest!: find_shard_Some dest: shards_inv_bounds)

lemma merge_shards_no_panic: "shards_inv shs \<Longrightarrow> merge_shards x y shs \<noteq> Panic"
  by (auto simp: merge_shards_def kfail_def
      split: option.splits dest!: find_last_shard_Some dest: shards_inv_bounds)

subsection \<open>Appending a record\<close>

definition append_record :: "KRecord \<Rightarrow> nat \<Rightarrow> shardState list \<Rightarrow> shardState list" where
  "append_record rec i shs = shs[i := (shs ! i)\<lparr>NextSeq := NextSeq (shs ! i) + 1, Records := Records (shs ! i) @ [rec]\<rparr>]"

lemma seqs_ok_append:
  "seqs_ok sh \<Longrightarrow> SequenceNumber rec = seqNum (NextSeq sh + 1) \<Longrightarrow>
     seqs_ok (sh\<lparr>NextSeq := NextSeq sh + 1, Records := Records sh @ [rec]\<rparr>)"
  by (simp add: seqs_ok_def add.commute)

lemma owns_append [simp]:
  "owns h (sh\<lparr>NextSeq := n, Records := rs\<rparr>) = owns h sh" "bounds_ok (sh\<lparr>NextSeq := n, Records := rs\<rparr>) = bounds_ok sh"
  by (simp_all add: owns_def bounds_of_def bounds_ok_def)

lemma append_record_inv:
  assumes inv: "shards_inv shs" and i: "i < length shs"
    and seq: "SequenceNumber rec = seqNum (NextSeq (shs ! i) + 1)"
  shows "shards_inv (append_record rec i shs)"
proof -
  let ?sh = "(shs ! i)\<lparr>NextSeq := NextSeq (shs ! i) + 1, Records := Records (shs ! i) @ [rec]\<rparr>"
  have old: "bounds_ok (shs ! i)" "seqs_ok (shs ! i)" using inv nth_mem [OF i] by (simp_all add: shards_inv_def)
  then have "bounds_ok ?sh \<and> seqs_ok ?sh" using seq by (simp add: seqs_ok_append)
  moreover have "owners h (shs[i := ?sh]) = owners h shs" for h
    using owners_update [OF i, of h ?sh] by simp
  moreover have "ids_ok (shs[i := ?sh])" using inv by (simp add: shards_inv_def ids_ok_update)
  moreover have "set (shs[i := ?sh]) \<subseteq> insert ?sh (set shs)" by (rule set_update_subset_insert)
  ultimately show ?thesis using inv by (auto simp: shards_inv_def append_record_def)
qed

section \<open>The store invariant\<close>

text \<open>
  Every name points to an existing stream whose ARN and name give the name's key back; every stream's
  shards are well formed and hold no record above the size limit of \<open>PutRecordInScope\<close>.
\<close>

definition arn_key :: "string \<Rightarrow> string \<Rightarrow> string" where
  "arn_key arn name = (case arnScope arn of (account, region) \<Rightarrow> scopeKey account region name)"

definition small_records :: "shardState list \<Rightarrow> bool" where
  "small_records shs \<longleftrightarrow> (\<forall>sh \<in> set shs. \<forall>r \<in> set (Records sh). length (Data r) \<le> 1024 * 1024)"

definition stream_ok :: "streamState \<Rightarrow> bool" where
  "stream_ok st \<longleftrightarrow> shards_inv (Shards st) \<and> small_records (Shards st)"

definition kin_inv :: "MemoryKinesisStore \<Rightarrow> bool" where
  "kin_inv s \<longleftrightarrow>
     (\<forall>sk arn. fmlookup (nameScope s) sk = Some arn \<longrightarrow>
        (\<exists>st. fmlookup (streams s) arn = Some st \<and> sk = arn_key arn (Name (stream st)))) \<and>
     (\<forall>arn st. fmlookup (streams s) arn = Some st \<longrightarrow> stream_ok st)"

lemma kin_invD:
  "kin_inv s \<Longrightarrow> fmlookup (streams s) arn = Some st \<Longrightarrow> stream_ok st"
  "kin_inv s \<Longrightarrow> fmlookup (nameScope s) sk = Some arn \<Longrightarrow>
     \<exists>st. fmlookup (streams s) arn = Some st \<and> sk = arn_key arn (Name (stream st))"
  by (auto simp: kin_inv_def)

lemma kin_inv_iterators [simp]: "kin_inv (s\<lparr>iterators := it\<rparr>) = kin_inv s"
  by (simp add: kin_inv_def)

lemma in_scope_Ret [simp]:
  "in_scope account region name s = Ret (Inr (arn, st)) \<longleftrightarrow>
     fmlookup (nameScope s) (scopeKey account region name) = Some arn \<and> fmlookup (streams s) arn = Some st"
  by (auto simp: in_scope_def not_found_name_def kfail_def split: option.splits)

lemma by_arn_Ret [simp]: "by_arn arn s = Ret (Inr st) \<longleftrightarrow> fmlookup (streams s) arn = Some st"
  by (auto simp: by_arn_def not_found_arn_def kfail_def split: option.splits)

lemma by_arn_no_panic [simp]: "by_arn arn s \<noteq> Panic"
  by (simp add: by_arn_def not_found_arn_def kfail_def split: option.splits)

lemma in_scope_no_panic: "kin_inv s \<Longrightarrow> in_scope account region name s \<noteq> Panic"
  by (auto simp: in_scope_def not_found_name_def kfail_def dest: kin_invD(2) split: option.splits)

lemma kin_inv_put_stream:
  assumes "kin_inv s" and "fmlookup (streams s) arn = Some st"
    and "Name (stream st') = Name (stream st)" and "stream_ok st'"
  shows "kin_inv (put_stream arn st' s)"
  using assms by (fastforce simp: kin_inv_def put_stream_def)

lemma update_stream_meta_simps [simp]:
  "Shards (update_stream_meta f st) = Shards st" "stream (update_stream_meta f st) = f (stream st)"
  "stream_ok (update_stream_meta f st) = stream_ok st"
  by (simp_all add: update_stream_meta_def stream_ok_def)

lemma stream_ok_consumers [simp]: "stream_ok (st\<lparr>Consumers := c\<rparr>) = stream_ok st"
  by (simp add: stream_ok_def)

lemma small_close: "small_records shs \<Longrightarrow> i < length shs \<Longrightarrow> small_records (shs[i := close_shard e (shs ! i)])"
  using set_update_subset_insert [of shs i "close_shard e (shs ! i)"] nth_mem [of i shs]
  by (fastforce simp: small_records_def)

lemma small_append [simp]: "small_records (xs @ ys) = (small_records xs \<and> small_records ys)"
  by (auto simp: small_records_def)

lemma small_new [simp]: "small_records [] " "small_records (new_shard i p a r # shs) = small_records shs"
  by (auto simp: small_records_def)

lemma split_shards_small: "split_shards sid key shs = Ret (Inr shs') \<Longrightarrow> small_records shs \<Longrightarrow> small_records shs'"
  by (auto simp: split_shards_def kfail_def Let_def small_close split: option.splits if_splits dest!: find_shard_Some)

lemma merge_at_small:
  assumes "small_records shs" and "lo < length shs" and "up < length shs"
  shows "small_records (merge_at lo up shs)"
proof -
  have "Records (close_shard e (shs[lo := close_shard e (shs ! lo)] ! up)) = Records (shs ! up)" for e
    using assms by (simp add: nth_list_update)
  then show ?thesis
    using assms set_update_subset_insert small_close [OF assms(1,2)] nth_mem [OF assms(3)]
    by (fastforce simp: merge_at_def Let_def small_records_def)
qed

lemma merge_shards_small: "merge_shards x y shs = Ret (Inr shs') \<Longrightarrow> small_records shs \<Longrightarrow> small_records shs'"
  by (auto simp: merge_shards_def kfail_def split: option.splits if_splits
      intro!: merge_at_small dest!: find_last_shard_Some)

lemma append_record_small:
  "small_records shs \<Longrightarrow> i < length shs \<Longrightarrow> length (Data rec) \<le> 1024 * 1024 \<Longrightarrow> small_records (append_record rec i shs)"
  using set_update_subset_insert nth_mem [of i shs]
  by (fastforce simp: small_records_def append_record_def)

lemma split_stream_ok:
  "stream_ok st \<Longrightarrow> split_shards sid key (Shards st) = Ret (Inr shs) \<Longrightarrow> stream_ok (st\<lparr>Shards := shs\<rparr>)"
  by (auto simp: stream_ok_def intro: split_shards_inv split_shards_small)

lemma merge_stream_ok:
  "stream_ok st \<Longrightarrow> merge_shards x y (Shards st) = Ret (Inr shs) \<Longrightarrow> stream_ok (st\<lparr>Shards := shs\<rparr>)"
  by (auto simp: stream_ok_def intro: merge_shards_inv merge_shards_small)

lemma map_Records_update:
  "Records x = Records (shs ! i) \<Longrightarrow> map Records (shs[i := x]) = map Records shs"
  by (cases "i < length shs") (auto intro!: nth_equalityI simp: nth_list_update)

lemma merge_at_records:
  assumes "lo < length shs" and "up < length shs"
  shows "map Records (merge_at lo up shs) = map Records shs @ [[]]"
proof -
  have "Records (shs[lo := close_shard e (shs ! lo)] ! up) = Records (shs ! up)" for e
    using assms by (simp add: nth_list_update)
  then show ?thesis by (simp add: merge_at_def Let_def map_Records_update)
qed

section \<open>Reachable stores\<close>

text \<open>
  The stores that sequences of calls reach from the empty store. A stream is created under an ARN that
  determines its name, as the provider builds it. A restore takes the snapshot of a reachable store.
\<close>

inductive kin_reach :: "MemoryKinesisStore \<Rightarrow> bool" where
  init: "kin_reach NewMemoryKinesisStore"
| create: "kin_reach s \<Longrightarrow> CreateStream st n s = Ret (Inr s') \<Longrightarrow>
    (\<forall>old. fmlookup (streams s) (ARN st) = Some old \<longrightarrow> Name (stream old) = Name st) \<Longrightarrow> kin_reach s'"
| delete_arn: "kin_reach s \<Longrightarrow> DeleteStreamByARN arn s = Ret (Inr s') \<Longrightarrow> kin_reach s'"
| delete_name: "kin_reach s \<Longrightarrow> DeleteStreamInScope account region name s = Ret (Inr s') \<Longrightarrow> kin_reach s'"
| put: "kin_reach s \<Longrightarrow> PutRecordInScope md5 now account region name payload pk ehk s = Ret (Inr (s', r)) \<Longrightarrow>
    kin_reach s'"
| iterator: "kin_reach s \<Longrightarrow>
    CreateIteratorInScope uuid now account region name sid ty seq ts s = Ret (Inr (s', tok)) \<Longrightarrow> kin_reach s'"
| split: "kin_reach s \<Longrightarrow> SplitShardInScope account region name sid key s = Ret (Inr s') \<Longrightarrow> kin_reach s'"
| merge: "kin_reach s \<Longrightarrow> MergeShardsInScope account region name x y s = Ret (Inr s') \<Longrightarrow> kin_reach s'"
| mode: "kin_reach s \<Longrightarrow> UpdateStreamModeInScope account region name mode s = Ret (Inr s') \<Longrightarrow> kin_reach s'"
| mode_arn: "kin_reach s \<Longrightarrow> UpdateStreamModeByARN arn mode s = Ret (Inr s') \<Longrightarrow> kin_reach s'"
| retain: "kin_reach s \<Longrightarrow> SetRetentionPeriodInScope account region name hours s = Ret (Inr s') \<Longrightarrow> kin_reach s'"
| add_tags: "kin_reach s \<Longrightarrow> AddTagsInScope account region name tags s = Ret (Inr (s', e)) \<Longrightarrow> kin_reach s'"
| remove_tags: "kin_reach s \<Longrightarrow> RemoveTagsInScope account region name keys s = Ret (Inr s') \<Longrightarrow> kin_reach s'"
| get: "kin_reach s \<Longrightarrow> GetRecords uuid t1 t2 t3 t4 tok limit s = (s', r) \<Longrightarrow> kin_reach s'"
| register: "kin_reach s \<Longrightarrow> RegisterConsumer now arn cname carn s = Ret (Inr (s', c)) \<Longrightarrow> kin_reach s'"
| deregister: "kin_reach s \<Longrightarrow> DeregisterConsumer order carn s = Ret (Inr s') \<Longrightarrow> kin_reach s'"
| set_policy: "kin_reach s \<Longrightarrow> SetResourcePolicy arn policy s = Ret (Inr s') \<Longrightarrow> kin_reach s'"
| delete_policy: "kin_reach s \<Longrightarrow> DeleteResourcePolicy arn s = Ret (Inr s') \<Longrightarrow> kin_reach s'"
| reset: "kin_reach s \<Longrightarrow> kin_reach (Reset s)"
| restore: "kin_reach s \<Longrightarrow> kin_reach old \<Longrightarrow> Restore (Inr (Snapshot old)) s = Inr s' \<Longrightarrow> kin_reach s'"

definition created_stream :: "Stream \<Rightarrow> Stream" where
  "created_stream st =
     (let st1 = (if RetentionPeriodHours st = 0 then st\<lparr>RetentionPeriodHours := 24\<rparr> else st)
      in (if EncryptionType st1 = [] then st1\<lparr>EncryptionType := ''NONE''\<rparr> else st1)\<lparr>Status := StreamStatusActive\<rparr>)"

definition created :: "Stream \<Rightarrow> HashKeyRange list \<Rightarrow> streamState" where
  "created st ranges = \<lparr>stream = created_stream st, Shards = initial_shards ranges, Consumers = fmempty\<rparr>"

lemma CreateStream_Ret:
  "CreateStream st n s = Ret (Inr s') \<longleftrightarrow>
     fmlookup (nameScope s) (arn_key (ARN st) (Name st)) = None \<and>
     (\<exists>ranges. calculateHashRanges n = Ret ranges \<and>
        s' = s\<lparr>streams := fmupd (ARN st) (created st ranges) (streams s),
               nameScope := fmupd (arn_key (ARN st) (Name st)) (ARN st) (nameScope s)\<rparr>)"
proof -
  obtain account region where sc: "arnScope (ARN st) = (account, region)" by (cases "arnScope (ARN st)")
  have "CreateStream st n s =
     (if fmlookup (nameScope s) (arn_key (ARN st) (Name st)) \<noteq> None
      then kfail ''ResourceInUseException'' (''Stream '' @ Name st @ '' already exists'')
      else case calculateHashRanges n of Panic \<Rightarrow> Panic | Ret ranges \<Rightarrow>
        Ret (Inr (s\<lparr>streams := fmupd (ARN st) (created st ranges) (streams s),
               nameScope := fmupd (arn_key (ARN st) (Name st)) (ARN st) (nameScope s)\<rparr>)))"
    by (cases "calculateHashRanges n")
      (simp_all add: CreateStream_def sc arn_key_def Let_def created_def created_stream_def initial_shards_def)
  then show ?thesis by (auto simp: kfail_def split: go_result.splits)
qed

lemma created_simps [simp]:
  "Name (stream (created st ranges)) = Name st" "ARN (stream (created st ranges)) = ARN st"
  "Shards (created st ranges) = initial_shards ranges"
  by (simp_all add: created_def created_stream_def Let_def)

lemma DeleteStreamByARN_Ret:
  "DeleteStreamByARN arn s = Ret (Inr s') \<longleftrightarrow> (\<exists>st. fmlookup (streams s) arn = Some st \<and>
     s' = s\<lparr>nameScope := fmdrop (arn_key arn (Name (stream st))) (nameScope s), streams := fmdrop arn (streams s)\<rparr>)"
  by (cases "arnScope arn") (auto simp: DeleteStreamByARN_def go_bind_Ret_Inr arn_key_def)

lemma kin_inv_create:
  assumes inv: "kin_inv s" and create: "CreateStream st n s = Ret (Inr s')"
    and same: "\<forall>old. fmlookup (streams s) (ARN st) = Some old \<longrightarrow> Name (stream old) = Name st"
  shows "kin_inv s'"
proof -
  let ?sk = "arn_key (ARN st) (Name st)"
  from create obtain ranges where none: "fmlookup (nameScope s) ?sk = None"
    and ranges: "calculateHashRanges n = Ret ranges"
    and s': "s' = s\<lparr>streams := fmupd (ARN st) (created st ranges) (streams s), nameScope := fmupd ?sk (ARN st) (nameScope s)\<rparr>"
    unfolding CreateStream_Ret by blast
  have "small_records (initial_shards ranges)"
    by (auto simp: small_records_def initial_shards_eq(1) [OF ranges])
  then have "stream_ok (created st ranges)"
    using initial_shards_inv [OF ranges] by (simp add: stream_ok_def)
  moreover have "arn \<noteq> ARN st" if "fmlookup (nameScope s) sk = Some arn" for sk arn
    using kin_invD(2) [OF inv that] same none that by auto
  ultimately show ?thesis using inv unfolding s' kin_inv_def by simp metis
qed

lemma kin_inv_delete:
  assumes inv: "kin_inv s" and st: "fmlookup (streams s) arn = Some st" and sk: "sk = arn_key arn (Name (stream st))"
  shows "kin_inv (s\<lparr>nameScope := fmdrop sk (nameScope s), streams := fmdrop arn (streams s)\<rparr>)"
  using assms by (fastforce simp: kin_inv_def)

lemma route_loop_bound: "route_loop h k shs = Ret (Some i) \<Longrightarrow> k \<le> i \<and> i < k + length shs"
proof (induction shs arbitrary: k)
  case (Cons sh shs)
  from Cons.IH [of "Suc k"] Cons.prems show ?case by (auto split: if_splits option.splits)
qed simp

lemma route_bound: "routeToShard md5 shs pk ehk = Ret (Some i) \<Longrightarrow> i < length shs"
  by (auto simp: routeToShard_def split: if_splits option.splits dest: route_loop_bound)

lemma find_consumer_Some:
  "find_consumer carn s order = Some (arn, st, c) \<Longrightarrow> fmlookup (streams s) arn = Some st"
  by (induction order) (auto split: option.splits)

text \<open>The record \<open>PutRecordInScope\<close> appends to shard \<open>sh\<close>.\<close>

definition new_record :: "time \<Rightarrow> string \<Rightarrow> string \<Rightarrow> streamState \<Rightarrow> nat \<Rightarrow> KRecord" where
  "new_record now payload pk st i =
     \<lparr>SequenceNumber = seqNum (NextSeq (Shards st ! i) + 1), ApproximateArrivalTime = now, Data = payload,
      PartitionKey = pk, RecEncryptionType = EncryptionType (stream st)\<rparr>"

lemma new_record_simps [simp]:
  "SequenceNumber (new_record now payload pk st i) = seqNum (NextSeq (Shards st ! i) + 1)"
  "Data (new_record now payload pk st i) = payload"
  by (simp_all add: new_record_def)

lemma PutRecordInScope_Ret:
  "PutRecordInScope md5 now account region name payload pk ehk s = Ret (Inr (s', sid, seq)) \<longleftrightarrow>
     length payload \<le> 1024 * 1024 \<and> length pk \<le> 256 \<and>
     (\<exists>arn st i. in_scope account region name s = Ret (Inr (arn, st)) \<and>
        routeToShard md5 (Shards st) pk ehk = Ret (Some i) \<and> sid = ShardID (shard (Shards st ! i)) \<and>
        seq = seqNum (NextSeq (Shards st ! i) + 1) \<and>
        s' = put_stream arn (st\<lparr>Shards := append_record (new_record now payload pk st i) i (Shards st)\<rparr>) s)"
  by (auto simp: PutRecordInScope_def append_record_def new_record_def go_bind_Ret_Inr kfail_def Let_def not_less
      split: go_result.split_asm option.split_asm)

lemma kin_inv_put:
  assumes inv: "kin_inv s" and put: "PutRecordInScope md5 now account region name payload pk ehk s = Ret (Inr (s', r))"
  shows "kin_inv s'"
proof -
  obtain sid seq where r: "r = (sid, seq)" by (cases r)
  from put obtain arn st i where len: "length payload \<le> 1024 * 1024" and st: "fmlookup (streams s) arn = Some st"
    and route: "routeToShard md5 (Shards st) pk ehk = Ret (Some i)"
    and s': "s' = put_stream arn (st\<lparr>Shards := append_record (new_record now payload pk st i) i (Shards st)\<rparr>) s"
    unfolding r PutRecordInScope_Ret in_scope_Ret by blast
  note ok = kin_invD(1) [OF inv st, unfolded stream_ok_def]
  have i: "i < length (Shards st)" using route_bound route by blast
  show ?thesis unfolding s'
    using ok i len
    by (intro kin_inv_put_stream [OF inv st]) (simp_all add: stream_ok_def append_record_inv append_record_small)
qed

lemma CreateIteratorInScope_Ret:
  "CreateIteratorInScope uuid now account region name sid ty seq ts s = Ret (Inr (s', tok)) \<longleftrightarrow>
     (\<exists>arn st i pos. in_scope account region name s = Ret (Inr (arn, st)) \<and> find_shard sid (Shards st) = Some i \<and>
        iter_position (Shards st ! i) ty seq ts = Inr pos \<and> tok = uuid \<and>
        s' = s\<lparr>iterators := fmupd uuid \<lparr>IterStreamARN = arn, IterShardID = sid, Position = int pos,
               IterCreatedAt = now\<rparr> (iterators s)\<rparr>)"
  (is "?l = ?r")
proof
  assume ?l
  then obtain arn st where "in_scope account region name s = Ret (Inr (arn, st))"
    and "(case find_shard sid (Shards st) of
          None \<Rightarrow> kfail ''ResourceNotFoundException'' (''Shard '' @ sid @ '' not found'')
        | Some i \<Rightarrow> (case iter_position (Shards st ! i) ty seq ts of
               Inl e \<Rightarrow> Ret (Inl e)
             | Inr pos \<Rightarrow> Ret (Inr (s\<lparr>iterators := fmupd uuid \<lparr>IterStreamARN = arn, IterShardID = sid,
                              Position = int pos, IterCreatedAt = now\<rparr> (iterators s)\<rparr>, uuid)))) = Ret (Inr (s', tok))"
    unfolding CreateIteratorInScope_def go_bind_Ret_Inr by auto
  then show ?r by (auto simp: kfail_def split: option.splits sum.splits)
next
  assume ?r
  then show ?l by (auto simp: CreateIteratorInScope_def go_bind_Ret_Inr)
qed

lemma kin_reach_inv: "kin_reach s \<Longrightarrow> kin_inv s"
proof (induction rule: kin_reach.induct)
  case init
  then show ?case by (simp add: NewMemoryKinesisStore_def kin_inv_def)
next
  case (create s st n s')
  then show ?case by (blast intro: kin_inv_create)
next
  case (delete_arn s arn s')
  then show ?case
    by (auto simp: DeleteStreamByARN_Ret kin_inv_delete)
next
  case (delete_name s account region name s')
  then obtain arn st where "fmlookup (streams s) arn = Some st"
    and "scopeKey account region name = arn_key arn (Name (stream st))"
    and "s' = s\<lparr>nameScope := fmdrop (scopeKey account region name) (nameScope s), streams := fmdrop arn (streams s)\<rparr>"
    by (auto simp: DeleteStreamInScope_def Let_def not_found_name_def kfail_def split: option.splits dest: kin_invD(2))
  with delete_name.IH show ?case by (simp add: kin_inv_delete)
next
  case put
  then show ?case by (blast intro: kin_inv_put)
next
  case iterator
  then show ?case
    by (auto simp: CreateIteratorInScope_Ret)
next
  case split
  then show ?case
    by (auto simp: SplitShardInScope_def go_bind_Ret_Inr intro!: kin_inv_put_stream
        intro: split_stream_ok dest: kin_invD(1))
next
  case merge
  then show ?case
    by (auto simp: MergeShardsInScope_def go_bind_Ret_Inr intro!: kin_inv_put_stream
        intro: merge_stream_ok dest: kin_invD(1))
next
  case mode
  then show ?case
    by (auto simp: UpdateStreamModeInScope_def go_bind_Ret_Inr intro!: kin_inv_put_stream dest: kin_invD(1))
next
  case mode_arn
  then show ?case
    by (auto simp: UpdateStreamModeByARN_def go_bind_Ret_Inr intro!: kin_inv_put_stream dest: kin_invD(1))
next
  case retain
  then show ?case
    by (auto simp: SetRetentionPeriodInScope_def go_bind_Ret_Inr kfail_def split: if_splits
        intro!: kin_inv_put_stream dest: kin_invD(1))
next
  case add_tags
  then show ?case
    by (auto simp: AddTagsInScope_def go_bind_Ret_Inr Let_def intro!: kin_inv_put_stream dest: kin_invD(1))
next
  case remove_tags
  then show ?case
    by (auto simp: RemoveTagsInScope_def go_bind_Ret_Inr intro!: kin_inv_put_stream dest: kin_invD(1))
next
  case get
  then show ?case
    by (auto simp: GetRecords_def Let_def drop_iter_def split: if_splits option.splits prod.splits)
next
  case register
  then show ?case
    by (auto simp: RegisterConsumer_def go_bind_Ret_Inr kfail_def Let_def split: if_splits
        intro!: kin_inv_put_stream dest: kin_invD(1))
next
  case deregister
  then show ?case
    by (auto simp: DeregisterConsumer_def kfail_def split: option.splits
        intro!: kin_inv_put_stream dest: kin_invD(1) dest!: find_consumer_Some)
next
  case set_policy
  then show ?case
    by (auto simp: SetResourcePolicy_def go_bind_Ret_Inr intro!: kin_inv_put_stream dest: kin_invD(1))
next
  case delete_policy
  then show ?case
    by (auto simp: DeleteResourcePolicy_def go_bind_Ret_Inr intro!: kin_inv_put_stream dest: kin_invD(1))
next
  case reset
  then show ?case by (simp add: Reset_def kin_inv_def)
next
  case restore
  then show ?case by (auto simp: Restore_def Snapshot_def kin_inv_def)
qed

definition retention_cutoff :: "streamState \<Rightarrow> time \<Rightarrow> time" where
  "retention_cutoff st now = now + wrap64 (- duration_of (RetentionPeriodHours (stream st)) Hour)"

section \<open>Properties\<close>

text \<open>A store with one stream of one shard, empty and with two records.\<close>

definition demo_stream :: Stream where
  "demo_stream = \<lparr>Name = ''s'', ARN = ''arn:aws:kinesis:r:1:stream/s'', Status = [], Mode = ''PROVISIONED'',
     RetentionPeriodHours = 0, CreatedAt = 1, EncryptionType = [], KeyID = [], Tags = fmempty, ResourcePolicy = []\<rparr>"

definition demo_empty :: streamState where
  "demo_empty = created demo_stream [hash_range 0 maxHashKey]"

definition demo_store :: MemoryKinesisStore where
  "demo_store = \<lparr>streams = fmupd (ARN demo_stream) demo_empty fmempty,
     nameScope = fmupd (scopeKey ''1'' ''r'' ''s'') (ARN demo_stream) fmempty, iterators = fmempty\<rparr>"

definition demo_one :: streamState where
  "demo_one = demo_empty\<lparr>Shards := append_record (new_record 10 ''a'' ''pk'' demo_empty 0) 0 (Shards demo_empty)\<rparr>"

definition demo_state :: streamState where
  "demo_state = demo_one\<lparr>Shards := append_record (new_record 11 ''b'' ''pk'' demo_one 0) 0 (Shards demo_one)\<rparr>"

definition demo_shard :: shardState where
  "demo_shard = Shards demo_state ! 0"

definition demo_full :: MemoryKinesisStore where
  "demo_full = put_stream (ARN demo_stream) demo_state demo_store"

lemma demo_arn_key: "arn_key (ARN demo_stream) (Name demo_stream) = scopeKey ''1'' ''r'' ''s''"
  by code_simp

lemma demo_scope: "fmlookup (nameScope demo_store) (scopeKey ''1'' ''r'' ''s'') = Some (ARN demo_stream)"
  "fmlookup (streams demo_store) (ARN demo_stream) = Some demo_empty"
  by (simp_all add: demo_store_def)

lemma demo_full_scope: "in_scope ''1'' ''r'' ''s'' demo_full = Ret (Inr (ARN demo_stream, demo_state))"
  by (simp add: demo_full_def put_stream_def demo_scope)

lemma demo_shards: "Shards demo_empty = [new_shard 0 [] [] (hash_range 0 maxHashKey)]"
  by (simp add: demo_empty_def initial_shards_def)

lemma demo_shard_simps:
  "Shards demo_state = [demo_shard]" "ShardID (shard demo_shard) = shard_id 0" "IsOpen (shard demo_shard)"
  "bounds_of demo_shard = Some (0, maxHashKey)" "length (Records demo_shard) = 2" "Tags (stream demo_state) = fmempty"
  by (simp_all add: demo_shard_def demo_state_def demo_one_def demo_shards append_record_def new_shard_def
      bounds_of_def demo_empty_def created_def created_stream_def demo_stream_def initial_shards_def)

lemma demo_fresh:
  "r \<in> set (Records demo_shard) \<Longrightarrow> now \<le> 100 \<Longrightarrow> retention_cutoff demo_state now \<le> ApproximateArrivalTime r"
  by (auto simp: demo_shard_def demo_state_def demo_one_def demo_shards append_record_def new_shard_def new_record_def
      retention_cutoff_def demo_empty_def created_def created_stream_def demo_stream_def duration_of_def
      Hour_def Minute_def Second_def wrap64_def initial_shards_def)

lemma demo_route: "routeToShard (\<lambda>_. 0) (Shards demo_empty) pk [] = Ret (Some 0)" "routeToShard (\<lambda>_. 0) (Shards demo_one) pk [] = Ret (Some 0)"
  by (simp_all add: routeToShard_def demo_one_def demo_shards append_record_def new_shard_def bounds_of_def maxHashKey_def)

lemma demo_reach: "kin_reach demo_store" "kin_reach demo_full"
proof -
  have "CreateStream demo_stream 1 NewMemoryKinesisStore = Ret (Inr demo_store)"
    by (simp add: CreateStream_Ret demo_arn_key NewMemoryKinesisStore_def demo_store_def demo_empty_def
        calculateHashRanges_def Let_def)
  then show 0: "kin_reach demo_store" by (rule kin_reach.create [OF kin_reach.init]) (simp add: NewMemoryKinesisStore_def)
  let ?s1 = "put_stream (ARN demo_stream) demo_one demo_store"
  have "PutRecordInScope (\<lambda>_. 0) 10 ''1'' ''r'' ''s'' ''a'' ''pk'' [] demo_store = Ret (Inr (?s1, shard_id 0, seqNum 2))"
    unfolding PutRecordInScope_Ret in_scope_Ret
    by (simp add: demo_scope demo_route demo_one_def) (simp add: demo_shards new_shard_def)
  then have 1: "kin_reach ?s1" by (rule kin_reach.put [OF 0])
  have "PutRecordInScope (\<lambda>_. 0) 11 ''1'' ''r'' ''s'' ''b'' ''pk'' [] ?s1 = Ret (Inr (demo_full, shard_id 0, seqNum 3))"
    unfolding PutRecordInScope_Ret in_scope_Ret
    by (simp add: put_stream_def demo_scope demo_route demo_state_def demo_full_def)
      (simp add: demo_one_def demo_shards append_record_def new_shard_def)
  then show "kin_reach demo_full" by (rule kin_reach.put [OF 1])
qed

lemma owners_index: "owners h shs = length (filter (\<lambda>j. owns h (shs ! j)) [0..<length shs])"
proof -
  have "filter (owns h) shs = filter (owns h) (map ((!) shs) [0..<length shs])" by (simp add: map_nth)
  then show ?thesis unfolding owners_def by (simp only: filter_map length_map comp_def)
qed

lemma md5_in_key_space: "in_key_space (uint (d :: 128 word))"
  using uint_bounded [of d] by (simp add: in_key_space_def maxHashKey_def)

lemma single_index:
  assumes "length (filter P [0..<n]) = Suc 0" and "i < n" and "P i"
  shows "filter P [0..<n] = [i]"
proof -
  from assms(1) obtain x where x: "filter P [0..<n] = [x]" by (auto simp: length_Suc_conv)
  have "i \<in> set (filter P [0..<n])" using assms(2,3) by simp
  with x show ?thesis by simp
qed

text \<open>
  C13: In every reachable store a record of admissible size put without an explicit hash key to an
  existing stream is accepted: exactly one open shard owns the MD5 of its partition key, the record is appended to
  that shard and the answer is that shard's identifier with the next sequence number.
\<close>

theorem put_record_routes_to_owner:
  assumes "kin_reach s" and "fmlookup (nameScope s) (scopeKey account region name) = Some arn"
    and "length payload \<le> 1024 * 1024" and "length pk \<le> 256"
  shows "\<exists>st i s'. fmlookup (streams s) arn = Some st \<and>
    filter (\<lambda>j. owns (uint (md5 pk)) (Shards st ! j)) [0..<length (Shards st)] = [i] \<and>
    PutRecordInScope md5 now account region name payload pk [] s =
      Ret (Inr (s', ShardID (shard (Shards st ! i)), seqNum (NextSeq (Shards st ! i) + 1))) \<and>
    s' = put_stream arn (st\<lparr>Shards := append_record (new_record now payload pk st i) i (Shards st)\<rparr>) s"
proof -
  note inv = kin_reach_inv [OF assms(1)]
  from kin_invD(2) [OF inv assms(2)] obtain st where st: "fmlookup (streams s) arn = Some st" by blast
  then have ok: "shards_inv (Shards st)" using kin_invD(1) [OF inv] by (simp add: stream_ok_def)
  let ?h = "uint (md5 pk)"
  from shards_inv_route [OF ok md5_in_key_space [of "md5 pk"]] obtain i
    where i: "route_loop ?h 0 (Shards st) = Ret (Some i)" "i < length (Shards st)" "owns ?h (Shards st ! i)"
    by blast
  have "length (filter (\<lambda>j. owns ?h (Shards st ! j)) [0..<length (Shards st)]) = Suc 0"
    using ok md5_in_key_space [of "md5 pk"] by (simp add: shards_inv_def flip: owners_index)
  then have "filter (\<lambda>j. owns ?h (Shards st ! j)) [0..<length (Shards st)] = [i]"
    using i(2,3) by (intro single_index)
  moreover have "routeToShard md5 (Shards st) pk [] = Ret (Some i)" by (simp add: routeToShard_def i)
  ultimately show ?thesis using st assms(2-4) by (simp add: PutRecordInScope_Ret)
qed

theorem put_record_routes_to_owner_witness:
  "\<exists>st i s'. fmlookup (streams demo_store) (ARN demo_stream) = Some st \<and>
    filter (\<lambda>j. owns (uint (7 :: 128 word)) (Shards st ! j)) [0..<length (Shards st)] = [i] \<and>
    PutRecordInScope (\<lambda>_. 7) 5 ''1'' ''r'' ''s'' ''data'' ''pk'' [] demo_store =
      Ret (Inr (s', ShardID (shard (Shards st ! i)), seqNum (NextSeq (Shards st ! i) + 1)))"
  using put_record_routes_to_owner [OF demo_reach(1), of "''1''" "''r''" "''s''" "ARN demo_stream" "''data''" "''pk''" "\<lambda>_. 7" 5]
  by (auto simp: demo_scope)


text \<open>
  Splitting an open shard and merging the two children restores the parent's hash-key
  range in a new open shard, and no record of any shard is lost or moved by the two steps.
\<close>

theorem split_then_merge:
  assumes reach: "kin_reach s" and sc: "in_scope account region name s = Ret (Inr (arn, st))"
    and p: "find_shard sid (Shards st) = Some p"
    and split: "SplitShardInScope account region name sid key s = Ret (Inr s1)"
  shows "\<exists>s2 st2. MergeShardsInScope account region name (shard_id (length (Shards st)))
        (shard_id (length (Shards st) + 1)) s1 = Ret (Inr s2) \<and> fmlookup (streams s2) arn = Some st2 \<and>
      length (Shards st2) = length (Shards st) + 3 \<and>
      map Records (Shards st2) = map Records (Shards st) @ [[], [], []] \<and>
      hashKeyRange (shard (last (Shards st2))) = hashKeyRange (shard (Shards st ! p)) \<and>
      IsOpen (shard (last (Shards st2)))"
proof -
  let ?n = "length (Shards st)"
  have inv: "shards_inv (Shards st)"
    using kin_reach_inv [OF reach] sc by (auto simp: stream_ok_def dest: kin_invD(1))
  from split sc obtain shs where shs: "split_shards sid key (Shards st) = Ret (Inr shs)"
    and s1: "s1 = put_stream arn (st\<lparr>Shards := shs\<rparr>) s"
    by (auto simp: SplitShardInScope_def go_bind_Ret_Inr)
  from shs p obtain k where eq: "shs = (Shards st)[p := close_shard (seqNum (NextSeq (Shards st ! p))) (Shards st ! p)] @
        [new_shard ?n sid [] \<lparr>StartingHashKey = StartingHashKey (hashKeyRange (shard (Shards st ! p))), EndingHashKey = Itoa (k - 1)\<rparr>,
         new_shard (?n + 1) sid [] \<lparr>StartingHashKey = Itoa k, EndingHashKey = EndingHashKey (hashKeyRange (shard (Shards st ! p)))\<rparr>]"
      (is "_ = ?upd @ [?c1, ?c2]") and b: "bounds_of (Shards st ! p) \<noteq> None"
    by (auto simp: split_shards_def kfail_def Let_def not_le split: option.splits if_splits)
  have inv': "shards_inv shs" by (rule split_shards_inv [OF inv shs])
  have nth: "shs ! ?n = ?c1" "shs ! Suc ?n = ?c2" by (simp_all add: eq nth_append)
  have idx: "find_last_shard (shard_id ?n) shs = Some ?n" "find_last_shard (shard_id (Suc ?n)) shs = Some (Suc ?n)"
    using inv' by (simp_all add: find_last_shard_id shards_inv_def eq)
  from b obtain lo hi where lohi: "bounds_of (Shards st ! p) = Some (lo, hi)" by auto
  have "merge_shards (shard_id ?n) (shard_id (Suc ?n)) shs = Ret (Inr (merge_at ?n (Suc ?n) shs))"
    by (simp add: merge_shards_def idx nth bounds_parse [OF lohi])
  moreover have "map Records (merge_at ?n (Suc ?n) shs) = map Records (Shards st) @ [[], [], []]"
    by (subst merge_at_records) (simp_all add: eq map_Records_update)
  moreover have "hashKeyRange (shard (last (merge_at ?n (Suc ?n) shs))) = hashKeyRange (shard (Shards st ! p))"
      "IsOpen (shard (last (merge_at ?n (Suc ?n) shs)))"
    by (simp_all add: merge_at_def Let_def nth new_shard_def)
  moreover have "length (merge_at ?n (Suc ?n) shs) = ?n + 3" by (simp add: merge_at_def Let_def eq)
  moreover have "in_scope account region name s1 = Ret (Inr (arn, st\<lparr>Shards := shs\<rparr>))"
    using sc by (simp add: s1 put_stream_def)
  ultimately show ?thesis by (simp add: MergeShardsInScope_def put_stream_def del: in_scope_Ret)
qed

theorem split_then_merge_witness:
  "\<exists>s1 s2 st2. SplitShardInScope ''1'' ''r'' ''s'' (shard_id 0) ''5'' demo_full = Ret (Inr s1) \<and>
     MergeShardsInScope ''1'' ''r'' ''s'' (shard_id 1) (shard_id 2) s1 = Ret (Inr s2) \<and>
     fmlookup (streams s2) (ARN demo_stream) = Some st2 \<and> length (Shards st2) = 4 \<and>
     map Records (Shards st2) = map Records [demo_shard] @ [[], [], []]"
proof -
  have "parse_int ''5'' = Some 5" by code_simp
  then have "\<exists>s1. SplitShardInScope ''1'' ''r'' ''s'' (shard_id 0) ''5'' demo_full = Ret (Inr s1)"
    by (simp add: SplitShardInScope_def demo_full_scope split_shards_def demo_shard_simps maxHashKey_def)
  then obtain s1 where s1: "SplitShardInScope ''1'' ''r'' ''s'' (shard_id 0) ''5'' demo_full = Ret (Inr s1)" ..
  with split_then_merge [OF demo_reach(2) demo_full_scope, of "shard_id 0" 0 "''5''" s1] show ?thesis
    by (simp add: demo_shard_simps numeral_2_eq_2) metis
qed


lemma findSeqPosition_sorted:
  "sorted_wrt (<) (map SequenceNumber rs) \<Longrightarrow> j < length rs \<Longrightarrow>
     findSeqPosition rs (SequenceNumber (rs ! j)) after = (if after then Suc j else j)"
proof (induction rs arbitrary: j)
  case (Cons r rs)
  then show ?case by (cases j) (auto dest: nth_mem)
qed simp

text \<open>
  C15: In every reachable store the sequence numbers of a shard strictly increase as text along its
  records (for fewer than 2 to the 64 records), so an iterator at or after the sequence number of a
  record stands exactly at or just behind that record.
\<close>

theorem sequence_numbers_locate_records:
  assumes "kin_reach s" and "fmlookup (streams s) arn = Some st" and "sh \<in> set (Shards st)"
    and "length (Records sh) + 2 < 2 ^ 64"
  shows "sorted_wrt (<) (map SequenceNumber (Records sh)) \<and>
    (\<forall>j < length (Records sh). findSeqPosition (Records sh) (SequenceNumber (Records sh ! j)) False = j \<and>
       findSeqPosition (Records sh) (SequenceNumber (Records sh ! j)) True = Suc j)"
proof -
  have "seqs_ok sh" using kin_invD(1) [OF kin_reach_inv [OF assms(1)] assms(2)] assms(3)
    by (simp add: stream_ok_def shards_inv_def)
  moreover have "unat (word_of_nat (k + 2) :: 64 word) = k + 2" if "k < length (Records sh)" for k
    using that assms(4) by (simp only: unat_of_nat) simp
  ultimately have eq: "map SequenceNumber (Records sh) = map (\<lambda>k. zpad 56 (k + 2)) [0..<length (Records sh)]"
    by (simp add: seqs_ok_def seqNum_def del: of_nat_add add_2_eq_Suc' of_nat_Suc)
  then have "sorted_wrt (<) (map SequenceNumber (Records sh))"
    using assms(4) by (simp add: sorted_wrt_map sorted_wrt_iff_nth_less zpad_less_iff)
  then show ?thesis by (simp add: findSeqPosition_sorted)
qed

theorem sequence_numbers_locate_records_witness:
  "sorted_wrt (<) (map SequenceNumber (Records demo_shard)) \<and> length (Records demo_shard) = 2 \<and>
   findSeqPosition (Records demo_shard) (SequenceNumber (Records demo_shard ! 1)) True = 2"
  using sequence_numbers_locate_records [OF demo_reach(2), of "ARN demo_stream" demo_state demo_shard] demo_full_scope
  by (auto simp: demo_shard_simps)


section \<open>Reading a shard to its end\<close>

text \<open>
  A consumer that follows the tokens of \<open>GetRecords\<close>: each call has a fresh token and a time, and
  the next call uses the token the previous one returned, until a call fails or returns no token.
\<close>

fun read_chain :: "(string \<times> time) list \<Rightarrow> string \<Rightarrow> int \<Rightarrow> MemoryKinesisStore \<Rightarrow> KRecord list" where
  "read_chain [] tok limit s = []"
| "read_chain ((uuid, now) # calls) tok limit s =
     (case GetRecords uuid now now now now tok limit s of
        (s', Inl e) \<Rightarrow> []
      | (s', Inr (rs, nxt, lag)) \<Rightarrow> rs @ (if nxt = [] then [] else read_chain calls nxt limit s'))"

lemma records_loop_fresh:
  assumes "\<forall>r \<in> set rs. cutoff \<le> ApproximateArrivalTime r"
  shows "\<exists>m \<le> length rs. records_loop cutoff limit i i n sz rs = (take m rs, i + m) \<and>
    (rs \<noteq> [] \<and> int n < limit \<and> sz + length (Data (hd rs)) \<le> 10 * 1024 * 1024 \<longrightarrow> 0 < m)"
  using assms
proof (induction rs arbitrary: i n sz)
  case (Cons r rs)
  show ?case
  proof (cases "limit \<le> int n \<or> 10 * 1024 * 1024 < sz + length (Data r)")
    case False
    from Cons.IH [of "Suc i" "Suc n" "sz + length (Data r)"] Cons.prems obtain m where "m \<le> length rs"
      "records_loop cutoff limit (Suc i) (Suc i) (Suc n) (sz + length (Data r)) rs = (take m rs, Suc i + m)"
      by auto
    with False Cons.prems show ?thesis by (intro exI [of _ "Suc m"]) auto
  qed (use Cons.prems in auto)
qed simp

lemma GetRecords_step:
  assumes it: "fmlookup (iterators s) tok = Some it" "0 \<le> Position it" "now - IterCreatedAt it \<le> 5 * Minute"
    and st: "fmlookup (streams s) (IterStreamARN it) = Some st" and k: "find_shard (IterShardID it) (Shards st) = Some k"
    and small: "\<forall>r \<in> set (Records (Shards st ! k)). length (Data r) \<le> 1024 * 1024"
    and fresh: "\<forall>r \<in> set (Records (Shards st ! k)). retention_cutoff st now \<le> ApproximateArrivalTime r"
    and limit: "0 < limit" "limit \<le> 10000"
  defines "pos \<equiv> nat (Position it)" and "rs \<equiv> Records (Shards st ! k)"
  shows "\<exists>m lag s'. (pos < length rs \<longrightarrow> 0 < m) \<and> pos + m \<le> max pos (length rs) \<and> streams s' = streams s \<and>
    (if IsOpen (shard (Shards st ! k)) \<or> pos + m < length rs
     then GetRecords uuid now now now now tok limit s = (s', Inr (take m (drop pos rs), uuid, lag)) \<and>
       fmlookup (iterators s') uuid = Some (it\<lparr>Position := int (pos + m), IterCreatedAt := now\<rparr>)
     else GetRecords uuid now now now now tok limit s = (s', Inr (take m (drop pos rs), [], lag)))"
proof -
  have "\<forall>r \<in> set (drop pos rs). retention_cutoff st now \<le> ApproximateArrivalTime r"
    using fresh by (auto simp: rs_def dest: in_set_dropD)
  from records_loop_fresh [OF this, of limit pos 0 0] obtain m where m: "m \<le> length rs - pos"
    and loop: "records_loop (retention_cutoff st now) limit pos pos 0 0 (drop pos rs) = (take m (drop pos rs), pos + m)"
    and pos: "drop pos rs \<noteq> [] \<and> length (Data (hd (drop pos rs))) \<le> 10 * 1024 * 1024 \<longrightarrow> 0 < m"
    using limit by auto
  have "0 < m" if "pos < length rs"
  proof -
    have "hd (drop pos rs) \<in> set rs" using that by (simp add: hd_drop_conv_nth)
    then have "length (Data (hd (drop pos rs))) \<le> 10 * 1024 * 1024" using small by (fastforce simp: rs_def)
    with pos that show ?thesis by simp
  qed
  moreover have "\<not> 5 * Minute < time_Sub now (IterCreatedAt it)"
    using it(3) by (simp add: time_Sub_def Minute_def Second_def)
  moreover have "it\<lparr>Position := int (pos + m), IterCreatedAt := now\<rparr> = \<lparr>IterStreamARN = IterStreamARN it,
      IterShardID = IterShardID it, Position = int (pos + m), IterCreatedAt = now\<rparr>"
    by (cases it) simp
  ultimately show ?thesis using it(1) st k loop limit m
    by (cases "IsOpen (shard (Shards st ! k)) \<or> pos + m < length rs"; intro exI [of _ m])
      (auto simp: GetRecords_def Let_def drop_iter_def retention_cutoff_def rs_def pos_def simp del: of_nat_add)
qed

lemma read_chain_complete:
  assumes "fmlookup (iterators s) tok = Some it" and "0 \<le> Position it"
    and "fmlookup (streams s) (IterStreamARN it) = Some st" and "find_shard (IterShardID it) (Shards st) = Some k"
    and "\<forall>r \<in> set (Records (Shards st ! k)). length (Data r) \<le> 1024 * 1024"
    and "0 < limit" and "limit \<le> 10000"
    and "\<forall>(uuid, now) \<in> set calls. uuid \<noteq> [] \<and> t0 \<le> now \<and> now \<le> t0 + 5 * Minute \<and>
       (\<forall>r \<in> set (Records (Shards st ! k)). retention_cutoff st now \<le> ApproximateArrivalTime r)"
    and "t0 \<le> IterCreatedAt it"
    and "length (Records (Shards st ! k)) - nat (Position it) \<le> length calls"
  shows "read_chain calls tok limit s = drop (nat (Position it)) (Records (Shards st ! k))"
  using assms
proof (induction calls arbitrary: s tok it)
  case (Cons call calls)
  obtain uuid now where call: "call = (uuid, now)" by (cases call)
  let ?pos = "nat (Position it)" and ?rs = "Records (Shards st ! k)"
  note prems = Cons.prems [unfolded call]
  have now: "now - IterCreatedAt it \<le> 5 * Minute"
    "\<forall>r \<in> set ?rs. retention_cutoff st now \<le> ApproximateArrivalTime r" "uuid \<noteq> []" "t0 \<le> now"
    using prems(8,9) by auto
  from GetRecords_step [OF prems(1,2) now(1) prems(3-5) now(2) prems(6,7), of uuid]
  obtain m lag s' where m: "?pos < length ?rs \<longrightarrow> 0 < m" "?pos + m \<le> max ?pos (length ?rs)"
    and s': "streams s' = streams s"
    and step: "if IsOpen (shard (Shards st ! k)) \<or> ?pos + m < length ?rs
     then GetRecords uuid now now now now tok limit s = (s', Inr (take m (drop ?pos ?rs), uuid, lag)) \<and>
       fmlookup (iterators s') uuid = Some (it\<lparr>Position := int (?pos + m), IterCreatedAt := now\<rparr>)
     else GetRecords uuid now now now now tok limit s = (s', Inr (take m (drop ?pos ?rs), [], lag))"
    by blast
  show ?case
  proof (cases "IsOpen (shard (Shards st ! k)) \<or> ?pos + m < length ?rs")
    case True
    with step have get: "GetRecords uuid now now now now tok limit s = (s', Inr (take m (drop ?pos ?rs), uuid, lag))"
      and it': "fmlookup (iterators s') uuid = Some (it\<lparr>Position := int (?pos + m), IterCreatedAt := now\<rparr>)" by simp_all
    have "read_chain calls uuid limit s' = drop (?pos + m) ?rs"
      using Cons.IH [OF it'] prems(3-10) m s' now(4) by (auto simp del: of_nat_add)
    with get now(3) show ?thesis by (simp add: call) (metis append_take_drop_id drop_drop add.commute)
  next
    case False
    with step m show ?thesis by (auto simp: call)
  qed
qed simp

lemma reach_small_records:
  assumes "kin_reach s" and "fmlookup (streams s) arn = Some st" and "find_shard sid (Shards st) = Some k"
  shows "\<forall>r \<in> set (Records (Shards st ! k)). length (Data r) \<le> 1024 * 1024"
  using kin_invD(1) [OF kin_reach_inv [OF assms(1)] assms(2)] find_shard_Some [OF assms(3)]
  by (auto simp: stream_ok_def small_records_def dest: nth_mem)




lemma go_bind_Panic: "go_bind r f = Panic \<longleftrightarrow> r = Panic \<or> (\<exists>a. r = Ret (Inr a) \<and> f a = Panic)"
  by (auto simp: go_bind_def split: go_result.splits sum.splits)

lemma routeToShard_no_panic: "shards_inv shs \<Longrightarrow> routeToShard md5 shs pk ehk \<noteq> Panic"
  by (auto simp: routeToShard_def shards_inv_def bounds_ok_def route_loop_spec split: option.splits)

lemma list_streams_no_panic: "kin_inv s \<Longrightarrow> list_streams pfx s order \<noteq> Panic"
  by (induction order) (auto split: option.splits go_result.splits dest: kin_invD(2))

lemma in_scope_bind_no_panic:
  "kin_inv s \<Longrightarrow> (\<And>arn st. stream_ok st \<Longrightarrow> f (arn, st) \<noteq> Panic) \<Longrightarrow> go_bind (in_scope account region name s) f \<noteq> Panic"
  by (auto simp: go_bind_Panic in_scope_no_panic dest: kin_invD(1))

text \<open>
  No operation on a reachable store panics: a name always leads to a stream, the bounds of every
  shard parse, and listing finds every stream (creating a stream needs at least one shard).
\<close>

theorem kinesis_operations_never_panic:
  assumes "kin_reach s"
  shows "PutRecordInScope md5 now account region name payload pk ehk s \<noteq> Panic \<and>
    CreateIteratorInScope uuid now account region name sid ty seq ts s \<noteq> Panic \<and>
    SplitShardInScope account region name sid key s \<noteq> Panic \<and>
    MergeShardsInScope account region name sid sid' s \<noteq> Panic \<and>
    GetStreamInScope account region name s \<noteq> Panic \<and> ListShardsInScope account region name s \<noteq> Panic \<and>
    AddTagsInScope account region name tags s \<noteq> Panic \<and> RemoveTagsInScope account region name keys s \<noteq> Panic \<and>
    SetRetentionPeriodInScope account region name hours s \<noteq> Panic \<and>
    ListStreamsInScope order account region s \<noteq> Panic \<and> (CreateStream st n s = Panic \<longrightarrow> n \<le> 0)"
proof -
  note inv = kin_reach_inv [OF assms]
  note np = in_scope_bind_no_panic [OF inv]
  have "PutRecordInScope md5 now account region name payload pk ehk s \<noteq> Panic"
    unfolding PutRecordInScope_def
    by (auto intro!: np split: go_result.splits option.splits
        simp: kfail_def Let_def stream_ok_def routeToShard_no_panic)
  moreover have "CreateIteratorInScope uuid now account region name sid ty seq ts s \<noteq> Panic"
    unfolding CreateIteratorInScope_def by (intro np) (simp add: kfail_def split: option.splits sum.splits)
  moreover have "SplitShardInScope account region name sid key s \<noteq> Panic"
    unfolding SplitShardInScope_def by (intro np) (simp add: go_bind_Panic split_shards_no_panic stream_ok_def)
  moreover have "MergeShardsInScope account region name sid sid' s \<noteq> Panic"
    unfolding MergeShardsInScope_def by (intro np) (simp add: go_bind_Panic merge_shards_no_panic stream_ok_def)
  moreover have "GetStreamInScope account region name s \<noteq> Panic" "ListShardsInScope account region name s \<noteq> Panic"
      "AddTagsInScope account region name tags s \<noteq> Panic" "RemoveTagsInScope account region name keys s \<noteq> Panic"
    unfolding GetStreamInScope_def ListShardsInScope_def AddTagsInScope_def RemoveTagsInScope_def Let_def
    by (intro np; simp)+
  moreover have "SetRetentionPeriodInScope account region name hours s \<noteq> Panic"
    unfolding SetRetentionPeriodInScope_def by (simp add: kfail_def np)
  moreover have "ListStreamsInScope order account region s \<noteq> Panic"
    by (simp add: ListStreamsInScope_def list_streams_no_panic inv)
  moreover have "CreateStream st n s = Panic \<longrightarrow> n \<le> 0"
    by (cases "arnScope (ARN st)")
      (auto simp: CreateStream_def kfail_def Let_def calculateHashRanges_def split: if_splits)
  ultimately show ?thesis by blast
qed

theorem kinesis_operations_never_panic_witness:
  "PutRecordInScope (\<lambda>_. 3) 9 ''1'' ''r'' ''s'' ''x'' ''pk'' [] demo_full \<noteq> Panic \<and>
   MergeShardsInScope ''1'' ''r'' ''s'' (shard_id 0) (shard_id 0) demo_full \<noteq> Panic"
  by (simp add: kinesis_operations_never_panic [OF demo_reach(2)])


text \<open>
  When \<open>AddTagsInScope\<close> refuses a call because the stream would have more than 50 tags, the tags
  have been stored all the same: a later read returns every one of them.
\<close>

theorem add_tags_error_keeps_tags:
  assumes "in_scope account region name s = Ret (Inr (arn, st))"
    and "50 < fcard (fmdom (Tags (stream st) ++\<^sub>f tags))"
  shows "\<exists>s' e. AddTagsInScope account region name tags s = Ret (Inr (s', Some e)) \<and>
    Code e = ''InvalidArgumentException'' \<and>
    GetTagsInScope account region name s' = Ret (Inr (Tags (stream st) ++\<^sub>f tags))"
proof -
  let ?s' = "put_stream arn (update_stream_meta (\<lambda>m. m\<lparr>Tags := Tags m ++\<^sub>f tags\<rparr>) st) s"
  have "in_scope account region name ?s' = Ret (Inr (arn, update_stream_meta (\<lambda>m. m\<lparr>Tags := Tags m ++\<^sub>f tags\<rparr>) st))"
    using assms(1) by (simp add: put_stream_def)
  then show ?thesis using assms
    by (simp add: AddTagsInScope_def GetTagsInScope_def kerr_def del: in_scope_Ret)
qed

theorem add_tags_error_keeps_tags_witness:
  "\<exists>s' e. AddTagsInScope ''1'' ''r'' ''s'' (fmap_of_list (map (\<lambda>i. (Itoa i, [])) [0..50])) demo_full = Ret (Inr (s', Some e)) \<and>
    Code e = ''InvalidArgumentException''"
proof -
  let ?tags = "fmap_of_list (map (\<lambda>i. (Itoa i, [])) [0..50]) :: (string, string) fmap"
  have "fset (fmdom ?tags) = Itoa ` {0..50}" by (simp add: fset_of_list.rep_eq image_image)
  then have "fcard (fmdom ?tags) = card (Itoa ` {0..50})" by (simp add: fcard.rep_eq)
  also have "\<dots> = 51" by (subst card_image) (simp_all add: inj_on_def)
  finally have "50 < fcard (fmdom (Tags (stream demo_state) ++\<^sub>f ?tags))" by (simp add: demo_shard_simps)
  from add_tags_error_keeps_tags [OF demo_full_scope this] show ?thesis by blast
qed


text \<open>
  Deleting a stream, by ARN or by name, removes the stream and its name: in a reachable store both lookups
  then report that it does not exist, the name can be created again, and all other streams stay as they were.
\<close>

theorem delete_stream_removes_it:
  assumes "kin_reach s" and "in_scope account region name s = Ret (Inr (arn, st))"
  shows "DeleteStreamInScope account region name s = DeleteStreamByARN arn s \<and>
    (\<exists>s'. DeleteStreamByARN arn s = Ret (Inr s') \<and>
       GetStreamInScope account region name s' = not_found_name name \<and> GetStreamByARN arn s' = not_found_arn arn \<and>
       (\<forall>n \<noteq> arn. fmlookup (streams s') n = fmlookup (streams s) n) \<and>
       (\<forall>st' n. ARN st' = arn \<and> Name st' = Name (stream st) \<and> 0 < n \<longrightarrow> (\<exists>s''. CreateStream st' n s' = Ret (Inr s''))))"
proof -
  let ?s' = "s\<lparr>nameScope := fmdrop (scopeKey account region name) (nameScope s), streams := fmdrop arn (streams s)\<rparr>"
  from assms(2) have sk: "fmlookup (nameScope s) (scopeKey account region name) = Some arn"
    and st: "fmlookup (streams s) arn = Some st" by simp_all
  from kin_invD(2) [OF kin_reach_inv [OF assms(1)] sk] st
  have key: "scopeKey account region name = arn_key arn (Name (stream st))" by simp
  have del: "DeleteStreamByARN arn s = Ret (Inr ?s')" using st key by (simp add: DeleteStreamByARN_Ret)
  moreover have "DeleteStreamInScope account region name s = Ret (Inr ?s')"
    using sk by (simp add: DeleteStreamInScope_def)
  moreover have "GetStreamInScope account region name ?s' = not_found_name name" "GetStreamByARN arn ?s' = not_found_arn arn"
    by (simp_all add: GetStreamInScope_def GetStreamByARN_def in_scope_def by_arn_def not_found_name_def not_found_arn_def kfail_def)
  moreover have "\<exists>s''. CreateStream st' n ?s' = Ret (Inr s'')"
    if "ARN st' = arn \<and> Name st' = Name (stream st) \<and> 0 < n" for st' n
    using that key by (simp add: CreateStream_Ret calculateHashRanges_eq)
  ultimately show ?thesis by simp
qed

theorem delete_stream_removes_it_witness:
  "\<exists>s'. DeleteStreamByARN (ARN demo_stream) demo_full = Ret (Inr s') \<and>
    GetStreamInScope ''1'' ''r'' ''s'' s' = not_found_name ''s''"
  using delete_stream_removes_it [OF demo_reach(2) demo_full_scope] by blast


end
