(* ===== verification/Go_Base64.thy ===== *)
theory Go_Base64
  imports Go_Prelude
begin

text \<open>
  \<open>encoding/base64\<close>: \<open>base64.RawURLEncoding\<close>, the URL alphabet without padding, in Go's default
  non-strict mode. The decoder skips carriage returns and newlines, refuses every other character outside
  the alphabet and a single left-over character, and ignores the unused low bits of the last character.
\<close>

fun enc_bytes :: "nat list \<Rightarrow> nat list" where
  "enc_bytes [] = []"
| "enc_bytes [a] = [a div 4, (a mod 4) * 16]"
| "enc_bytes [a, b] = [a div 4, (a mod 4) * 16 + b div 16, (b mod 16) * 4]"
| "enc_bytes (a # b # c # rest) =
     a div 4 # ((a mod 4) * 16 + b div 16) # ((b mod 16) * 4 + c div 64) # c mod 64 # enc_bytes rest"

fun dec_sextets :: "nat list \<Rightarrow> nat list option" where
  "dec_sextets [] = Some []"
| "dec_sextets [x] = None"
| "dec_sextets [x, y] = Some [x * 4 + y div 16]"
| "dec_sextets [x, y, z] = Some [x * 4 + y div 16, (y mod 16) * 16 + z div 4]"
| "dec_sextets (x # y # z # w # rest) =
     map_option (\<lambda>bs. (x * 4 + y div 16) # ((y mod 16) * 16 + z div 4) # ((z mod 4) * 64 + w) # bs) (dec_sextets rest)"

definition url_char :: "nat \<Rightarrow> char" where
  "url_char n = char_of
     (if n < 26 then 65 + n else if n < 52 then 71 + n else if n < 62 then n - 4 else if n = 62 then 45 else 95)"

definition url_val :: "char \<Rightarrow> nat option" where
  "url_val c =
     (let n = of_char c :: nat
      in if 65 \<le> n \<and> n \<le> 90 then Some (n - 65)
         else if 97 \<le> n \<and> n \<le> 122 then Some (n - 71)
         else if 48 \<le> n \<and> n \<le> 57 then Some (n + 4)
         else if n = 45 then Some 62 else if n = 95 then Some 63 else None)"

fun all_vals :: "string \<Rightarrow> nat list option" where
  "all_vals [] = Some []"
| "all_vals (c # cs) =
     (case url_val c of None \<Rightarrow> None | Some v \<Rightarrow> map_option ((#) v) (all_vals cs))"

definition is_newline :: "char \<Rightarrow> bool" where
  "is_newline c \<longleftrightarrow> of_char c = (10 :: nat) \<or> of_char c = (13 :: nat)"

definition EncodeToString :: "string \<Rightarrow> string" where
  "EncodeToString s = map url_char (enc_bytes (map of_char s))"

definition DecodeString :: "string \<Rightarrow> string option" where
  "DecodeString s =
     (case all_vals (filter (\<lambda>c. \<not> is_newline c) s) of
        None \<Rightarrow> None
      | Some vs \<Rightarrow> map_option (map char_of) (dec_sextets vs))"

lemma enc_bytes_bound: "\<forall>b \<in> set bs. b < 256 \<Longrightarrow> \<forall>v \<in> set (enc_bytes bs). v < 64"
  by (induction bs rule: enc_bytes.induct) auto

lemma dec_enc_bytes: "\<forall>b \<in> set bs. b < 256 \<Longrightarrow> dec_sextets (enc_bytes bs) = Some bs"
proof (induction bs rule: enc_bytes.induct)
  case (4 a b c rest)
  then have "b div 16 < 16" "c div 64 < 4" by (auto simp: div_less_iff_less_mult)
  then have "b div 16 mod 16 = b div 16" "c div 64 mod 4 = c div 64" by (simp_all only: mod_less)
  with 4 show ?case by (simp add: mult.commute)
qed (auto simp: mult.commute)

lemma of_char_url_char:
  "n < 64 \<Longrightarrow> of_char (url_char n) =
     (if n < 26 then 65 + n else if n < 52 then 71 + n else if n < 62 then n - 4 else if n = 62 then 45 else 95 :: nat)"
  by (simp add: url_char_def)

lemma url_val_url_char: "n < 64 \<Longrightarrow> url_val (url_char n) = Some n"
  by (auto simp: url_val_def Let_def of_char_url_char)

lemma all_vals_url: "\<forall>v \<in> set vs. v < 64 \<Longrightarrow> all_vals (map url_char vs) = Some vs"
  by (induction vs) (auto simp: url_val_url_char)

lemma no_newline: "\<forall>v \<in> set vs. v < 64 \<Longrightarrow> filter (\<lambda>c. \<not> is_newline c) (map url_char vs) = map url_char vs"
  by (induction vs) (auto simp: is_newline_def of_char_url_char)

lemma of_char_bound: "(of_char c :: nat) < 256"
  by (metis of_char_mod_256 mod_less_divisor zero_less_numeral)

theorem decode_encode [simp]: "DecodeString (EncodeToString s) = Some s"
proof -
  have b: "\<forall>b \<in> set (map of_char s :: nat list). b < 256" by (auto simp: of_char_bound)
  show ?thesis
    using enc_bytes_bound [OF b] dec_enc_bytes [OF b]
    by (simp add: EncodeToString_def DecodeString_def no_newline all_vals_url comp_def)
qed

end
