(* ===== verification/Pubsub_Store.thy ===== *)
theory Pubsub_Store
  imports Lease_Contract Go_Base64
begin

text \<open>
  The Pub/Sub message store, \<open>src/internal/gcp/store/pubsub\<close>: \<open>store.go\<close>, \<open>memory.go\<close>,
  \<open>ackid.go\<close>, \<open>deadletter.go\<close> and the memory part of \<open>snapshot.go\<close>.

  A store keeps one map of messages per delivery queue and caches, per queue, the message identifiers in
  publish order. \<open>Pull\<close> leases messages; acknowledgements of messages with an ordering key take effect
  in publish order, an early one being held until those before it arrive. The cache is state of the model, as
  in the code: operations read the cached order even when it is stale, a missing message reads as Go's
  zero value, and a write into a queue that has no map is a panic.
  The mutex makes every operation atomic.
\<close>

section \<open>Data\<close>

record Message =
  Topic :: string
  Subscription :: string
  MessageID :: string
  Data :: string
  Attributes :: "(string, string) fmap"
  PublishTime :: time
  DeliveryAttempt :: int
  DeliveryVersion :: int
  OrderingKey :: string
  VisibleAt :: time
  Acked :: bool
  AckPending :: bool
  KmsKeyName :: string
  WrappedDEK :: string

definition zero_Message :: Message where
  "zero_Message = \<lparr>Topic = [], Subscription = [], MessageID = [], Data = [], Attributes = fmempty,
     PublishTime = 0, DeliveryAttempt = 0, DeliveryVersion = 0, OrderingKey = [], VisibleAt = 0, Acked = False,
     AckPending = False, KmsKeyName = [], WrappedDEK = []\<rparr>"

definition queueKey :: "Message \<Rightarrow> string" where
  "queueKey m = (if Subscription m \<noteq> [] then Subscription m else Topic m)"

type_synonym queue = "(string, Message) fmap"

record MemoryMessages =
  messages :: "(string, queue) fmap"
  sortedIDs :: "(string, string list) fmap"
  seq :: int

definition NewMemoryMessages :: MemoryMessages where
  "NewMemoryMessages = \<lparr>messages = fmempty, sortedIDs = fmempty, seq = 0\<rparr>"

text \<open>Reading a Go map: a missing queue is the nil map, a missing message the zero message.\<close>

definition queue_of :: "MemoryMessages \<Rightarrow> string \<Rightarrow> queue" where
  "queue_of s q = the_default fmempty (fmlookup (messages s) q)"

definition msg_of :: "queue \<Rightarrow> string \<Rightarrow> Message" where
  "msg_of msgs i = the_default zero_Message (fmlookup msgs i)"

definition put_queue :: "string \<Rightarrow> queue \<Rightarrow> MemoryMessages \<Rightarrow> MemoryMessages" where
  "put_queue q msgs s = s\<lparr>messages := fmupd q msgs (messages s)\<rparr>"

section \<open>Operations\<close>

text \<open>
  Sorting by publish time and then by identifier is a total order on the identifiers of a queue, so the
  result does not depend on the order in which Go ranges over the map.
\<close>

definition publish_order :: "queue \<Rightarrow> string list" where
  "publish_order msgs = sort_key (\<lambda>i. PublishTime (msg_of msgs i)) (sorted_list_of_set (fset (fmdom msgs)))"

definition orderedIDsLocked :: "string \<Rightarrow> MemoryMessages \<Rightarrow> MemoryMessages \<times> string list" where
  "orderedIDsLocked queue s =
     (case fmlookup (sortedIDs s) queue of
        Some ids \<Rightarrow> (s, ids)
      | None \<Rightarrow>
          (let ids = publish_order (queue_of s queue)
           in (s\<lparr>sortedIDs := fmupd queue ids (sortedIDs s)\<rparr>, ids)))"

definition drop_cache :: "string \<Rightarrow> MemoryMessages \<Rightarrow> MemoryMessages" where
  "drop_cache queue s = s\<lparr>sortedIDs := fmdrop queue (sortedIDs s)\<rparr>"

definition NextID :: "MemoryMessages \<Rightarrow> MemoryMessages \<times> string" where
  "NextID s = (let n = wrap64 (seq s + 1) in (s\<lparr>seq := n\<rparr>, Itoa n))"

definition Put :: "Message \<Rightarrow> MemoryMessages \<Rightarrow> MemoryMessages" where
  "Put m s =
     (let q = queueKey m
      in drop_cache q (put_queue q (fmupd (MessageID m) m (queue_of s q)) s))"

definition ListMessages :: "string \<Rightarrow> MemoryMessages \<Rightarrow> MemoryMessages \<times> Message list" where
  "ListMessages queue s =
     (let msgs = queue_of s queue; (s', ids) = orderedIDsLocked queue s
      in (s', map (msg_of msgs) ids))"

definition duration :: "int \<Rightarrow> duration" where
  "duration sec = duration_of sec Second"

definition outstanding :: "time \<Rightarrow> Message \<Rightarrow> bool" where
  "outstanding now m \<longleftrightarrow> \<not> IsZero (VisibleAt m) \<and> now < VisibleAt m"

text \<open>The ordering keys with an outstanding message: a set in Go, here a list of its members.\<close>

definition inFlightGroups :: "time \<Rightarrow> queue \<Rightarrow> string list" where
  "inFlightGroups now msgs =
     map OrderingKey (filter (\<lambda>m. OrderingKey m \<noteq> [] \<and> \<not> Acked m \<and> outstanding now m)
       (map (msg_of msgs) (sorted_list_of_set (fset (fmdom msgs)))))"

definition retention_expired :: "int \<Rightarrow> time \<Rightarrow> Message \<Rightarrow> bool" where
  "retention_expired retentionSec now m \<longleftrightarrow> 0 < retentionSec \<and> duration retentionSec < time_Sub now (PublishTime m)"

definition claim :: "int \<Rightarrow> time \<Rightarrow> Message \<Rightarrow> Message" where
  "claim ackDeadlineSec now m =
     m\<lparr>VisibleAt := now + duration ackDeadlineSec, DeliveryAttempt := wrap64 (DeliveryAttempt m + 1),
       DeliveryVersion := wrap64 (DeliveryVersion m + 1)\<rparr>"

text \<open>
  The loop of \<open>Pull\<close>. \<open>n\<close> is the number of messages already returned; the messages are read from the
  queue as it stands, the claim is written under the message's own identifier.
\<close>

fun pull_loop ::
    "string \<Rightarrow> int \<Rightarrow> int \<Rightarrow> int \<Rightarrow> time \<Rightarrow> string list \<Rightarrow> int \<Rightarrow> MemoryMessages \<Rightarrow> string list \<Rightarrow>
     (MemoryMessages \<times> Message list) go_result" where
  "pull_loop queue maxMessages ackDeadlineSec retentionSec now groups n s [] = Ret (s, [])"
| "pull_loop queue maxMessages ackDeadlineSec retentionSec now groups n s (i # ids) =
     (if maxMessages \<le> n then Ret (s, [])
      else
        (let m = msg_of (queue_of s queue) i
         in if retention_expired retentionSec now m then
              pull_loop queue maxMessages ackDeadlineSec retentionSec now groups n
                (drop_cache queue
                  (case fmlookup (messages s) queue of None \<Rightarrow> s | Some msgs \<Rightarrow> put_queue queue (fmdrop i msgs) s)) ids
            else if Acked m \<or> outstanding now m \<or> (OrderingKey m \<noteq> [] \<and> OrderingKey m \<in> set groups) then
              pull_loop queue maxMessages ackDeadlineSec retentionSec now groups n s ids
            else
              (let m' = claim ackDeadlineSec now m
               in case fmlookup (messages s) queue of
                    None \<Rightarrow> Panic
                  | Some msgs \<Rightarrow>
                      (case pull_loop queue maxMessages ackDeadlineSec retentionSec now groups (n + 1)
                              (put_queue queue (fmupd (MessageID m') m' msgs) s) ids of
                         Panic \<Rightarrow> Panic
                       | Ret (s', out) \<Rightarrow> Ret (s', m' # out)))))"

definition Pull ::
    "string \<Rightarrow> int \<Rightarrow> int \<Rightarrow> int \<Rightarrow> time \<Rightarrow> MemoryMessages \<Rightarrow> (MemoryMessages \<times> Message list) go_result" where
  "Pull queue maxMessages ackDeadlineSec retentionSec now s =
     (let (s', ids) = orderedIDsLocked queue s
      in pull_loop queue maxMessages ackDeadlineSec retentionSec now (inFlightGroups now (queue_of s queue)) 0 s' ids)"

definition Delete :: "string \<Rightarrow> string \<Rightarrow> MemoryMessages \<Rightarrow> MemoryMessages" where
  "Delete queue messageID s =
     (case fmlookup (messages s) queue of
        None \<Rightarrow> s
      | Some msgs \<Rightarrow>
          if fmlookup msgs messageID = None then s
          else drop_cache queue (put_queue queue (fmdrop messageID msgs) s))"

definition keyedGroupLocked :: "string \<Rightarrow> string \<Rightarrow> MemoryMessages \<Rightarrow> MemoryMessages \<times> string list" where
  "keyedGroupLocked queue key s =
     (let (s', ids) = orderedIDsLocked queue s
      in (s', filter (\<lambda>i. OrderingKey (msg_of (queue_of s queue) i) = key) ids))"

text \<open>Acknowledging one message of the queue, holding its acknowledgement, and the cascade over the later ones.\<close>

definition set_acked :: "string \<Rightarrow> queue \<Rightarrow> queue" where
  "set_acked i msgs = fmupd i ((msg_of msgs i)\<lparr>Acked := True, AckPending := False\<rparr>) msgs"

definition set_pending :: "string \<Rightarrow> queue \<Rightarrow> queue" where
  "set_pending i msgs = fmupd i ((msg_of msgs i)\<lparr>AckPending := True\<rparr>) msgs"

fun ack_cascade :: "string list \<Rightarrow> queue \<Rightarrow> queue" where
  "ack_cascade [] msgs = msgs"
| "ack_cascade (i # ids) msgs =
     (if \<not> AckPending (msg_of msgs i) then msgs else ack_cascade ids (set_acked i msgs))"

definition ack_group :: "string list \<Rightarrow> string \<Rightarrow> queue \<Rightarrow> queue" where
  "ack_group grp target msgs =
     (let before = takeWhile (\<lambda>i. i \<noteq> target) grp; after = drop (length before + 1) grp
      in if target \<notin> set grp then msgs
         else if \<exists>i \<in> set before. \<not> Acked (msg_of msgs i) then set_pending target msgs
         else ack_cascade after (set_acked target msgs))"

definition ackKeyedLocked :: "string \<Rightarrow> Message \<Rightarrow> MemoryMessages \<Rightarrow> MemoryMessages" where
  "ackKeyedLocked queue target s =
     (let (s', grp) = keyedGroupLocked queue (OrderingKey target) s
      in if MessageID target \<notin> set grp then s'
         else put_queue queue (ack_group grp (MessageID target) (queue_of s' queue)) s')"

definition Acknowledge :: "string \<Rightarrow> string \<Rightarrow> MemoryMessages \<Rightarrow> MemoryMessages" where
  "Acknowledge queue messageID s =
     (case fmlookup (messages s) queue of
        None \<Rightarrow> s
      | Some msgs \<Rightarrow>
          (case fmlookup msgs messageID of
             None \<Rightarrow> s
           | Some m \<Rightarrow>
               if OrderingKey m = [] then drop_cache queue (put_queue queue (fmdrop messageID msgs) s)
               else if Acked m then s
               else ackKeyedLocked queue m s))"

definition redeliver :: "string \<Rightarrow> queue \<Rightarrow> queue" where
  "redeliver i msgs = fmupd i ((msg_of msgs i)\<lparr>Acked := False, AckPending := False, VisibleAt := 0\<rparr>) msgs"

definition redeliverKeyedFromLocked :: "string \<Rightarrow> Message \<Rightarrow> MemoryMessages \<Rightarrow> MemoryMessages" where
  "redeliverKeyedFromLocked queue target s =
     (let (s', grp) = keyedGroupLocked queue (OrderingKey target) s;
          from = dropWhile (\<lambda>i. i \<noteq> MessageID target) grp
      in if from = [] then s' else put_queue queue (fold redeliver from (queue_of s' queue)) s')"

definition UpdateDeliveryAttempt :: "string \<Rightarrow> string \<Rightarrow> int \<Rightarrow> MemoryMessages \<Rightarrow> MemoryMessages" where
  "UpdateDeliveryAttempt queue messageID attempt s =
     (case fmlookup (messages s) queue of
        None \<Rightarrow> s
      | Some msgs \<Rightarrow>
          (case fmlookup msgs messageID of
             None \<Rightarrow> s
           | Some m \<Rightarrow> put_queue queue (fmupd messageID (m\<lparr>DeliveryAttempt := attempt\<rparr>) msgs) s))"

definition bump :: "string \<Rightarrow> queue \<Rightarrow> queue" where
  "bump i msgs =
     (case fmlookup msgs i of
        None \<Rightarrow> msgs
      | Some m \<Rightarrow> fmupd i (m\<lparr>DeliveryVersion := wrap64 (DeliveryVersion m + 1)\<rparr>) msgs)"

definition BumpDeliveryVersions :: "string \<Rightarrow> string list \<Rightarrow> MemoryMessages \<Rightarrow> MemoryMessages" where
  "BumpDeliveryVersions queue messageIDs s =
     (case fmlookup (messages s) queue of
        None \<Rightarrow> s
      | Some msgs \<Rightarrow> put_queue queue (fold bump messageIDs msgs) s)"

text \<open>\<open>ackID[lastSlash(ackID)+1:]\<close>: the whole text when there is no slash.\<close>

definition after_last_slash :: "string \<Rightarrow> string" where
  "after_last_slash t = rev (takeWhile (\<lambda>c. c \<noteq> CHR ''/'') (rev t))"

definition modify_one :: "string \<Rightarrow> int \<Rightarrow> time \<Rightarrow> string \<Rightarrow> MemoryMessages \<Rightarrow> MemoryMessages" where
  "modify_one queue seconds now ackID s =
     (let msgID = after_last_slash ackID
      in case fmlookup (queue_of s queue) msgID of
           None \<Rightarrow> s
         | Some m \<Rightarrow>
             if seconds = 0 then
               (if OrderingKey m \<noteq> [] then redeliverKeyedFromLocked queue m s
                else put_queue queue (fmupd msgID (m\<lparr>VisibleAt := 0\<rparr>) (queue_of s queue)) s)
             else if Acked m then s
             else put_queue queue (fmupd msgID (m\<lparr>VisibleAt := now + duration seconds\<rparr>) (queue_of s queue)) s)"

definition ModifyAckDeadline :: "string \<Rightarrow> string list \<Rightarrow> int \<Rightarrow> time \<Rightarrow> MemoryMessages \<Rightarrow> MemoryMessages" where
  "ModifyAckDeadline queue ackIDs seconds now s = fold (modify_one queue seconds now) ackIDs s"

definition Reset :: "MemoryMessages \<Rightarrow> MemoryMessages" where
  "Reset s = s\<lparr>messages := fmempty, sortedIDs := fmempty\<rparr>"

section \<open>Snapshots\<close>

record pubsubSnap =
  SnapMessages :: "Message list"
  SnapSeq :: int

definition IsEmpty :: "MemoryMessages \<Rightarrow> bool" where
  "IsEmpty s \<longleftrightarrow> messages s = fmempty"

text \<open>\<open>order\<close> lists the (queue, message) keys in the order the two nested map loops visit them.\<close>

definition Snapshot :: "(string \<times> string) list \<Rightarrow> MemoryMessages \<Rightarrow> pubsubSnap" where
  "Snapshot order s =
     \<lparr>SnapMessages = List.map_filter (\<lambda>(q, i). fmlookup (queue_of s q) i) order, SnapSeq = seq s\<rparr>"

definition restore_message :: "Message \<Rightarrow> (string, queue) fmap \<Rightarrow> (string, queue) fmap" where
  "restore_message m msgs =
     fmupd (queueKey m) (fmupd (MessageID m) m (the_default fmempty (fmlookup msgs (queueKey m)))) msgs"

definition Restore :: "string + pubsubSnap \<Rightarrow> MemoryMessages \<Rightarrow> string + MemoryMessages" where
  "Restore decoded s =
     (case decoded of
        Inl err \<Rightarrow> Inl err
      | Inr snap \<Rightarrow> Inr (s\<lparr>messages := fold restore_message (SnapMessages snap) fmempty, seq := SnapSeq snap\<rparr>))"

section \<open>Acknowledgement identifiers\<close>

definition EncodeAckID :: "string \<Rightarrow> string \<Rightarrow> int \<Rightarrow> string" where
  "EncodeAckID subscription messageID deliveryVersion =
     EncodeToString (subscription @ ''/'' @ messageID @ ''/'' @ Itoa deliveryVersion)"

definition DecodeAckID :: "string \<Rightarrow> (string \<times> string \<times> int) option" where
  "DecodeAckID s =
     (case DecodeString s of
        None \<Rightarrow> None
      | Some t \<Rightarrow>
          (let first = length (takeWhile (\<lambda>c. c \<noteq> CHR ''/'') t);
               tail = length (takeWhile (\<lambda>c. c \<noteq> CHR ''/'') (rev t));
               final = length t - 1 - tail
           in if CHR ''/'' \<notin> set t \<or> first = 0 \<or> final \<le> first then None
              else
                (case Atoi (drop (final + 1) t) of
                   None \<Rightarrow> None
                 | Some v \<Rightarrow> Some (take first t, drop (first + 1) (take final t), v))))"

definition AckIDCurrent :: "Message \<Rightarrow> int \<Rightarrow> time \<Rightarrow> bool" where
  "AckIDCurrent m deliveryVersion now \<longleftrightarrow>
     DeliveryVersion m = deliveryVersion \<and> \<not> (\<not> IsZero (VisibleAt m) \<and> \<not> now < VisibleAt m)"

definition InvalidAckIDValue :: string where "InvalidAckIDValue = ''PERMANENT_FAILURE_INVALID_ACK_ID''"

definition EODAckFailureMetadata :: "string list \<Rightarrow> (string, string) fmap" where
  "EODAckFailureMetadata invalidAckIDs = fold (\<lambda>i out. fmupd i InvalidAckIDValue out) invalidAckIDs fmempty"

section \<open>Dead letters\<close>

text \<open>
  The proleptic Gregorian calendar of \<open>time.Time\<close> from the day count since 1 January of year 1, and the
  layout \<open>2006-01-02T15:04:05.000-07:00\<close> applied to a UTC time.
\<close>

definition is_leap :: "int \<Rightarrow> bool" where
  "is_leap y \<longleftrightarrow> y mod 4 = 0 \<and> (y mod 100 \<noteq> 0 \<or> y mod 400 = 0)"

definition year_day :: "int \<Rightarrow> int \<times> int" where
  "year_day days =
     (let n400 = days div 146097; r400 = days mod 146097;
          n100 = min 3 (r400 div 36524); r100 = r400 - n100 * 36524;
          n4 = r100 div 1461; r4 = r100 mod 1461;
          n1 = min 3 (r4 div 365)
      in (400 * n400 + 100 * n100 + 4 * n4 + n1 + 1, r4 - n1 * 365))"

fun month_day :: "int \<Rightarrow> int \<Rightarrow> int list \<Rightarrow> int \<times> int" where
  "month_day mo d [] = (mo, d + 1)"
| "month_day mo d (len # lens) = (if d < len then (mo, d + 1) else month_day (mo + 1) (d - len) lens)"

definition month_lengths :: "int \<Rightarrow> int list" where
  "month_lengths y = [31, if is_leap y then 29 else 28, 31, 30, 31, 30, 31, 31, 30, 31, 30, 31]"

definition format_time :: "time \<Rightarrow> string" where
  "format_time t =
     (let secs = t div Second; ms = (t mod Second) div 1000000; day_secs = secs mod 86400;
          (y, yd) = year_day (secs div 86400);
          (mo, d) = month_day 1 yd (month_lengths y)
      in fmt_0d 4 y @ ''-'' @ fmt_0d 2 mo @ ''-'' @ fmt_0d 2 d @ ''T'' @ fmt_0d 2 (day_secs div 3600) @ '':'' @
         fmt_0d 2 (day_secs mod 3600 div 60) @ '':'' @ fmt_0d 2 (day_secs mod 60) @ ''.'' @ fmt_0d 3 ms @ ''+00:00'')"

definition AttrDeadLetterSourceSubscription :: string where
  "AttrDeadLetterSourceSubscription = ''CloudPubSubDeadLetterSourceSubscription''"
definition AttrDeadLetterSourceSubscriptionProject :: string where
  "AttrDeadLetterSourceSubscriptionProject = ''CloudPubSubDeadLetterSourceSubscriptionProject''"
definition AttrDeadLetterSourceDeliveryCount :: string where
  "AttrDeadLetterSourceDeliveryCount = ''CloudPubSubDeadLetterSourceDeliveryCount''"
definition AttrDeadLetterSourceTopicPublishTime :: string where
  "AttrDeadLetterSourceTopicPublishTime = ''CloudPubSubDeadLetterSourceTopicPublishTime''"

definition DeadLetterAttributes :: "string \<Rightarrow> string \<Rightarrow> int \<Rightarrow> time \<Rightarrow> (string, string) fmap" where
  "DeadLetterAttributes project subscription deliveryCount publishedAt =
     fmap_of_list
       [(AttrDeadLetterSourceSubscription, subscription),
        (AttrDeadLetterSourceSubscriptionProject, project),
        (AttrDeadLetterSourceDeliveryCount, Itoa deliveryCount),
        (AttrDeadLetterSourceTopicPublishTime, format_time publishedAt)]"

definition DeadLetterMessageAttributes ::
    "string \<Rightarrow> string \<Rightarrow> int \<Rightarrow> time \<Rightarrow> (string, string) fmap \<Rightarrow> (string, string) fmap" where
  "DeadLetterMessageAttributes project subscription deliveryCount publishedAt original =
     original ++\<^sub>f DeadLetterAttributes project subscription deliveryCount publishedAt"

definition ForwardedMessage ::
    "Message \<Rightarrow> string \<Rightarrow> string \<Rightarrow> string \<Rightarrow> time \<Rightarrow> string \<Rightarrow> string \<Rightarrow> int \<Rightarrow> Message" where
  "ForwardedMessage src topic subscription messageID forwardTime project sourceSubscription deliveryCount =
     zero_Message\<lparr>Topic := topic, Subscription := subscription, MessageID := messageID, Data := Data src,
       Attributes := DeadLetterMessageAttributes project sourceSubscription deliveryCount (PublishTime src) (Attributes src),
       PublishTime := forwardTime, DeliveryAttempt := 0, OrderingKey := OrderingKey src,
       KmsKeyName := KmsKeyName src, WrappedDEK := WrappedDEK src\<rparr>"

lemma format_time_example: "format_time (63082281600 * Second + 250 * 1000000) = ''2000-01-01T00:00:00.250+00:00''"
  by code_simp

section \<open>Publish order and the cache\<close>

lemma msg_of_simps [simp]:
  "fmlookup msgs i = Some m \<Longrightarrow> msg_of msgs i = m"
  "msg_of (fmupd i m msgs) j = (if j = i then m else msg_of msgs j)"
  "msg_of (fmdrop i msgs) j = (if j = i then zero_Message else msg_of msgs j)"
  by (auto simp: msg_of_def)

lemma queue_of_simps [simp]:
  "queue_of (put_queue q msgs s) q' = (if q' = q then msgs else queue_of s q')"
  "queue_of (s\<lparr>sortedIDs := c\<rparr>) q = queue_of s q" "queue_of (drop_cache q' s) q = queue_of s q"
  "queue_of (s\<lparr>seq := n\<rparr>) q = queue_of s q"
  "sortedIDs (put_queue q msgs s) = sortedIDs s" "seq (put_queue q msgs s) = seq s"
  "sortedIDs (drop_cache q s) = fmdrop q (sortedIDs s)" "seq (drop_cache q s) = seq s"
  by (auto simp: queue_of_def put_queue_def drop_cache_def)

lemma set_publish_order [simp]: "set (publish_order msgs) = fset (fmdom msgs)"
  by (simp add: publish_order_def)

lemma distinct_publish_order [simp]: "distinct (publish_order msgs)"
  by (simp add: publish_order_def)

lemma publish_order_cong:
  assumes "fmdom msgs = fmdom msgs'"
    and "\<And>i. i |\<in>| fmdom msgs' \<Longrightarrow> PublishTime (msg_of msgs i) = PublishTime (msg_of msgs' i)"
  shows "publish_order msgs = publish_order msgs'"
  unfolding publish_order_def assms(1) using assms(2) by (intro sort_key_cong) simp

lemma publish_order_drop: "publish_order (fmdrop i msgs) = filter (\<lambda>j. j \<noteq> i) (publish_order msgs)"
proof -
  have "sorted_list_of_set (fset (fmdom msgs) - {i}) = filter (\<lambda>j. j \<noteq> i) (sorted_list_of_set (fset (fmdom msgs)))"
    by (intro sorted_distinct_set_unique) (auto simp: sorted_wrt_filter)
  moreover have "sort_key (\<lambda>j. PublishTime (msg_of (fmdrop i msgs) j)) (filter (\<lambda>j. j \<noteq> i) xs) =
      sort_key (\<lambda>j. PublishTime (msg_of msgs j)) (filter (\<lambda>j. j \<noteq> i) xs)" for xs
    by (rule sort_key_cong) auto
  ultimately show ?thesis by (simp add: publish_order_def filter_sort)
qed

definition cache_ok :: "MemoryMessages \<Rightarrow> bool" where
  "cache_ok s \<longleftrightarrow> (\<forall>q ids. fmlookup (sortedIDs s) q = Some ids \<longrightarrow> ids = publish_order (queue_of s q))"

definition keys_ok :: "MemoryMessages \<Rightarrow> bool" where
  "keys_ok s \<longleftrightarrow> (\<forall>q i m. fmlookup (queue_of s q) i = Some m \<longrightarrow> MessageID m = i \<and> queueKey m = q)"

definition pub_inv :: "MemoryMessages \<Rightarrow> bool" where
  "pub_inv s \<longleftrightarrow> cache_ok s \<and> keys_ok s"

lemma pub_invD: "pub_inv s \<Longrightarrow> fmlookup (queue_of s q) i = Some m \<Longrightarrow> MessageID m = i \<and> queueKey m = q"
  by (auto simp: pub_inv_def keys_ok_def)

text \<open>Updates that keep what the cache and the keys depend on.\<close>

definition keeps :: "queue \<Rightarrow> queue \<Rightarrow> bool" where
  "keeps msgs msgs' \<longleftrightarrow> fmdom msgs' = fmdom msgs \<and>
     (\<forall>i. i |\<in>| fmdom msgs \<longrightarrow> PublishTime (msg_of msgs' i) = PublishTime (msg_of msgs i) \<and>
        MessageID (msg_of msgs' i) = MessageID (msg_of msgs i) \<and> queueKey (msg_of msgs' i) = queueKey (msg_of msgs i) \<and>
        OrderingKey (msg_of msgs' i) = OrderingKey (msg_of msgs i))"

lemma keeps_refl [simp]: "keeps msgs msgs"
  by (simp add: keeps_def)

lemma keeps_trans: "keeps a b \<Longrightarrow> keeps b c \<Longrightarrow> keeps a c"
  by (simp add: keeps_def)

lemma keeps_fmupd:
  "i |\<in>| fmdom msgs \<Longrightarrow> PublishTime m = PublishTime (msg_of msgs i) \<Longrightarrow> MessageID m = MessageID (msg_of msgs i) \<Longrightarrow>
     queueKey m = queueKey (msg_of msgs i) \<Longrightarrow> OrderingKey m = OrderingKey (msg_of msgs i) \<Longrightarrow> keeps msgs (fmupd i m msgs)"
  by (auto simp: keeps_def)

lemma keeps_fold:
  assumes "\<And>x msgs. x \<in> set xs \<Longrightarrow> x |\<in>| fmdom msgs \<Longrightarrow> keeps msgs (f x msgs)" and "\<forall>x \<in> set xs. x |\<in>| fmdom msgs"
  shows "keeps msgs (fold f xs msgs)"
  using assms
proof (induction xs arbitrary: msgs)
  case (Cons x xs)
  then have step: "keeps msgs (f x msgs)" by simp
  then have "keeps (f x msgs) (fold f xs (f x msgs))" using Cons by (intro Cons.IH) (auto simp: keeps_def)
  with step show ?case by (simp add: keeps_trans)
qed simp

lemma queueKey_update [simp]:
  "queueKey (m\<lparr>Acked := b\<rparr>) = queueKey m" "queueKey (m\<lparr>AckPending := b\<rparr>) = queueKey m"
  "queueKey (m\<lparr>VisibleAt := t\<rparr>) = queueKey m" "queueKey (m\<lparr>DeliveryAttempt := k\<rparr>) = queueKey m"
  "queueKey (m\<lparr>DeliveryVersion := k\<rparr>) = queueKey m" "queueKey (claim d now m) = queueKey m"
  by (simp_all add: queueKey_def claim_def)

lemma pub_inv_keeps:
  assumes inv: "pub_inv s" and keeps: "keeps (queue_of s q) msgs"
  shows "pub_inv (put_queue q msgs s)"
proof -
  have "publish_order msgs = publish_order (queue_of s q)"
    using keeps by (intro publish_order_cong) (auto simp: keeps_def)
  then have "cache_ok (put_queue q msgs s)" using inv by (auto simp: pub_inv_def cache_ok_def)
  moreover have "MessageID m = i \<and> queueKey m = q" if "fmlookup msgs i = Some m" for i m
  proof -
    from that keeps have "i |\<in>| fmdom (queue_of s q)" by (metis fmdomI keeps_def)
    then obtain m0 where "fmlookup (queue_of s q) i = Some m0" by (meson fmdomE)
    moreover from this have "MessageID (msg_of msgs i) = MessageID m0 \<and> queueKey (msg_of msgs i) = queueKey m0"
      using keeps by (auto simp: keeps_def dest: fmdomI)
    ultimately show ?thesis using that pub_invD [OF inv] by simp
  qed
  ultimately show ?thesis using inv by (auto simp: pub_inv_def keys_ok_def)
qed

lemma pub_inv_drop:
  assumes inv: "pub_inv s" and sub: "\<And>i m. fmlookup msgs i = Some m \<Longrightarrow> MessageID m = i \<and> queueKey m = q"
  shows "pub_inv (drop_cache q (put_queue q msgs s))"
  using assms by (auto simp: pub_inv_def cache_ok_def keys_ok_def)

lemma pub_inv_cache: "pub_inv s \<Longrightarrow> pub_inv (s\<lparr>sortedIDs := fmupd q (publish_order (queue_of s q)) (sortedIDs s)\<rparr>)"
  by (auto simp: pub_inv_def cache_ok_def keys_ok_def)

lemma orderedIDsLocked_ok:
  assumes "pub_inv s"
  obtains s' where "orderedIDsLocked q s = (s', publish_order (queue_of s q))" and "pub_inv s'"
    and "messages s' = messages s" and "seq s' = seq s"
proof (cases "fmlookup (sortedIDs s) q")
  case None
  let ?s = "s\<lparr>sortedIDs := fmupd q (publish_order (queue_of s q)) (sortedIDs s)\<rparr>"
  from None assms show ?thesis by (intro that [of ?s]) (simp_all add: orderedIDsLocked_def pub_inv_cache Let_def)
next
  case (Some ids)
  then have "ids = publish_order (queue_of s q)" using assms by (simp add: pub_inv_def cache_ok_def)
  with Some assms show ?thesis by (intro that) (simp_all add: orderedIDsLocked_def)
qed

section \<open>Pull\<close>

definition eligible :: "int \<Rightarrow> time \<Rightarrow> string list \<Rightarrow> Message \<Rightarrow> bool" where
  "eligible retentionSec now groups m \<longleftrightarrow> \<not> retention_expired retentionSec now m \<and> \<not> Acked m \<and> \<not> outstanding now m \<and>
     \<not> (OrderingKey m \<noteq> [] \<and> OrderingKey m \<in> set groups)"

lemma pull_claim_simps [simp]:
  "MessageID (claim d now m) = MessageID m" "PublishTime (claim d now m) = PublishTime m"
  "OrderingKey (claim d now m) = OrderingKey m" "Acked (claim d now m) = Acked m"
  "VisibleAt (claim d now m) = now + duration d"
  by (simp_all add: claim_def)

text \<open>What one run of the loop does to the queue, seen from the state before it.\<close>

definition pulled :: "int \<Rightarrow> int \<Rightarrow> time \<Rightarrow> queue \<Rightarrow> string set \<Rightarrow> queue \<Rightarrow> bool" where
  "pulled d retentionSec now msgs claimed msgs' \<longleftrightarrow>
     (\<forall>j. if j \<in> claimed then fmlookup msgs' j = map_option (claim d now) (fmlookup msgs j)
          else fmlookup msgs' j = fmlookup msgs j \<or>
               fmlookup msgs' j = None \<and> retention_expired retentionSec now (msg_of msgs j))"

lemma retention_claim [simp]: "retention_expired ret now (claim d t m) = retention_expired ret now m"
  by (simp add: retention_expired_def)

lemma pulled_drop:
  assumes "pulled d ret now (fmdrop i msgs) C msgs'" and "retention_expired ret now (msg_of msgs i)" and "i \<notin> C"
  shows "pulled d ret now msgs C msgs'"
  unfolding pulled_def
proof
  fix j
  from assms(1) have "if j \<in> C then fmlookup msgs' j = map_option (claim d now) (fmlookup (fmdrop i msgs) j)
      else fmlookup msgs' j = fmlookup (fmdrop i msgs) j \<or>
           fmlookup msgs' j = None \<and> retention_expired ret now (msg_of (fmdrop i msgs) j)"
    unfolding pulled_def by (rule spec)
  with assms(2,3) show "if j \<in> C then fmlookup msgs' j = map_option (claim d now) (fmlookup msgs j)
      else fmlookup msgs' j = fmlookup msgs j \<or> fmlookup msgs' j = None \<and> retention_expired ret now (msg_of msgs j)"
    by (cases "j = i"; cases "j \<in> C") auto
qed

lemma pulled_claim:
  assumes "pulled d ret now (fmupd i (claim d now m) msgs) C msgs'" and "fmlookup msgs i = Some m" and "i \<notin> C"
    and "\<not> retention_expired ret now m"
  shows "pulled d ret now msgs (insert i C) msgs'"
  unfolding pulled_def
proof
  fix j
  from assms(1) have "if j \<in> C then fmlookup msgs' j = map_option (claim d now) (fmlookup (fmupd i (claim d now m) msgs) j)
      else fmlookup msgs' j = fmlookup (fmupd i (claim d now m) msgs) j \<or>
           fmlookup msgs' j = None \<and> retention_expired ret now (msg_of (fmupd i (claim d now m) msgs) j)"
    unfolding pulled_def by (rule spec)
  with assms(2-4) show "if j \<in> insert i C then fmlookup msgs' j = map_option (claim d now) (fmlookup msgs j)
      else fmlookup msgs' j = fmlookup msgs j \<or> fmlookup msgs' j = None \<and> retention_expired ret now (msg_of msgs j)"
    by (cases "j = i"; cases "j \<in> C") auto
qed

lemma claimed_ids:
  assumes "pub_inv s" and "set ids \<subseteq> fset (fmdom (queue_of s q))"
  shows "MessageID ` set (map (claim d now) (take k (filter P (map (msg_of (queue_of s q)) ids)))) \<subseteq> set ids"
proof -
  have "MessageID (msg_of (queue_of s q) i) = i" if "i \<in> set ids" for i
    using that assms(2) pub_invD [OF assms(1)] by (metis fmdomE msg_of_simps(1) subsetD)
  then show ?thesis by (auto dest!: in_set_takeD)
qed

definition pull_spec ::
    "string \<Rightarrow> int \<Rightarrow> int \<Rightarrow> int \<Rightarrow> time \<Rightarrow> string list \<Rightarrow> int \<Rightarrow> MemoryMessages \<Rightarrow> string list \<Rightarrow>
     MemoryMessages \<Rightarrow> Message list \<Rightarrow> bool" where
  "pull_spec q mx d ret now groups n s ids s' out \<longleftrightarrow>
     pull_loop q mx d ret now groups n s ids = Ret (s', out) \<and> pub_inv s' \<and>
     out = map (claim d now) (take (nat (mx - n)) (filter (eligible ret now groups) (map (msg_of (queue_of s q)) ids))) \<and>
     pulled d ret now (queue_of s q) (MessageID ` set out) (queue_of s' q) \<and>
     (\<forall>q'. q' \<noteq> q \<longrightarrow> queue_of s' q' = queue_of s q') \<and> seq s' = seq s"

lemma pull_loop_ok:
  assumes "pub_inv s" and "distinct ids" and "set ids \<subseteq> fset (fmdom (queue_of s q))"
  shows "\<exists>s' out. pull_spec q mx d ret now groups n s ids s' out"
  using assms
proof (induction ids arbitrary: n s)
  case Nil
  then show ?case by (simp add: pull_spec_def pulled_def)
next
  case (Cons i ids)
  obtain m where m: "fmlookup (queue_of s q) i = Some m" using Cons.prems(3) by (metis fmdomE list.set_intros(1) subsetD)
  note key = pub_invD [OF Cons.prems(1) m]
  from m obtain msgs where msgs: "fmlookup (messages s) q = Some msgs" "queue_of s q = msgs"
    by (cases "fmlookup (messages s) q") (auto simp: queue_of_def)
  consider (stop) "mx \<le> n" | (expired) "n < mx" "retention_expired ret now m"
    | (skip) "n < mx" "\<not> retention_expired ret now m" "\<not> eligible ret now groups m"
    | (claim) "n < mx" "eligible ret now groups m"
    unfolding eligible_def by (metis not_le)
  then show ?case
  proof cases
    case stop
    with Cons.prems(1) show ?thesis by (simp add: pull_spec_def pulled_def)
  next
    case expired
    let ?s = "drop_cache q (put_queue q (fmdrop i msgs) s)"
    have inv: "pub_inv ?s" using Cons.prems(1) msgs(2)
      by (intro pub_inv_drop) (auto split: if_splits dest: pub_invD)
    have same: "map (msg_of (fmdrop i msgs)) ids = map (msg_of msgs) ids" using Cons.prems(2) by auto
    have sub: "set ids \<subseteq> fset (fmdom (queue_of ?s q))" using Cons.prems(2,3) msgs by auto
    from Cons.IH [OF inv _ sub, of n] Cons.prems(2) obtain s' out where
      spec: "pull_spec q mx d ret now groups n ?s ids s' out" by auto
    then have IH: "pull_loop q mx d ret now groups n ?s ids = Ret (s', out)" "pub_inv s'"
        "out = map (claim d now) (take (nat (mx - n)) (filter (eligible ret now groups) (map (msg_of msgs) ids)))"
        "pulled d ret now (fmdrop i msgs) (MessageID ` set out) (queue_of s' q)"
        "\<forall>q'. q' \<noteq> q \<longrightarrow> queue_of s' q' = queue_of s q'" "seq s' = seq s"
      by (auto simp: pull_spec_def same)
    have "MessageID ` set out \<subseteq> set ids"
      using claimed_ids [OF inv sub, of d now "nat (mx - n)" "eligible ret now groups"]
      unfolding IH(3) queue_of_simps by (simp only: same if_True refl)
    then have "i \<notin> MessageID ` set out" using Cons.prems(2) by auto
    then have "pulled d ret now msgs (MessageID ` set out) (queue_of s' q)"
      using expired(2) m msgs(2) by (intro pulled_drop [OF IH(4)]) simp_all
    moreover have "pull_loop q mx d ret now groups n s (i # ids) = Ret (s', out)"
      using expired m msgs IH(1) by simp
    ultimately show ?thesis using IH(2,3,5,6) expired m msgs(2)
      by (intro exI [of _ s'] exI [of _ out]) (simp add: pull_spec_def eligible_def)
  next
    case skip
    from Cons.IH [OF Cons.prems(1), of n] Cons.prems(2,3) obtain s' out where
      "pull_spec q mx d ret now groups n s ids s' out" by auto
    with skip m show ?thesis by (intro exI [of _ s'] exI [of _ out]) (auto simp: pull_spec_def eligible_def)
  next
    case claim
    let ?s = "put_queue q (fmupd i (claim d now m) msgs) s"
    have inv: "pub_inv ?s" using Cons.prems(1) m msgs
      by (intro pub_inv_keeps) (auto intro!: keeps_fmupd dest: fmdomI)
    have same: "map (msg_of (fmupd i (claim d now m) msgs)) ids = map (msg_of msgs) ids" using Cons.prems(2) by auto
    have sub: "set ids \<subseteq> fset (fmdom (queue_of ?s q))" using Cons.prems(3) msgs by auto
    from Cons.IH [OF inv _ sub, of "n + 1"] Cons.prems(2) obtain s' out where
      spec: "pull_spec q mx d ret now groups (n + 1) ?s ids s' out" by auto
    then have IH: "pull_loop q mx d ret now groups (n + 1) ?s ids = Ret (s', out)" "pub_inv s'"
        "out = map (claim d now) (take (nat (mx - (n + 1))) (filter (eligible ret now groups) (map (msg_of msgs) ids)))"
        "pulled d ret now (fmupd i (claim d now m) msgs) (MessageID ` set out) (queue_of s' q)"
        "\<forall>q'. q' \<noteq> q \<longrightarrow> queue_of s' q' = queue_of s q'" "seq s' = seq s"
      by (auto simp: pull_spec_def same)
    have "MessageID ` set out \<subseteq> set ids"
      using claimed_ids [OF inv sub, of d now "nat (mx - (n + 1))" "eligible ret now groups"]
      unfolding IH(3) queue_of_simps by (simp only: same if_True refl)
    then have "i \<notin> MessageID ` set out" using Cons.prems(2) by auto
    then have "pulled d ret now msgs (insert i (MessageID ` set out)) (queue_of s' q)"
      using claim m msgs(2) by (intro pulled_claim [OF IH(4)]) (simp_all add: eligible_def)
    moreover have "pull_loop q mx d ret now groups n s (i # ids) = Ret (s', claim d now m # out)"
      using claim m msgs IH(1) key by (auto simp: eligible_def)
    moreover have "nat (mx - n) = Suc (nat (mx - (n + 1)))" using claim by simp
    ultimately show ?thesis using IH(2,3,5,6) claim m msgs(2) key
      by (intro exI [of _ s'] exI [of _ "claim d now m # out"]) (simp add: pull_spec_def)
  qed
qed

lemma pulledD:
  "pulled d ret now msgs C msgs' \<Longrightarrow> j \<in> C \<Longrightarrow> fmlookup msgs' j = map_option (claim d now) (fmlookup msgs j)"
  "pulled d ret now msgs C msgs' \<Longrightarrow> j \<notin> C \<Longrightarrow> fmlookup msgs' j = fmlookup msgs j \<or>
     fmlookup msgs' j = None \<and> retention_expired ret now (msg_of msgs j)"
  unfolding pulled_def by (drule spec [of _ j]; simp)+

lemma Pull_ok:
  assumes "pub_inv s"
  obtains s' out where "Pull q mx d ret now s = Ret (s', out)" and "pub_inv s'"
    and "out = map (claim d now) (take (nat mx) (filter (eligible ret now (inFlightGroups now (queue_of s q)))
           (map (msg_of (queue_of s q)) (publish_order (queue_of s q)))))"
    and "pulled d ret now (queue_of s q) (MessageID ` set out) (queue_of s' q)"
    and "\<forall>q'. q' \<noteq> q \<longrightarrow> queue_of s' q' = queue_of s q'" and "seq s' = seq s"
proof -
  obtain s1 where s1: "orderedIDsLocked q s = (s1, publish_order (queue_of s q))" "pub_inv s1"
    "messages s1 = messages s" "seq s1 = seq s"
    using orderedIDsLocked_ok [OF assms] by blast
  have same: "queue_of s1 q' = queue_of s q'" for q' by (simp add: queue_of_def s1)
  obtain s' out where "pull_spec q mx d ret now (inFlightGroups now (queue_of s q)) 0 s1 (publish_order (queue_of s q)) s' out"
    using pull_loop_ok [OF s1(2), of "publish_order (queue_of s q)" q mx d ret now "inFlightGroups now (queue_of s q)" 0]
    by (auto simp: same)
  then show ?thesis
    by (intro that [of s' out]) (auto simp: pull_spec_def Pull_def s1 same)
qed

section \<open>The lease contract\<close>

definition withheld_in :: "string \<Rightarrow> MemoryMessages \<Rightarrow> string \<Rightarrow> time \<Rightarrow> bool" where
  "withheld_in q s i t \<longleftrightarrow>
     (case fmlookup (queue_of s q) i of None \<Rightarrow> True | Some m \<Rightarrow> Acked m \<or> outstanding t m)"

text \<open>One \<open>Pull\<close> with its maximum, acknowledgement deadline and retention, giving the identifiers returned.\<close>

definition pull_ids :: "string \<Rightarrow> MemoryMessages \<Rightarrow> int \<times> int \<times> int \<Rightarrow> time \<Rightarrow> MemoryMessages \<times> string list" where
  "pull_ids q s a now =
     (case Pull q (fst a) (fst (snd a)) (snd (snd a)) now s of
        Panic \<Rightarrow> (s, [])
      | Ret (s', out) \<Rightarrow> (s', map MessageID out))"

lemma ordered_message:
  assumes "pub_inv s" and "m \<in> set (map (msg_of (queue_of s q)) (publish_order (queue_of s q)))"
  shows "fmlookup (queue_of s q) (MessageID m) = Some m"
proof -
  from assms(2) obtain i where i: "i |\<in>| fmdom (queue_of s q)" "m = msg_of (queue_of s q) i" by auto
  from i(1) obtain m' where m': "fmlookup (queue_of s q) i = Some m'" by (meson fmdomE)
  with i(2) pub_invD [OF assms(1) m'] show ?thesis by simp
qed

lemma pull_ids_spec:
  assumes "pub_inv s" and "i \<in> set (snd (pull_ids q s a now))"
  obtains m where "fmlookup (queue_of s q) i = Some m" and "\<not> Acked m" and "\<not> outstanding now m"
    and "fmlookup (queue_of (fst (pull_ids q s a now)) q) i = Some (claim (fst (snd a)) now m)"
proof -
  obtain s' out where P: "Pull q (fst a) (fst (snd a)) (snd (snd a)) now s = Ret (s', out)"
    and out: "out = map (claim (fst (snd a)) now) (take (nat (fst a)) (filter (eligible (snd (snd a)) now (inFlightGroups now (queue_of s q)))
           (map (msg_of (queue_of s q)) (publish_order (queue_of s q)))))"
    and pulled: "pulled (fst (snd a)) (snd (snd a)) now (queue_of s q) (MessageID ` set out) (queue_of s' q)"
    using Pull_ok [OF assms(1)] by blast
  from assms(2) have i: "i \<in> MessageID ` set out" by (simp add: pull_ids_def P)
  then obtain m where m: "i = MessageID m" "eligible (snd (snd a)) now (inFlightGroups now (queue_of s q)) m"
      "m \<in> set (map (msg_of (queue_of s q)) (publish_order (queue_of s q)))"
    unfolding out by (auto dest!: in_set_takeD)
  from ordered_message [OF assms(1) m(3)] have look: "fmlookup (queue_of s q) i = Some m" by (simp add: m)
  moreover have "fmlookup (queue_of s' q) i = map_option (claim (fst (snd a)) now) (fmlookup (queue_of s q) i)"
    using pulled i by (rule pulledD)
  ultimately show ?thesis using m by (intro that [of m]) (auto simp: eligible_def pull_ids_def P)
qed

lemma pull_ids_frame:
  assumes "pub_inv s" and "i \<notin> set (snd (pull_ids q s a now))"
  shows "fmlookup (queue_of (fst (pull_ids q s a now)) q) i \<in> {None, fmlookup (queue_of s q) i}"
proof -
  obtain s' out where P: "Pull q (fst a) (fst (snd a)) (snd (snd a)) now s = Ret (s', out)"
    and pulled: "pulled (fst (snd a)) (snd (snd a)) now (queue_of s q) (MessageID ` set out) (queue_of s' q)"
    using Pull_ok [OF assms(1)] by blast
  have "i \<notin> MessageID ` set out" using assms(2) by (simp add: pull_ids_def P)
  from pulledD(2) [OF pulled this] show ?thesis by (auto simp: pull_ids_def P)
qed

lemma pull_ids_inv: "pub_inv s \<Longrightarrow> pub_inv (fst (pull_ids q s a now))"
  using Pull_ok [of s q "fst a" "fst (snd a)" "snd (snd a)" now] by (fastforce simp: pull_ids_def)

lemma pull_ids_distinct:
  assumes "pub_inv s"
  shows "distinct (snd (pull_ids q s a now))"
proof -
  let ?msgs = "queue_of s q"
  obtain s' out where P: "Pull q (fst a) (fst (snd a)) (snd (snd a)) now s = Ret (s', out)"
    and out: "out = map (claim (fst (snd a)) now) (take (nat (fst a)) (filter (eligible (snd (snd a)) now (inFlightGroups now ?msgs))
           (map (msg_of ?msgs) (publish_order ?msgs))))"
    using Pull_ok [OF assms] by blast
  have ids: "map MessageID (map (msg_of ?msgs) (publish_order ?msgs)) = publish_order ?msgs"
    using pub_invD [OF assms] by (auto intro!: map_idI) (metis fmdomE msg_of_simps(1))
  have "subseq out (map (claim (fst (snd a)) now) (map (msg_of ?msgs) (publish_order ?msgs)))"
    unfolding out by (intro subseq_map) (meson subseq_filter_left take_is_prefix prefix_imp_subseq subseq_order.order_trans)
  then have "subseq (map MessageID out) (publish_order ?msgs)"
    using subseq_map [of out _ MessageID] ids by (fastforce simp: comp_def)
  then show ?thesis by (auto simp: pull_ids_def P intro: subseq_distinct)
qed

interpretation pubsub: lease_store pub_inv "withheld_in q" "pull_ids q" "\<lambda>a. duration (fst (snd a))"
  for q
proof
  fix s :: MemoryMessages and a now and i t
  assume inv: "pub_inv s"
  show "pub_inv (fst (pull_ids q s a now))" using inv by (rule pull_ids_inv)
  show "distinct (snd (pull_ids q s a now))" using inv by (rule pull_ids_distinct)
  show "\<not> withheld_in q s i now" if "i \<in> set (snd (pull_ids q s a now))"
    by (rule pull_ids_spec [OF inv that]) (simp add: withheld_in_def)
  show "withheld_in q (fst (pull_ids q s a now)) i t"
    if "i \<in> set (snd (pull_ids q s a now))" "0 \<le> t" "t < now + duration (fst (snd a))"
    by (rule pull_ids_spec [OF inv that(1)]) (use that(2,3) in \<open>auto simp: withheld_in_def outstanding_def IsZero_def\<close>)
  show "withheld_in q (fst (pull_ids q s a now)) i t"
    if "withheld_in q s i t" "i \<notin> set (snd (pull_ids q s a now))"
    using pull_ids_frame [OF inv that(2)] that(1) by (auto simp: withheld_in_def)
qed

section \<open>Ordered acknowledgement\<close>

definition group_of :: "string \<Rightarrow> string \<Rightarrow> MemoryMessages \<Rightarrow> string list" where
  "group_of q key s = filter (\<lambda>i. OrderingKey (msg_of (queue_of s q) i) = key) (publish_order (queue_of s q))"

lemma set_group_of: "set (group_of q key s) = {i. i |\<in>| fmdom (queue_of s q) \<and> OrderingKey (msg_of (queue_of s q) i) = key}"
  by (auto simp: group_of_def)

lemma distinct_group_of [simp]: "distinct (group_of q key s)"
  by (simp add: group_of_def)

lemma keyedGroupLocked_ok:
  assumes "pub_inv s"
  obtains s' where "keyedGroupLocked q key s = (s', group_of q key s)" and "pub_inv s'"
    and "messages s' = messages s" and "seq s' = seq s"
proof -
  obtain s1 where "orderedIDsLocked q s = (s1, publish_order (queue_of s q))" "pub_inv s1"
    "messages s1 = messages s" "seq s1 = seq s"
    using orderedIDsLocked_ok [OF assms] by blast
  then show ?thesis by (intro that [of s1]) (simp_all add: keyedGroupLocked_def group_of_def)
qed

lemma group_of_keeps:
  assumes "keeps (queue_of s q) (queue_of s' q)"
  shows "group_of q key s' = group_of q key s"
proof -
  have "publish_order (queue_of s' q) = publish_order (queue_of s q)"
    using assms by (intro publish_order_cong) (auto simp: keeps_def)
  then show ?thesis using assms by (auto simp: group_of_def keeps_def intro!: filter_cong)
qed

lemma set_acked_simps [simp]:
  "msg_of (set_acked i msgs) j = (if j = i then (msg_of msgs i)\<lparr>Acked := True, AckPending := False\<rparr> else msg_of msgs j)"
  "msg_of (set_pending i msgs) j = (if j = i then (msg_of msgs i)\<lparr>AckPending := True\<rparr> else msg_of msgs j)"
  by (simp_all add: set_acked_def set_pending_def)

lemma ack_cascade_other: "j \<notin> set ids \<Longrightarrow> msg_of (ack_cascade ids msgs) j = msg_of msgs j"
  by (induction ids msgs rule: ack_cascade.induct) auto

lemma ack_group_other:
  assumes "j \<notin> set grp"
  shows "msg_of (ack_group grp i msgs) j = msg_of msgs j"
proof -
  have "j \<notin> set (drop k grp)" for k using assms by (auto dest: in_set_dropD)
  with assms show ?thesis by (auto simp: ack_group_def Let_def ack_cascade_other)
qed

lemma keeps_set_acked: "i |\<in>| fmdom msgs \<Longrightarrow> keeps msgs (set_acked i msgs)" "i |\<in>| fmdom msgs \<Longrightarrow> keeps msgs (set_pending i msgs)"
  by (simp_all add: set_acked_def set_pending_def keeps_fmupd)

lemma keeps_ack_cascade: "\<forall>i \<in> set ids. i |\<in>| fmdom msgs \<Longrightarrow> keeps msgs (ack_cascade ids msgs)"
proof (induction ids msgs rule: ack_cascade.induct)
  case (2 i ids msgs)
  have step: "keeps msgs (set_acked i msgs)" using 2(2) by (simp add: keeps_set_acked)
  then have "\<forall>j \<in> set ids. j |\<in>| fmdom (set_acked i msgs)" using 2(2) by (simp add: keeps_def)
  with 2 step show ?case by (auto intro: keeps_trans)
qed simp

lemma keeps_ack_group: "\<forall>i \<in> set grp. i |\<in>| fmdom msgs \<Longrightarrow> keeps msgs (ack_group grp t msgs)"
proof -
  assume dom: "\<forall>i \<in> set grp. i |\<in>| fmdom msgs"
  have "keeps msgs (ack_cascade (drop k grp) (set_acked t msgs))" if "t \<in> set grp" for k
  proof -
    have step: "keeps msgs (set_acked t msgs)" using that dom by (simp add: keeps_set_acked)
    then have "\<forall>j \<in> set (drop k grp). j |\<in>| fmdom (set_acked t msgs)"
      using dom by (auto simp: keeps_def dest: in_set_dropD)
    then show ?thesis using step by (blast intro: keeps_trans keeps_ack_cascade)
  qed
  then show ?thesis using dom by (simp add: ack_group_def Let_def keeps_set_acked)
qed

text \<open>
  The acknowledgements received so far, \<open>A\<close>, as the group shows them: a message is acknowledged when
  it and all before it are in \<open>A\<close>, and its acknowledgement is held when only it is.
\<close>

fun ack_view :: "string set \<Rightarrow> queue \<Rightarrow> bool \<Rightarrow> string list \<Rightarrow> bool" where
  "ack_view A msgs ok [] = True"
| "ack_view A msgs ok (i # ids) =
     (Acked (msg_of msgs i) = (ok \<and> i \<in> A) \<and> AckPending (msg_of msgs i) = (i \<in> A \<and> \<not> (ok \<and> i \<in> A)) \<and>
      ack_view A msgs (ok \<and> i \<in> A) ids)"

lemma ack_view_cong:
  "\<forall>i \<in> set ids. msg_of msgs' i = msg_of msgs i \<and> (i \<in> B \<longleftrightarrow> i \<in> A) \<Longrightarrow> ack_view B msgs' ok ids = ack_view A msgs ok ids"
  by (induction ids arbitrary: ok) auto

lemma ack_view_append:
  "ack_view A msgs ok (xs @ ys) \<longleftrightarrow> ack_view A msgs ok xs \<and> ack_view A msgs (ok \<and> set xs \<subseteq> A) ys"
  by (induction xs arbitrary: ok) auto

lemma ack_view_acked: "ack_view A msgs True xs \<Longrightarrow> (\<forall>i \<in> set xs. Acked (msg_of msgs i)) \<longleftrightarrow> set xs \<subseteq> A"
proof (induction xs)
  case (Cons x xs)
  then show ?case by (cases "x \<in> A") auto
qed simp

lemma ack_view_cascade:
  "distinct ids \<Longrightarrow> ack_view A msgs False ids \<Longrightarrow> ack_view A (ack_cascade ids msgs) True ids"
proof (induction ids arbitrary: msgs)
  case (Cons i ids)
  show ?case
  proof (cases "i \<in> A")
    case True
    have "ack_view A (set_acked i msgs) False ids = ack_view A msgs False ids"
      using Cons.prems(1) by (intro ack_view_cong) auto
    with Cons True show ?thesis by (simp add: ack_cascade_other)
  qed (use Cons.prems in simp)
qed simp

lemma ack_view_group:
  assumes "distinct grp" and "t \<in> set grp" and "\<not> Acked (msg_of msgs t)" and "ack_view A msgs True grp"
  shows "ack_view (insert t A) (ack_group grp t msgs) True grp"
proof -
  from assms(1,2) obtain bef aft where grp: "grp = bef @ t # aft" and t: "t \<notin> set bef" "t \<notin> set aft" "distinct aft" "set bef \<inter> set aft = {}"
    by (metis distinct.simps(2) distinct_append in_set_conv_decomp_first disjoint_insert(2) list.simps(15))
  have split: "takeWhile (\<lambda>i. i \<noteq> t) grp = bef" "drop (Suc (length bef)) grp = aft"
    using t(1) by (auto simp: grp takeWhile_append)
  from assms(4) have v: "ack_view A msgs True bef" "ack_view A msgs (set bef \<subseteq> A) (t # aft)" by (simp_all add: grp ack_view_append)
  note acked = ack_view_acked [OF v(1)]
  have sub: "set bef \<subseteq> insert t A \<longleftrightarrow> set bef \<subseteq> A" using t(1) by auto
  show ?thesis
  proof (cases "set bef \<subseteq> A")
    case False
    then have eq: "ack_group grp t msgs = set_pending t msgs" using acked assms(2) by (auto simp: ack_group_def Let_def split)
    have "ack_view (insert t A) (set_pending t msgs) ok xs = ack_view A msgs ok xs" if "t \<notin> set xs" for ok xs
      using that by (intro ack_view_cong) auto
    with v t assms(3) False sub show ?thesis unfolding eq unfolding grp by (simp add: ack_view_append)
  next
    case True
    then have eq: "ack_group grp t msgs = ack_cascade aft (set_acked t msgs)"
      using acked assms(2) by (auto simp: ack_group_def Let_def split)
    from v(2) True assms(3) have "ack_view A msgs False aft" by auto
    moreover have "ack_view (insert t A) (set_acked t msgs) False aft = ack_view A msgs False aft"
      using t by (intro ack_view_cong) auto
    ultimately have "ack_view (insert t A) (ack_cascade aft (set_acked t msgs)) True aft"
      using t(3) by (simp add: ack_view_cascade)
    moreover have "ack_view (insert t A) (ack_cascade aft (set_acked t msgs)) True bef = ack_view A msgs True bef"
    proof (rule ack_view_cong, rule ballI)
      fix i assume "i \<in> set bef"
      then have "i \<notin> set aft" "i \<noteq> t" using t by auto
      then show "msg_of (ack_cascade aft (set_acked t msgs)) i = msg_of msgs i \<and> (i \<in> insert t A) = (i \<in> A)"
        by (simp add: ack_cascade_other)
    qed
    ultimately show ?thesis using True v(1) t(2) sub unfolding eq unfolding grp
      by (simp add: ack_view_append ack_cascade_other)
  qed
qed

lemma ack_view_index:
  "ack_view A msgs ok ids \<Longrightarrow> k < length ids \<Longrightarrow>
     Acked (msg_of msgs (ids ! k)) = (ok \<and> (\<forall>j \<le> k. ids ! j \<in> A)) \<and>
     AckPending (msg_of msgs (ids ! k)) = (ids ! k \<in> A \<and> \<not> (ok \<and> (\<forall>j \<le> k. ids ! j \<in> A)))"
proof (induction ids arbitrary: ok k)
  case (Cons i ids)
  show ?case
  proof (cases k)
    case 0
    with Cons.prems show ?thesis by simp
  next
    case (Suc k')
    have "(\<forall>j \<le> k. (i # ids) ! j \<in> A) \<longleftrightarrow> i \<in> A \<and> (\<forall>j \<le> k'. ids ! j \<in> A)"
      unfolding Suc by (auto simp: nth_Cons split: nat.splits)
    with Cons.IH [of "ok \<and> i \<in> A" k'] Cons.prems Suc show ?thesis by auto
  qed
qed simp

subsection \<open>One acknowledgement\<close>

text \<open>What \<open>Acknowledge\<close> does to the queue, by the branches of the code.\<close>

lemma Acknowledge_queue:
  assumes "pub_inv s"
  shows "queue_of (Acknowledge q i s) q =
    (case fmlookup (queue_of s q) i of
       None \<Rightarrow> queue_of s q
     | Some m \<Rightarrow> if OrderingKey m = [] then fmdrop i (queue_of s q)
         else if Acked m then queue_of s q
         else ack_group (group_of q (OrderingKey m) s) i (queue_of s q))"
    and "q' \<noteq> q \<Longrightarrow> queue_of (Acknowledge q i s) q' = queue_of s q'"
    and "pub_inv (Acknowledge q i s)"
proof -
  have "queue_of (Acknowledge q i s) q =
      (case fmlookup (queue_of s q) i of
         None \<Rightarrow> queue_of s q
       | Some m \<Rightarrow> if OrderingKey m = [] then fmdrop i (queue_of s q)
           else if Acked m then queue_of s q
           else ack_group (group_of q (OrderingKey m) s) i (queue_of s q)) \<and>
      (q' \<noteq> q \<longrightarrow> queue_of (Acknowledge q i s) q' = queue_of s q') \<and> pub_inv (Acknowledge q i s)"
  proof (cases "fmlookup (queue_of s q) i")
    case None
    then have "Acknowledge q i s = s" by (auto simp: Acknowledge_def queue_of_def split: option.splits)
    with None assms show ?thesis by simp
  next
    case (Some m)
    then obtain msgs where msgs: "fmlookup (messages s) q = Some msgs" "queue_of s q = msgs"
      by (cases "fmlookup (messages s) q") (auto simp: queue_of_def)
    note key = pub_invD [OF assms Some]
    consider (plain) "OrderingKey m = []" | (already) "OrderingKey m \<noteq> []" "Acked m" | (keyed) "OrderingKey m \<noteq> []" "\<not> Acked m"
      by blast
    then show ?thesis
    proof cases
      case plain
      with Some msgs assms show ?thesis
        by (auto simp: Acknowledge_def intro!: pub_inv_drop dest: pub_invD split: if_splits)
    next
      case already
      with Some msgs assms show ?thesis by (simp add: Acknowledge_def)
    next
      case keyed
      obtain s1 where s1: "keyedGroupLocked q (OrderingKey m) s = (s1, group_of q (OrderingKey m) s)" "pub_inv s1"
        "messages s1 = messages s"
        using keyedGroupLocked_ok [OF assms] by blast
      have same: "queue_of s1 q'' = queue_of s q''" for q'' by (simp add: queue_of_def s1)
      have "i \<in> set (group_of q (OrderingKey m) s)" using Some by (auto simp: set_group_of dest: fmdomI)
      then have eq: "Acknowledge q i s = put_queue q (ack_group (group_of q (OrderingKey m) s) i msgs) s1"
        using keyed Some msgs key by (simp add: Acknowledge_def ackKeyedLocked_def s1 same)
      have "keeps (queue_of s1 q) (ack_group (group_of q (OrderingKey m) s) i msgs)"
        unfolding same msgs(2) using msgs(2) by (intro keeps_ack_group) (auto simp: set_group_of)
      with s1(2) have "pub_inv (Acknowledge q i s)" unfolding eq by (rule pub_inv_keeps)
      then show ?thesis using keyed Some msgs by (simp add: eq same)
    qed
  qed
  then show "queue_of (Acknowledge q i s) q =
    (case fmlookup (queue_of s q) i of
       None \<Rightarrow> queue_of s q
     | Some m \<Rightarrow> if OrderingKey m = [] then fmdrop i (queue_of s q)
         else if Acked m then queue_of s q
         else ack_group (group_of q (OrderingKey m) s) i (queue_of s q))"
    and "q' \<noteq> q \<Longrightarrow> queue_of (Acknowledge q i s) q' = queue_of s q'"
    and "pub_inv (Acknowledge q i s)" by blast+
qed

lemma group_of_drop:
  assumes "OrderingKey (msg_of (queue_of s q) i) \<noteq> key" and "queue_of s' q = fmdrop i (queue_of s q)"
  shows "group_of q key s' = group_of q key s"
  using assms by (auto simp: group_of_def publish_order_drop intro!: filter_cong)

lemma Acknowledge_view:
  assumes inv: "pub_inv s" and key: "key \<noteq> []" and view: "ack_view A (queue_of s q) True (group_of q key s)"
  shows "group_of q key (Acknowledge q i s) = group_of q key s \<and>
    ack_view (insert i A) (queue_of (Acknowledge q i s) q) True (group_of q key s)"
proof -
  let ?g = "group_of q key s" and ?msgs = "queue_of s q" and ?s' = "Acknowledge q i s"
  note upd = Acknowledge_queue(1) [OF inv, of q i]
  have same: "ack_view (insert i A) msgs True ?g" if "i \<notin> set ?g" "\<forall>j \<in> set ?g. msg_of msgs j = msg_of ?msgs j" for msgs
  proof -
    have "ack_view (insert i A) msgs True ?g = ack_view A ?msgs True ?g" using that by (intro ack_view_cong) auto
    with view show ?thesis by simp
  qed
  have notin: "i \<notin> set ?g" if "OrderingKey (msg_of ?msgs i) \<noteq> key" using that by (simp add: set_group_of)
  show ?thesis
  proof (cases "fmlookup ?msgs i")
    case None
    then have "i \<notin> set ?g" by (auto simp: set_group_of fmlookup_dom_iff)
    moreover have "queue_of ?s' q = ?msgs" using upd None by simp
    ultimately show ?thesis using same by (simp add: group_of_def)
  next
    case (Some m)
    consider (plain) "OrderingKey m = []" | (already) "OrderingKey m \<noteq> []" "Acked m"
      | (this_key) "OrderingKey m = key" "\<not> Acked m" | (other) "OrderingKey m \<noteq> []" "OrderingKey m \<noteq> key" "\<not> Acked m"
      by blast
    then show ?thesis
    proof cases
      case plain
      then have q: "queue_of ?s' q = fmdrop i ?msgs" using upd Some by simp
      moreover have no: "OrderingKey (msg_of ?msgs i) \<noteq> key" using Some plain key by simp
      ultimately have "group_of q key ?s' = ?g" by (intro group_of_drop)
      then show ?thesis using same [OF notin [OF no]] notin [OF no] by (auto simp: q)
    next
      case already
      then have q: "queue_of ?s' q = ?msgs" using upd Some by simp
      have "insert i A = A" if "i \<in> set ?g"
      proof -
        from that obtain k where k: "k < length ?g" "?g ! k = i" by (auto simp: in_set_conv_nth)
        with ack_view_index [OF view k(1)] already(2) Some show ?thesis by auto
      qed
      with same [of ?msgs] view show ?thesis by (cases "i \<in> set ?g") (simp_all add: q group_of_def)
    next
      case this_key
      then have q: "queue_of ?s' q = ack_group ?g i ?msgs" using upd Some key by auto
      have i: "i \<in> set ?g" using this_key Some by (auto simp: set_group_of dest: fmdomI)
      have "keeps ?msgs (queue_of ?s' q)" unfolding q by (intro keeps_ack_group) (auto simp: set_group_of)
      then have "group_of q key ?s' = ?g" by (rule group_of_keeps)
      moreover have "ack_view (insert i A) (ack_group ?g i ?msgs) True ?g"
        using this_key Some i view by (intro ack_view_group) simp_all
      ultimately show ?thesis by (simp add: q)
    next
      case other
      let ?h = "group_of q (OrderingKey m) s"
      have q: "queue_of ?s' q = ack_group ?h i ?msgs" using upd Some other by simp
      have "keeps ?msgs (queue_of ?s' q)" unfolding q by (intro keeps_ack_group) (auto simp: set_group_of)
      then have "group_of q key ?s' = ?g" by (rule group_of_keeps)
      moreover have "\<forall>j \<in> set ?g. msg_of (ack_group ?h i ?msgs) j = msg_of ?msgs j"
        using other by (auto simp: set_group_of intro!: ack_group_other)
      moreover have "i \<notin> set ?g" using other Some by (intro notin) simp
      ultimately show ?thesis using same by (simp add: q)
    qed
  qed
qed

section \<open>Redelivery\<close>

lemma redeliver_simps [simp]:
  "msg_of (redeliver i msgs) j =
     (if j = i then (msg_of msgs i)\<lparr>Acked := False, AckPending := False, VisibleAt := 0\<rparr> else msg_of msgs j)"
  by (simp add: redeliver_def)

lemma fold_redeliver:
  "msg_of (fold redeliver ids msgs) j =
     (if j \<in> set ids then (msg_of msgs j)\<lparr>Acked := False, AckPending := False, VisibleAt := 0\<rparr> else msg_of msgs j)"
  by (induction ids arbitrary: msgs) auto

lemma keeps_redeliver: "i |\<in>| fmdom msgs \<Longrightarrow> keeps msgs (redeliver i msgs)"
  by (simp add: redeliver_def keeps_fmupd)

lemma redeliverKeyedFromLocked_ok:
  assumes inv: "pub_inv s" and m: "fmlookup (queue_of s q) (MessageID m) = Some m"
  defines "from \<equiv> dropWhile (\<lambda>i. i \<noteq> MessageID m) (group_of q (OrderingKey m) s)"
  shows "queue_of (redeliverKeyedFromLocked q m s) q = fold redeliver from (queue_of s q)"
    and "q' \<noteq> q \<Longrightarrow> queue_of (redeliverKeyedFromLocked q m s) q' = queue_of s q'"
    and "pub_inv (redeliverKeyedFromLocked q m s)"
    and "keeps (queue_of s q) (queue_of (redeliverKeyedFromLocked q m s) q)"
proof -
  obtain s1 where s1: "keyedGroupLocked q (OrderingKey m) s = (s1, group_of q (OrderingKey m) s)" "pub_inv s1"
    "messages s1 = messages s"
    using keyedGroupLocked_ok [OF inv] by blast
  have same: "queue_of s1 q'' = queue_of s q''" for q'' by (simp add: queue_of_def s1)
  have ne: "from \<noteq> []" using m by (auto simp: from_def dropWhile_eq_Nil_conv set_group_of dest: fmdomI)
  have eq: "redeliverKeyedFromLocked q m s = put_queue q (fold redeliver from (queue_of s q)) s1"
    using ne unfolding redeliverKeyedFromLocked_def s1 by (simp add: same Let_def del: dropWhile_eq_Nil_conv flip: from_def)
  then show "queue_of (redeliverKeyedFromLocked q m s) q = fold redeliver from (queue_of s q)"
    and "q' \<noteq> q \<Longrightarrow> queue_of (redeliverKeyedFromLocked q m s) q' = queue_of s q'" by (simp_all add: same)
  have keeps: "keeps (queue_of s q) (fold redeliver from (queue_of s q))"
    by (rule keeps_fold) (auto simp: keeps_redeliver from_def set_group_of dest!: set_dropWhileD)
  then show "keeps (queue_of s q) (queue_of (redeliverKeyedFromLocked q m s) q)" by (simp add: eq)
  show "pub_inv (redeliverKeyedFromLocked q m s)"
    unfolding eq using s1(2) keeps by (intro pub_inv_keeps) (simp_all add: same)
qed

lemma modify_one_inv:
  assumes "pub_inv s"
  shows "pub_inv (modify_one q seconds now ackID s)"
proof (cases "fmlookup (queue_of s q) (after_last_slash ackID)")
  case None
  with assms show ?thesis by (simp add: modify_one_def)
next
  case (Some m)
  with pub_invD [OF assms Some] have m: "fmlookup (queue_of s q) (MessageID m) = Some m" by simp
  have "pub_inv (put_queue q (fmupd (after_last_slash ackID) (m\<lparr>VisibleAt := t\<rparr>) (queue_of s q)) s)" for t
    using assms Some by (intro pub_inv_keeps) (auto intro!: keeps_fmupd dest: fmdomI)
  with assms Some redeliverKeyedFromLocked_ok(3) [OF assms m] show ?thesis by (simp add: modify_one_def Let_def)
qed

section \<open>Reachable stores\<close>

text \<open>
  The stores that sequences of calls reach from the empty store. A restore is taken into a store whose cache
  is empty, as at process start; what happens otherwise is shown below.
\<close>

inductive pub_reach :: "MemoryMessages \<Rightarrow> bool" where
  init: "pub_reach NewMemoryMessages"
| next_id: "pub_reach s \<Longrightarrow> pub_reach (fst (NextID s))"
| put: "pub_reach s \<Longrightarrow> pub_reach (Put m s)"
| list_messages: "pub_reach s \<Longrightarrow> pub_reach (fst (ListMessages q s))"
| pull: "pub_reach s \<Longrightarrow> Pull q mx d ret now s = Ret (s', out) \<Longrightarrow> pub_reach s'"
| delete: "pub_reach s \<Longrightarrow> pub_reach (Delete q i s)"
| ack: "pub_reach s \<Longrightarrow> pub_reach (Acknowledge q i s)"
| attempt: "pub_reach s \<Longrightarrow> pub_reach (UpdateDeliveryAttempt q i n s)"
| bump: "pub_reach s \<Longrightarrow> pub_reach (BumpDeliveryVersions q ids s)"
| modify: "pub_reach s \<Longrightarrow> pub_reach (ModifyAckDeadline q ids seconds now s)"
| reset: "pub_reach s \<Longrightarrow> pub_reach (Reset s)"
| restore: "pub_reach s \<Longrightarrow> sortedIDs s = fmempty \<Longrightarrow> Restore decoded s = Inr s' \<Longrightarrow> pub_reach s'"

lemma restore_keys:
  assumes "\<forall>q msgs i m. fmlookup acc q = Some msgs \<longrightarrow> fmlookup msgs i = Some m \<longrightarrow> MessageID m = i \<and> queueKey m = q"
  shows "\<forall>q msgs i m. fmlookup (fold restore_message ms acc) q = Some msgs \<longrightarrow> fmlookup msgs i = Some m \<longrightarrow>
    MessageID m = i \<and> queueKey m = q"
  using assms
proof (induction ms arbitrary: acc)
  case (Cons m ms)
  have "\<forall>q msgs i m'. fmlookup (restore_message m acc) q = Some msgs \<longrightarrow> fmlookup msgs i = Some m' \<longrightarrow>
      MessageID m' = i \<and> queueKey m' = q"
    using Cons.prems
    by (cases "fmlookup acc (queueKey m)") (auto simp: restore_message_def split: if_splits)
  from Cons.IH [OF this] show ?case by simp
qed simp

lemma bump_simps [simp]: "fmdom (bump i msgs) = fmdom msgs" "keeps msgs (bump i msgs)"
  by (auto simp: bump_def keeps_fmupd fmdomI split: option.splits)

lemma keeps_bump: "keeps msgs (fold bump ids msgs)"
proof (induction ids arbitrary: msgs)
  case (Cons i ids)
  from bump_simps(2) Cons.IH [of "bump i msgs"] show ?case unfolding fold_simps by (rule keeps_trans)
qed simp

lemma pub_inv_restore:
  assumes "sortedIDs s = fmempty"
  shows "pub_inv (s\<lparr>messages := fold restore_message ms fmempty, seq := n\<rparr>)"
  using restore_keys [of fmempty ms] assms
  by (auto simp: pub_inv_def cache_ok_def keys_ok_def queue_of_def the_default_def split: option.splits)

lemma pub_reach_inv: "pub_reach s \<Longrightarrow> pub_inv s"
proof (induction rule: pub_reach.induct)
  case init
  then show ?case by (simp add: NewMemoryMessages_def pub_inv_def cache_ok_def keys_ok_def queue_of_def)
next
  case (next_id s)
  then show ?case by (simp add: NextID_def Let_def pub_inv_def cache_ok_def keys_ok_def)
next
  case (put s m)
  then show ?case
    by (auto simp: Put_def Let_def intro!: pub_inv_drop split: if_splits dest: pub_invD)
next
  case (list_messages s q)
  obtain s' where "orderedIDsLocked q s = (s', publish_order (queue_of s q))" "pub_inv s'"
    using orderedIDsLocked_ok [OF list_messages.IH] by blast
  then show ?case by (simp add: ListMessages_def)
next
  case (pull s q mx d ret now s' out)
  obtain s1 out1 where "Pull q mx d ret now s = Ret (s1, out1)" "pub_inv s1"
    using Pull_ok [OF pull.IH] by blast
  with pull.hyps(2) show ?case by simp
next
  case (delete s q i)
  have "pub_inv (drop_cache q (put_queue q (fmdrop i msgs) s))" if "fmlookup (messages s) q = Some msgs" for msgs
  proof (rule pub_inv_drop [OF delete.IH])
    have "queue_of s q = msgs" using that by (simp add: queue_of_def)
    then show "MessageID m = j \<and> queueKey m = q" if "fmlookup (fmdrop i msgs) j = Some m" for j m
      using pub_invD [OF delete.IH, of q j m] that by (auto split: if_splits)
  qed
  with delete.IH show ?case by (auto simp: Delete_def split: option.splits)
next
  case (ack s q i)
  from ack.IH show ?case by (rule Acknowledge_queue(3))
next
  case (attempt s q i n)
  have "pub_inv (put_queue q (fmupd i (m\<lparr>DeliveryAttempt := n\<rparr>) msgs) s)"
    if "fmlookup (messages s) q = Some msgs" "fmlookup msgs i = Some m" for msgs m
    using attempt.IH that by (intro pub_inv_keeps) (auto simp: queue_of_def intro!: keeps_fmupd dest: fmdomI)
  with attempt.IH show ?case by (auto simp: UpdateDeliveryAttempt_def split: option.splits)
next
  case (bump s q ids)
  then show ?case
    by (auto simp: BumpDeliveryVersions_def keeps_bump queue_of_def intro!: pub_inv_keeps split: option.splits)
next
  case (modify s q ids seconds now)
  have "pub_inv (fold (modify_one q seconds now) ids t)" if "pub_inv t" for t
    using that by (induction ids arbitrary: t) (simp_all add: modify_one_inv)
  with modify.IH show ?case by (simp add: ModifyAckDeadline_def)
next
  case (reset s)
  then show ?case by (simp add: Reset_def pub_inv_def cache_ok_def keys_ok_def queue_of_def)
next
  case (restore s decoded s')
  then show ?case by (auto simp: Restore_def pub_inv_restore split: sum.splits)
qed

section \<open>Properties\<close>

text \<open>A store with two messages of one ordering key.\<close>

definition demo_message :: "string \<Rightarrow> time \<Rightarrow> Message" where
  "demo_message i t = zero_Message\<lparr>Topic := ''t'', Subscription := ''q'', MessageID := i, Data := ''d'', PublishTime := t, OrderingKey := ''k''\<rparr>"

definition demo_two :: MemoryMessages where
  "demo_two = Put (demo_message ''2'' 2) (Put (demo_message ''1'' 1) NewMemoryMessages)"

lemma demo_two_reach: "pub_reach demo_two"
  by (simp add: demo_two_def pub_reach.init pub_reach.put)

lemma demo_two_group: "group_of ''q'' ''k'' demo_two = [''1'', ''2'']"
  by code_simp

lemma ex_message:
  "(\<exists>i. i |\<in>| fmdom msgs \<and> P (msg_of msgs i)) \<longleftrightarrow> (\<exists>i m. fmlookup msgs i = Some m \<and> P m)"
proof
  assume "\<exists>i. i |\<in>| fmdom msgs \<and> P (msg_of msgs i)"
  then obtain i m where "fmlookup msgs i = Some m" "P m" by (auto simp: fmlookup_dom_iff)
  then show "\<exists>i m. fmlookup msgs i = Some m \<and> P m" by blast
next
  assume "\<exists>i m. fmlookup msgs i = Some m \<and> P m"
  then obtain i m where "fmlookup msgs i = Some m" "P m" by blast
  then show "\<exists>i. i |\<in>| fmdom msgs \<and> P (msg_of msgs i)" by (intro exI [of _ i]) (simp add: fmdomI)
qed

lemma inFlightGroups_iff:
  assumes "k \<noteq> []"
  shows "k \<in> set (inFlightGroups now msgs) \<longleftrightarrow>
    (\<exists>i m. fmlookup msgs i = Some m \<and> OrderingKey m = k \<and> \<not> Acked m \<and> outstanding now m)"
proof -
  have "k \<in> set (inFlightGroups now msgs) \<longleftrightarrow> (\<exists>i. i |\<in>| fmdom msgs \<and> OrderingKey (msg_of msgs i) = k \<and>
      \<not> Acked (msg_of msgs i) \<and> outstanding now (msg_of msgs i))"
    using assms by (auto simp: inFlightGroups_def)
  also have "\<dots> \<longleftrightarrow> (\<exists>i m. fmlookup msgs i = Some m \<and> OrderingKey m = k \<and> \<not> Acked m \<and> outstanding now m)"
    by (rule ex_message)
  finally show ?thesis .
qed

text \<open>
  C23: However consumers interleave pulls of a subscription, no message is handed out twice while a lease on
  it runs: a sequence of pulls whose times all fall before the end of every earlier pull's acknowledgement
  deadline returns distinct messages.
\<close>

theorem pull_no_double_delivery:
  assumes "pub_reach s" and "\<forall>(a, t) \<in> set calls. 0 \<le> t"
    and "sorted_wrt (\<lambda>(a, t) (b, u). u < t + duration (fst (snd a))) calls"
  shows "distinct (deliveries (pull_ids q) s calls)"
  using pub_reach_inv [OF assms(1)] assms(2,3) by (rule pubsub.deliveries_distinct)

theorem pull_no_double_delivery_witness:
  "distinct (deliveries (pull_ids ''q'') demo_two [((1, 10, 0), 5), ((10, 10, 0), 6)])"
  by (rule pull_no_double_delivery [OF demo_two_reach]) (simp_all add: duration_def duration_of_def wrap64_def Second_def)



text \<open>
  C22: Acknowledgements of an ordering key take effect in publish order, whatever order they arrive in: starting
  from a group with nothing acknowledged, after any sequence of acknowledgements (of this key and of others) a
  message of the group is acknowledged exactly when it and every earlier message of the group have been, and its
  acknowledgement is held exactly when it has been acknowledged and some earlier one has not.
\<close>

theorem acks_apply_in_publish_order:
  fixes acks :: "string list"
  assumes "pub_reach s" and "key \<noteq> []"
    and "\<forall>i \<in> set (group_of q key s). \<not> Acked (msg_of (queue_of s q) i) \<and> \<not> AckPending (msg_of (queue_of s q) i)"
    and "k < length (group_of q key s)"
  defines "s' \<equiv> fold (Acknowledge q) acks s" and "g \<equiv> group_of q key s"
  shows "group_of q key s' = g \<and>
    Acked (msg_of (queue_of s' q) (g ! k)) = (\<forall>j \<le> k. g ! j \<in> set acks) \<and>
    AckPending (msg_of (queue_of s' q) (g ! k)) = (g ! k \<in> set acks \<and> (\<exists>j < k. g ! j \<notin> set acks))"
proof -
  have start: "ack_view {} (queue_of s q) True g"
  proof -
    have "ack_view {} (queue_of s q) ok xs" if "\<forall>i \<in> set xs. \<not> Acked (msg_of (queue_of s q) i) \<and> \<not> AckPending (msg_of (queue_of s q) i)" for ok xs
      using that by (induction xs arbitrary: ok) auto
    then show ?thesis using assms(3) by (simp add: g_def)
  qed
  have "pub_inv t \<and> group_of q key t = g \<and> ack_view A (queue_of t q) True g \<Longrightarrow>
      group_of q key (fold (Acknowledge q) acks t) = g \<and>
      ack_view (A \<union> set acks) (queue_of (fold (Acknowledge q) acks t) q) True g" for t A
  proof (induction acks arbitrary: t A)
    case (Cons i acks)
    have "group_of q key (Acknowledge q i t) = g \<and> ack_view (insert i A) (queue_of (Acknowledge q i t) q) True g"
      using Acknowledge_view [of t key A q i] Cons.prems assms(2) by simp
    with Cons.IH [of "Acknowledge q i t" "insert i A"] Cons.prems Acknowledge_queue(3) [of t q i] show ?case by simp
  qed simp
  from this [of s "{}"] start pub_reach_inv [OF assms(1)]
  have fin: "group_of q key s' = g" "ack_view (set acks) (queue_of s' q) True g" by (simp_all add: s'_def g_def)
  have "(\<forall>j \<le> k. g ! j \<in> set acks) \<longleftrightarrow> g ! k \<in> set acks \<and> \<not> (\<exists>j < k. g ! j \<notin> set acks)"
    by (metis le_less)
  with ack_view_index [OF fin(2), of k] assms(4) show ?thesis using fin(1) by (auto simp: g_def)
qed

theorem acks_apply_in_publish_order_witness:
  "AckPending (msg_of (queue_of (fold (Acknowledge ''q'') [''2''] demo_two) ''q'') ''2'') \<and>
   Acked (msg_of (queue_of (fold (Acknowledge ''q'') [''2'', ''1''] demo_two) ''q'') ''2'')"
proof -
  have none: "\<forall>i \<in> set (group_of ''q'' ''k'' demo_two). \<not> Acked (msg_of (queue_of demo_two ''q'') i) \<and>
      \<not> AckPending (msg_of (queue_of demo_two ''q'') i)"
    unfolding demo_two_group by code_simp
  from acks_apply_in_publish_order [OF demo_two_reach _ none, of 1 "[''2'']"]
    acks_apply_in_publish_order [OF demo_two_reach _ none, of 1 "[''2'', ''1'']"]
  show ?thesis by (auto simp: demo_two_group less_Suc_eq le_Suc_eq)
qed

text \<open>
  A negative acknowledgement (deadline 0) of a message with an ordering key makes it and every later message
  of the key deliverable again, acknowledged or not, and drops held acknowledgements among them; every other
  message of the store is untouched and the publish order of the key stays.
\<close>

theorem nack_redelivers_the_rest_of_the_key:
  fixes now :: time
  assumes "pub_reach s" and "key \<noteq> []" and "k < length (group_of q key s)"
    and "CHR ''/'' \<notin> set (group_of q key s ! k)"
  defines "s' \<equiv> ModifyAckDeadline q [q @ ''/'' @ group_of q key s ! k] 0 now s" and "g \<equiv> group_of q key s"
  shows "group_of q key s' = g \<and>
    (\<forall>i. msg_of (queue_of s' q) i = (if i \<in> set (drop k g)
       then (msg_of (queue_of s q) i)\<lparr>Acked := False, AckPending := False, VisibleAt := 0\<rparr>
       else msg_of (queue_of s q) i)) \<and>
    (\<forall>q'. q' \<noteq> q \<longrightarrow> queue_of s' q' = queue_of s q')"
proof -
  note inv = pub_reach_inv [OF assms(1)]
  let ?i = "g ! k"
  have i: "?i \<in> set g" using assms(3) by (simp add: g_def)
  then obtain m where m: "fmlookup (queue_of s q) ?i = Some m" "OrderingKey m = key"
    by (auto simp: g_def set_group_of elim!: fmdomE)
  with pub_invD [OF inv m(1)] have id: "MessageID m = ?i" by simp
  have slash: "after_last_slash (q @ ''/'' @ ?i) = ?i"
    using assms(4) by (auto simp: after_last_slash_def g_def takeWhile_append)
  have s': "s' = redeliverKeyedFromLocked q m s"
    using m assms(2) slash by (simp add: s'_def g_def [symmetric] ModifyAckDeadline_def modify_one_def)
  have m': "fmlookup (queue_of s q) (MessageID m) = Some m" using m id by simp
  note red = redeliverKeyedFromLocked_ok [OF inv m', unfolded m(2) id, folded g_def s']
  have "dropWhile (\<lambda>i. i \<noteq> ?i) g = drop k g"
  proof -
    have "takeWhile (\<lambda>i. i \<noteq> ?i) g = take k g"
      using assms(3) distinct_group_of [of q key s]
      by (intro takeWhile_eq_take_P_nth) (auto simp: g_def nth_eq_iff_index_eq)
    then show ?thesis using assms(3) by (simp add: dropWhile_eq_drop g_def)
  qed
  with red(1,2) group_of_keeps [OF red(4), of key] show ?thesis by (simp add: fold_redeliver g_def)
qed

theorem nack_redelivers_the_rest_of_the_key_witness:
  "VisibleAt (msg_of (queue_of (ModifyAckDeadline ''q'' [''q/1''] 0 9 demo_two) ''q'') ''2'') = 0"
  using nack_redelivers_the_rest_of_the_key [OF demo_two_reach, of "''k''" 0 "''q''" 9]
  by (simp add: demo_two_group)

text \<open>
  A wire acknowledgement identifier decodes to the subscription, message identifier and delivery version it was made from
  (a subscription is not empty and holds no slash).
\<close>

theorem ack_id_roundtrip:
  assumes "sub \<noteq> []" and "CHR ''/'' \<notin> set sub" and "in_int64 v"
  shows "DecodeAckID (EncodeAckID sub mid v) = Some (sub, mid, v)"
proof -
  let ?t = "sub @ ''/'' @ mid @ ''/'' @ Itoa v"
  have no: "CHR ''/'' \<notin> set (Itoa v)"
    using list_all_is_digit_dec by (auto simp: Itoa_def list_all_iff dest: is_digit_not_sign)
  have "takeWhile (\<lambda>c. c \<noteq> CHR ''/'') ?t = sub" using assms(2) by (auto simp: takeWhile_append)
  moreover have "takeWhile (\<lambda>c. c \<noteq> CHR ''/'') (rev ?t) = rev (Itoa v)" using no by (auto simp: takeWhile_append)
  moreover have "length ?t - 1 - length (rev (Itoa v)) = length sub + 1 + length mid" by simp
  ultimately show ?thesis
    using assms by (simp add: DecodeAckID_def EncodeAckID_def Let_def Atoi_Itoa)
qed

theorem ack_id_roundtrip_witness:
  "DecodeAckID (EncodeAckID ''sub'' ''17'' 3) = Some (''sub'', ''17'', 3)"
  by (rule ack_id_roundtrip) (simp_all add: in_int64_def)

text \<open>
  C25: The acknowledgement identifier issued by a pull names the current delivery until the deadline lapses and no
  longer; no other version is current, and a seek (which bumps the version) makes the issued one stale.
\<close>

theorem ack_id_current_until_deadline:
  assumes "pub_reach s" and "Pull q mx d ret now s = Ret (s', out)" and "m \<in> set out" and "0 < now + duration d"
  shows "fmlookup (queue_of s' q) (MessageID m) = Some m \<and>
    (\<forall>v t. AckIDCurrent m v t \<longleftrightarrow> v = DeliveryVersion m \<and> t < now + duration d) \<and>
    (\<forall>t. \<not> AckIDCurrent (msg_of (queue_of (BumpDeliveryVersions q [MessageID m] s') q) (MessageID m)) (DeliveryVersion m) t)"
proof -
  have ids: "pull_ids q s (mx, d, ret) now = (s', map MessageID out)" by (simp add: pull_ids_def assms(2))
  have "MessageID m \<in> set (snd (pull_ids q s (mx, d, ret) now))" using assms(3) by (simp add: ids)
  from pull_ids_spec [OF pub_reach_inv [OF assms(1)] this] obtain m0
    where m0: "fmlookup (queue_of s q) (MessageID m) = Some m0" "fmlookup (queue_of s' q) (MessageID m) = Some (claim d now m0)"
    by (auto simp: ids)
  obtain s1 out1 where P: "Pull q mx d ret now s = Ret (s1, out1)"
    and out1: "out1 = map (claim d now) (take (nat mx) (filter (eligible ret now (inFlightGroups now (queue_of s q)))
           (map (msg_of (queue_of s q)) (publish_order (queue_of s q)))))"
    using Pull_ok [OF pub_reach_inv [OF assms(1)]] by blast
  from P assms(2,3) out1 obtain m1 where m1: "m = claim d now m1" "m1 \<in> set (map (msg_of (queue_of s q)) (publish_order (queue_of s q)))"
    by (auto dest!: in_set_takeD)
  with ordered_message [OF pub_reach_inv [OF assms(1)] m1(2)] m0 have m: "fmlookup (queue_of s' q) (MessageID m) = Some m" by simp
  then obtain msgs where "fmlookup (messages s') q = Some msgs" "queue_of s' q = msgs"
    by (cases "fmlookup (messages s') q") (auto simp: queue_of_def)
  with m m1 assms(4) show ?thesis
    by (auto simp: AckIDCurrent_def IsZero_def BumpDeliveryVersions_def bump_def claim_def)
qed

theorem ack_id_current_until_deadline_witness:
  "\<exists>s' m. Pull ''q'' 10 10 0 5 demo_two = Ret (s', [m, claim 10 5 (demo_message ''2'' 2)]) \<and> AckIDCurrent m (DeliveryVersion m) 6"
proof -
  obtain s' out where P: "Pull ''q'' 10 10 0 5 demo_two = Ret (s', out)"
    using Pull_ok [OF pub_reach_inv [OF demo_two_reach]] by blast
  have "(case Pull ''q'' 10 10 0 5 demo_two of Panic \<Rightarrow> False
      | Ret (s', out) \<Rightarrow> out = [claim 10 5 (demo_message ''1'' 1), claim 10 5 (demo_message ''2'' 2)])"
    by code_simp
  with P have out: "out = [claim 10 5 (demo_message ''1'' 1), claim 10 5 (demo_message ''2'' 2)]" by simp
  have d: "0 < 5 + duration 10" "6 < 5 + duration 10" by (simp_all add: duration_def duration_of_def wrap64_def Second_def)
  from ack_id_current_until_deadline [OF demo_two_reach P _ d(1), of "claim 10 5 (demo_message ''1'' 1)"]
  have "AckIDCurrent (claim 10 5 (demo_message ''1'' 1)) (DeliveryVersion (claim 10 5 (demo_message ''1'' 1))) 6"
    using d(2) out by simp
  with P out show ?thesis by auto
qed

section \<open>Snapshots and dead letters\<close>

lemma restore_lookup:
  assumes "\<forall>m \<in> set ms. fmlookup (Q (queueKey m)) (MessageID m) = Some m"
  shows "fmlookup (the_default fmempty (fmlookup (fold restore_message ms acc) q)) i =
    (if \<exists>m \<in> set ms. queueKey m = q \<and> MessageID m = i then fmlookup (Q q) i
     else fmlookup (the_default fmempty (fmlookup acc q)) i)"
  using assms
proof (induction ms arbitrary: acc)
  case (Cons m ms)
  have "fmlookup (the_default fmempty (fmlookup (restore_message m acc) q)) i =
      (if queueKey m = q \<and> MessageID m = i then fmlookup (Q q) i
       else fmlookup (the_default fmempty (fmlookup acc q)) i)"
    using Cons.prems by (auto simp: restore_message_def)
  with Cons.IH [of "restore_message m acc"] Cons.prems show ?case by auto
qed simp

text \<open>
  Restoring the snapshot of a reachable store into a store with no cached order gives every queue and the
  message counter back, in whatever order the snapshot listed the messages.
\<close>

theorem pubsub_snapshot_restore:
  assumes "pub_reach s" and "set order = {(q, i). i |\<in>| fmdom (queue_of s q)}" and "sortedIDs t = fmempty"
  shows "\<exists>s'. Restore (Inr (Snapshot order s)) t = Inr s' \<and> seq s' = seq s \<and> (\<forall>q. queue_of s' q = queue_of s q)"
proof -
  note inv = pub_reach_inv [OF assms(1)]
  define ms where "ms = List.map_filter (\<lambda>(q, i). fmlookup (queue_of s q) i) order"
  have ms_iff: "m \<in> set ms \<longleftrightarrow> fmlookup (queue_of s (queueKey m)) (MessageID m) = Some m" for m
  proof -
    have "m \<in> set ms \<longleftrightarrow> (\<exists>q i. fmlookup (queue_of s q) i = Some m)"
      unfolding ms_def in_set_map_filter assms(2) by (auto dest: fmdomI)
    then show ?thesis using pub_invD [OF inv] by blast
  qed
  have "queue_of (t\<lparr>messages := fold restore_message ms fmempty, seq := seq s\<rparr>) q = queue_of s q" for q
  proof (rule fmap_ext)
    fix i
    have "\<forall>m \<in> set ms. fmlookup (queue_of s (queueKey m)) (MessageID m) = Some m" using ms_iff by blast
    note restore_lookup [OF this, of fmempty q i]
    also have "(if \<exists>m \<in> set ms. queueKey m = q \<and> MessageID m = i then fmlookup (queue_of s q) i
        else fmlookup (the_default fmempty (fmlookup fmempty q)) i) = fmlookup (queue_of s q) i"
    proof (cases "fmlookup (queue_of s q) i")
      case (Some m)
      with pub_invD [OF inv Some] have "m \<in> set ms \<and> queueKey m = q \<and> MessageID m = i" by (simp add: ms_iff)
      then show ?thesis by auto
    qed simp
    finally show "fmlookup (queue_of (t\<lparr>messages := fold restore_message ms fmempty, seq := seq s\<rparr>) q) i = fmlookup (queue_of s q) i"
      by (simp add: queue_of_def)
  qed
  then show ?thesis by (simp add: Restore_def Snapshot_def flip: ms_def)
qed

theorem pubsub_snapshot_restore_witness:
  "\<exists>s'. Restore (Inr (Snapshot [(''q'', ''2''), (''q'', ''1'')] demo_two)) NewMemoryMessages = Inr s' \<and>
     queue_of s' ''q'' = queue_of demo_two ''q''"
proof -
  have "set [(''q'', ''2''), (''q'', ''1'')] = {(q, i). i |\<in>| fmdom (queue_of demo_two q)}"
    by (auto simp: demo_two_def Put_def Let_def demo_message_def queueKey_def queue_of_def put_queue_def drop_cache_def
        NewMemoryMessages_def split: if_splits)
  from pubsub_snapshot_restore [OF demo_two_reach this, of NewMemoryMessages] show ?thesis
    by (auto simp: NewMemoryMessages_def)
qed

text \<open>
  A restore leaves the cached publish order of every queue in place. When a queue has been read and the
  restored snapshot holds no message for it, the next pull of that queue reads a message that does not exist and
  writes it into a nil map: it panics.
\<close>

theorem restore_stale_cache_panics:
  assumes "fmlookup (sortedIDs s) q = Some (i # ids)" and "\<forall>m \<in> set (SnapMessages snap). queueKey m \<noteq> q"
    and "0 < mx" and "ret \<le> 0" and "Restore (Inr snap) s = Inr s'"
  shows "Pull q mx d ret now s' = Panic"
proof -
  have "fmlookup (fold restore_message ms acc) q = fmlookup acc q" if "\<forall>m \<in> set ms. queueKey m \<noteq> q" for ms acc
    using that by (induction ms arbitrary: acc) (auto simp: restore_message_def)
  with assms(2,5) have none: "fmlookup (messages s') q = None" and cache: "sortedIDs s' = sortedIDs s"
    by (auto simp: Restore_def)
  then have "msg_of (queue_of s' q) j = zero_Message" for j by (simp add: queue_of_def msg_of_def)
  with none cache assms(1,3,4) show ?thesis
    by (simp add: Pull_def orderedIDsLocked_def retention_expired_def outstanding_def IsZero_def zero_Message_def Let_def)
qed

theorem restore_stale_cache_panics_witness:
  "\<exists>s'. Restore (Inr \<lparr>SnapMessages = [], SnapSeq = 0\<rparr>) (fst (ListMessages ''q'' demo_two)) = Inr s' \<and>
     Pull ''q'' 10 10 0 5 s' = Panic"
proof -
  let ?s = "fst (ListMessages ''q'' demo_two)"
  have "fmlookup (sortedIDs ?s) ''q'' = Some (''1'' # [''2''])" by code_simp
  then have "Restore (Inr \<lparr>SnapMessages = [], SnapSeq = 0\<rparr>) ?s = Inr s' \<Longrightarrow> Pull ''q'' 10 10 0 5 s' = Panic" for s'
    by (rule restore_stale_cache_panics) simp_all
  then show ?thesis by (simp add: Restore_def)
qed

lemma ForwardedMessage_attributes:
  "Attributes (ForwardedMessage src topic subscription messageID t project source n) =
     Attributes src ++\<^sub>f DeadLetterAttributes project source n (PublishTime src)"
  "k \<notin> {AttrDeadLetterSourceSubscription, AttrDeadLetterSourceSubscriptionProject, AttrDeadLetterSourceDeliveryCount,
       AttrDeadLetterSourceTopicPublishTime} \<Longrightarrow>
     fmlookup (Attributes (ForwardedMessage src topic subscription messageID t project source n)) k = fmlookup (Attributes src) k"
  by (auto simp: ForwardedMessage_def DeadLetterMessageAttributes_def DeadLetterAttributes_def fmlookup_of_list)

section \<open>Two orders that differ from the documented ones\<close>

text \<open>
  Message identifiers are decimal text compared as text: of two messages with consecutive identifiers 9 and 10
  published at the same instant, the later one is listed, and so delivered, first.
\<close>

theorem equal_times_break_publish_order:
  "let (s1, i) = NextID (NewMemoryMessages\<lparr>seq := 8\<rparr>); (s2, j) = NextID s1
   in i = ''9'' \<and> j = ''10'' \<and>
      map MessageID (snd (ListMessages ''q'' (Put (demo_message j 7) (Put (demo_message i 7) s2)))) = [j, i]"
  by code_simp

text \<open>
  A held acknowledgement survives the redelivery of the earlier message after its deadline lapsed: of two
  messages of a key pulled together, the second is acknowledged, both are pulled again after the deadline, and
  acknowledging only the first then acknowledges the second delivery of the second message too.
\<close>

theorem held_ack_survives_redelivery:
  "(case Pull ''q'' 10 10 0 Second demo_two of
      Panic \<Rightarrow> False
    | Ret (s1, out1) \<Rightarrow>
        (case Pull ''q'' 10 10 0 (20 * Second) (Acknowledge ''q'' ''2'' s1) of
           Panic \<Rightarrow> False
         | Ret (s2, out2) \<Rightarrow> map MessageID out1 = [''1'', ''2''] \<and> map MessageID out2 = [''1'', ''2''] \<and>
             Acked (msg_of (queue_of (Acknowledge ''q'' ''1'' s2) ''q'') ''2'')))"
  by code_simp

end
