(* ===== verification/Go_Strings.thy ===== *)
theory Go_Strings
  imports Go_Prelude
begin

text \<open>
  The functions of Go's \<open>strings\<close> package that the filter, ordering and path parsers use, on byte strings.

  \<^item> White space is Unicode's: \<open>white_runes\<close> lists the UTF-8 encodings of every rune for which
    \<open>unicode.IsSpace\<close> holds. A lead byte is never a continuation byte, so an encoding found in a byte
    string is always a decoded rune.
  \<^item> \<open>ToLower\<close> maps an ASCII string byte by byte; on any other string it applies the Unicode tables,
    which are the argument \<open>uni\<close>.
  \<^item> \<open>EqualFold\<close> is used with an ASCII second argument only; the two non-ASCII runes that fold to an
    ASCII letter (the long s and the Kelvin sign) are written out.
\<close>

section \<open>Bytes\<close>

definition byte :: "char \<Rightarrow> nat" where
  "byte c = of_char c"

definition isASCII :: "string \<Rightarrow> bool" where
  "isASCII s \<longleftrightarrow> list_all (\<lambda>c. byte c < 128) s"

definition is_upper :: "char \<Rightarrow> bool" where
  "is_upper c \<longleftrightarrow> 65 \<le> byte c \<and> byte c \<le> 90"

definition is_lower :: "char \<Rightarrow> bool" where
  "is_lower c \<longleftrightarrow> 97 \<le> byte c \<and> byte c \<le> 122"

definition is_alpha :: "char \<Rightarrow> bool" where
  "is_alpha c \<longleftrightarrow> is_lower c \<or> is_upper c"

definition lower_char :: "char \<Rightarrow> char" where
  "lower_char c = (if is_upper c then char_of (byte c + 32) else c)"

definition upper_char :: "char \<Rightarrow> char" where
  "upper_char c = (if is_lower c then char_of (byte c - 32) else c)"

text \<open>\<open>strings.ToLower\<close>.\<close>

definition ToLower :: "(string \<Rightarrow> string) \<Rightarrow> string \<Rightarrow> string" where
  "ToLower uni s = (if isASCII s then map lower_char s else uni s)"

text \<open>\<open>string(c)\<close> of a byte: the UTF-8 encoding of the code point \<open>c\<close>.\<close>

definition string_of_byte :: "char \<Rightarrow> string" where
  "string_of_byte c = (if byte c < 128 then [c] else [char_of (192 + byte c div 64), char_of (128 + byte c mod 64)])"

text \<open>\<open>strings.EqualFold(s, t)\<close> for an ASCII \<open>t\<close>.\<close>

fun EqualFold :: "string \<Rightarrow> string \<Rightarrow> bool" where
  "EqualFold [] t \<longleftrightarrow> t = []"
| "EqualFold (c # s) [] \<longleftrightarrow> False"
| "EqualFold (c # s) (d # t) \<longleftrightarrow>
     (if lower_char c = lower_char d then EqualFold s t
      else if lower_char d = CHR ''s'' \<and> byte c = 197 \<and> take 1 s = [char_of (191 :: nat)] then EqualFold (drop 1 s) t
      else lower_char d = CHR ''k'' \<and> byte c = 226 \<and> take 2 s = [char_of (132 :: nat), char_of (170 :: nat)] \<and>
        EqualFold (drop 2 s) t)"

section \<open>White space\<close>

definition white_runes :: "nat list list" where
  "white_runes = [[9], [10], [11], [12], [13], [32], [194, 133], [194, 160], [225, 154, 128]] @
     map (\<lambda>b. [226, 128, b]) ([128..<139] @ [168, 169, 175]) @ [[226, 129, 159], [227, 128, 128]]"

text \<open>The length in bytes of the white-space rune a string starts with; 0 if it starts with none.\<close>

definition white_len :: "string \<Rightarrow> nat" where
  "white_len s = (case find (\<lambda>w. take (length w) (map byte s) = w) white_runes of None \<Rightarrow> 0 | Some w \<Rightarrow> length w)"

definition white_len_end :: "string \<Rightarrow> nat" where
  "white_len_end s =
     (case find (\<lambda>w. take (length w) (map byte (rev s)) = rev w) white_runes of None \<Rightarrow> 0 | Some w \<Rightarrow> length w)"

fun TrimLeftSpace :: "string \<Rightarrow> string" where
  "TrimLeftSpace s = (if s = [] \<or> white_len s = 0 then s else TrimLeftSpace (drop (white_len s) s))"

fun TrimRightSpace :: "string \<Rightarrow> string" where
  "TrimRightSpace s =
     (if s = [] \<or> white_len_end s = 0 then s else TrimRightSpace (take (length s - white_len_end s) s))"

declare TrimLeftSpace.simps [simp del] TrimRightSpace.simps [simp del]

text \<open>\<open>strings.TrimSpace\<close>.\<close>

definition TrimSpace :: "string \<Rightarrow> string" where
  "TrimSpace s = TrimRightSpace (TrimLeftSpace s)"

text \<open>\<open>strings.Fields\<close>: the maximal runs without white space.\<close>

function fields_loop :: "string \<Rightarrow> string \<Rightarrow> string list" where
  "fields_loop cur s =
     (if s = [] then (if cur = [] then [] else [rev cur])
      else if white_len s = 0 then fields_loop (hd s # cur) (tl s)
      else (if cur = [] then [] else [rev cur]) @ fields_loop [] (drop (white_len s) s))"
  by pat_completeness auto
termination by (relation "measure (\<lambda>(cur, s). length s)") auto

declare fields_loop.simps [simp del]

definition Fields :: "string \<Rightarrow> string list" where
  "Fields s = fields_loop [] s"

section \<open>Splitting and joining\<close>

text \<open>\<open>strings.Split(s, sep)\<close> for a one-byte separator.\<close>

fun split_loop :: "char \<Rightarrow> string \<Rightarrow> string \<Rightarrow> string list" where
  "split_loop c cur [] = [rev cur]"
| "split_loop c cur (x # xs) = (if x = c then rev cur # split_loop c [] xs else split_loop c (x # cur) xs)"

definition Split :: "string \<Rightarrow> char \<Rightarrow> string list" where
  "Split s c = split_loop c [] s"

text \<open>\<open>strings.Join(parts, sep)\<close>.\<close>

fun Join :: "string list \<Rightarrow> string \<Rightarrow> string" where
  "Join [] sep = []"
| "Join [x] sep = x"
| "Join (x # y # xs) sep = x @ sep @ Join (y # xs) sep"

text \<open>\<open>strings.IndexByte\<close>: \<open>None\<close> for the result \<open>-1\<close>.\<close>

fun IndexByte :: "string \<Rightarrow> char \<Rightarrow> nat option" where
  "IndexByte [] c = None"
| "IndexByte (x # xs) c = (if x = c then Some 0 else map_option Suc (IndexByte xs c))"

text \<open>\<open>strings.Index\<close>: the first position of a substring, \<open>None\<close> for -1; \<open>strings.Count\<close> of a non-empty substring.\<close>

fun IndexStr :: "string \<Rightarrow> string \<Rightarrow> nat option" where
  "IndexStr [] sub = (if sub = [] then Some 0 else None)"
| "IndexStr (c # s) sub = (if HasPrefix (c # s) sub then Some 0 else map_option Suc (IndexStr s sub))"

function Count :: "string \<Rightarrow> string \<Rightarrow> nat" where
  "Count s sub =
     (if s = [] \<or> sub = [] then 0 else if HasPrefix s sub then Suc (Count (drop (length sub) s) sub) else Count (tl s) sub)"
  by pat_completeness auto
termination by (relation "measure (\<lambda>(s, sub). length s)") auto

declare Count.simps [simp del]

text \<open>
  The mappings of non-ASCII strings, \<open>strings.ToUpper\<close>, and a slice expression \<open>s[i:j]\<close>, which panics out of
  range.
\<close>

record unicode =
  uLower :: "string \<Rightarrow> string"
  uUpper :: "string \<Rightarrow> string"

definition ToUpper :: "(string \<Rightarrow> string) \<Rightarrow> string \<Rightarrow> string" where
  "ToUpper uni s = (if isASCII s then map upper_char s else uni s)"

definition slice :: "string \<Rightarrow> nat \<Rightarrow> nat \<Rightarrow> string go_result" where
  "slice s i j = (if i \<le> j \<and> j \<le> length s then Ret (take (j - i) (drop i s)) else Panic)"

text \<open>\<open>strings.HasSuffix\<close>, \<open>strings.TrimSuffix\<close> and \<open>strings.TrimPrefix\<close>.\<close>

definition HasSuffix :: "string \<Rightarrow> string \<Rightarrow> bool" where
  "HasSuffix s t \<longleftrightarrow> length t \<le> length s \<and> drop (length s - length t) s = t"

definition TrimSuffix :: "string \<Rightarrow> string \<Rightarrow> string" where
  "TrimSuffix s t = (if HasSuffix s t then take (length s - length t) s else s)"

definition TrimPrefix :: "string \<Rightarrow> string \<Rightarrow> string" where
  "TrimPrefix s t = (if HasPrefix s t then drop (length t) s else s)"

section \<open>Lemmas\<close>

lemma HasSuffix_append [simp]: "HasSuffix (s @ t) t"
  by (simp add: HasSuffix_def)

lemma TrimSuffix_append [simp]: "TrimSuffix (s @ t) t = s"
  by (simp add: TrimSuffix_def)

lemma byte_less [simp]: "byte c < 256"
  by (simp add: byte_def)

lemma byte_eq_iff [simp]: "byte c = byte d \<longleftrightarrow> c = d"
  by (simp add: byte_def)

lemma lower_char_idem [simp]: "lower_char (lower_char c) = lower_char c"
  by (auto simp: lower_char_def is_upper_def byte_def)

lemma white_len_bound: "white_len s \<le> length s"
proof (cases "find (\<lambda>w. take (length w) (map byte s) = w) white_runes")
  case (Some w)
  then have "take (length w) (map byte s) = w" by (simp add: find_Some_iff) metis
  then have "length w \<le> length s" by (metis length_map length_take min.cobounded1)
  with Some show ?thesis by (simp add: white_len_def)
qed (simp add: white_len_def)

text \<open>A string that starts with no white-space byte and no lead byte of a white-space rune is not trimmed.\<close>

definition plain_byte :: "char \<Rightarrow> bool" where
  "plain_byte c \<longleftrightarrow> 32 < byte c \<and> byte c < 128"

lemma white_len_plain: "plain_byte c \<Longrightarrow> white_len (c # s) = 0"
  by (auto simp: white_len_def white_runes_def plain_byte_def upt_rec)

lemma white_len_end_plain: "plain_byte c \<Longrightarrow> white_len_end (s @ [c]) = 0"
  by (auto simp: white_len_end_def white_runes_def plain_byte_def upt_rec)

lemma TrimLeftSpace_plain: "plain_byte c \<Longrightarrow> TrimLeftSpace (c # s) = c # s"
  by (subst TrimLeftSpace.simps) (simp add: white_len_plain)

lemma TrimRightSpace_plain: "plain_byte c \<Longrightarrow> TrimRightSpace (s @ [c]) = s @ [c]"
  by (subst TrimRightSpace.simps) (simp add: white_len_end_plain)

lemma TrimSpace_plain:
  assumes "s \<noteq> []" and "plain_byte (hd s)" and "plain_byte (last s)"
  shows "TrimSpace s = s"
proof -
  from assms have "TrimLeftSpace s = s" by (cases s) (simp_all add: TrimLeftSpace_plain)
  moreover from assms have "TrimRightSpace s = s" by (cases s rule: rev_cases) (simp_all add: TrimRightSpace_plain)
  ultimately show ?thesis by (simp add: TrimSpace_def)
qed

lemma white_len_end_rune:
  assumes "white_len_end s \<noteq> 0"
  obtains w where "w \<in> set white_runes" "take (length w) (map byte (rev s)) = rev w" "white_len_end s = length w"
proof (cases "find (\<lambda>w. take (length w) (map byte (rev s)) = rev w) white_runes")
  case (Some w)
  then have "w \<in> set white_runes" "take (length w) (map byte (rev s)) = rev w"
    by (auto simp: find_Some_iff in_set_conv_nth)
  with Some that show ?thesis by (simp add: white_len_end_def)
qed (use assms in \<open>simp add: white_len_end_def\<close>)

lemma TrimRightSpace_not_Nil: "plain_byte c \<Longrightarrow> TrimRightSpace (c # s) \<noteq> []"
proof (induction "c # s" arbitrary: s rule: TrimRightSpace.induct)
  case 1
  show ?case
  proof (cases "white_len_end (c # s) = 0")
    case True
    then show ?thesis by (subst TrimRightSpace.simps) simp
  next
    case False
    let ?n = "white_len_end (c # s)"
    have "?n \<le> length s"
    proof (rule ccontr)
      assume n: "\<not> ?n \<le> length s"
      from False obtain w where w: "w \<in> set white_runes" "take (length w) (map byte (rev (c # s))) = rev w" "?n = length w"
        by (rule white_len_end_rune)
      with n have "length w = Suc (length s)"
        by (metis (no_types) Suc_leI antisym length_Cons length_map length_rev length_take min.cobounded1 not_le)
      with w(2) have "rev w = map byte (rev (c # s))" by simp
      then have "w = map byte (c # s)" by (metis rev_map rev_rev_ident)
      with w(1) 1(2) show False by (auto simp: white_runes_def plain_byte_def)
    qed
    then have "take (length (c # s) - ?n) (c # s) = c # take (length s - ?n) s" by (simp add: Suc_diff_le)
    with 1 False show ?thesis by (subst TrimRightSpace.simps) simp
  qed
qed

lemma TrimSpace_not_Nil: "plain_byte c \<Longrightarrow> TrimSpace (c # s) \<noteq> []"
  by (simp add: TrimSpace_def TrimLeftSpace_plain TrimRightSpace_not_Nil)

lemma white_len_append: "white_len s \<noteq> 0 \<Longrightarrow> white_len (s @ t) \<noteq> 0"
proof -
  assume "white_len s \<noteq> 0"
  then obtain w where f: "find (\<lambda>w. take (length w) (map byte s) = w) white_runes = Some w"
    by (auto simp: white_len_def split: option.splits)
  then have w: "w \<in> set white_runes" "take (length w) (map byte s) = w" by (auto simp: find_Some_iff in_set_conv_nth)
  then have "length w \<le> length s" by (metis length_map length_take min.cobounded1)
  with w(2) have "take (length w) (map byte (s @ t)) = w" by simp
  with w(1) have "find (\<lambda>w. take (length w) (map byte (s @ t)) = w) white_runes \<noteq> None" by (auto simp: find_None_iff)
  then obtain u where u: "find (\<lambda>w. take (length w) (map byte (s @ t)) = w) white_runes = Some u" by blast
  then have "u \<in> set white_runes" by (auto simp: find_Some_iff in_set_conv_nth)
  then have "u \<noteq> []" by (auto simp: white_runes_def)
  with u show "white_len (s @ t) \<noteq> 0" by (simp add: white_len_def)
qed

lemma TrimLeftSpace_start: "TrimLeftSpace s = [] \<or> white_len (TrimLeftSpace s) = 0"
  by (induction s rule: TrimLeftSpace.induct) (subst (1 2) TrimLeftSpace.simps, auto)

lemma TrimRightSpace_prefix: "\<exists>t. s = TrimRightSpace s @ t"
proof (induction s rule: TrimRightSpace.induct)
  case (1 s)
  show ?case
  proof (cases "s = [] \<or> white_len_end s = 0")
    case False
    with 1 obtain t where "take (length s - white_len_end s) s = TrimRightSpace (take (length s - white_len_end s) s) @ t" by blast
    then have "s = TrimRightSpace (take (length s - white_len_end s) s) @ t @ drop (length s - white_len_end s) s"
      by (metis append_assoc append_take_drop_id)
    with False show ?thesis by (subst TrimRightSpace.simps) auto
  qed (subst TrimRightSpace.simps, auto)
qed

lemma fields_loop_pending: "cur \<noteq> [] \<Longrightarrow> fields_loop cur s \<noteq> []"
  by (induction cur s rule: fields_loop.induct) (subst fields_loop.simps, auto)

text \<open>A trimmed text that is not empty has a first field.\<close>

lemma Fields_TrimSpace: "TrimSpace s \<noteq> [] \<Longrightarrow> Fields (TrimSpace s) \<noteq> []"
proof -
  assume ne: "TrimSpace s \<noteq> []"
  obtain t where t: "TrimLeftSpace s = TrimSpace s @ t" using TrimRightSpace_prefix [of "TrimLeftSpace s"] by (auto simp: TrimSpace_def)
  with ne TrimLeftSpace_start [of s] have "white_len (TrimSpace s) = 0" using white_len_append [of "TrimSpace s" t] by fastforce
  with ne show "Fields (TrimSpace s) \<noteq> []"
    unfolding Fields_def by (subst fields_loop.simps) (simp add: fields_loop_pending)
qed

lemma split_loop_append: "c \<notin> set w \<Longrightarrow> split_loop c cur (w @ c # rest) = (rev cur @ w) # split_loop c [] rest"
  by (induction w arbitrary: cur) auto

lemma split_loop_no_sep: "c \<notin> set w \<Longrightarrow> split_loop c cur w = [rev cur @ w]"
  by (induction w arbitrary: cur) auto

lemma Split_Join: "xs \<noteq> [] \<Longrightarrow> \<forall>x \<in> set xs. c \<notin> set x \<Longrightarrow> Split (Join xs [c]) c = xs"
  unfolding Split_def by (induction xs "[c]" rule: Join.induct) (auto simp: split_loop_append split_loop_no_sep)

lemma EqualFold_same: "EqualFold s s"
  by (induction s) auto

declare EqualFold.simps [simp del]

end
