(* ===== verification/Filter_Lexing.thy ===== *)
theory Filter_Lexing
  imports Go_Strings
begin

text \<open>
  The lexical loops the two filter scanners have in common: a quoted string in which a backslash takes the
  next byte as it is, and the blanks between tokens. \<open>pubsubfilter.tokenize\<close> and \<open>aip160.Tokenize\<close>
  contain them word for word.
\<close>

text \<open>The loop over a quoted string: the text built and what follows the closing quote.\<close>

function scan_string :: "string \<Rightarrow> string \<Rightarrow> (string \<times> string) option" where
  "scan_string b [] = None"
| "scan_string b (c # s) =
     (if c = CHR 0x5C \<and> s \<noteq> [] then scan_string (b @ [hd s]) (tl s)
      else if c = CHR 0x22 then Some (b, s)
      else scan_string (b @ [c]) s)"
  by pat_completeness auto
termination by (relation "measure (\<lambda>(b, s). length s)") auto

lemma scan_string_length: "scan_string b s = Some (t, r) \<Longrightarrow> length r < length s"
  by (induction b s arbitrary: t r rule: scan_string.induct) (force split: if_splits)+

definition is_blank :: "char \<Rightarrow> bool" where
  "is_blank c \<longleftrightarrow> c = CHR '' '' \<or> c = CHR 0x09 \<or> c = CHR 0x0A \<or> c = CHR 0x0D"


text \<open>The quoting that the loop undoes.\<close>

definition quoted :: "string \<Rightarrow> string" where
  "quoted s = CHR 0x22 # concat (map (\<lambda>c. if c = CHR 0x22 \<or> c = CHR 0x5C then [CHR 0x5C, c] else [c]) s) @ [CHR 0x22]"

lemma scan_string_quoted: "scan_string b (concat (map (\<lambda>c. if c = CHR 0x22 \<or> c = CHR 0x5C then [CHR 0x5C, c] else [c]) s) @ CHR 0x22 # r) = Some (b @ s, r)"
  by (induction s arbitrary: b) auto

lemma scan_string_tl_quoted: "scan_string [] (tl (quoted v) @ r) = Some (v, r)"
  using scan_string_quoted [of "[]" v r] by (simp add: quoted_def)

end
