(* ===== verification/Pubsub_Filter.thy ===== *)
theory Pubsub_Filter
  imports Filter_Lexing
begin

text \<open>
  Subscription filters: \<open>internal/gcp/pubsubfilter/filter.go\<close>.

  The byte scanner \<open>tokenize\<close>, the recursive-descent parser (\<open>parseOr\<close>, \<open>parseAnd\<close>,
  \<open>parseFactor\<close>, \<open>parsePredicate\<close>, \<open>parseAttrKey\<close>), \<open>Compile\<close> and the evaluation of the
  parsed tree on a message's attributes. The parser's state \<open>tokens[pos:]\<close> is the list of the remaining tokens: \<open>peek\<close> is its
  head, and \<open>next\<close> drops the head unless it is the end token. Every \<open>for\<close> loop of the parser is a
  recursive function of its own; that they all end is the termination proof of \<open>parseOr\<close>.
  An error is a value that names the \<open>fmt.Errorf\<close> call which builds it.

  The documented grammar is stated beside the parser as the inductive relations \<open>gram_expr\<close>,
  \<open>gram_term\<close> and \<open>gram_factor\<close>; \<open>Compile\<close> accepts exactly the texts derivable in it.
\<close>

section \<open>Syntax trees\<close>

datatype node =
    orNode node node
  | andNode node node
  | notNode node
  | cmpNode (key: string) (cmp_value: string) (neq: bool)
  | prefixNode (key: string) (pfx: string)

type_synonym attributes = "(string, string) fmap"

fun eval :: "node \<Rightarrow> attributes \<Rightarrow> bool" where
  "eval (orNode l r) a \<longleftrightarrow> eval l a \<or> eval r a"
| "eval (andNode l r) a \<longleftrightarrow> eval l a \<and> eval r a"
| "eval (notNode n) a \<longleftrightarrow> \<not> eval n a"
| "eval (cmpNode k v ne) a \<longleftrightarrow>
     (if ne then fmlookup a k = None \<or> the (fmlookup a k) \<noteq> v else fmlookup a k \<noteq> None \<and> the (fmlookup a k) = v)"
| "eval (prefixNode k p) a \<longleftrightarrow> fmlookup a k \<noteq> None \<and> HasPrefix (the (fmlookup a k)) p"

record Filter =
  expr :: node
  src :: string

text \<open>A nil \<open>*Filter\<close> is \<open>None\<close>.\<close>

definition Match :: "Filter option \<Rightarrow> attributes \<Rightarrow> bool" where
  "Match f attrs = (case f of None \<Rightarrow> True | Some f \<Rightarrow> eval (expr f) attrs)"

section \<open>Lexer\<close>

datatype tokKind = tokEOF | tokIdent | tokString | tokLParen | tokRParen | tokDot | tokColon | tokComma | tokEq | tokNeq

record token =
  kind :: tokKind
  tok_text :: string

abbreviation tok :: "tokKind \<Rightarrow> string \<Rightarrow> token" where
  "tok k t \<equiv> \<lparr>kind = k, tok_text = t\<rparr>"

definition isIdentStart :: "char \<Rightarrow> bool" where
  "isIdentStart c \<longleftrightarrow> c = CHR ''_'' \<or> (CHR ''a'' \<le> c \<and> c \<le> CHR ''z'') \<or> (CHR ''A'' \<le> c \<and> c \<le> CHR ''Z'')"

definition isIdentPart :: "char \<Rightarrow> bool" where
  "isIdentPart c \<longleftrightarrow> isIdentStart c \<or> (CHR ''0'' \<le> c \<and> c \<le> CHR ''9'') \<or> c = CHR ''-''"

function scan :: "string \<Rightarrow> token list" where
  "scan [] = []"
| "scan (c # s) =
     (if is_blank c then scan s
      else if c = CHR ''('' then tok tokLParen ''('' # scan s
      else if c = CHR '')'' then tok tokRParen '')'' # scan s
      else if c = CHR '','' then tok tokComma '','' # scan s
      else if c = CHR ''.'' then tok tokDot ''.'' # scan s
      else if c = CHR '':'' then tok tokColon '':'' # scan s
      else if c = CHR ''='' then tok tokEq ''='' # scan s
      else if c = CHR ''!'' then
        (if s \<noteq> [] \<and> hd s = CHR ''='' then tok tokNeq ''!='' # scan (tl s) else tok tokIdent ''!'' # scan s)
      else if c = CHR 0x22 then
        (case scan_string [] s of
           None \<Rightarrow> [tok tokIdent (c # s)]
         | Some (t, r) \<Rightarrow> tok tokString t # scan r)
      else if isIdentStart c then
        tok tokIdent (c # takeWhile isIdentPart s) # scan (dropWhile isIdentPart s)
      else tok tokIdent (string_of_byte c) # scan s)"
  by pat_completeness auto
termination
  by (relation "measure length") (auto dest: scan_string_length simp: le_imp_less_Suc length_dropWhile_le)

definition tokenize :: "string \<Rightarrow> token list" where
  "tokenize s = scan s @ [tok tokEOF []]"

section \<open>Parser\<close>

datatype filter_error =
    UnexpectedToken string | ExpectedRParen | ExpectedLParenAfterHasPrefix | ExpectedCommaInHasPrefix
  | ExpectedStringInHasPrefix | ExpectedRParenAfterHasPrefix | ExpectedStringAfterEq | ExpectedStringAfterNeq
  | ExpectedComparison | ExpectedAttributes | ExpectedDotOrColon | ExpectedAttributeName

definition peek :: "token list \<Rightarrow> token" where
  "peek ts = (case ts of [] \<Rightarrow> tok tokEOF [] | t # _ \<Rightarrow> t)"

definition advance :: "token list \<Rightarrow> token list" where
  "advance ts = (if kind (peek ts) \<noteq> tokEOF then tl ts else ts)"

definition is_kw :: "token \<Rightarrow> string \<Rightarrow> bool" where
  "is_kw t kw \<longleftrightarrow> kind t = tokIdent \<and> EqualFold (tok_text t) kw"

definition isKeyword :: "token list \<Rightarrow> string \<Rightarrow> bool" where
  "isKeyword ts kw \<longleftrightarrow> is_kw (peek ts) kw"

definition parseAttrKey :: "token list \<Rightarrow> filter_error + string \<times> token list" where
  "parseAttrKey ts =
     (if \<not> isKeyword ts ''attributes'' then Inl ExpectedAttributes
      else let ts = advance ts; k = kind (peek ts); ts = advance ts
        in if k \<noteq> tokDot \<and> k \<noteq> tokColon then Inl ExpectedDotOrColon
           else let i = peek ts; ts = advance ts
             in if kind i \<noteq> tokIdent \<or> \<not> isIdentStart (hd (tok_text i)) then Inl ExpectedAttributeName
                else Inr (tok_text i, ts))"

definition parsePredicate :: "token list \<Rightarrow> filter_error + node \<times> token list" where
  "parsePredicate ts =
     (if isKeyword ts ''hasprefix'' then
        let ts = advance ts
        in if kind (peek ts) \<noteq> tokLParen then Inl ExpectedLParenAfterHasPrefix
           else case parseAttrKey (advance ts) of
             Inl e \<Rightarrow> Inl e
           | Inr (k, ts) \<Rightarrow>
               if kind (peek ts) \<noteq> tokComma then Inl ExpectedCommaInHasPrefix
               else let ts = advance ts
                 in if kind (peek ts) \<noteq> tokString then Inl ExpectedStringInHasPrefix
                    else let val = tok_text (peek ts); ts = advance ts
                      in if kind (peek ts) \<noteq> tokRParen then Inl ExpectedRParenAfterHasPrefix
                         else Inr (prefixNode k val, advance ts)
      else case parseAttrKey ts of
        Inl e \<Rightarrow> Inl e
      | Inr (k, ts) \<Rightarrow>
          let c = kind (peek ts); ts = advance ts
          in if c = tokEq then
               if kind (peek ts) \<noteq> tokString then Inl ExpectedStringAfterEq
               else Inr (cmpNode k (tok_text (peek ts)) False, advance ts)
             else if c = tokNeq then
               if kind (peek ts) \<noteq> tokString then Inl ExpectedStringAfterNeq
               else Inr (cmpNode k (tok_text (peek ts)) True, advance ts)
             else Inl ExpectedComparison)"

lemma length_advance: "length (advance ts) \<le> length ts"
  by (simp add: advance_def)

lemma length_advance_less [simp]: "kind (peek ts) \<noteq> tokEOF \<Longrightarrow> length (advance ts) < length ts"
  by (cases ts) (simp_all add: advance_def peek_def)

lemma isKeyword_kind: "isKeyword ts kw \<Longrightarrow> kind (peek ts) = tokIdent"
  by (simp add: isKeyword_def is_kw_def)

lemma advance_le: "length r \<le> length ts \<Longrightarrow> length (advance r) \<le> length ts"
  by (rule order_trans [OF length_advance])

lemma le_advanceD: "length r \<le> length (advance ts) \<Longrightarrow> length r \<le> length ts"
  by (rule order_trans [OF _ length_advance])

lemma length_parseAttrKey: "parseAttrKey ts = Inr (k, r) \<Longrightarrow> length r \<le> length ts"
  by (auto simp: parseAttrKey_def Let_def split: if_splits intro!: advance_le)

lemma length_parsePredicate: "parsePredicate ts = Inr (n, r) \<Longrightarrow> length r \<le> length ts"
  by (auto simp: parsePredicate_def Let_def split: if_splits sum.splits
      dest!: length_parseAttrKey le_advanceD intro!: advance_le)

function (sequential) parseOr :: "token list \<Rightarrow> filter_error + node \<times> token list"
  and orLoop :: "node \<Rightarrow> token list \<Rightarrow> filter_error + node \<times> token list"
  and parseAnd :: "token list \<Rightarrow> filter_error + node \<times> token list"
  and andLoop :: "node \<Rightarrow> token list \<Rightarrow> filter_error + node \<times> token list"
  and parseFactor :: "token list \<Rightarrow> filter_error + node \<times> token list"
where
  "parseOr ts = (case parseAnd ts of Inl e \<Rightarrow> Inl e | Inr (left, ts) \<Rightarrow> orLoop left ts)"
| "orLoop left ts =
     (if isKeyword ts ''or'' then
        case parseAnd (advance ts) of Inl e \<Rightarrow> Inl e | Inr (right, ts) \<Rightarrow> orLoop (orNode left right) ts
      else Inr (left, ts))"
| "parseAnd ts = (case parseFactor ts of Inl e \<Rightarrow> Inl e | Inr (left, ts) \<Rightarrow> andLoop left ts)"
| "andLoop left ts =
     (if isKeyword ts ''and'' then
        case parseFactor (advance ts) of Inl e \<Rightarrow> Inl e | Inr (right, ts) \<Rightarrow> andLoop (andNode left right) ts
      else Inr (left, ts))"
| "parseFactor ts =
     (if isKeyword ts ''not'' then
        case parseFactor (advance ts) of Inl e \<Rightarrow> Inl e | Inr (inner, ts) \<Rightarrow> Inr (notNode inner, ts)
      else if kind (peek ts) = tokLParen then
        case parseOr (advance ts) of
          Inl e \<Rightarrow> Inl e
        | Inr (n, ts) \<Rightarrow> if kind (peek ts) \<noteq> tokRParen then Inl ExpectedRParen else Inr (n, advance ts)
      else parsePredicate ts)"
  by pat_completeness auto

text \<open>No parser adds tokens: proved on the domain, it gives the termination of the loops.\<close>

lemma parse_dom_length:
  "parseOr_orLoop_parseAnd_andLoop_parseFactor_dom (Inl (Inl ts)) \<Longrightarrow> parseOr ts = Inr (n, r) \<Longrightarrow> length r \<le> length ts"
  "parseOr_orLoop_parseAnd_andLoop_parseFactor_dom (Inl (Inr (left, ts))) \<Longrightarrow> orLoop left ts = Inr (n, r) \<Longrightarrow> length r \<le> length ts"
  "parseOr_orLoop_parseAnd_andLoop_parseFactor_dom (Inr (Inl ts)) \<Longrightarrow> parseAnd ts = Inr (n, r) \<Longrightarrow> length r \<le> length ts"
  "parseOr_orLoop_parseAnd_andLoop_parseFactor_dom (Inr (Inr (Inl (left, ts)))) \<Longrightarrow> andLoop left ts = Inr (n, r) \<Longrightarrow> length r \<le> length ts"
  "parseOr_orLoop_parseAnd_andLoop_parseFactor_dom (Inr (Inr (Inr ts))) \<Longrightarrow> parseFactor ts = Inr (n, r) \<Longrightarrow> length r \<le> length ts"
proof (induction arbitrary: n r and n r and n r and n r and n r rule: parseOr_orLoop_parseAnd_andLoop_parseFactor.pinduct)
  case (1 ts)
  then show ?case by (fastforce simp: parseOr.psimps split: sum.splits)
next
  case (2 left ts)
  then show ?case using length_advance [of ts] by (fastforce simp: orLoop.psimps split: sum.splits if_splits)
next
  case (3 ts)
  then show ?case by (fastforce simp: parseAnd.psimps split: sum.splits)
next
  case (4 left ts)
  then show ?case using length_advance [of ts] by (fastforce simp: andLoop.psimps split: sum.splits if_splits)
next
  case (5 ts)
  then show ?case using length_advance [of ts]
    by (fastforce simp: parseFactor.psimps split: sum.splits if_splits dest: length_parsePredicate intro: order_trans [OF length_advance])
qed

termination parseOr
  by (relation "measures [\<lambda>x. case x of Inl (Inl ts) \<Rightarrow> length ts | Inl (Inr (_, ts)) \<Rightarrow> length ts | Inr (Inl ts) \<Rightarrow> length ts
        | Inr (Inr (Inl (_, ts))) \<Rightarrow> length ts | Inr (Inr (Inr ts)) \<Rightarrow> length ts,
      \<lambda>x. case x of Inl (Inl _) \<Rightarrow> 4 | Inl (Inr _) \<Rightarrow> 0 | Inr (Inl _) \<Rightarrow> 3 | Inr (Inr (Inl _)) \<Rightarrow> 0 | Inr (Inr (Inr _)) \<Rightarrow> 2]")
    (auto dest!: parse_dom_length isKeyword_kind simp: le_less_trans order_le_less)


declare parseOr.simps [simp del] orLoop.simps [simp del] parseAnd.simps [simp del] andLoop.simps [simp del] parseFactor.simps [simp del]

definition Compile :: "string \<Rightarrow> filter_error + Filter option" where
  "Compile e =
     (if TrimSpace e = [] then Inr None
      else case parseOr (tokenize e) of
        Inl err \<Rightarrow> Inl err
      | Inr (n, ts) \<Rightarrow>
          if kind (peek ts) \<noteq> tokEOF then Inl (UnexpectedToken (tok_text (peek ts)))
          else Inr (Some \<lparr>expr = n, src = e\<rparr>))"

section \<open>The documented grammar\<close>

inductive gram_key :: "token list \<Rightarrow> string \<Rightarrow> bool" where
  attr_key: "is_kw a ''attributes'' \<Longrightarrow> kind d \<in> {tokDot, tokColon} \<Longrightarrow> kind i = tokIdent \<Longrightarrow> isIdentStart (hd (tok_text i)) \<Longrightarrow>
    gram_key [a, d, i] (tok_text i)"

inductive gram_pred :: "token list \<Rightarrow> node \<Rightarrow> bool" where
  pred_eq: "gram_key ks k \<Longrightarrow> kind c = tokEq \<Longrightarrow> kind v = tokString \<Longrightarrow> gram_pred (ks @ [c, v]) (cmpNode k (tok_text v) False)"
| pred_neq: "gram_key ks k \<Longrightarrow> kind c = tokNeq \<Longrightarrow> kind v = tokString \<Longrightarrow> gram_pred (ks @ [c, v]) (cmpNode k (tok_text v) True)"
| pred_prefix: "is_kw h ''hasprefix'' \<Longrightarrow> kind lp = tokLParen \<Longrightarrow> gram_key ks k \<Longrightarrow> kind c = tokComma \<Longrightarrow> kind v = tokString \<Longrightarrow>
    kind rp = tokRParen \<Longrightarrow> gram_pred (h # lp # ks @ [c, v, rp]) (prefixNode k (tok_text v))"

inductive gram_expr :: "token list \<Rightarrow> node \<Rightarrow> bool"
  and gram_term :: "token list \<Rightarrow> node \<Rightarrow> bool"
  and gram_factor :: "token list \<Rightarrow> node \<Rightarrow> bool"
where
  expr_term: "gram_term ts n \<Longrightarrow> gram_expr ts n"
| expr_or: "gram_expr us l \<Longrightarrow> is_kw t ''or'' \<Longrightarrow> gram_term vs r \<Longrightarrow> gram_expr (us @ t # vs) (orNode l r)"
| term_factor: "gram_factor ts n \<Longrightarrow> gram_term ts n"
| term_and: "gram_term us l \<Longrightarrow> is_kw t ''and'' \<Longrightarrow> gram_factor vs r \<Longrightarrow> gram_term (us @ t # vs) (andNode l r)"
| factor_not: "is_kw t ''not'' \<Longrightarrow> gram_factor ts n \<Longrightarrow> gram_factor (t # ts) (notNode n)"
| factor_paren: "kind lp = tokLParen \<Longrightarrow> gram_expr ts n \<Longrightarrow> kind rp = tokRParen \<Longrightarrow> gram_factor (lp # ts @ [rp]) n"
| factor_pred: "gram_pred ts n \<Longrightarrow> gram_factor ts n"

subsection \<open>The parser follows the grammar\<close>

lemma consumed: "kind (peek ts) \<noteq> tokEOF \<Longrightarrow> ts = peek ts # advance ts"
  by (cases ts) (simp_all add: peek_def advance_def)

lemma peek_advance_Cons [simp]: "peek (t # ts) = t" "kind t \<noteq> tokEOF \<Longrightarrow> advance (t # ts) = ts"
  by (simp_all add: peek_def advance_def)

lemma is_kw_kind: "is_kw t kw \<Longrightarrow> kind t = tokIdent"
  by (simp add: is_kw_def)

lemma EqualFold_first: "EqualFold s (d # t) \<Longrightarrow> lower_char d \<notin> {CHR ''s'', CHR ''k''} \<Longrightarrow> s \<noteq> [] \<and> lower_char (hd s) = lower_char d"
  by (cases s) (auto simp: EqualFold.simps split: if_splits)

lemma is_kw_first:
  "is_kw t (d # kw) \<Longrightarrow> lower_char d \<notin> {CHR ''s'', CHR ''k''} \<Longrightarrow> lower_char (hd (tok_text t)) = lower_char d"
  by (auto simp: is_kw_def dest: EqualFold_first)

text \<open>The words the parser tests at the same place start with different letters.\<close>

lemma keyword_letters:
  "is_kw t ''or'' \<Longrightarrow> lower_char (hd (tok_text t)) = CHR ''o''" "is_kw t ''and'' \<Longrightarrow> lower_char (hd (tok_text t)) = CHR ''a''"
  "is_kw t ''not'' \<Longrightarrow> lower_char (hd (tok_text t)) = CHR ''n''" "is_kw t ''hasprefix'' \<Longrightarrow> lower_char (hd (tok_text t)) = CHR ''h''"
  "is_kw t ''attributes'' \<Longrightarrow> lower_char (hd (tok_text t)) = CHR ''a''"
  by (drule is_kw_first; simp add: lower_char_def is_upper_def byte_def)+

lemma keyword_apart:
  "is_kw t ''or'' \<Longrightarrow> \<not> is_kw t ''and''"
  "is_kw t ''attributes'' \<Longrightarrow> \<not> is_kw t ''not''" "is_kw t ''hasprefix'' \<Longrightarrow> \<not> is_kw t ''not''"
  "is_kw t ''attributes'' \<Longrightarrow> \<not> is_kw t ''hasprefix''"
  by (auto dest!: keyword_letters)

lemma parseAttrKey_sound: "parseAttrKey ts = Inr (k, r) \<Longrightarrow> \<exists>us. ts = us @ r \<and> gram_key us k"
proof -
  assume a: "parseAttrKey ts = Inr (k, r)"
  let ?t1 = "advance ts" and ?t2 = "advance (advance ts)"
  from a have kw: "is_kw (peek ts) ''attributes''" and d: "kind (peek ?t1) \<in> {tokDot, tokColon}"
    and i: "kind (peek ?t2) = tokIdent" "isIdentStart (hd (tok_text (peek ?t2)))" and kr: "k = tok_text (peek ?t2)" "r = advance ?t2"
    by (auto simp: parseAttrKey_def isKeyword_def Let_def split: if_splits)
  have "ts = peek ts # ?t1" "?t1 = peek ?t1 # ?t2" "?t2 = peek ?t2 # r"
    using kw d i kr(2) by (auto intro!: consumed simp: is_kw_kind)
  then have "ts = [peek ts, peek ?t1, peek ?t2] @ r" by (metis append_Cons append_Nil)
  moreover have "gram_key [peek ts, peek ?t1, peek ?t2] k" unfolding kr(1) by (rule attr_key [OF kw d i])
  ultimately show ?thesis by blast
qed

lemma parseAttrKey_complete: "gram_key us k \<Longrightarrow> parseAttrKey (us @ r) = Inr (k, r)"
  by (auto simp: parseAttrKey_def isKeyword_def is_kw_kind elim!: gram_key.cases)

lemma parsePredicate_sound:
  assumes "parsePredicate ts = Inr (n, r)"
  shows "\<exists>us. ts = us @ r \<and> gram_pred us n"
proof (cases "isKeyword ts ''hasprefix''")
  case True
  let ?t1 = "advance ts"
  from True assms obtain k u where u: "parseAttrKey (advance ?t1) = Inr (k, u)" "kind (peek ?t1) = tokLParen" "kind (peek u) = tokComma"
    "kind (peek (advance u)) = tokString" "kind (peek (advance (advance u))) = tokRParen"
    "n = prefixNode k (tok_text (peek (advance u)))" "r = advance (advance (advance u))"
    by (auto simp: parsePredicate_def Let_def split: if_splits sum.splits)
  from parseAttrKey_sound [OF u(1)] obtain ks where ks: "advance ?t1 = ks @ u" "gram_key ks k" by blast
  have t: "ts = peek ts # ?t1" "?t1 = peek ?t1 # advance ?t1" "u = peek u # advance u"
    "advance u = peek (advance u) # advance (advance u)" "advance (advance u) = peek (advance (advance u)) # r"
    using True u by (auto intro!: consumed dest: isKeyword_kind)
  from t(3-5) have "u = [peek u, peek (advance u), peek (advance (advance u))] @ r" by (metis append_Cons append_Nil)
  with t(1,2) ks(1) have "ts = (peek ts # peek ?t1 # ks @ [peek u, peek (advance u), peek (advance (advance u))]) @ r"
    by (metis append_Cons append_assoc)
  moreover have "gram_pred (peek ts # peek ?t1 # ks @ [peek u, peek (advance u), peek (advance (advance u))]) n"
    using True u ks(2) by (auto simp: isKeyword_def intro: pred_prefix)
  ultimately show ?thesis by blast
next
  case False
  with assms obtain k u ne where u: "parseAttrKey ts = Inr (k, u)" "kind (peek u) = (if ne then tokNeq else tokEq)"
    "kind (peek (advance u)) = tokString" "n = cmpNode k (tok_text (peek (advance u))) ne" "r = advance (advance u)"
    by (fastforce simp: parsePredicate_def Let_def split: if_splits sum.splits)
  from parseAttrKey_sound [OF u(1)] obtain ks where ks: "ts = ks @ u" "gram_key ks k" by blast
  have "u = peek u # advance u" "advance u = peek (advance u) # r"
    using u(2,3,5) by (auto intro!: consumed split: if_splits)
  with ks(1) have "ts = (ks @ [peek u, peek (advance u)]) @ r" by (metis append_Cons append_Nil append_assoc)
  moreover have "gram_pred (ks @ [peek u, peek (advance u)]) n"
    using u(2-4) ks(2) by (cases ne) (auto intro: pred_eq pred_neq)
  ultimately show ?thesis by blast
qed

lemma parsePredicate_complete: "gram_pred us n \<Longrightarrow> parsePredicate (us @ r) = Inr (n, r)"
proof (induction rule: gram_pred.induct)
  case (pred_eq ks k c v)
  have "\<not> isKeyword ((ks @ [c, v]) @ r) ''hasprefix''"
    using pred_eq(1) by (auto simp: isKeyword_def elim!: gram_key.cases dest: keyword_apart)
  with pred_eq show ?case by (simp add: parsePredicate_def Let_def parseAttrKey_complete)
next
  case (pred_neq ks k c v)
  have "\<not> isKeyword ((ks @ [c, v]) @ r) ''hasprefix''"
    using pred_neq(1) by (auto simp: isKeyword_def elim!: gram_key.cases dest: keyword_apart)
  with pred_neq show ?case by (simp add: parsePredicate_def Let_def parseAttrKey_complete)
next
  case (pred_prefix h lp ks k c v rp)
  then show ?case by (simp add: parsePredicate_def Let_def parseAttrKey_complete isKeyword_def is_kw_kind)
qed

lemma parse_sound:
  "parseOr ts = Inr (n, r) \<Longrightarrow> \<exists>us. ts = us @ r \<and> gram_expr us n"
  "orLoop left ts = Inr (n, r) \<Longrightarrow> gram_expr ws left \<Longrightarrow> \<exists>us. ts = us @ r \<and> gram_expr (ws @ us) n"
  "parseAnd ts = Inr (n, r) \<Longrightarrow> \<exists>us. ts = us @ r \<and> gram_term us n"
  "andLoop left ts = Inr (n, r) \<Longrightarrow> gram_term ws left \<Longrightarrow> \<exists>us. ts = us @ r \<and> gram_term (ws @ us) n"
  "parseFactor ts = Inr (n, r) \<Longrightarrow> \<exists>us. ts = us @ r \<and> gram_factor us n"
proof (induction ts and left ts and ts and left ts and ts arbitrary: n r and n r ws and n r and n r ws and n r
    rule: parseOr_orLoop_parseAnd_andLoop_parseFactor.induct)
  case (1 ts)
  from 1(3) obtain l u where u: "parseAnd ts = Inr (l, u)" "orLoop l u = Inr (n, r)"
    by (auto simp: parseOr.simps [of ts] split: sum.splits)
  from 1(1) [OF u(1)] obtain us where us: "ts = us @ u" "gram_term us l" by blast
  from 1(2) [OF u(1) refl u(2) expr_term [OF us(2)]] us(1) show ?case by auto
next
  case (2 left ts)
  show ?case
  proof (cases "isKeyword ts ''or''")
    case True
    then have ts: "ts = peek ts # advance ts" by (intro consumed) (simp add: isKeyword_kind)
    from 2(3) True obtain m u where u: "parseAnd (advance ts) = Inr (m, u)" "orLoop (orNode left m) u = Inr (n, r)"
      by (auto simp: orLoop.simps [of left ts] split: sum.splits)
    from 2(1) [OF True u(1)] obtain us where us: "advance ts = us @ u" "gram_term us m" by blast
    have "gram_expr (ws @ peek ts # us) (orNode left m)"
      using True 2(4) us(2) by (auto simp: isKeyword_def intro: expr_or)
    from 2(2) [OF True u(1) refl u(2) this] obtain vs where "u = vs @ r" "gram_expr ((ws @ peek ts # us) @ vs) n" by blast
    with ts us(1) have "ts = (peek ts # us @ vs) @ r" "gram_expr (ws @ (peek ts # us @ vs)) n" by (metis append_Cons append_assoc, simp)
    then show ?thesis by blast
  qed (use 2(3,4) in \<open>simp add: orLoop.simps [of left ts]\<close>)
next
  case (3 ts)
  from 3(3) obtain l u where u: "parseFactor ts = Inr (l, u)" "andLoop l u = Inr (n, r)"
    by (auto simp: parseAnd.simps [of ts] split: sum.splits)
  from 3(1) [OF u(1)] obtain us where us: "ts = us @ u" "gram_factor us l" by blast
  from 3(2) [OF u(1) refl u(2) term_factor [OF us(2)]] us(1) show ?case by auto
next
  case (4 left ts)
  show ?case
  proof (cases "isKeyword ts ''and''")
    case True
    then have ts: "ts = peek ts # advance ts" by (intro consumed) (simp add: isKeyword_kind)
    from 4(3) True obtain m u where u: "parseFactor (advance ts) = Inr (m, u)" "andLoop (andNode left m) u = Inr (n, r)"
      by (auto simp: andLoop.simps [of left ts] split: sum.splits)
    from 4(1) [OF True u(1)] obtain us where us: "advance ts = us @ u" "gram_factor us m" by blast
    have "gram_term (ws @ peek ts # us) (andNode left m)"
      using True 4(4) us(2) by (auto simp: isKeyword_def intro: term_and)
    from 4(2) [OF True u(1) refl u(2) this] obtain vs where "u = vs @ r" "gram_term ((ws @ peek ts # us) @ vs) n" by blast
    with ts us(1) have "ts = (peek ts # us @ vs) @ r" "gram_term (ws @ (peek ts # us @ vs)) n" by (metis append_Cons append_assoc, simp)
    then show ?thesis by blast
  qed (use 4(3,4) in \<open>simp add: andLoop.simps [of left ts]\<close>)
next
  case (5 ts)
  consider "isKeyword ts ''not''" | "\<not> isKeyword ts ''not''" "kind (peek ts) = tokLParen"
    | "\<not> isKeyword ts ''not''" "kind (peek ts) \<noteq> tokLParen" by blast
  then show ?case
  proof cases
    case 1
    then have ts: "ts = peek ts # advance ts" by (intro consumed) (simp add: isKeyword_kind)
    from 1 5(3) obtain m where m: "parseFactor (advance ts) = Inr (m, r)" "n = notNode m"
      by (auto simp: parseFactor.simps [of ts] split: sum.splits)
    from 5(1) [OF 1 m(1)] obtain us where "advance ts = us @ r" "gram_factor us m" by blast
    with ts m(2) 1 show ?thesis by (intro exI [of _ "peek ts # us"]) (auto simp: isKeyword_def intro: factor_not)
  next
    case 2
    then have ts: "ts = peek ts # advance ts" by (intro consumed) simp
    from 2 5(3) obtain u where u: "parseOr (advance ts) = Inr (n, u)" "kind (peek u) = tokRParen" "r = advance u"
      by (auto simp: parseFactor.simps [of ts] split: sum.splits if_splits)
    from 5(2) [OF 2 u(1)] obtain us where us: "advance ts = us @ u" "gram_expr us n" by blast
    have "u = peek u # r" using u(2,3) by (auto intro: consumed)
    with ts us(1) have "ts = (peek ts # us @ [peek u]) @ r" by (metis append_Cons append_Nil append_assoc)
    with 2 u(2) us(2) show ?thesis by (blast intro: factor_paren)
  next
    case 3
    with 5(3) have "parsePredicate ts = Inr (n, r)" by (simp add: parseFactor.simps [of ts])
    from parsePredicate_sound [OF this] show ?thesis by (blast intro: factor_pred)
  qed
qed

lemma gram_pred_start: "gram_pred us n \<Longrightarrow> \<exists>t ts. us = t # ts \<and> \<not> is_kw t ''not'' \<and> kind t \<noteq> tokLParen"
  by (auto elim!: gram_pred.cases gram_key.cases dest: keyword_apart simp: is_kw_kind)

lemma parse_complete:
  "gram_expr us n \<Longrightarrow> \<not> isKeyword r ''and'' \<Longrightarrow> parseOr (us @ r) = orLoop n r"
  "gram_term us n \<Longrightarrow> parseAnd (us @ r) = andLoop n r"
  "gram_factor us n \<Longrightarrow> parseFactor (us @ r) = Inr (n, r)"
proof (induction arbitrary: r and r and r rule: gram_expr_gram_term_gram_factor.inducts)
  case (expr_term ts n)
  then show ?case by (simp add: parseOr.simps andLoop.simps [of n r])
next
  case (expr_or us l t vs m)
  from expr_or.hyps have "isKeyword (t # vs @ r) ''or''" "\<not> isKeyword (t # vs @ r) ''and''" "kind t \<noteq> tokEOF"
    by (auto simp: isKeyword_def dest: keyword_apart is_kw_kind)
  with expr_or show ?case by (simp add: orLoop.simps [of l] andLoop.simps [of m r])
next
  case (term_factor ts n)
  then show ?case by (simp add: parseAnd.simps)
next
  case (term_and us l t vs m)
  from term_and.hyps have "isKeyword (t # vs @ r) ''and''" "kind t \<noteq> tokEOF"
    by (auto simp: isKeyword_def dest: is_kw_kind)
  with term_and show ?case by (simp add: andLoop.simps [of l])
next
  case (factor_not t ts n)
  then show ?case by (simp add: parseFactor.simps [of "t # _"] isKeyword_def is_kw_kind)
next
  case (factor_paren lp ts n rp)
  have "\<not> isKeyword (rp # r) ''and''" "\<not> isKeyword (rp # r) ''or''" "\<not> isKeyword (lp # ts @ rp # r) ''not''"
    using factor_paren.hyps by (auto dest: isKeyword_kind)
  with factor_paren show ?case by (simp add: parseFactor.simps [of "lp # _"] orLoop.simps [of n "rp # r"])
next
  case (factor_pred ts n)
  from gram_pred_start [OF this] obtain t us where "ts = t # us" "\<not> is_kw t ''not''" "kind t \<noteq> tokLParen" by blast
  with parsePredicate_complete [OF factor_pred, of r] show ?case
    by (simp add: parseFactor.simps [of "t # _"] isKeyword_def)
qed


subsection \<open>Tokens of a text\<close>

lemma scan_step:
  obtains (blank) "scan (c # s) = scan s"
  | (token) k t r where "scan (c # s) = tok k t # scan r" "k \<noteq> tokEOF" "t \<noteq> [] \<or> k \<noteq> tokIdent" "length r \<le> length s"
  | (unclosed) "scan (c # s) = [tok tokIdent (c # s)]"
proof -
  consider "is_blank c" | "\<not> is_blank c" "c \<in> set ''(),.:=''" | "c = CHR ''!''" | "c = CHR 0x22"
    | "\<not> is_blank c" "c \<notin> set ''(),.:=!'' \<union> {CHR 0x22}" by auto
  then show ?thesis
  proof cases
    case 1
    then show ?thesis by (intro blank) simp
  next
    case 2
    then have "\<exists>k t. scan (c # s) = tok k t # scan s \<and> k \<noteq> tokEOF \<and> k \<noteq> tokIdent" by auto
    then show ?thesis by (blast intro: token)
  next
    case 3
    then have "\<exists>k t r. scan (c # s) = tok k t # scan r \<and> k \<noteq> tokEOF \<and> t \<noteq> [] \<and> length r \<le> length s"
      by (cases "s \<noteq> [] \<and> hd s = CHR ''=''") (auto simp: is_blank_def intro!: exI)
    then show ?thesis by (blast intro: token)
  next
    case 4
    show ?thesis
    proof (cases "scan_string [] s")
      case None
      with 4 show ?thesis by (intro unclosed) (simp add: is_blank_def)
    next
      case (Some p)
      then obtain t r where "scan_string [] s = Some (t, r)" by (cases p) simp
      with 4 scan_string_length [OF this] show ?thesis by (intro token [of tokString t r]) (simp_all add: is_blank_def)
    qed
  next
    case 5
    then have "\<exists>t r. scan (c # s) = tok tokIdent t # scan r \<and> t \<noteq> [] \<and> length r \<le> length s"
      by (cases "isIdentStart c") (auto simp: string_of_byte_def length_dropWhile_le intro!: exI)
    then show ?thesis by (blast intro: token)
  qed
qed

lemma scan_tokens: "t \<in> set (scan s) \<Longrightarrow> kind t \<noteq> tokEOF \<and> (tok_text t \<noteq> [] \<or> kind t \<noteq> tokIdent)"
proof (induction "length s" arbitrary: s rule: less_induct)
  case less
  show ?case
  proof (cases s)
    case (Cons c u)
    show ?thesis using less Cons by (cases rule: scan_step [of c u]) (auto simp: less_Suc_eq_le simp del: scan.simps)
  qed (use less in simp)
qed

lemma scan_no_EOF: "\<forall>t \<in> set (scan s). kind t \<noteq> tokEOF"
  using scan_tokens by blast

lemma gram_key_no_EOF: "gram_key us k \<Longrightarrow> t \<in> set us \<Longrightarrow> kind t \<noteq> tokEOF"
  by (auto elim!: gram_key.cases simp: is_kw_kind)

lemma gram_pred_no_EOF: "gram_pred us n \<Longrightarrow> t \<in> set us \<Longrightarrow> kind t \<noteq> tokEOF"
  by (auto elim!: gram_pred.cases simp: is_kw_kind dest: gram_key_no_EOF)

lemma gram_no_EOF:
  "gram_expr us n \<Longrightarrow> \<forall>t \<in> set us. kind t \<noteq> tokEOF"
  "gram_term us n \<Longrightarrow> \<forall>t \<in> set us. kind t \<noteq> tokEOF"
  "gram_factor us n \<Longrightarrow> \<forall>t \<in> set us. kind t \<noteq> tokEOF"
  by (induction rule: gram_expr_gram_term_gram_factor.inducts) (auto simp: is_kw_kind dest: gram_pred_no_EOF)

lemma EOF_split:
  assumes "us @ r = vs @ [e]" and "kind e = tokEOF" and "\<forall>t \<in> set us. kind t \<noteq> tokEOF"
    and "\<forall>t \<in> set vs. kind t \<noteq> tokEOF" and "kind (peek r) = tokEOF"
  shows "us = vs"
proof (cases r rule: rev_cases)
  case Nil
  with assms show ?thesis by auto
next
  case (snoc r' x)
  with assms(1) have vs: "vs = us @ r'" "x = e" by auto
  with assms(4,5) snoc show ?thesis by (cases r') auto
qed

text \<open>
  C35: a filter is accepted exactly when its tokens are derivable in the documented grammar (AND binds
  tighter than OR, both associate to the left, keywords in any case), and the compiled tree is the one of the derivation. A blank
  text compiles to the nil filter, and every other text is refused with an error.
\<close>

theorem compile_accepts_the_grammar:
  "(Compile e = Inr None \<longleftrightarrow> TrimSpace e = []) \<and>
   (Compile e = Inr (Some f) \<longleftrightarrow> TrimSpace e \<noteq> [] \<and> gram_expr (scan e) (expr f) \<and> src f = e)"
proof (rule conjI)
  show "Compile e = Inr None \<longleftrightarrow> TrimSpace e = []"
    by (auto simp: Compile_def split: sum.splits)
  have eof: "\<not> isKeyword [tok tokEOF []] kw" for kw by (simp add: isKeyword_def is_kw_def)
  show "Compile e = Inr (Some f) \<longleftrightarrow> TrimSpace e \<noteq> [] \<and> gram_expr (scan e) (expr f) \<and> src f = e"
  proof (intro iffI conjI; (elim conjE)?)
    assume c: "Compile e = Inr (Some f)"
    then show "TrimSpace e \<noteq> []" "src f = e" by (auto simp: Compile_def split: sum.splits if_splits)
    from c obtain r where r: "parseOr (tokenize e) = Inr (expr f, r)" "kind (peek r) = tokEOF"
      by (auto simp: Compile_def split: sum.splits if_splits)
    from parse_sound(1) [OF r(1)] obtain us where us: "us @ r = scan e @ [tok tokEOF []]" "gram_expr us (expr f)"
      by (auto simp: tokenize_def)
    from EOF_split [OF us(1) _ gram_no_EOF(1) [OF us(2)] scan_no_EOF r(2)] us(2) show "gram_expr (scan e) (expr f)" by simp
  next
    assume "TrimSpace e \<noteq> []" "gram_expr (scan e) (expr f)" "src f = e"
    moreover have "parseOr (tokenize e) = Inr (expr f, [tok tokEOF []])"
      unfolding tokenize_def parse_complete(1) [OF calculation(2) eof] by (simp add: orLoop.simps [of "expr f"] eof)
    ultimately show "Compile e = Inr (Some f)" by (simp add: Compile_def)
  qed
qed

section \<open>Printing\<close>

primrec print_node :: "nat \<Rightarrow> node \<Rightarrow> string" where
  "print_node p (orNode l r) =
     (let s = print_node 0 l @ '' OR '' @ print_node 1 r in if 0 < p then ''('' @ s @ '')'' else s)"
| "print_node p (andNode l r) =
     (let s = print_node 1 l @ '' AND '' @ print_node 2 r in if 1 < p then ''('' @ s @ '')'' else s)"
| "print_node p (notNode n) = ''NOT '' @ print_node 2 n"
| "print_node p (cmpNode k v ne) = ''attributes.'' @ k @ (if ne then ''!='' else ''='') @ quoted v"
| "print_node p (prefixNode k v) = ''hasPrefix(attributes.'' @ k @ '','' @ quoted v @ '')''"

definition ident :: "string \<Rightarrow> bool" where
  "ident k \<longleftrightarrow> k \<noteq> [] \<and> isIdentStart (hd k) \<and> list_all isIdentPart (tl k)"

primrec ident_keys :: "node \<Rightarrow> bool" where
  "ident_keys (orNode l r) \<longleftrightarrow> ident_keys l \<and> ident_keys r"
| "ident_keys (andNode l r) \<longleftrightarrow> ident_keys l \<and> ident_keys r"
| "ident_keys (notNode n) \<longleftrightarrow> ident_keys n"
| "ident_keys (cmpNode k v ne) \<longleftrightarrow> ident k"
| "ident_keys (prefixNode k v) \<longleftrightarrow> ident k"

definition gram_at :: "nat \<Rightarrow> token list \<Rightarrow> node \<Rightarrow> bool" where
  "gram_at p ts n = (if p = 0 then gram_expr ts n else if p = 1 then gram_term ts n else gram_factor ts n)"

lemma gram_atI: "gram_factor ts n \<Longrightarrow> gram_at p ts n" "p \<le> 1 \<Longrightarrow> gram_term ts n \<Longrightarrow> gram_at p ts n"
  by (auto simp: gram_at_def intro: expr_term term_factor)

lemma scan_quoted: "scan (quoted v @ r) = tok tokString v # scan r"
  using scan_string_quoted [of "[]" v r] by (simp add: quoted_def is_blank_def)

lemma scan_ident: "ident w \<Longrightarrow> r = [] \<or> \<not> isIdentPart (hd r) \<Longrightarrow> scan (w @ r) = tok tokIdent w # scan r"
proof (cases w)
  case (Cons c u)
  assume "ident w" "r = [] \<or> \<not> isIdentPart (hd r)"
  with Cons have u: "isIdentStart c" "takeWhile isIdentPart (u @ r) = u" "dropWhile isIdentPart (u @ r) = r"
    by (cases r; auto simp: ident_def list_all_iff takeWhile_append dropWhile_append)+
  from u(1) have "\<not> is_blank c" "c \<notin> set ''(),.:=!'' \<union> {CHR 0x22}"
    by (auto simp: isIdentStart_def is_blank_def less_eq_char_def)
  with u Cons show ?thesis by simp
qed (simp add: ident_def)

lemma scan_parens [simp]: "scan (CHR ''('' # r) = tok tokLParen ''('' # scan r" "scan (CHR '')'' # r) = tok tokRParen '')'' # scan r"
  by (simp_all add: is_blank_def)


lemma word_ident: "ident ''OR''" "ident ''AND''" "ident ''NOT''" "ident ''attributes''" "ident ''hasPrefix''"
  by (simp_all add: ident_def isIdentPart_def isIdentStart_def less_eq_char_def)

lemma punct_not_ident [simp]:
  "\<not> isIdentPart (CHR '' '')" "\<not> isIdentPart (CHR ''.'')" "\<not> isIdentPart (CHR ''('')"
  "\<not> isIdentPart (CHR '','')" "\<not> isIdentPart (CHR ''='')" "\<not> isIdentPart (CHR ''!'')"
  by (simp_all add: isIdentPart_def isIdentStart_def less_eq_char_def)

lemma scan_punct:
  "scan (CHR '' '' # r) = scan r" "scan (CHR '','' # r) = tok tokComma '','' # scan r" "scan (CHR ''.'' # r) = tok tokDot ''.'' # scan r"
  "scan (CHR ''='' # r) = tok tokEq ''='' # scan r" "scan (CHR ''!'' # CHR ''='' # r) = tok tokNeq ''!='' # scan r"
  by (simp_all add: is_blank_def)

declare scan.simps [simp del]

lemma scan_infix:
  "scan (CHR '' '' # CHR ''O'' # CHR ''R'' # CHR '' '' # r) = tok tokIdent ''OR'' # scan r"
  "scan (CHR '' '' # CHR ''A'' # CHR ''N'' # CHR ''D'' # CHR '' '' # r) = tok tokIdent ''AND'' # scan r"
  "scan (CHR ''N'' # CHR ''O'' # CHR ''T'' # CHR '' '' # r) = tok tokIdent ''NOT'' # scan r"
  using scan_ident [OF word_ident(1), of "CHR '' '' # r"] scan_ident [OF word_ident(2), of "CHR '' '' # r"]
    scan_ident [OF word_ident(3), of "CHR '' '' # r"] by (simp_all add: scan_punct)

lemma scan_attr: "ident k \<Longrightarrow> r = [] \<or> \<not> isIdentPart (hd r) \<Longrightarrow>
    scan (''attributes.'' @ k @ r) = tok tokIdent ''attributes'' # tok tokDot ''.'' # tok tokIdent k # scan r"
  using scan_ident [OF word_ident(4), of "CHR ''.'' # k @ r"] scan_ident [of k r] by (simp add: scan_punct)

lemma gram_key_printed: "ident k \<Longrightarrow> gram_key [tok tokIdent ''attributes'', tok tokDot ''.'', tok tokIdent k] k"
  using attr_key [of "tok tokIdent ''attributes''" "tok tokDot ''.''" "tok tokIdent k"] by (simp add: ident_def is_kw_def EqualFold_same)

lemma printed_words: "is_kw (tok tokIdent ''OR'') ''or''" "is_kw (tok tokIdent ''AND'') ''and''" "is_kw (tok tokIdent ''NOT'') ''not''"
  "is_kw (tok tokIdent ''hasPrefix'') ''hasprefix''"
  by code_simp+

lemma paren_printed: "gram_expr ts n \<Longrightarrow> gram_at p (tok tokLParen ''('' # ts @ [tok tokRParen '')'']) n"
  by (intro gram_atI factor_paren) simp_all

lemma print_scan_gram: "ident_keys n \<Longrightarrow> \<exists>ts. (\<forall>r. scan (print_node p n @ r) = ts @ scan r) \<and> gram_at p ts n"
proof (induction n arbitrary: p)
  case (orNode n1 n2)
  then obtain ts us where t: "\<And>r. scan (print_node 0 n1 @ r) = ts @ scan r" "gram_expr ts n1"
    "\<And>r. scan (print_node 1 n2 @ r) = us @ scan r" "gram_term us n2" by (fastforce simp: gram_at_def)
  then have g: "gram_expr (ts @ tok tokIdent ''OR'' # us) (orNode n1 n2)" by (intro expr_or printed_words)
  have s: "scan ((print_node 0 n1 @ '' OR '' @ print_node 1 n2) @ r) = (ts @ tok tokIdent ''OR'' # us) @ scan r" for r
    by (simp add: t scan_infix del: One_nat_def)
  show ?case
  proof (cases "0 < p")
    case True
    with s paren_printed [OF g, of p] show ?thesis
      by (intro exI [of _ "tok tokLParen ''('' # (ts @ tok tokIdent ''OR'' # us) @ [tok tokRParen '')'']"])
        simp
  qed (use s g in \<open>auto simp: gram_at_def\<close>)
next
  case (andNode n1 n2)
  then obtain ts us where t: "\<And>r. scan (print_node 1 n1 @ r) = ts @ scan r" "gram_term ts n1"
    "\<And>r. scan (print_node 2 n2 @ r) = us @ scan r" "gram_factor us n2" by (fastforce simp: gram_at_def)
  then have g: "gram_term (ts @ tok tokIdent ''AND'' # us) (andNode n1 n2)" by (intro term_and printed_words)
  have s: "scan ((print_node 1 n1 @ '' AND '' @ print_node 2 n2) @ r) = (ts @ tok tokIdent ''AND'' # us) @ scan r" for r
    by (simp add: t scan_infix del: One_nat_def)
  show ?case
  proof (cases "1 < p")
    case True
    with s paren_printed [OF expr_term [OF g], of p] show ?thesis
      by (intro exI [of _ "tok tokLParen ''('' # (ts @ tok tokIdent ''AND'' # us) @ [tok tokRParen '')'']"])
        simp
  qed (use s g in \<open>auto intro: gram_atI\<close>)
next
  case (notNode n)
  then obtain ts where t: "\<And>r. scan (print_node 2 n @ r) = ts @ scan r" "gram_factor ts n" by (fastforce simp: gram_at_def)
  then show ?case
    by (intro exI [of _ "tok tokIdent ''NOT'' # ts"])
      (auto simp: scan_infix intro!: gram_atI factor_not printed_words)
next
  case (cmpNode k v ne)
  let ?c = "tok (if ne then tokNeq else tokEq) (if ne then ''!='' else ''='')"
  have "scan (print_node p (cmpNode k v ne) @ r) = ([tok tokIdent ''attributes'', tok tokDot ''.'', tok tokIdent k] @ [?c, tok tokString v]) @ scan r" for r
    using scan_attr [of k "(if ne then ''!='' else ''='') @ quoted v @ r"] cmpNode by (simp add: scan_punct scan_quoted)
  moreover have "gram_pred ([tok tokIdent ''attributes'', tok tokDot ''.'', tok tokIdent k] @ [?c, tok tokString v]) (cmpNode k v ne)"
    using pred_eq [OF gram_key_printed, of k ?c "tok tokString v"] pred_neq [OF gram_key_printed, of k ?c "tok tokString v"] cmpNode by (cases ne) simp_all
  ultimately show ?case by (blast intro: gram_atI factor_pred)
next
  case (prefixNode k v)
  let ?ks = "[tok tokIdent ''attributes'', tok tokDot ''.'', tok tokIdent k]"
  let ?ts = "tok tokIdent ''hasPrefix'' # tok tokLParen ''('' # ?ks @ [tok tokComma '','', tok tokString v, tok tokRParen '')'']"
  have "scan (print_node p (prefixNode k v) @ r) = ?ts @ scan r" for r
    using scan_ident [OF word_ident(5), of "CHR ''('' # ''attributes.'' @ k @ '','' @ quoted v @ '')'' @ r"]
      scan_attr [of k "'','' @ quoted v @ '')'' @ r"] prefixNode by (simp add: scan_punct scan_quoted)
  moreover have "gram_pred ?ts (prefixNode k v)"
    using pred_prefix [OF printed_words(4) _ gram_key_printed, of "tok tokLParen ''(''" k "tok tokComma '',''" "tok tokString v" "tok tokRParen '')''"]
      prefixNode by simp
  ultimately show ?case by (blast intro: gram_atI factor_pred)
qed


lemma print_node_start: "print_node p n \<noteq> [] \<and> plain_byte (hd (print_node p n))"
  by (induction n arbitrary: p) (simp_all add: Let_def plain_byte_def byte_def)

text \<open>
  printing a filter tree with the fewest parentheses and compiling the text gives the tree back: AND
  binds tighter than OR, NOT tighter than both, equal operators associate to the left, and a quoted value
  may hold any bytes. The compiled filter matches the same messages as the tree.
\<close>

theorem print_compile_roundtrip:
  assumes "ident_keys n"
  shows "Compile (print_node 0 n) = Inr (Some \<lparr>expr = n, src = print_node 0 n\<rparr>) \<and>
    Match (case Compile (print_node 0 n) of Inl _ \<Rightarrow> None | Inr f \<Rightarrow> f) attrs = eval n attrs"
proof -
  from print_scan_gram [OF assms, of 0] obtain ts where ts: "\<And>r. scan (print_node 0 n @ r) = ts @ scan r" "gram_expr ts n"
    by (auto simp: gram_at_def)
  from ts(1) [of "[]"] have scan: "scan (print_node 0 n) = ts" by (simp add: scan.simps)
  have eof: "\<not> isKeyword [tok tokEOF []] kw" for kw by (simp add: isKeyword_def is_kw_def)
  from parse_complete(1) [OF ts(2) eof] have "parseOr (tokenize (print_node 0 n)) = Inr (n, [tok tokEOF []])"
    by (simp add: tokenize_def scan orLoop.simps [of n] eof)
  moreover have "TrimSpace (print_node 0 n) \<noteq> []"
    using print_node_start [of 0 n] TrimSpace_not_Nil [of "hd (print_node 0 n)" "tl (print_node 0 n)"] by simp
  ultimately have "Compile (print_node 0 n) = Inr (Some \<lparr>expr = n, src = print_node 0 n\<rparr>)"
    by (simp add: Compile_def)
  then show ?thesis by (simp add: Match_def)
qed

definition demo_node :: node where
  "demo_node = orNode (andNode (cmpNode ''env'' ''a'' False) (notNode (orNode (prefixNode ''k'' ''p'') (cmpNode ''x'' [] True))))
     (cmpNode ''y'' [CHR 0x22] False)"

theorem print_compile_roundtrip_witness:
  "Compile (print_node 0 demo_node) = Inr (Some \<lparr>expr = demo_node, src = print_node 0 demo_node\<rparr>) \<and>
   Match (case Compile (print_node 0 demo_node) of Inl _ \<Rightarrow> None | Inr f \<Rightarrow> f) (fmap_of_list [(''env'', ''a''), (''x'', [])])"
proof -
  have k: "ident_keys demo_node" by code_simp
  have e: "eval demo_node (fmap_of_list [(''env'', ''a''), (''x'', [])])" by code_simp
  from print_compile_roundtrip [OF k, of "fmap_of_list [(''env'', ''a''), (''x'', [])]"] e show ?thesis by blast
qed

end
