(* ===== verification/Go_Time.thy ===== *)
theory Go_Time
  imports Go_Strings
begin

text \<open>
  The parts of Go's \<open>time\<close> package that filters and sort keys use, on instants counted in nanoseconds
  since the zero time (midnight UTC of 1 January of year 1 in the proleptic Gregorian calendar):

  \<^item> \<open>Format\<close> of an instant in UTC with the fixed-width layout
    \<open>2006-01-02T15:04:05.000000000Z07:00\<close>;
  \<^item> \<open>Parse\<close> with the layouts \<open>RFC3339Nano\<close> and \<open>RFC3339\<close>, which accept the same texts (a fraction
    is optional in both, an hour may have one digit, a fraction may start with a comma and only its first
    nine digits count, offsets up to 24:60), and with the layout \<open>2006-01-02\<close>.

  The lemmas show that the fixed-width text orders instants chronologically in the years 0 to 9999, and
  that parsing it gives the instant back.
\<close>

section \<open>The calendar\<close>

definition leap :: "int \<Rightarrow> bool" where
  "leap y \<longleftrightarrow> y mod 4 = 0 \<and> (y mod 100 \<noteq> 0 \<or> y mod 400 = 0)"

text \<open>Days from 1 January of year 1 to 1 January of year \<open>y\<close>.\<close>

definition days_before_year :: "int \<Rightarrow> int" where
  "days_before_year y = 365 * (y - 1) + (y - 1) div 4 - (y - 1) div 100 + (y - 1) div 400"

text \<open>Days of a year before its month \<open>m\<close> (1 to 12); 13 gives the length of the year.\<close>

definition days_before_month :: "bool \<Rightarrow> nat \<Rightarrow> int" where
  "days_before_month lp m =
     [0, 0, 31, 59, 90, 120, 151, 181, 212, 243, 273, 304, 334, 365] ! m + (if lp \<and> 2 < m then 1 else 0)"

definition daysIn :: "nat \<Rightarrow> int \<Rightarrow> int" where
  "daysIn m y = days_before_month (leap y) (m + 1) - days_before_month (leap y) m"

definition year_of :: "int \<Rightarrow> int" where
  "year_of d =
     (let y = 400 * d div 146097 + 1
      in if d < days_before_year y then y - 1 else if days_before_year (y + 1) \<le> d then y + 1 else y)"

text \<open>The month, from \<open>m\<close> on, that holds the day \<open>yd\<close> of the year (counted from 0).\<close>

function month_from :: "bool \<Rightarrow> int \<Rightarrow> nat \<Rightarrow> nat" where
  "month_from lp yd m = (if 12 \<le> m \<or> yd < days_before_month lp (m + 1) then m else month_from lp yd (m + 1))"
  by pat_completeness auto
termination by (relation "measure (\<lambda>(lp, yd, m). 12 - m)") auto

declare month_from.simps [simp del]

definition month_of :: "bool \<Rightarrow> int \<Rightarrow> nat" where
  "month_of lp yd = month_from lp yd 1"

definition date_days :: "int \<Rightarrow> nat \<Rightarrow> int \<Rightarrow> int" where
  "date_days y m d = days_before_year y + days_before_month (leap y) m + d - 1"

text \<open>\<open>time.Date\<close> in UTC.\<close>

definition Date :: "int \<Rightarrow> nat \<Rightarrow> int \<Rightarrow> int \<Rightarrow> int \<Rightarrow> int \<Rightarrow> int \<Rightarrow> time" where
  "Date y m d hh mm ss ns = (((date_days y m d * 24 + hh) * 60 + mm) * 60 + ss) * Second + ns"

record civil =
  c_year :: int
  c_month :: nat
  c_day :: int
  c_hour :: int
  c_min :: int
  c_sec :: int
  c_nsec :: int

definition civil_of :: "time \<Rightarrow> civil" where
  "civil_of t =
     (let s = t div Second; mi = s div 60; h = mi div 60; d = h div 24; y = year_of d;
          yd = d - days_before_year y; m = month_of (leap y) yd
      in \<lparr>c_year = y, c_month = m, c_day = yd - days_before_month (leap y) m + 1,
          c_hour = h mod 24, c_min = mi mod 60, c_sec = s mod 60, c_nsec = t mod Second\<rparr>)"

lemma div_step:
  fixes y b :: int
  assumes "0 < b"
  shows "y div b = (y - 1) div b + (if y mod b = 0 then 1 else 0)"
proof (cases "y mod b = 0")
  case True
  then have "y - 1 = b * (y div b - 1) + (b - 1)" by (simp add: algebra_simps minus_mod_eq_mult_div [symmetric] flip: minus_mod_eq_mult_div)
  then have "(y - 1) div b = y div b - 1" using assms by (metis add.commute div_mult_self2 div_pos_pos_trivial add_cancel_right_left diff_ge_0_iff_ge int_one_le_iff_zero_less less_add_one less_irrefl diff_add_cancel zle_diff1_eq)
  with True show ?thesis by simp
next
  case False
  have "0 \<le> y mod b" "y mod b < b" using assms by simp_all
  with False have "0 \<le> y mod b - 1" "y mod b - 1 < b" by simp_all
  then have "(b * (y div b) + (y mod b - 1)) div b = y div b" by (simp add: div_pos_pos_trivial)
  moreover have "b * (y div b) + (y mod b - 1) = y - 1" by simp
  ultimately show ?thesis using False by simp
qed

lemma days_before_year_Suc: "days_before_year (y + 1) = days_before_year y + (if leap y then 366 else 365)"
proof -
  have a: "y mod 100 = 0" if "y mod 400 = 0" using dvd_trans [of 100 400 y] that by (simp add: mod_eq_0_iff_dvd)
  have b: "y mod 4 = 0" if "y mod 100 = 0" using dvd_trans [of 4 100 y] that by (simp add: mod_eq_0_iff_dvd)
  have step: "365 * y + (i + (if P then 1 else 0)) - (j + (if Q then 1 else 0)) + (k + (if R then 1 else 0)) =
      365 * (y - 1) + i - j + k + (if P \<and> (\<not> Q \<or> R) then 366 else 365)" if "R \<Longrightarrow> Q" "Q \<Longrightarrow> P" for i j k :: int and P Q R
    using that by auto
  have "days_before_year (y + 1) = 365 * y + y div 4 - y div 100 + y div 400"
    by (simp only: days_before_year_def add_diff_cancel_right')
  also have "\<dots> = 365 * y + ((y - 1) div 4 + (if y mod 4 = 0 then 1 else 0)) -
      ((y - 1) div 100 + (if y mod 100 = 0 then 1 else 0)) + ((y - 1) div 400 + (if y mod 400 = 0 then 1 else 0))"
    by (simp only: div_step [of 4 y, OF zero_less_numeral] div_step [of 100 y, OF zero_less_numeral] div_step [of 400 y, OF zero_less_numeral])
  also have "\<dots> = 365 * (y - 1) + (y - 1) div 4 - (y - 1) div 100 + (y - 1) div 400 + (if leap y then 366 else 365)"
    unfolding leap_def by (rule step [OF a b])
  also have "\<dots> = days_before_year y + (if leap y then 366 else 365)" by (simp only: days_before_year_def)
  finally show ?thesis .
qed

lemma div_bounds:
  fixes b n :: int
  assumes "0 < b"
  shows "b * (n div b) \<le> n" "n < b * (n div b) + b"
  using pos_mod_sign [OF assms, of n] pos_mod_bound [OF assms, of n] mult_div_mod_eq [of b n] by linarith+

lemma days_before_year_bounds:
  "400 * days_before_year y \<le> 146097 * (y - 1) + 400" "146097 * (y - 1) - 800 < 400 * days_before_year y"
proof -
  have up: "400 * (365 * n + i - j + k) \<le> 146097 * n + 400" if "4 * i \<le> n" "n < 100 * j + 100" "400 * k \<le> n" for i j k n :: int
    using that by (simp add: algebra_simps)
  have low: "146097 * n - 800 < 400 * (365 * n + i - j + k)" if "n < 4 * i + 4" "100 * j \<le> n" "n < 400 * k + 400" for i j k n :: int
    using that by (simp add: algebra_simps)
  show "400 * days_before_year y \<le> 146097 * (y - 1) + 400"
    unfolding days_before_year_def by (intro up div_bounds) simp_all
  show "146097 * (y - 1) - 800 < 400 * days_before_year y"
    unfolding days_before_year_def by (intro low div_bounds) simp_all
qed

lemma year_of_bounds: "days_before_year (year_of d) \<le> d \<and> d < days_before_year (year_of d + 1)"
proof -
  define y where "y = 400 * d div 146097 + 1"
  have y: "146097 * (y - 1) \<le> 400 * d" "400 * d < 146097 * y"
    using div_bounds [of 146097 "400 * d"] by (simp_all add: y_def)
  have "days_before_year (y - 1) \<le> d" using days_before_year_bounds(1) [of "y - 1"] y(1) by simp
  moreover have "d < days_before_year (y + 2)" using days_before_year_bounds(2) [of "y + 2"] y(2) by simp
  moreover have "year_of d = (if d < days_before_year y then y - 1 else if days_before_year (y + 1) \<le> d then y + 1 else y)"
    by (simp add: year_of_def y_def Let_def)
  ultimately show ?thesis by (simp add: add.commute)
qed

lemma month_from_bounds:
  "days_before_month lp m \<le> yd \<Longrightarrow> m \<le> 12 \<Longrightarrow> yd < days_before_month lp 13 \<Longrightarrow>
   m \<le> month_from lp yd m \<and> month_from lp yd m \<le> 12 \<and> days_before_month lp (month_from lp yd m) \<le> yd \<and>
   yd < days_before_month lp (month_from lp yd m + 1)"
proof (induction lp yd m rule: month_from.induct)
  case (1 lp yd m)
  then show ?case
    by (subst (1 2 3 4) month_from.simps) (cases "m = 12"; auto)
qed

lemma days_before_month_ends [simp]: "days_before_month lp (Suc 0) = 0" "days_before_month lp 13 = (if lp then 366 else 365)"
  by (simp_all add: days_before_month_def)

text \<open>The civil date of an instant is in range, and denotes the instant.\<close>

lemma civil_of_date:
  "let c = civil_of t in Date (c_year c) (c_month c) (c_day c) (c_hour c) (c_min c) (c_sec c) (c_nsec c) = t \<and>
     1 \<le> c_month c \<and> c_month c \<le> 12 \<and> 1 \<le> c_day c \<and> c_day c \<le> daysIn (c_month c) (c_year c) \<and>
     0 \<le> c_hour c \<and> c_hour c < 24 \<and> 0 \<le> c_min c \<and> c_min c < 60 \<and> 0 \<le> c_sec c \<and> c_sec c < 60 \<and>
     0 \<le> c_nsec c \<and> c_nsec c < Second"
proof -
  define s where "s = t div Second"
  define mi where "mi = s div 60"
  define h where "h = mi div 60"
  define d where "d = h div 24"
  define y where "y = year_of d"
  define yd where "yd = d - days_before_year y"
  define m where "m = month_of (leap y) yd"
  have c: "civil_of t = \<lparr>c_year = y, c_month = m, c_day = yd - days_before_month (leap y) m + 1,
      c_hour = h mod 24, c_min = mi mod 60, c_sec = s mod 60, c_nsec = t mod Second\<rparr>"
    by (simp add: civil_of_def Let_def s_def mi_def h_def d_def y_def yd_def m_def)
  have "0 \<le> yd" "yd < days_before_month (leap y) 13"
    using year_of_bounds [of d] by (auto simp: yd_def y_def days_before_year_Suc)
  then have m: "1 \<le> m" "m \<le> 12" "days_before_month (leap y) m \<le> yd" "yd < days_before_month (leap y) (m + 1)"
    using month_from_bounds [of "leap y" 1 yd] by (auto simp: m_def month_of_def)
  have S: "0 < Second" by (simp add: Second_def)
  have d: "date_days y m (yd - days_before_month (leap y) m + 1) = d" by (simp add: date_days_def yd_def)
  have "d * 24 + h mod 24 = h" "h * 60 + mi mod 60 = mi" "mi * 60 + s mod 60 = s" "s * Second + t mod Second = t"
    by (simp_all add: d_def h_def mi_def s_def)
  then have "Date y m (yd - days_before_month (leap y) m + 1) (h mod 24) (mi mod 60) (s mod 60) (t mod Second) = t"
    by (simp only: Date_def d)
  with m S show ?thesis by (simp add: c daysIn_def)
qed

section \<open>Formatting\<close>

definition appendInt :: "int \<Rightarrow> nat \<Rightarrow> string" where
  "appendInt x w = (if x < 0 then CHR ''-'' # zpad w (nat (- x)) else zpad w (nat x))"

text \<open>\<open>t.UTC().Format("2006-01-02T15:04:05.000000000Z07:00")\<close>.\<close>

definition FormatTime :: "time \<Rightarrow> string" where
  "FormatTime t =
     (let c = civil_of t
      in appendInt (c_year c) 4 @ ''-'' @ appendInt (int (c_month c)) 2 @ ''-'' @ appendInt (c_day c) 2 @ ''T'' @
         appendInt (c_hour c) 2 @ '':'' @ appendInt (c_min c) 2 @ '':'' @ appendInt (c_sec c) 2 @ ''.'' @
         appendInt (c_nsec c) 9 @ ''Z'')"

subsection \<open>The text orders instants\<close>

lemma less_append_fixed:
  fixes xs ys :: "'a :: linorder list"
  shows "length xs = length ys \<Longrightarrow> (xs @ us < ys @ vs) \<longleftrightarrow> xs < ys \<or> (xs = ys \<and> us < vs)"
  by (induction xs ys rule: list_induct2) auto

lemma appendInt_less: "0 \<le> x \<Longrightarrow> x < 10 ^ w \<Longrightarrow> 0 \<le> y \<Longrightarrow> y < 10 ^ w \<Longrightarrow> 0 < w \<Longrightarrow>
    appendInt x w < appendInt y w \<longleftrightarrow> x < y"
  by (auto simp: appendInt_def zpad_less_iff nat_less_iff)

lemma appendInt_eq: "0 \<le> x \<Longrightarrow> x < 10 ^ w \<Longrightarrow> 0 \<le> y \<Longrightarrow> y < 10 ^ w \<Longrightarrow> 0 < w \<Longrightarrow>
    appendInt x w = appendInt y w \<longleftrightarrow> x = y"
  by (auto simp: appendInt_def zpad_eq_iff nat_less_iff eq_nat_nat_iff)

lemma appendInt_length: "0 \<le> x \<Longrightarrow> x < 10 ^ w \<Longrightarrow> 0 < w \<Longrightarrow> length (appendInt x w) = w"
  by (simp add: appendInt_def length_zpad nat_less_iff)

lemma field_less:
  "0 \<le> x \<Longrightarrow> x < 10 ^ w \<Longrightarrow> 0 \<le> y \<Longrightarrow> y < 10 ^ w \<Longrightarrow> 0 < w \<Longrightarrow>
   appendInt x w @ sep # us < appendInt y w @ sep # vs \<longleftrightarrow> x < y \<or> x = y \<and> us < vs"
  by (simp add: less_append_fixed appendInt_length appendInt_less appendInt_eq)

lemma mixed_radix:
  fixes q q' r r' b :: int
  assumes "0 \<le> r" "r < b" "0 \<le> r'" "r' < b"
  shows "q * b + r < q' * b + r' \<longleftrightarrow> q < q' \<or> q = q' \<and> r < r'" "q * b + r = q' * b + r' \<longleftrightarrow> q = q' \<and> r = r'"
proof -
  have *: "p * b + u < p' * b + v" if "p < p'" "u < b" "0 \<le> v" for p p' u v
  proof -
    from that assms have "(p + 1) * b \<le> p' * b" by (intro mult_right_mono) auto
    with that show ?thesis by (simp add: algebra_simps)
  qed
  show "q * b + r < q' * b + r' \<longleftrightarrow> q < q' \<or> q = q' \<and> r < r'"
    using * [of q q' r r'] * [of q' q r' r] assms by (cases q q' rule: linorder_cases) auto
  show "q * b + r = q' * b + r' \<longleftrightarrow> q = q' \<and> r = r'"
    using * [of q q' r r'] * [of q' q r' r] assms by (cases q q' rule: linorder_cases) auto
qed

lemma days_before_year_mono: "y < y' \<Longrightarrow> days_before_year (y + 1) \<le> days_before_year y'"
proof (induction "nat (y' - y - 1)" arbitrary: y')
  case 0
  then have "y' = y + 1" by simp
  then show ?case by simp
next
  case (Suc n)
  from Suc(1) [of "y' - 1"] Suc(2) have "days_before_year (y + 1) \<le> days_before_year (y' - 1)" by simp
  also have "\<dots> \<le> days_before_year y'" using days_before_year_Suc [of "y' - 1"] by simp
  finally show ?case .
qed

lemma days_before_month_step: "m \<in> set [1..<13] \<Longrightarrow> days_before_month lp m < days_before_month lp (m + 1)"
  by (auto simp: days_before_month_def upt_rec)

lemma days_before_month_mono: "m \<le> n \<Longrightarrow> 1 \<le> m \<Longrightarrow> n \<le> 13 \<Longrightarrow> days_before_month lp m \<le> days_before_month lp n"
proof (induction n rule: dec_induct)
  case (step n)
  then have "days_before_month lp n < days_before_month lp (n + 1)" by (intro days_before_month_step) auto
  with step show ?case by simp
qed simp

text \<open>A calendar date, with a month and a day in range.\<close>

definition valid_date :: "int \<Rightarrow> nat \<Rightarrow> int \<Rightarrow> bool" where
  "valid_date y m d \<longleftrightarrow> 1 \<le> m \<and> m \<le> 12 \<and> 1 \<le> d \<and> d \<le> daysIn m y"

lemma valid_date_days:
  assumes "valid_date y m d"
  shows "days_before_year y + days_before_month (leap y) m \<le> date_days y m d"
    "date_days y m d < days_before_year y + days_before_month (leap y) (m + 1)"
    "days_before_year y \<le> date_days y m d" "date_days y m d < days_before_year (y + 1)"
  using assms days_before_month_mono [of 1 m "leap y"] days_before_month_mono [of "m + 1" 13 "leap y"] days_before_year_Suc [of y]
  by (auto simp: valid_date_def date_days_def daysIn_def)

lemma date_days_less: 
  assumes "valid_date y m d" "valid_date y' m' d'" "y < y' \<or> y = y' \<and> (m < m' \<or> m = m' \<and> d < d')"
  shows "date_days y m d < date_days y' m' d'"
  using assms(3)
proof (elim disjE conjE)
  assume "y < y'"
  from days_before_year_mono [OF this] valid_date_days(3,4) [OF assms(1)] valid_date_days(3) [OF assms(2)] show ?thesis by linarith
next
  assume m: "y = y'" "m < m'"
  with assms have "days_before_month (leap y) (m + 1) \<le> days_before_month (leap y) m'"
    by (intro days_before_month_mono) (auto simp: valid_date_def)
  with m valid_date_days(2) [OF assms(1)] valid_date_days(1) [OF assms(2)] show ?thesis by simp
qed (simp add: date_days_def)

lemma date_days_less_iff:
  assumes "valid_date y m d" "valid_date y' m' d'"
  shows "date_days y m d < date_days y' m' d' \<longleftrightarrow> y < y' \<or> y = y' \<and> (m < m' \<or> m = m' \<and> d < d')"
    and "date_days y m d = date_days y' m' d' \<longleftrightarrow> y = y' \<and> m = m' \<and> d = d'"
  using date_days_less [OF assms] date_days_less [OF assms(2,1)]
  by (metis less_irrefl less_asym linorder_neqE)+

lemmas civil_of_range = civil_of_date [unfolded Let_def]

lemma civil_valid: "valid_date (c_year (civil_of t)) (c_month (civil_of t)) (c_day (civil_of t))"
  using civil_of_range [of t] by (simp add: valid_date_def)

lemma daysIn_le: "1 \<le> m \<Longrightarrow> m \<le> 12 \<Longrightarrow> daysIn m y \<le> 31"
proof -
  assume "1 \<le> m" "m \<le> 12"
  then have "m \<in> set [1..<13]" by simp
  then show ?thesis by (auto simp: daysIn_def days_before_month_def upt_rec)
qed

lemma Date_less_iff:
  assumes "valid_date y m d" "valid_date y' m' d'" "0 \<le> h" "h < 24" "0 \<le> h'" "h' < 24" "0 \<le> i" "i < 60" "0 \<le> i'" "i' < 60"
    "0 \<le> s" "s < 60" "0 \<le> s'" "s' < 60" "0 \<le> n" "n < Second" "0 \<le> n'" "n' < Second"
  shows "Date y m d h i s n < Date y' m' d' h' i' s' n' \<longleftrightarrow> y < y' \<or> y = y' \<and> (m < m' \<or> m = m' \<and> (d < d' \<or> d = d' \<and>
    (h < h' \<or> h = h' \<and> (i < i' \<or> i = i' \<and> (s < s' \<or> s = s' \<and> n < n')))))"
proof -
  note days = date_days_less_iff [OF assms(1,2)]
  have "Date y m d h i s n < Date y' m' d' h' i' s' n' \<longleftrightarrow> date_days y m d < date_days y' m' d' \<or> date_days y m d = date_days y' m' d' \<and>
    (h < h' \<or> h = h' \<and> (i < i' \<or> i = i' \<and> (s < s' \<or> s = s' \<and> n < n')))"
    unfolding Date_def
    by (simp only: mixed_radix [OF assms(15-18)] mixed_radix [OF assms(11-14)] mixed_radix [OF assms(7-10)] mixed_radix [OF assms(3-6)]) blast
  then show ?thesis by (simp only: days) blast
qed

definition year_4 :: "time \<Rightarrow> bool" where
  "year_4 t \<longleftrightarrow> 0 \<le> c_year (civil_of t) \<and> c_year (civil_of t) \<le> 9999"

lemma FormatTime_less:
  assumes "year_4 t" and "year_4 u"
  shows "FormatTime t < FormatTime u \<longleftrightarrow> t < u"
proof -
  let ?c = "civil_of t" and ?d = "civil_of u"
  have r: "c_day ?c \<le> 31" "c_day ?d \<le> 31"
    using civil_of_range [of t] civil_of_range [of u] daysIn_le [of "c_month ?c" "c_year ?c"] daysIn_le [of "c_month ?d" "c_year ?d"] by auto
  have "FormatTime t < FormatTime u \<longleftrightarrow> c_year ?c < c_year ?d \<or> c_year ?c = c_year ?d \<and> (c_month ?c < c_month ?d \<or> c_month ?c = c_month ?d \<and>
      (c_day ?c < c_day ?d \<or> c_day ?c = c_day ?d \<and> (c_hour ?c < c_hour ?d \<or> c_hour ?c = c_hour ?d \<and>
      (c_min ?c < c_min ?d \<or> c_min ?c = c_min ?d \<and> (c_sec ?c < c_sec ?d \<or> c_sec ?c = c_sec ?d \<and> c_nsec ?c < c_nsec ?d)))))"
    using assms civil_of_range [of t] civil_of_range [of u] r
    by (simp add: FormatTime_def Let_def field_less year_4_def Second_def)
  also have "\<dots> \<longleftrightarrow> Date (c_year ?c) (c_month ?c) (c_day ?c) (c_hour ?c) (c_min ?c) (c_sec ?c) (c_nsec ?c) <
      Date (c_year ?d) (c_month ?d) (c_day ?d) (c_hour ?d) (c_min ?d) (c_sec ?d) (c_nsec ?d)"
    by (intro Date_less_iff [symmetric] civil_valid) (use civil_of_range [of t] civil_of_range [of u] in simp_all)
  also have "\<dots> \<longleftrightarrow> t < u" using civil_of_range [of t] civil_of_range [of u] by simp
  finally show ?thesis .
qed

lemma FormatTime_eq: "year_4 t \<Longrightarrow> year_4 u \<Longrightarrow> FormatTime t = FormatTime u \<longleftrightarrow> t = u"
  using FormatTime_less [of t u] FormatTime_less [of u t] by (metis less_irrefl linorder_neqE)

section \<open>Parsing\<close>

definition digit_at :: "string \<Rightarrow> nat \<Rightarrow> bool" where
  "digit_at s i \<longleftrightarrow> i < length s \<and> is_digit (s ! i)"

text \<open>\<open>getnum(s, fixed)\<close>: one or two digits, two if \<open>fixed\<close>.\<close>

definition getnum :: "string \<Rightarrow> bool \<Rightarrow> (nat \<times> string) option" where
  "getnum s fxd =
     (if \<not> digit_at s 0 then None
      else if \<not> digit_at s 1 then (if fxd then None else Some (digit_val (s ! 0), drop 1 s))
      else Some (10 * digit_val (s ! 0) + digit_val (s ! 1), drop 2 s))"

definition expect :: "char \<Rightarrow> string \<Rightarrow> string option" where
  "expect c s = (case s of [] \<Rightarrow> None | x # xs \<Rightarrow> if x = c then Some xs else None)"

definition parse_year :: "string \<Rightarrow> (int \<times> string) option" where
  "parse_year s =
     (if length s < 4 \<or> \<not> list_all is_digit (take 4 s) then None else Some (int (dec_val 0 (take 4 s)), drop 4 s))"

text \<open>A number of one or two digits, within a range, up to a separator.\<close>

definition parse_field :: "bool \<Rightarrow> (nat \<Rightarrow> bool) \<Rightarrow> string \<Rightarrow> (nat \<times> string) option" where
  "parse_field fxd ok s =
     (case getnum s fxd of None \<Rightarrow> None | Some (n, r) \<Rightarrow> if ok n then Some (n, r) else None)"

text \<open>The optional fraction: a period or a comma and digits, of which nine count.\<close>

definition parse_fraction :: "string \<Rightarrow> int \<times> string" where
  "parse_fraction s =
     (if length s < 2 \<or> s ! 0 \<notin> {CHR ''.'', CHR '',''} \<or> \<not> digit_at s 1 then (0, s)
      else let ds = takeWhile is_digit (tl s); r = dropWhile is_digit (tl s); v = take 9 ds
        in (int (dec_val 0 v * 10 ^ (9 - length v)), r))"

text \<open>The zone: \<open>Z\<close>, or a sign and \<open>hh:mm\<close>; the offset in seconds.\<close>

definition parse_zone :: "string \<Rightarrow> (int \<times> string) option" where
  "parse_zone s =
     (if s \<noteq> [] \<and> hd s = CHR ''Z'' then Some (0, tl s)
      else if length s < 6 \<or> s ! 3 \<noteq> CHR '':'' then None
      else case (getnum (take 2 (drop 1 s)) True, getnum (take 2 (drop 4 s)) True) of
        (Some (hr, _), Some (mm, _)) \<Rightarrow>
          if 24 < hr \<or> 60 < mm then None
          else if hd s = CHR ''+'' then Some (int (hr * 60 + mm) * 60, drop 6 s)
          else if hd s = CHR ''-'' then Some (- (int (hr * 60 + mm) * 60), drop 6 s)
          else None
      | _ \<Rightarrow> None)"

definition bind_opt :: "'a option \<Rightarrow> ('a \<Rightarrow> 'b option) \<Rightarrow> 'b option" where
  "bind_opt x f = (case x of None \<Rightarrow> None | Some a \<Rightarrow> f a)"

lemma bind_opt_simps [simp]: "bind_opt None f = None" "bind_opt (Some a) f = f a"
  by (simp_all add: bind_opt_def)

definition parse_date :: "string \<Rightarrow> ((int \<times> nat \<times> int) \<times> string) option" where
  "parse_date s =
     bind_opt (parse_year s) (\<lambda>(y, s). bind_opt (expect CHR ''-'' s) (\<lambda>s.
     bind_opt (parse_field True (\<lambda>m. 0 < m \<and> m \<le> 12) s) (\<lambda>(m, s). bind_opt (expect CHR ''-'' s) (\<lambda>s.
     bind_opt (getnum s True) (\<lambda>(d, s). Some ((y, m, int d), s))))))"

definition parse_clock :: "string \<Rightarrow> ((int \<times> int \<times> int \<times> int) \<times> string) option" where
  "parse_clock s =
     bind_opt (parse_field False (\<lambda>h. h < 24) s) (\<lambda>(h, s). bind_opt (expect CHR '':'' s) (\<lambda>s.
     bind_opt (parse_field True (\<lambda>m. m < 60) s) (\<lambda>(m, s). bind_opt (expect CHR '':'' s) (\<lambda>s.
     bind_opt (parse_field True (\<lambda>x. x < 60) s) (\<lambda>(x, s).
       let (ns, s) = parse_fraction s in Some ((int h, int m, int x, ns), s))))))"

text \<open>\<open>time.Parse(time.RFC3339, s)\<close> and \<open>time.Parse(time.RFC3339Nano, s)\<close>.\<close>

definition ParseRFC3339 :: "string \<Rightarrow> time option" where
  "ParseRFC3339 s =
     bind_opt (parse_date s) (\<lambda>((y, m, d), s). bind_opt (expect CHR ''T'' s) (\<lambda>s.
     bind_opt (parse_clock s) (\<lambda>((h, mi, x, ns), s). bind_opt (parse_zone s) (\<lambda>(z, s).
       if s \<noteq> [] \<or> d < 1 \<or> daysIn m y < d then None else Some (Date y m d h mi x ns - z * Second)))))"

text \<open>\<open>time.Parse("2006-01-02", s)\<close>.\<close>

definition ParseDate :: "string \<Rightarrow> time option" where
  "ParseDate s =
     bind_opt (parse_date s) (\<lambda>((y, m, d), s).
       if s \<noteq> [] \<or> d < 1 \<or> daysIn m y < d then None else Some (Date y m d 0 0 0 0))"

subsection \<open>Parsing a formatted instant\<close>

lemma digits_zpad: "list_all is_digit (zpad w n)"
  by (simp add: zpad_def Let_def list_all_iff is_digit_def) (use list_all_is_digit_dec [of n] in \<open>auto simp: list_all_iff is_digit_def\<close>)

lemma dec_val_zpad: "dec_val 0 (zpad w n) = n"
  by (simp add: zpad_def Let_def dec_val_zeros dec_val_dec_of_nat)

lemma getnum_zpad: "n < 100 \<Longrightarrow> getnum (zpad 2 n @ r) fxd = Some (n, r)"
proof -
  assume n: "n < 100"
  then obtain a b where ab: "zpad 2 n = [a, b]" using length_zpad [of n 2] by (auto simp: length_Suc_conv numeral_2_eq_2)
  from digits_zpad [of 2 n] dec_val_zpad [of 2 n] show ?thesis by (simp add: ab getnum_def digit_at_def)
qed

lemma parse_field_zpad: "n < 100 \<Longrightarrow> ok n \<Longrightarrow> parse_field fxd ok (zpad 2 n @ r) = Some (n, r)"
  by (simp add: parse_field_def getnum_zpad)

lemma parse_year_zpad: "n < 10000 \<Longrightarrow> parse_year (zpad 4 n @ r) = Some (int n, r)"
  using length_zpad [of n 4] digits_zpad [of 4 n] dec_val_zpad [of 4 n] by (simp add: parse_year_def)

lemma parse_fraction_zpad:
  assumes "n < 10 ^ 9" and "r = [] \<or> \<not> is_digit (hd r)"
  shows "parse_fraction (CHR ''.'' # zpad 9 n @ r) = (int n, r)"
proof -
  have len: "length (zpad 9 n) = 9" using assms(1) by (intro length_zpad) simp_all
  have dig: "takeWhile is_digit (zpad 9 n @ r) = zpad 9 n" "dropWhile is_digit (zpad 9 n @ r) = r"
    using digits_zpad [of 9 n] assms(2) by (cases r; auto simp: list_all_iff takeWhile_append dropWhile_append)+
  have "digit_at (CHR ''.'' # zpad 9 n @ r) 1"
    using len digits_zpad [of 9 n] by (auto simp: digit_at_def nth_append list_all_length)
  with len dig dec_val_zpad [of 9 n] show ?thesis by (simp add: parse_fraction_def)
qed

text \<open>The text of an instant up to its seconds; any fraction of the right value may follow.\<close>

definition seconds_text :: "time \<Rightarrow> string" where
  "seconds_text t =
     (let c = civil_of t
      in appendInt (c_year c) 4 @ ''-'' @ appendInt (int (c_month c)) 2 @ ''-'' @ appendInt (c_day c) 2 @ ''T'' @
         appendInt (c_hour c) 2 @ '':'' @ appendInt (c_min c) 2 @ '':'' @ appendInt (c_sec c) 2)"

lemma FormatTime_text: "FormatTime t = seconds_text t @ ''.'' @ zpad 9 (nat (c_nsec (civil_of t))) @ ''Z''"
  using civil_of_range [of t] by (simp add: FormatTime_def seconds_text_def Let_def appendInt_def)

lemma ParseRFC3339_text:
  assumes "year_4 t" "parse_fraction (f @ ''Z'') = (c_nsec (civil_of t), ''Z'')"
  shows "ParseRFC3339 (seconds_text t @ f @ ''Z'') = Some t"
proof -
  let ?c = "civil_of t"
  note R = civil_of_range [of t]
  have d: "c_day ?c \<le> 31" using R daysIn_le [of "c_month ?c" "c_year ?c"] by simp
  have n: "nat (c_year ?c) < 10000" "c_month ?c < 100" "nat (c_day ?c) < 100" "nat (c_hour ?c) < 100" "nat (c_min ?c) < 100"
    "nat (c_sec ?c) < 100" "nat (c_nsec ?c) < 10 ^ 9" "nat (c_hour ?c) < 24" "nat (c_min ?c) < 60" "nat (c_sec ?c) < 60"
    "0 < c_month ?c \<and> c_month ?c \<le> 12"
    using assms(1) R d by (auto simp: year_4_def Second_def)
  have F: "seconds_text t = zpad 4 (nat (c_year ?c)) @ CHR ''-'' # zpad 2 (c_month ?c) @ CHR ''-'' # zpad 2 (nat (c_day ?c)) @ CHR ''T'' #
      zpad 2 (nat (c_hour ?c)) @ CHR '':'' # zpad 2 (nat (c_min ?c)) @ CHR '':'' # zpad 2 (nat (c_sec ?c))"
    using assms(1) R by (simp add: seconds_text_def Let_def appendInt_def year_4_def)
  show ?thesis using assms R
    by (simp add: F ParseRFC3339_def parse_date_def parse_clock_def parse_year_zpad [OF n(1)] parse_field_zpad [OF n(2)] getnum_zpad [OF n(3)]
        parse_field_zpad [OF n(4)] parse_field_zpad [OF n(5)] parse_field_zpad [OF n(6)] assms(2) n expect_def parse_zone_def
        is_digit_def less_eq_char_def year_4_def)
qed

lemma ParseRFC3339_FormatTime:
  assumes "year_4 t"
  shows "ParseRFC3339 (FormatTime t) = Some t"
proof -
  have "nat (c_nsec (civil_of t)) < 10 ^ 9" using civil_of_range [of t] by (simp add: Second_def nat_less_iff)
  from parse_fraction_zpad [OF this, of "''Z''"] have "parse_fraction ((''.'' @ zpad 9 (nat (c_nsec (civil_of t)))) @ ''Z'') = (c_nsec (civil_of t), ''Z'')"
    using civil_of_range [of t] by (simp add: is_digit_def less_eq_char_def)
  from ParseRFC3339_text [OF assms this] show ?thesis by (simp add: FormatTime_text)
qed

end
