(* ===== verification/Aip160.thy ===== *)
theory Aip160
  imports Filter_Lexing Go_Time Go_Base64
begin

text \<open>
  List filters and orders: \<open>internal/gcp/aip160\<close> (\<open>filter.go\<close>, \<open>expr.go\<close>, \<open>order.go\<close>).

  \<^item> \<open>Tokenize\<close>, and the parser state as the list of the remaining tokens.
  \<^item> \<open>ParseClauses\<close> and \<open>ParseExpression\<close> take the surface's clause parser as an argument, as in the
    code. A clause parser that succeeds without consuming a token makes their loops run forever, so both
    are partial functions, with \<open>None\<close> for a call that does not return. The six mutually recursive methods of
    \<open>expr.go\<close> are the modes of one function \<open>parse\<close>; \<open>MAnd\<close> and \<open>MOr\<close> are the methods up to their
    loop, \<open>LAnd\<close> and \<open>LOr\<close> the loops.
  \<^item> The locale \<open>clause_parser\<close> states what a surface's clause parser owes: it consumes at least one token
    and never the end token. Inside it, the parsers return on every token stream.
  \<^item> \<open>Compile\<close> and its clause parsers for a surface's field set; the parsed orders, their cursors and
    comparison.

  An error is a value naming the \<open>fmt.Errorf\<close> call that builds it.
\<close>

section \<open>Tokens\<close>

datatype Kind = KindEOF | KindIdent | KindString | KindOp | KindStar

record Token =
  Kind :: Kind
  Text :: string

abbreviation Tok :: "Kind \<Rightarrow> string \<Rightarrow> Token" where
  "Tok k t \<equiv> \<lparr>Kind = k, Text = t\<rparr>"

datatype token_error = UnterminatedString | UnexpectedCharacter char

definition isIdentStart :: "char \<Rightarrow> bool" where
  "isIdentStart c \<longleftrightarrow> c = CHR ''_'' \<or> (CHR ''a'' \<le> c \<and> c \<le> CHR ''z'') \<or> (CHR ''A'' \<le> c \<and> c \<le> CHR ''Z'') \<or>
     (CHR ''0'' \<le> c \<and> c \<le> CHR ''9'')"

definition isIdentPart :: "char \<Rightarrow> bool" where
  "isIdentPart c \<longleftrightarrow> isIdentStart c \<or> c = CHR ''-'' \<or> c = CHR ''.''"

definition add_token :: "Token \<Rightarrow> token_error + Token list \<Rightarrow> token_error + Token list" where
  "add_token t r = (case r of Inl e \<Rightarrow> Inl e | Inr ts \<Rightarrow> Inr (t # ts))"

function scan_tokens :: "string \<Rightarrow> token_error + Token list" where
  "scan_tokens [] = Inr []"
| "scan_tokens (c # s) =
     (if is_blank c then scan_tokens s
      else if c = CHR ''*'' then add_token (Tok KindStar ''*'') (scan_tokens s)
      else if c = CHR ''('' \<or> c = CHR '')'' then add_token (Tok KindOp [c]) (scan_tokens s)
      else if c = CHR ''-'' then add_token (Tok KindOp ''-'') (scan_tokens s)
      else if c = CHR 0x22 then
        (case scan_string [] s of
           None \<Rightarrow> Inl UnterminatedString
         | Some (t, r) \<Rightarrow> add_token (Tok KindString t) (scan_tokens r))
      else if c \<in> {CHR ''='', CHR ''!'', CHR ''<'', CHR ''>'', CHR '':''} then
        (if s \<noteq> [] \<and> [c, hd s] \<in> {''!='', ''<='', ''>=''} then add_token (Tok KindOp [c, hd s]) (scan_tokens (tl s))
         else if c = CHR ''!'' then Inl (UnexpectedCharacter c)
         else add_token (Tok KindOp [c]) (scan_tokens s))
      else if isIdentStart c then
        add_token (Tok KindIdent (c # takeWhile isIdentPart s)) (scan_tokens (dropWhile isIdentPart s))
      else Inl (UnexpectedCharacter c))"
  by pat_completeness auto
termination
  by (relation "measure length") (auto dest: scan_string_length simp: le_imp_less_Suc length_dropWhile_le)

declare scan_tokens.simps [simp del]

definition Tokenize :: "string \<Rightarrow> token_error + Token list" where
  "Tokenize s = (case scan_tokens s of Inl e \<Rightarrow> Inl e | Inr ts \<Rightarrow> Inr (ts @ [Tok KindEOF []]))"

definition TokenValue :: "Token \<Rightarrow> string option" where
  "TokenValue t = (if Kind t = KindIdent \<or> Kind t = KindString then Some (Text t) else None)"

section \<open>Writing tokens\<close>

definition operators :: "string list" where
  "operators = [''='', ''!='', ''<'', ''<='', ''>'', ''>='', '':'', ''('', '')'', ''-'']"

definition printable :: "Token \<Rightarrow> bool" where
  "printable t = (case Kind t of
       KindEOF \<Rightarrow> False
     | KindIdent \<Rightarrow> Text t \<noteq> [] \<and> isIdentStart (hd (Text t)) \<and> list_all isIdentPart (tl (Text t))
     | KindString \<Rightarrow> True
     | KindOp \<Rightarrow> Text t \<in> set operators
     | KindStar \<Rightarrow> Text t = ''*'')"

definition show_token :: "Token \<Rightarrow> string" where
  "show_token t = (if Kind t = KindString then quoted (Text t) else Text t) @ '' ''"

lemma scan_blank: "scan_tokens (CHR '' '' # r) = scan_tokens r"
  by (simp add: scan_tokens.simps is_blank_def)

lemma scan_operator: "w \<in> set operators \<Longrightarrow> scan_tokens (w @ CHR '' '' # r) = add_token (Tok KindOp w) (scan_tokens r)"
  by (auto simp: operators_def scan_tokens.simps is_blank_def)

lemma scan_identifier:
  assumes "w \<noteq> []" "isIdentStart (hd w)" "list_all isIdentPart (tl w)"
  shows "scan_tokens (w @ CHR '' '' # r) = add_token (Tok KindIdent w) (scan_tokens r)"
proof -
  obtain c u where w: "w = c # u" using assms(1) by (cases w) auto
  have sp: "\<not> isIdentPart (CHR '' '')" by (simp add: isIdentPart_def isIdentStart_def less_eq_char_def)
  have "takeWhile isIdentPart (u @ CHR '' '' # r) = u" "dropWhile isIdentPart (u @ CHR '' '' # r) = CHR '' '' # r"
    using assms(3) sp by (auto simp: w list_all_iff takeWhile_append dropWhile_append)
  moreover have "\<not> is_blank c" "c \<notin> set ''*()-=!<>:'' \<union> {CHR 0x22}"
    using assms(2) by (auto simp: w isIdentStart_def is_blank_def less_eq_char_def)
  ultimately show ?thesis using assms(2) scan_blank [of r] by (simp add: w scan_tokens.simps(2) [of c])
qed

lemma scan_show_token: "printable t \<Longrightarrow> scan_tokens (show_token t @ r) = add_token t (scan_tokens r)"
proof (cases "Kind t")
  case KindString
  have "scan_tokens (quoted (Text t) @ u) = add_token (Tok KindString (Text t)) (scan_tokens u)" for u
    using scan_string_tl_quoted [of "Text t" u] by (simp add: quoted_def scan_tokens.simps is_blank_def)
  from this [of "CHR '' '' # r"] KindString show ?thesis
    by (simp add: show_token_def scan_blank) (metis (full_types) Token.surjective old.unit.exhaust)
next
  case KindStar
  assume "printable t"
  with KindStar have t: "t = Tok KindStar ''*''" by (simp add: printable_def)
  show ?thesis by (simp add: t show_token_def scan_tokens.simps(2) [of "CHR ''*''"] scan_blank is_blank_def)
next
  case KindOp
  assume "printable t"
  with KindOp scan_operator [of "Text t" r] show ?thesis
    by (simp add: printable_def show_token_def) (metis (full_types) Token.surjective old.unit.exhaust)
next
  case KindIdent
  assume "printable t"
  with KindIdent scan_identifier [of "Text t" r] show ?thesis
    by (simp add: printable_def show_token_def) (metis (full_types) Token.surjective old.unit.exhaust)
qed (simp add: printable_def)

definition text_of :: "Token list \<Rightarrow> string" where
  "text_of ts = concat (map show_token ts)"

lemma Tokenize_text_of: "\<forall>t \<in> set ts. printable t \<Longrightarrow> Tokenize (text_of ts) = Inr (ts @ [Tok KindEOF []])"
proof -
  assume "\<forall>t \<in> set ts. printable t"
  then have "scan_tokens (text_of ts) = Inr ts"
    by (induction ts) (simp_all add: text_of_def scan_show_token add_token_def scan_tokens.simps(1))
  then show ?thesis by (simp add: Tokenize_def)
qed

lemma text_of_not_blank: "printable t \<Longrightarrow> TrimSpace (text_of (t # ts)) \<noteq> []"
proof -
  assume t: "printable t"
  then have "plain_byte (hd (show_token t)) \<and> show_token t \<noteq> []"
    by (cases "Kind t") (auto simp: printable_def show_token_def operators_def quoted_def plain_byte_def byte_def
        isIdentStart_def less_eq_char_def hd_append)
  then show ?thesis using TrimSpace_not_Nil [of "hd (show_token t)" "tl (show_token t) @ text_of ts"]
    by (cases "show_token t") (simp_all add: text_of_def)
qed

section \<open>The parser state\<close>

definition Peek :: "Token list \<Rightarrow> Token" where
  "Peek ts = (case ts of [] \<Rightarrow> Tok KindEOF [] | t # _ \<Rightarrow> t)"

definition Advance :: "Token list \<Rightarrow> Token list" where
  "Advance ts = (if Kind (Peek ts) \<noteq> KindEOF then tl ts else ts)"

abbreviation is_word :: "Token \<Rightarrow> string \<Rightarrow> bool" where
  "is_word t w \<equiv> Kind t = KindIdent \<and> EqualFold (Text t) w"

abbreviation is_op :: "Token \<Rightarrow> string \<Rightarrow> bool" where
  "is_op t w \<equiv> Kind t = KindOp \<and> Text t = w"

lemma Advance_Cons [simp]: "Peek (t # ts) = t" "Kind t \<noteq> KindEOF \<Longrightarrow> Advance (t # ts) = ts"
  by (simp_all add: Peek_def Advance_def)

lemma Advance_consumes: "Kind (Peek ts) \<noteq> KindEOF \<Longrightarrow> ts = Peek ts # Advance ts"
  by (cases ts) (simp_all add: Peek_def Advance_def)

lemma length_Advance: "length (Advance ts) \<le> length ts"
  by (simp add: Advance_def)

lemma length_Advance_less: "Kind (Peek ts) \<noteq> KindEOF \<Longrightarrow> length (Advance ts) < length ts"
  by (cases ts) (simp_all add: Advance_def Peek_def)

section \<open>Clause sequences and expressions\<close>

datatype 'e parse_error = DanglingAND | UnexpectedToken Token | MissingClosingParenthesis | ClauseError 'e

type_synonym ('e, 'p) clause = "Token list \<Rightarrow> 'e + 'p \<times> Token list"

text \<open>The loop of \<open>ParseClauses\<close>, with the predicates collected so far.\<close>

partial_function (option) clauses_loop ::
  "('e, 'p) clause \<Rightarrow> 'p list \<Rightarrow> Token list \<Rightarrow> ('e parse_error + 'p list) option" where
  "clauses_loop clause preds ts =
     (case clause ts of
        Inl e \<Rightarrow> Some (Inl (ClauseError e))
      | Inr (pred, ts) \<Rightarrow>
          let preds = preds @ [pred]; t = Peek ts
          in if Kind t = KindEOF then Some (Inr preds)
             else if is_word t ''AND'' then
               (if Kind (Peek (Advance ts)) = KindEOF then Some (Inl DanglingAND)
                else clauses_loop clause preds (Advance ts))
             else if Kind t = KindIdent then clauses_loop clause preds ts
             else Some (Inl (UnexpectedToken t)))"

definition ParseClauses :: "('e, 'p) clause \<Rightarrow> Token list \<Rightarrow> ('e parse_error + 'p list) option" where
  "ParseClauses clause ts = clauses_loop clause [] ts"

datatype 'p Expr = Leaf 'p | ExprAND "'p Expr" "'p Expr" | ExprOR "'p Expr" "'p Expr" | ExprNOT "'p Expr"

primrec Match :: "'p Expr \<Rightarrow> ('p \<Rightarrow> bool) \<Rightarrow> bool" where
  "Match (Leaf p) leaf = leaf p"
| "Match (ExprAND l r) leaf = (Match l leaf \<and> Match r leaf)"
| "Match (ExprOR l r) leaf = (Match l leaf \<or> Match r leaf)"
| "Match (ExprNOT e) leaf = (\<not> Match e leaf)"

datatype 'p mode = MAnd | LAnd "'p Expr" | MOr | LOr "'p Expr" | MUnary | MPrimary

partial_function (option) parse ::
  "('e, 'p) clause \<Rightarrow> 'p mode \<Rightarrow> Token list \<Rightarrow> ('e parse_error + 'p Expr \<times> Token list) option" where
  "parse clause m ts =
     (case m of
        MAnd \<Rightarrow>
          Option.bind (parse clause MOr ts)
            (\<lambda>r. case r of Inl e \<Rightarrow> Some (Inl e) | Inr (left, ts) \<Rightarrow> parse clause (LAnd left) ts)
      | LAnd left \<Rightarrow>
          let t = Peek ts
          in if is_word t ''AND'' then
               Option.bind (parse clause MOr (Advance ts))
                 (\<lambda>r. case r of Inl e \<Rightarrow> Some (Inl e) | Inr (right, ts) \<Rightarrow> parse clause (LAnd (ExprAND left right)) ts)
             else if Kind t = KindEOF \<or> is_op t '')'' then Some (Inr (left, ts))
             else
               Option.bind (parse clause MOr ts)
                 (\<lambda>r. case r of Inl e \<Rightarrow> Some (Inl e) | Inr (right, ts) \<Rightarrow> parse clause (LAnd (ExprAND left right)) ts)
      | MOr \<Rightarrow>
          Option.bind (parse clause MUnary ts)
            (\<lambda>r. case r of Inl e \<Rightarrow> Some (Inl e) | Inr (left, ts) \<Rightarrow> parse clause (LOr left) ts)
      | LOr left \<Rightarrow>
          if \<not> is_word (Peek ts) ''OR'' then Some (Inr (left, ts))
          else
            Option.bind (parse clause MUnary (Advance ts))
              (\<lambda>r. case r of Inl e \<Rightarrow> Some (Inl e) | Inr (right, ts) \<Rightarrow> parse clause (LOr (ExprOR left right)) ts)
      | MUnary \<Rightarrow>
          if is_word (Peek ts) ''NOT'' \<or> is_op (Peek ts) ''-'' then
            Option.bind (parse clause MUnary (Advance ts))
              (\<lambda>r. case r of Inl e \<Rightarrow> Some (Inl e) | Inr (inner, ts) \<Rightarrow> Some (Inr (ExprNOT inner, ts)))
          else parse clause MPrimary ts
      | MPrimary \<Rightarrow>
          if is_op (Peek ts) ''('' then
            Option.bind (parse clause MAnd (Advance ts))
              (\<lambda>r. case r of
                 Inl e \<Rightarrow> Some (Inl e)
               | Inr (inner, ts) \<Rightarrow>
                   if \<not> is_op (Peek ts) '')'' then Some (Inl MissingClosingParenthesis) else Some (Inr (inner, Advance ts)))
          else
            (case clause ts of Inl e \<Rightarrow> Some (Inl (ClauseError e)) | Inr (leaf, ts) \<Rightarrow> Some (Inr (Leaf leaf, ts))))"

definition ParseExpression :: "('e, 'p) clause \<Rightarrow> Token list \<Rightarrow> ('e parse_error + 'p Expr) option" where
  "ParseExpression clause ts =
     (case parse clause MAnd ts of
        None \<Rightarrow> None
      | Some (Inl e) \<Rightarrow> Some (Inl e)
      | Some (Inr (e, ts)) \<Rightarrow>
          if Kind (Peek ts) \<noteq> KindEOF then Some (Inl (UnexpectedToken (Peek ts))) else Some (Inr e))"

section \<open>What a clause parser owes\<close>

text \<open>\<open>moves strict ts r\<close>: the parser went from \<open>ts\<close> to \<open>r\<close> without passing an end token.\<close>

definition moves :: "bool \<Rightarrow> Token list \<Rightarrow> Token list \<Rightarrow> bool" where
  "moves strict ts r \<longleftrightarrow> (\<exists>us. ts = us @ r \<and> (strict \<longrightarrow> us \<noteq> []) \<and> (\<forall>t \<in> set us. Kind t \<noteq> KindEOF))"

lemma moves_refl [simp]: "moves False ts ts"
  by (simp add: moves_def)

lemma moves_weaken: "moves b ts r \<Longrightarrow> moves False ts r"
  by (auto simp: moves_def)

lemma moves_trans: "moves a ts u \<Longrightarrow> moves b u r \<Longrightarrow> c = (a \<or> b) \<Longrightarrow> moves c ts r"
  unfolding moves_def by (elim exE conjE) (rule exI [of _ "_ @ _"], auto)

lemma moves_Advance: "Kind (Peek ts) \<noteq> KindEOF \<Longrightarrow> moves True ts (Advance ts)"
  unfolding moves_def using Advance_consumes [of ts] by (intro exI [of _ "[Peek ts]"]) simp

lemma moves_length: "moves True ts r \<Longrightarrow> length r < length ts" "moves False ts r \<Longrightarrow> length r \<le> length ts"
  by (auto simp: moves_def)

locale clause_parser =
  fixes clause :: "Token list \<Rightarrow> 'e + 'p \<times> Token list"
  assumes consumes: "clause ts = Inr (p, r) \<Longrightarrow> moves True ts r"
begin

definition is_loop :: "'p mode \<Rightarrow> bool" where
  "is_loop m = (case m of LAnd _ \<Rightarrow> True | LOr _ \<Rightarrow> True | _ \<Rightarrow> False)"

definition rank :: "'p mode \<Rightarrow> nat" where
  "rank m = (case m of MAnd \<Rightarrow> 5 | LAnd _ \<Rightarrow> 5 | MOr \<Rightarrow> 4 | MUnary \<Rightarrow> 3 | MPrimary \<Rightarrow> 2 | LOr _ \<Rightarrow> 0)"

text \<open>A call returns, and on success the parser has moved forward, strictly unless the call is a loop.\<close>

definition returns :: "'p mode \<Rightarrow> Token list \<Rightarrow> bool" where
  "returns m ts \<longleftrightarrow> (\<exists>res. parse clause m ts = Some res \<and> (\<forall>e r. res = Inr (e, r) \<longrightarrow> moves (\<not> is_loop m) ts r))"

lemma returnsE:
  assumes "returns m ts"
  obtains e where "parse clause m ts = Some (Inl e)"
  | e r where "parse clause m ts = Some (Inr (e, r))" "moves (\<not> is_loop m) ts r"
  using assms unfolding returns_def by (metis old.sum.exhaust surj_pair)

lemma returnsI:
  "parse clause m ts = Some (Inl e) \<Longrightarrow> returns m ts"
  "parse clause m ts = Some (Inr (x, r)) \<Longrightarrow> moves (\<not> is_loop m) ts r \<Longrightarrow> returns m ts"
  by (simp_all add: returns_def)

text \<open>A first call followed by another mode, the shape of every composite parser.\<close>

lemma returns_then:
  assumes "parse clause m ts = Option.bind (parse clause m1 u) (\<lambda>r. case r of Inl e \<Rightarrow> Some (Inl e) | Inr (x, v) \<Rightarrow> parse clause (k x) v)"
    and "moves b ts u" and "returns m1 u" and "\<not> is_loop m1"
    and "\<And>x v. moves True u v \<Longrightarrow> returns (k x) v" and "\<And>x. is_loop (k x)"
  shows "returns m ts"
  using assms(3)
proof (cases rule: returnsE)
  case (1 e)
  with assms(1) show ?thesis by (intro returnsI(1)) simp
next
  case (2 x v)
  with assms(4) have uv: "moves True u v" by simp
  have tsv: "moves True ts v" by (rule moves_trans [OF assms(2) uv]) simp
  from assms(5) [OF uv, of x] show ?thesis
  proof (cases rule: returnsE)
    case (1 e)
    with 2 assms(1) show ?thesis by (intro returnsI(1)) simp
  next
    case r: (2 y w)
    from r(2) assms(6) [of x] have "moves False v w" by simp
    from moves_trans [OF tsv this refl] have "moves (\<not> is_loop m) ts w" by (cases "is_loop m") (auto dest: moves_weaken)
    with r(1) 2 assms(1) show ?thesis by (intro returnsI(2)) simp_all
  qed
qed

text \<open>One lemma per parsing method: it returns if its calls do.\<close>

lemma returns_LAnd:
  assumes "\<And>m' ts'. length ts' < length ts \<or> length ts' = length ts \<and> m' = MOr \<Longrightarrow> returns m' ts'"
  shows "returns (LAnd left) ts"
proof (cases "\<not> is_word (Peek ts) ''AND'' \<and> (Kind (Peek ts) = KindEOF \<or> is_op (Peek ts) '')'')")
  case True
  then show ?thesis by (intro returnsI(2)) (auto simp: is_loop_def parse.simps [of clause "LAnd left" ts])
next
  case False
  let ?u = "if is_word (Peek ts) ''AND'' then Advance ts else ts"
  have u: "moves False ts ?u" by (auto intro: moves_weaken [OF moves_Advance])
  show ?thesis
  proof (rule returns_then [where b = False and u = ?u and k = "\<lambda>x. LAnd (ExprAND left x)", OF _ u])
    show "parse clause (LAnd left) ts = Option.bind (parse clause MOr ?u)
        (\<lambda>r. case r of Inl e \<Rightarrow> Some (Inl e) | Inr (x, v) \<Rightarrow> parse clause (LAnd (ExprAND left x)) v)"
      using False by (auto simp: Let_def parse.simps [of clause "LAnd left" ts])
    show "returns MOr ?u" using moves_length(2) [OF u] by (intro assms) auto
    show "returns (LAnd (ExprAND left x)) v" if "moves True ?u v" for x v
      using moves_length(1) [OF that] moves_length(2) [OF u] by (intro assms) auto
  qed (auto simp: is_loop_def)
qed

lemma returns_LOr:
  assumes "\<And>m' ts'. length ts' < length ts \<Longrightarrow> returns m' ts'"
  shows "returns (LOr left) ts"
proof (cases "is_word (Peek ts) ''OR''")
  case True
  then have a: "moves True ts (Advance ts)" by (intro moves_Advance) simp
  show ?thesis
  proof (rule returns_then [where b = True and u = "Advance ts" and k = "\<lambda>x. LOr (ExprOR left x)", OF _ a])
    show "parse clause (LOr left) ts = Option.bind (parse clause MUnary (Advance ts))
        (\<lambda>r. case r of Inl e \<Rightarrow> Some (Inl e) | Inr (x, v) \<Rightarrow> parse clause (LOr (ExprOR left x)) v)"
      using True by (simp add: parse.simps [of clause "LOr left" ts])
  qed (use moves_length(1) [OF a] in \<open>auto intro!: assms simp: is_loop_def dest: moves_length\<close>)
qed (auto intro!: returnsI(2) simp: is_loop_def parse.simps [of clause "LOr left" ts])

lemma returns_MUnary:
  assumes "\<And>m' ts'. length ts' < length ts \<or> length ts' = length ts \<and> m' = MPrimary \<Longrightarrow> returns m' ts'"
  shows "returns MUnary ts"
proof (cases "is_word (Peek ts) ''NOT'' \<or> is_op (Peek ts) ''-''")
  case True
  then have a: "moves True ts (Advance ts)" by (intro moves_Advance) auto
  from True have E: "parse clause MUnary ts = Option.bind (parse clause MUnary (Advance ts))
      (\<lambda>r. case r of Inl e \<Rightarrow> Some (Inl e) | Inr (inner, ts) \<Rightarrow> Some (Inr (ExprNOT inner, ts)))"
    by (simp add: parse.simps [of clause MUnary ts])
  have "returns MUnary (Advance ts)" using moves_length(1) [OF a] by (intro assms) simp
  then show ?thesis
  proof (cases rule: returnsE)
    case (1 e)
    with E show ?thesis by (intro returnsI(1)) simp
  next
    case (2 e r)
    with E moves_trans [OF a 2(2) refl] show ?thesis by (intro returnsI(2)) (simp_all add: is_loop_def)
  qed
next
  case False
  have "returns MPrimary ts" by (intro assms) simp
  moreover from False have "parse clause MUnary ts = parse clause MPrimary ts" by (auto simp: parse.simps [of clause MUnary ts])
  ultimately show ?thesis by (simp add: returns_def is_loop_def)
qed

lemma returns_MPrimary:
  assumes "\<And>m' ts'. length ts' < length ts \<Longrightarrow> returns m' ts'"
  shows "returns MPrimary ts"
proof (cases "is_op (Peek ts) ''(''")
  case True
  note P = parse.simps [of clause MPrimary ts]
  from True have a: "moves True ts (Advance ts)" by (intro moves_Advance) simp
  have "returns MAnd (Advance ts)" using moves_length(1) [OF a] by (intro assms) simp
  then show ?thesis
  proof (cases rule: returnsE)
    case (1 e)
    with True P show ?thesis by (intro returnsI(1)) simp
  next
    case (2 e r)
    show ?thesis
    proof (cases "is_op (Peek r) '')''")
      case closed: True
      then have "moves True r (Advance r)" by (intro moves_Advance) simp
      from moves_trans [OF moves_trans [OF a 2(2) refl] this refl] have "moves True ts (Advance r)" by (simp add: is_loop_def)
      with True closed P 2 show ?thesis by (intro returnsI(2)) (simp_all add: is_loop_def)
    qed (use True P 2 in \<open>auto intro!: returnsI(1)\<close>)
  qed
next
  case False
  note P = parse.simps [of clause MPrimary ts]
  show ?thesis
  proof (cases "clause ts")
    case (Inr b)
    then obtain p r where "clause ts = Inr (p, r)" by (cases b) simp
    with consumes [OF this] False P show ?thesis by (intro returnsI(2)) (auto simp: is_loop_def)
  qed (use False P in \<open>auto intro!: returnsI(1)\<close>)
qed

lemma returns_sequence:
  fixes k :: "'p Expr \<Rightarrow> 'p mode"
  assumes "m = MAnd \<and> m1 = MOr \<and> k = LAnd \<or> m = MOr \<and> m1 = MUnary \<and> k = LOr"
    and "\<And>m' ts'. length ts' < length ts \<or> length ts' = length ts \<and> m' = m1 \<Longrightarrow> returns m' ts'"
  shows "returns m ts"
proof (rule returns_then [where b = False and u = ts and ?m1.0 = m1 and k = k])
  show "parse clause m ts = Option.bind (parse clause m1 ts) (\<lambda>r. case r of Inl e \<Rightarrow> Some (Inl e) | Inr (x, v) \<Rightarrow> parse clause (k x) v)"
    using assms(1) by (auto simp: parse.simps [of clause m ts])
qed (use assms in \<open>auto simp: is_loop_def dest: moves_length\<close>)

lemma parse_returns: "returns m ts"
proof (induction "(m, ts)" arbitrary: m ts rule: wf_induct_rule [OF wf_measures [of "[\<lambda>(m, ts). length ts, \<lambda>(m, ts). rank m]"]])
  case hyp: 1
  have IH: "returns m' ts'" if "length ts' < length ts \<or> length ts' = length ts \<and> rank m' < rank m" for m' ts'
    using that by (intro hyp) auto
  show ?case
  proof (cases m)
    case MAnd
    show ?thesis
    proof (rule returns_sequence [where ?m1.0 = MOr and k = LAnd])
      show "returns m' ts'" if "length ts' < length ts \<or> length ts' = length ts \<and> m' = MOr" for m' ts'
        using that by (intro IH) (auto simp: MAnd rank_def)
    qed (simp add: MAnd)
  next
    case MOr
    show ?thesis
    proof (rule returns_sequence [where ?m1.0 = MUnary and k = LOr])
      show "returns m' ts'" if "length ts' < length ts \<or> length ts' = length ts \<and> m' = MUnary" for m' ts'
        using that by (intro IH) (auto simp: MOr rank_def)
    qed (simp add: MOr)
  next
    case (LAnd left)
    have "returns (LAnd left) ts" by (rule returns_LAnd, rule IH) (auto simp: LAnd rank_def)
    with LAnd show ?thesis by simp
  next
    case (LOr left)
    have "returns (LOr left) ts" by (rule returns_LOr, rule IH) simp
    with LOr show ?thesis by simp
  next
    case MUnary
    have "returns MUnary ts" by (rule returns_MUnary, rule IH) (auto simp: MUnary rank_def)
    with MUnary show ?thesis by simp
  next
    case MPrimary
    have "returns MPrimary ts" by (rule returns_MPrimary, rule IH) simp
    with MPrimary show ?thesis by simp
  qed
qed

text \<open>Every expression and every sequence of clauses is parsed to a result or an error.\<close>

lemma expression_returns: "ParseExpression clause ts \<noteq> None"
  using parse_returns [of MAnd ts] by (cases rule: returnsE) (auto simp: ParseExpression_def)

lemma clauses_loop_returns: "clauses_loop clause preds ts \<noteq> None"
proof (induction "length ts" arbitrary: preds ts rule: less_induct)
  case less
  show ?case
  proof (cases "clause ts")
    case (Inr b)
    then obtain p r where pr: "clause ts = Inr (p, r)" by (cases b) simp
    from moves_length(1) [OF consumes [OF this]] length_Advance [of r] have len: "length r < length ts" "length (Advance r) < length ts" by simp_all
    show ?thesis unfolding clauses_loop.simps [of clause preds ts] using pr less(1) [OF len(1)] less(1) [OF len(2)]
      by (auto simp: Let_def simp del: not_None_eq)
  qed (simp add: clauses_loop.simps [of clause preds ts])
qed

lemma clauses_return: "ParseClauses clause ts \<noteq> None"
  by (simp only: ParseClauses_def clauses_loop_returns not_False_eq_True)

end

section \<open>Precedence\<close>

text \<open>
  The tokens of an expression with the fewest parentheses, for the precedence the code documents: OR binds
  tighter than AND, NOT tighter than both. With \<open>imp\<close> the word AND is left out.
\<close>

primrec expr_toks :: "bool \<Rightarrow> ('c \<Rightarrow> Token list) \<Rightarrow> nat \<Rightarrow> 'c Expr \<Rightarrow> Token list" where
  "expr_toks imp f p (Leaf c) = f c"
| "expr_toks imp f p (ExprAND l r) =
     (let ts = expr_toks imp f 0 l @ (if imp then [] else [Tok KindIdent ''AND'']) @ expr_toks imp f 1 r
      in if 0 < p then Tok KindOp ''('' # ts @ [Tok KindOp '')''] else ts)"
| "expr_toks imp f p (ExprOR l r) =
     (let ts = expr_toks imp f 1 l @ [Tok KindIdent ''OR''] @ expr_toks imp f 2 r
      in if 1 < p then Tok KindOp ''('' # ts @ [Tok KindOp '')''] else ts)"
| "expr_toks imp f p (ExprNOT e) = Tok KindIdent ''NOT'' # expr_toks imp f 2 e"

text \<open>The tokens of a sequence of clauses, joined by the word AND or by nothing.\<close>

fun clause_seq :: "bool \<Rightarrow> ('c \<Rightarrow> Token list) \<Rightarrow> 'c list \<Rightarrow> Token list" where
  "clause_seq imp f [] = []"
| "clause_seq imp f [c] = f c"
| "clause_seq imp f (c # d # cs) = f c @ (if imp then [] else [Tok KindIdent ''AND'']) @ clause_seq imp f (d # cs)"

definition plain_word :: "string \<Rightarrow> bool" where
  "plain_word w \<longleftrightarrow> \<not> EqualFold w ''AND'' \<and> \<not> EqualFold w ''OR'' \<and> \<not> EqualFold w ''NOT''"

lemma keyword_words [simp]:
  "EqualFold ''AND'' ''AND''" "EqualFold ''OR'' ''OR''" "EqualFold ''NOT'' ''NOT''"
  "\<not> EqualFold ''OR'' ''AND''" "\<not> EqualFold ''NOT'' ''AND''" "\<not> EqualFold ''NOT'' ''OR''" "\<not> EqualFold ''AND'' ''OR''"
  by code_simp+

locale clause_syntax = clause_parser clause
  for clause :: "Token list \<Rightarrow> 'e + 'p \<times> Token list" +
  fixes ctoks :: "'c \<Rightarrow> Token list" and den :: "'c \<Rightarrow> 'p" and ok :: "'c \<Rightarrow> bool"
  assumes clause_ctoks: "ok c \<Longrightarrow> clause (ctoks c @ r) = Inr (den c, r)"
    and ctoks_start: "ok c \<Longrightarrow> \<exists>w ts. ctoks c = Tok KindIdent w # ts \<and> plain_word w"
begin

lemma expr_toks_start:
  "\<forall>c \<in> set_Expr e. ok c \<Longrightarrow> \<exists>t ts. expr_toks imp ctoks p e = t # ts \<and> Kind t \<noteq> KindEOF \<and>
     \<not> is_word t ''AND'' \<and> \<not> is_word t ''OR'' \<and> \<not> is_op t '')''"
proof (induction e arbitrary: p)
  case (Leaf c)
  then show ?case using ctoks_start [of c] by (auto simp: plain_word_def)
next
  case (ExprAND l r)
  from ExprAND(1) [of 0] ExprAND(3) show ?case by (auto simp: Let_def)
next
  case (ExprOR l r)
  from ExprOR(1) [of 1] ExprOR(3) show ?case by (auto simp: Let_def)
next
  case (ExprNOT e)
  show ?case by simp
qed

lemma parse_LAnd_word:
  "parse clause (LAnd left) (Tok KindIdent ''AND'' # ts) = Option.bind (parse clause MOr ts)
     (\<lambda>r. case r of Inl e \<Rightarrow> Some (Inl e) | Inr (right, ts) \<Rightarrow> parse clause (LAnd (ExprAND left right)) ts)"
  by (simp add: parse.simps [of clause "LAnd left" "_ # _"])

lemma parse_LAnd_implicit:
  assumes "Kind t \<noteq> KindEOF" "\<not> is_word t ''AND''" "\<not> is_op t '')''"
  shows "parse clause (LAnd left) (t # ts) = Option.bind (parse clause MOr (t # ts))
     (\<lambda>r. case r of Inl e \<Rightarrow> Some (Inl e) | Inr (right, ts) \<Rightarrow> parse clause (LAnd (ExprAND left right)) ts)"
  using assms by (auto simp: parse.simps [of clause "LAnd left" "_ # _"])

lemma parse_paren:
  assumes "\<And>r. \<not> is_word (Peek r) ''OR'' \<Longrightarrow> parse clause MAnd (ts @ r) = parse clause (LAnd d) r"
  shows "parse clause MUnary (Tok KindOp ''('' # ts @ Tok KindOp '')'' # r) = Some (Inr (d, r))"
proof -
  let ?r = "Tok KindOp '')'' # r"
  have "parse clause MAnd (ts @ ?r) = Some (Inr (d, ?r))"
    using assms [of ?r] by (simp add: parse.simps [of clause "LAnd d" ?r])
  then show ?thesis
    by (simp add: parse.simps [of clause MUnary "_ # _"] parse.simps [of clause MPrimary "_ # _"])
qed

text \<open>What parsing the tokens of \<open>e\<close> at each level leads to.\<close>

definition level_ok :: "nat \<Rightarrow> Token list \<Rightarrow> 'p Expr \<Rightarrow> bool" where
  "level_ok p ts d \<longleftrightarrow> (\<forall>r.
     (1 < p \<longrightarrow> parse clause MUnary (ts @ r) = Some (Inr (d, r))) \<and>
     (p = 1 \<longrightarrow> parse clause MOr (ts @ r) = parse clause (LOr d) r) \<and>
     (p = 0 \<longrightarrow> \<not> is_word (Peek r) ''OR'' \<longrightarrow> parse clause MAnd (ts @ r) = parse clause (LAnd d) r))"

lemma level_okD:
  "level_ok 2 ts d \<Longrightarrow> parse clause MUnary (ts @ r) = Some (Inr (d, r))"
  "level_ok 1 ts d \<Longrightarrow> parse clause MOr (ts @ r) = parse clause (LOr d) r"
  "level_ok 0 ts d \<Longrightarrow> \<not> is_word (Peek r) ''OR'' \<Longrightarrow> parse clause MAnd (ts @ r) = parse clause (LAnd d) r"
  by (simp_all add: level_ok_def)

lemma level_raise1:
  assumes "\<And>r. parse clause MOr (ts @ r) = parse clause (LOr d) r" and "p \<le> 1"
  shows "level_ok p ts d"
  using assms by (auto simp: level_ok_def parse.simps [of clause MAnd] parse.simps [of clause "LOr d"])

lemma level_raise2:
  assumes "\<And>r. parse clause MUnary (ts @ r) = Some (Inr (d, r))"
  shows "level_ok p ts d"
proof (cases "1 < p")
  case False
  have "parse clause MOr (ts @ r) = parse clause (LOr d) r" for r
    by (simp add: parse.simps [of clause MOr "ts @ r"] assms)
  with False show ?thesis by (intro level_raise1) auto
qed (simp add: level_ok_def assms)

lemma parse_expr_toks:
  "\<forall>c \<in> set_Expr e. ok c \<Longrightarrow> level_ok p (expr_toks imp ctoks p e) (map_Expr den e)"
proof (induction e arbitrary: p)
  case (Leaf c)
  then have "ok c" by simp
  then show ?case
    using ctoks_start [OF \<open>ok c\<close>] clause_ctoks [OF \<open>ok c\<close>]
    by (intro level_raise2) (auto simp: plain_word_def parse.simps [of clause MUnary "_ # _"] parse.simps [of clause MPrimary "_ # _"])
next
  case (ExprAND l r)
  let ?d = "ExprAND (map_Expr den l) (map_Expr den r)"
  let ?ts = "expr_toks imp ctoks 0 l @ (if imp then [] else [Tok KindIdent ''AND'']) @ expr_toks imp ctoks 1 r"
  note L = level_okD(3) [OF ExprAND.IH(1) [of 0]] and R = level_okD(2) [OF ExprAND.IH(2) [of 1]]
  have A: "parse clause MAnd (?ts @ u) = parse clause (LAnd ?d) u" if "\<not> is_word (Peek u) ''OR''" for u
  proof -
    let ?v = "expr_toks imp ctoks 1 r @ u"
    obtain t ts where t: "expr_toks imp ctoks 1 r = t # ts" "Kind t \<noteq> KindEOF" "\<not> is_word t ''AND''" "\<not> is_word t ''OR''" "\<not> is_op t '')''"
      using expr_toks_start [of r imp 1] ExprAND.prems by auto
    have "parse clause MOr ?v = Some (Inr (map_Expr den r, u))"
      using R [of u] ExprAND.prems that by (simp add: parse.simps [of clause "LOr _" u])
    moreover have "parse clause MAnd (?ts @ u) = parse clause (LAnd (map_Expr den l)) ((if imp then [] else [Tok KindIdent ''AND'']) @ ?v)"
      using L [of "(if imp then [] else [Tok KindIdent ''AND'']) @ ?v"] ExprAND.prems t by (auto split: if_splits)
    ultimately show ?thesis
      using t(1) parse_LAnd_implicit [OF t(2,3,5), of "map_Expr den l" "ts @ u"] by (cases imp) (simp_all add: parse_LAnd_word)
  qed
  show ?case
  proof (cases "0 < p")
    case True
    with parse_paren [OF A] show ?thesis by (intro level_raise2) (simp add: Let_def)
  qed (use A in \<open>simp add: level_ok_def Let_def\<close>)
next
  case (ExprOR l r)
  let ?d = "ExprOR (map_Expr den l) (map_Expr den r)"
  let ?ts = "expr_toks imp ctoks 1 l @ [Tok KindIdent ''OR''] @ expr_toks imp ctoks 2 r"
  note L = level_okD(2) [OF ExprOR.IH(1) [of 1]] and R = level_okD(1) [OF ExprOR.IH(2) [of 2]]
  have O: "parse clause MOr (?ts @ u) = parse clause (LOr ?d) u" for u
    using L [of "Tok KindIdent ''OR'' # expr_toks imp ctoks 2 r @ u"] R [of u] ExprOR.prems
    by (auto simp: parse.simps [of clause "LOr (map_Expr den l)" "_ # _"])
  show ?case
  proof (cases "1 < p")
    case True
    with parse_paren [OF level_okD(3) [OF level_raise1 [OF O]]] show ?thesis by (intro level_raise2) (simp add: Let_def)
  next
    case False
    with level_raise1 [OF O, of p] show ?thesis by (simp add: Let_def)
  qed
next
  case (ExprNOT e)
  with level_okD(1) [OF ExprNOT.IH [of 2]] show ?case
    by (intro level_raise2) (simp add: parse.simps [of clause MUnary "_ # _"])
qed

lemma expression_of_tokens:
  assumes "\<forall>c \<in> set_Expr e. ok c"
  shows "ParseExpression clause (expr_toks imp ctoks 0 e @ [Tok KindEOF []]) = Some (Inr (map_Expr den e))"
  using level_okD(3) [OF parse_expr_toks [OF assms, of 0], of "[Tok KindEOF []]"]
  by (simp add: ParseExpression_def parse.simps [of clause "LAnd _" "[_]"])

lemma clauses_loop_tokens:
  assumes "cs \<noteq> []" and "\<forall>c \<in> set cs. ok c"
  shows "clauses_loop clause ps (clause_seq imp ctoks cs @ [Tok KindEOF []]) = Some (Inr (ps @ map den cs))"
  using assms
proof (induction cs arbitrary: ps rule: induct_list012)
  case (2 c)
  then show ?case using clause_ctoks [of c] by (simp add: clauses_loop.simps [of clause ps])
next
  case (3 c d cs)
  let ?rest = "clause_seq imp ctoks (d # cs) @ [Tok KindEOF []]"
  have "ok d" using 3 by simp
  from ctoks_start [OF this] obtain w ts where w: "?rest = Tok KindIdent w # ts" "plain_word w"
    by (cases cs) auto
  then have "\<not> EqualFold w ''AND''" by (simp add: plain_word_def)
  with 3 w(1) clause_ctoks [of c] show ?case
    by (simp add: clauses_loop.simps [of clause ps] Let_def)
qed simp

lemma clauses_of_tokens:
  "cs \<noteq> [] \<Longrightarrow> \<forall>c \<in> set cs. ok c \<Longrightarrow> ParseClauses clause (clause_seq imp ctoks cs @ [Tok KindEOF []]) = Some (Inr (map den cs))"
  by (simp add: ParseClauses_def clauses_loop_tokens)

end

end
