(* ===== verification/Operation_Filter.thy ===== *)
theory Operation_Filter
  imports Aip160
begin

text \<open>
  The filter of long-running operations: \<open>internal/gcp/operationfilter/filter.go\<close>, a surface of the shared
  expression parser. \<open>parseClause\<close> is its clause parser; the interpretations discharge for it what
  \<open>clause_parser\<close> and \<open>clause_syntax\<close> ask. The argument \<open>uni\<close> stands for the Unicode tables of
  \<open>strings.ToLower\<close>.
\<close>

section \<open>Records and clauses\<close>

record Record =
  Name :: string
  Done :: bool
  Fields :: "(string, string) fmap"

type_synonym predicate = "Record \<Rightarrow> bool"

definition FormatBool :: "bool \<Rightarrow> string" where
  "FormatBool b = (if b then ''true'' else ''false'')"

definition recordField :: "Record \<Rightarrow> string \<Rightarrow> string" where
  "recordField r field =
     (if field = ''name'' then Name r else if field = ''done'' then FormatBool (Done r)
      else the_default [] (fmlookup (Fields r) field))"

datatype clause_error =
    ExpectedField Token | UnsupportedField string | ExpectedOperator string Token | ExpectedValue string Token
  | DoneOperator string | DoneStar | DoneValue string | UnsupportedOperator string string | StarOperator string string

text \<open>The comparison the last predicate of \<open>parseClause\<close> makes.\<close>

definition compare_field :: "(string \<Rightarrow> string) \<Rightarrow> string \<Rightarrow> string \<Rightarrow> string \<Rightarrow> bool" where
  "compare_field uni op actual value =
     (if op = ''='' then actual = value
      else if op = ''!='' then actual \<noteq> value
      else if op = '':'' then Contains (ToLower uni actual) (ToLower uni value)
      else if op = ''<'' then actual < value
      else if op = ''<='' then actual \<le> value
      else if op = ''>'' then actual > value
      else actual \<ge> value)"

definition parseClause :: "(string \<Rightarrow> string) \<Rightarrow> string set \<Rightarrow> Token list \<Rightarrow> clause_error + predicate \<times> Token list" where
  "parseClause uni allowed ts =
     (let fieldTok = Peek ts; ts = Advance ts
      in if Kind fieldTok \<noteq> KindIdent then Inl (ExpectedField fieldTok)
         else let field = ToLower uni (Text fieldTok)
           in if field \<notin> allowed then Inl (UnsupportedField (Text fieldTok))
              else let opTok = Peek ts; ts = Advance ts
                in if Kind opTok \<noteq> KindOp then Inl (ExpectedOperator (Text fieldTok) opTok)
                   else let op = Text opTok; valTok = Peek ts; ts = Advance ts; star = (Kind valTok = KindStar)
                     in if \<not> star \<and> TokenValue valTok = None then Inl (ExpectedValue op valTok)
                        else let value = (if star then [] else the (TokenValue valTok))
                          in if field = ''done'' then
                               if op \<noteq> ''='' \<and> op \<noteq> ''!='' then Inl (DoneOperator op)
                               else if star then Inl DoneStar
                               else if \<not> EqualFold value ''true'' \<and> \<not> EqualFold value ''false'' then Inl (DoneValue value)
                               else let want = EqualFold value ''true''
                                 in if op = ''!='' then Inr (\<lambda>r. Done r \<noteq> want, ts) else Inr (\<lambda>r. Done r = want, ts)
                             else if op \<notin> {''='', ''!='', '':'', ''<'', ''<='', ''>'', ''>=''} then
                               Inl (UnsupportedOperator op (Text fieldTok))
                             else if star then
                               if op \<noteq> ''='' \<and> op \<noteq> ''!='' \<and> op \<noteq> '':'' then Inl (StarOperator (Text fieldTok) op)
                               else let wantPresent = (op \<noteq> ''!='')
                                 in Inr (\<lambda>r. (recordField r field \<noteq> []) = wantPresent, ts)
                             else Inr (\<lambda>r. compare_field uni op (recordField r field) value, ts))"

section \<open>Compiling and matching\<close>

record Filter =
  expr :: "predicate Expr option"

datatype filter_error = TokenError token_error | ParseError "clause_error parse_error"

definition Match :: "Filter \<Rightarrow> Record \<Rightarrow> bool" where
  "Match f r = (case expr f of None \<Rightarrow> True | Some e \<Rightarrow> Aip160.Match e (\<lambda>leaf. leaf r))"

definition allowed_fields :: "(string \<Rightarrow> string) \<Rightarrow> string list \<Rightarrow> string set" where
  "allowed_fields uni extraFields = {''name'', ''done''} \<union> set (map (ToLower uni) extraFields)"

definition Compile :: "(string \<Rightarrow> string) \<Rightarrow> string \<Rightarrow> string list \<Rightarrow> (filter_error + Filter) option" where
  "Compile uni e extraFields =
     (if TrimSpace e = [] then Some (Inr \<lparr>expr = None\<rparr>)
      else case Tokenize e of
        Inl err \<Rightarrow> Some (Inl (TokenError err))
      | Inr toks \<Rightarrow>
          (case ParseExpression (parseClause uni (allowed_fields uni extraFields)) toks of
             None \<Rightarrow> None
           | Some (Inl err) \<Rightarrow> Some (Inl (ParseError err))
           | Some (Inr root) \<Rightarrow> Some (Inr \<lparr>expr = Some root\<rparr>)))"

section \<open>The clause parser keeps its contract\<close>

lemma moves_three:
  assumes "Kind (Peek ts) \<noteq> KindEOF" "Kind (Peek (Advance ts)) \<noteq> KindEOF" "Kind (Peek (Advance (Advance ts))) \<noteq> KindEOF"
  shows "moves True ts (Advance (Advance (Advance ts)))"
  using moves_trans [OF moves_trans [OF moves_Advance [OF assms(1)] moves_Advance [OF assms(2)] refl] moves_Advance [OF assms(3)] refl] by simp

lemma TokenValue_not_EOF: "TokenValue t \<noteq> None \<Longrightarrow> Kind t \<noteq> KindEOF"
  by (auto simp: TokenValue_def)

lemma op_clause_moves: "parseClause uni allowed ts = Inr (p, r) \<Longrightarrow> moves True ts r"
proof -
  assume a: "parseClause uni allowed ts = Inr (p, r)"
  then have "Kind (Peek ts) = KindIdent" "Kind (Peek (Advance ts)) = KindOp"
    "Kind (Peek (Advance (Advance ts))) = KindStar \<or> TokenValue (Peek (Advance (Advance ts))) \<noteq> None" "r = Advance (Advance (Advance ts))"
    by (simp_all add: parseClause_def Let_def split: if_splits)
  with moves_three [of ts] TokenValue_not_EOF [of "Peek (Advance (Advance ts))"] show ?thesis by fastforce
qed

interpretation op: clause_parser "parseClause uni allowed" for uni allowed
  by unfold_locales (rule op_clause_moves)

text \<open>
  C37: compiling an operations filter always returns, with a filter or an error; only a blank text gives the
  filter that matches every operation, so that no clause is silently ignored.
\<close>

theorem operation_filter_returns:
  "Compile uni e extra \<noteq> None \<and> (Compile uni e extra = Some (Inr \<lparr>expr = None\<rparr>) \<longleftrightarrow> TrimSpace e = [])"
proof (cases "Tokenize e")
  case (Inr toks)
  from op.expression_returns [of uni "allowed_fields uni extra" toks] obtain res
    where "ParseExpression (parseClause uni (allowed_fields uni extra)) toks = Some res" by blast
  with Inr show ?thesis by (cases res) (auto simp: Compile_def)
qed (auto simp: Compile_def)

section \<open>What a filter means\<close>

text \<open>A clause as written: field, operator and value, where \<open>None\<close> is the wildcard; a quoted value has the flag set.\<close>

record op_clause =
  fld :: string
  opr :: string
  val :: "(bool \<times> string) option"

definition clause_tokens :: "op_clause \<Rightarrow> Token list" where
  "clause_tokens c =
     [Tok KindIdent (fld c), Tok KindOp (opr c),
      case val c of None \<Rightarrow> Tok KindStar ''*'' | Some (q, v) \<Rightarrow> Tok (if q then KindString else KindIdent) v]"

definition clause_holds :: "(string \<Rightarrow> string) \<Rightarrow> op_clause \<Rightarrow> predicate" where
  "clause_holds uni c r =
     (let f = ToLower uni (fld c)
      in case val c of
           None \<Rightarrow> (recordField r f = []) = (opr c = ''!='')
         | Some (_, v) \<Rightarrow>
             if f = ''done'' then (Done r = EqualFold v ''true'') = (opr c = ''='')
             else compare_field uni (opr c) (recordField r f) v)"

definition clause_ok :: "(string \<Rightarrow> string) \<Rightarrow> string set \<Rightarrow> op_clause \<Rightarrow> bool" where
  "clause_ok uni allowed c \<longleftrightarrow>
     plain_word (fld c) \<and> (\<forall>t \<in> set (clause_tokens c). printable t) \<and> ToLower uni (fld c) \<in> allowed \<and>
     (case val c of
        None \<Rightarrow> ToLower uni (fld c) \<noteq> ''done'' \<and> opr c \<in> {''='', ''!='', '':''}
      | Some (_, v) \<Rightarrow>
          if ToLower uni (fld c) = ''done'' then opr c \<in> {''='', ''!=''} \<and> (EqualFold v ''true'' \<or> EqualFold v ''false'')
          else opr c \<in> {''='', ''!='', '':'', ''<'', ''<='', ''>'', ''>=''})"

lemma parseClause_tokens:
  assumes "clause_ok uni allowed c"
  shows "parseClause uni allowed (clause_tokens c @ r) = Inr (clause_holds uni c, r)"
proof (cases "val c")
  case None
  then have "clause_holds uni c = (\<lambda>r. (recordField r (ToLower uni (fld c)) \<noteq> []) = (opr c \<noteq> ''!=''))"
    by (auto simp: clause_holds_def fun_eq_iff)
  with assms None show ?thesis by (auto simp: parseClause_def clause_tokens_def clause_ok_def)
next
  case (Some qv)
  obtain q v where qv: "qv = (q, v)" by (cases qv)
  show ?thesis
  proof (cases "ToLower uni (fld c) = ''done''")
    case True
    have "clause_holds uni c = (if opr c = ''!='' then (\<lambda>r. Done r \<noteq> EqualFold v ''true'') else (\<lambda>r. Done r = EqualFold v ''true''))"
      using assms True Some qv by (auto simp: clause_holds_def clause_ok_def fun_eq_iff)
    with assms Some qv True show ?thesis
      by (auto simp: parseClause_def clause_tokens_def clause_ok_def TokenValue_def Let_def)
  next
    case False
    have "clause_holds uni c = (\<lambda>r. compare_field uni (opr c) (recordField r (ToLower uni (fld c))) v)"
      using Some qv False by (auto simp: clause_holds_def fun_eq_iff)
    moreover from assms Some qv False have "ToLower uni (fld c) \<in> allowed" "opr c \<in> {''='', ''!='', '':'', ''<'', ''<='', ''>'', ''>=''}"
      by (simp_all add: clause_ok_def)
    ultimately show ?thesis using Some qv False
      by (simp add: parseClause_def clause_tokens_def TokenValue_def Let_def)
  qed
qed

interpretation op_syntax: clause_syntax "parseClause uni allowed" clause_tokens "clause_holds uni" "clause_ok uni allowed" for uni allowed
proof (unfold_locales)
  fix c r
  assume ok: "clause_ok uni allowed c"
  then show "parseClause uni allowed (clause_tokens c @ r) = Inr (clause_holds uni c, r)" by (rule parseClause_tokens)
  from ok show "\<exists>w ts. clause_tokens c = Tok KindIdent w # ts \<and> plain_word w" by (simp add: clause_ok_def clause_tokens_def)
qed

lemma printable_expr_toks: "\<forall>c \<in> set_Expr e. clause_ok uni allowed c \<Longrightarrow> \<forall>t \<in> set (expr_toks imp clause_tokens p e). printable t"
proof (induction e arbitrary: p)
  case (Leaf c)
  then show ?case by (simp add: clause_ok_def)
qed (auto simp: Let_def printable_def operators_def isIdentPart_def isIdentStart_def less_eq_char_def split: if_splits)

lemma Match_map_Expr: "Aip160.Match (map_Expr f e) g = Aip160.Match e (\<lambda>c. g (f c))"
  by (induction e) simp_all

text \<open>
  C36: a filter written from any boolean expression over valid clauses with the fewest parentheses, OR
  binding tighter than AND and AND written or implied by white space, compiles, and the compiled filter
  matches exactly the operations on which the expression holds.
\<close>

theorem operation_filter_meaning:
  assumes "\<forall>c \<in> set_Expr e. clause_ok uni (allowed_fields uni extra) c"
  shows "\<exists>f. Compile uni (text_of (expr_toks imp clause_tokens 0 e)) extra = Some (Inr f) \<and>
    Match f r = Aip160.Match e (\<lambda>c. clause_holds uni c r)"
proof -
  let ?ts = "expr_toks imp clause_tokens 0 e"
  have pr: "\<forall>t \<in> set ?ts. printable t" by (rule printable_expr_toks [OF assms])
  from op_syntax.expr_toks_start [OF assms, of imp 0] obtain t ts where t: "?ts = t # ts" by auto
  with pr have "TrimSpace (text_of ?ts) \<noteq> []" by (simp add: text_of_not_blank)
  then have "Compile uni (text_of ?ts) extra = Some (Inr \<lparr>expr = Some (map_Expr (clause_holds uni) e)\<rparr>)"
    by (simp add: Compile_def Tokenize_text_of [OF pr] op_syntax.expression_of_tokens [OF assms])
  then show ?thesis by (simp add: Match_def Match_map_Expr)
qed

definition demo_expr :: "op_clause Expr" where
  "demo_expr = ExprAND (ExprOR (Leaf \<lparr>fld = ''name'', opr = '':'', val = Some (True, ''Op 1'')\<rparr>) (Leaf \<lparr>fld = ''state'', opr = ''='', val = None\<rparr>))
     (ExprNOT (Leaf \<lparr>fld = ''done'', opr = ''='', val = Some (False, ''TRUE'')\<rparr>))"

theorem operation_filter_meaning_witness:
  "\<exists>f. Compile (\<lambda>s. s) (text_of (expr_toks True clause_tokens 0 demo_expr)) [''State''] = Some (Inr f) \<and>
    Match f \<lparr>Name = ''operations/op 1'', Done = False, Fields = fmempty\<rparr>"
proof -
  have ok: "\<forall>c \<in> set_Expr demo_expr. clause_ok (\<lambda>s. s) (allowed_fields (\<lambda>s. s) [''State'']) c" by code_simp
  have "Aip160.Match demo_expr (\<lambda>c. clause_holds (\<lambda>s. s) c \<lparr>Name = ''operations/op 1'', Done = False, Fields = fmempty\<rparr>)" by code_simp
  with operation_filter_meaning [OF ok, of True "\<lparr>Name = ''operations/op 1'', Done = False, Fields = fmempty\<rparr>"] show ?thesis by auto
qed

end
