(* ===== verification/Aip160_Filter.thy ===== *)
theory Aip160_Filter
  imports Aip160
begin

text \<open>
  The generic clause compiler of \<open>internal/gcp/aip160/filter.go\<close>: \<open>Compile\<close> over a surface's field set
  \<open>Fields\<close>, a conjunction of clauses \<open>field op value\<close>. The argument \<open>uni\<close> stands for the Unicode
  tables of \<open>strings.ToLower\<close>. A nil accessor is \<open>None\<close>; the maps of string and time fields are
  finite maps from folded names to accessors.
\<close>

section \<open>Fields\<close>

record 'v Fields =
  NameOf :: "('v \<Rightarrow> string) option"
  LabelsOf :: "('v \<Rightarrow> (string, string) fmap) option"
  StringFields :: "(string, 'v \<Rightarrow> string) fmap"
  TimeFields :: "(string, 'v \<Rightarrow> time) fmap"

type_synonym 'v predicate = "'v \<Rightarrow> bool"

record 'v Filter =
  preds :: "'v predicate list"

text \<open>\<open>Filter.Match\<close>: the loop leaves at the first clause that fails.\<close>

fun match_loop :: "'v predicate list \<Rightarrow> 'v \<Rightarrow> bool" where
  "match_loop [] v = True"
| "match_loop (p # ps) v = (if \<not> p v then False else match_loop ps v)"

definition Match :: "'v Filter \<Rightarrow> 'v \<Rightarrow> bool" where
  "Match f v = match_loop (preds f) v"

definition containsFold :: "(string \<Rightarrow> string) \<Rightarrow> string \<Rightarrow> string \<Rightarrow> bool" where
  "containsFold uni haystack needle = Contains (ToLower uni haystack) (ToLower uni needle)"

text \<open>\<open>foldOrderName\<close> of \<open>order.go\<close>: underscores removed, then lower case.\<close>

definition foldOrderName :: "(string \<Rightarrow> string) \<Rightarrow> string \<Rightarrow> string" where
  "foldOrderName uni s = ToLower uni (filter (\<lambda>c. c \<noteq> CHR ''_'') s)"

definition labelKeyOf :: "string \<Rightarrow> string" where
  "labelKeyOf key =
     (case IndexByte key CHR ''.'' of
        None \<Rightarrow> []
      | Some i \<Rightarrow> if \<not> EqualFold (take i key) ''labels'' then [] else drop (i + 1) key)"

text \<open>\<open>ParseTime\<close> of \<open>order.go\<close>: the first of the layouts that parses.\<close>

definition ParseTime :: "string \<Rightarrow> time option" where
  "ParseTime s =
     (case ParseRFC3339 s of
        Some t \<Rightarrow> Some t
      | None \<Rightarrow> (case ParseRFC3339 s of Some t \<Rightarrow> Some t | None \<Rightarrow> ParseDate s))"

section \<open>Clauses\<close>

datatype clause_error =
    ExpectedField Token | ExpectedOperator string Token | NoNameFilter | EmptyLabelKey string | UnsupportedKey string
  | UnsupportedOperator string string | StarOperator string string | BadValue string Token | BadLabelValue Token
  | LabelsOperator string | LabelsTakesStar Token | BadTime string string

definition parseStringClause ::
  "(string \<Rightarrow> string) \<Rightarrow> string \<Rightarrow> string \<Rightarrow> ('v \<Rightarrow> string) \<Rightarrow> Token list \<Rightarrow> clause_error + 'v predicate \<times> Token list" where
  "parseStringClause uni key op get ts =
     (if op \<noteq> ''='' \<and> op \<noteq> ''!='' \<and> op \<noteq> '':'' then Inl (UnsupportedOperator op key)
      else let valTok = Peek ts; ts = Advance ts
        in if Kind valTok = KindStar then
             (if op = ''='' \<or> op = '':'' then Inr (\<lambda>v. get v \<noteq> [], ts) else Inl (StarOperator key op))
           else case TokenValue valTok of
             None \<Rightarrow> Inl (BadValue key valTok)
           | Some val \<Rightarrow>
               if op = ''='' then Inr (\<lambda>v. get v = val, ts)
               else if op = ''!='' then Inr (\<lambda>v. get v \<noteq> val, ts)
               else Inr (\<lambda>v. containsFold uni (get v) val, ts))"

definition parseLabelClause ::
  "(string \<Rightarrow> string) \<Rightarrow> string \<Rightarrow> string \<Rightarrow> ('v \<Rightarrow> (string, string) fmap) \<Rightarrow> Token list \<Rightarrow> clause_error + 'v predicate \<times> Token list" where
  "parseLabelClause uni op key labels ts =
     (if op \<noteq> ''='' \<and> op \<noteq> ''!='' \<and> op \<noteq> '':'' then Inl (UnsupportedOperator op key)
      else let valTok = Peek ts; ts = Advance ts
        in if Kind valTok = KindStar \<and> op = ''!='' then Inr (\<lambda>v. fmlookup (labels v) key = None, ts)
           else if Kind valTok = KindStar then Inr (\<lambda>v. fmlookup (labels v) key \<noteq> None, ts)
           else case TokenValue valTok of
             None \<Rightarrow> Inl (BadLabelValue valTok)
           | Some val \<Rightarrow>
               if op = ''='' then Inr (\<lambda>v. the_default [] (fmlookup (labels v) key) = val, ts)
               else if op = ''!='' then Inr (\<lambda>v. the_default [] (fmlookup (labels v) key) \<noteq> val, ts)
               else Inr (\<lambda>v. containsFold uni (the_default [] (fmlookup (labels v) key)) val, ts))"

definition parseLabelsExistsClause ::
  "string \<Rightarrow> ('v \<Rightarrow> (string, string) fmap) \<Rightarrow> Token list \<Rightarrow> clause_error + 'v predicate \<times> Token list" where
  "parseLabelsExistsClause op labels ts =
     (if op \<noteq> '':'' \<and> op \<noteq> ''='' then Inl (LabelsOperator op)
      else if Kind (Peek ts) \<noteq> KindStar then Inl (LabelsTakesStar (Peek ts))
      else Inr (\<lambda>v. labels v \<noteq> fmempty, Advance ts))"

definition compare_time :: "string \<Rightarrow> string \<Rightarrow> string \<Rightarrow> bool" where
  "compare_time op got want =
     (if op = ''='' then got = want else if op = ''!='' then got \<noteq> want
      else if op = ''<'' then got < want else if op = ''<='' then got \<le> want
      else if op = ''>'' then got > want else got \<ge> want)"

definition parseTimeClause ::
  "string \<Rightarrow> string \<Rightarrow> ('v \<Rightarrow> time) \<Rightarrow> Token list \<Rightarrow> clause_error + 'v predicate \<times> Token list" where
  "parseTimeClause key op get ts =
     (let valTok = Peek ts; ts = Advance ts
      in if Kind valTok = KindStar then
           (if op = ''='' \<or> op = '':'' then Inr (\<lambda>v. \<not> IsZero (get v), ts) else Inl (StarOperator key op))
         else if op \<notin> {''='', ''!='', ''<'', ''<='', ''>'', ''>=''} then Inl (UnsupportedOperator op key)
         else case TokenValue valTok of
           None \<Rightarrow> Inl (BadValue key valTok)
         | Some val \<Rightarrow>
             (case ParseTime val of
                None \<Rightarrow> Inl (BadTime key val)
              | Some bound \<Rightarrow>
                  let want = FormatTime bound in Inr (\<lambda>v. compare_time op (FormatTime (get v)) want, ts)))"

definition parseClause ::
  "(string \<Rightarrow> string) \<Rightarrow> 'v Fields \<Rightarrow> Token list \<Rightarrow> clause_error + 'v predicate \<times> Token list" where
  "parseClause uni flds ts =
     (let keyTok = Peek ts; ts = Advance ts
      in if Kind keyTok \<noteq> KindIdent then Inl (ExpectedField keyTok)
         else let key = Text keyTok; opTok = Peek ts; ts = Advance ts
           in if Kind opTok \<noteq> KindOp then Inl (ExpectedOperator key opTok)
              else let op = Text opTok; folded = foldOrderName uni key
                in if folded = ''name'' then
                     (case NameOf flds of None \<Rightarrow> Inl NoNameFilter | Some get \<Rightarrow> parseStringClause uni key op get ts)
                   else if HasPrefix folded ''labels.'' \<and> LabelsOf flds \<noteq> None then
                     (let lk = labelKeyOf key
                      in if lk = [] then Inl (EmptyLabelKey key)
                         else parseLabelClause uni op lk (the (LabelsOf flds)) ts)
                   else if folded = ''labels'' \<and> LabelsOf flds \<noteq> None then
                     parseLabelsExistsClause op (the (LabelsOf flds)) ts
                   else case fmlookup (StringFields flds) folded of
                     Some get \<Rightarrow> parseStringClause uni key op get ts
                   | None \<Rightarrow>
                       (case fmlookup (TimeFields flds) folded of
                          Some get \<Rightarrow> parseTimeClause key op get ts
                        | None \<Rightarrow> Inl (UnsupportedKey key)))"

section \<open>Compiling\<close>

datatype filter_error = TokenError token_error | ParseError "clause_error parse_error"

definition Compile :: "(string \<Rightarrow> string) \<Rightarrow> string \<Rightarrow> 'v Fields \<Rightarrow> (filter_error + 'v Filter) option" where
  "Compile uni e flds =
     (if TrimSpace e = [] then Some (Inr \<lparr>preds = []\<rparr>)
      else case Tokenize e of
        Inl err \<Rightarrow> Some (Inl (TokenError err))
      | Inr toks \<Rightarrow>
          (case ParseClauses (parseClause uni flds) toks of
             None \<Rightarrow> None
           | Some (Inl err) \<Rightarrow> Some (Inl (ParseError err))
           | Some (Inr ps) \<Rightarrow> Some (Inr \<lparr>preds = ps\<rparr>)))"

section \<open>The clause parser keeps its contract\<close>

lemma value_clause_moves:
  "parseStringClause uni key op get ts = Inr (p, r) \<Longrightarrow> moves True ts r"
  "parseLabelClause uni op key labels ts = Inr (p, r) \<Longrightarrow> moves True ts r"
  "parseLabelsExistsClause op labels ts = Inr (p, r) \<Longrightarrow> moves True ts r"
  "parseTimeClause key op getTime ts = Inr (p, r) \<Longrightarrow> moves True ts r"
  by (auto simp: parseStringClause_def parseLabelClause_def parseLabelsExistsClause_def parseTimeClause_def TokenValue_def Let_def
      split: if_splits option.splits intro!: moves_Advance)

lemma parseClause_moves: "parseClause uni flds ts = Inr (p, r) \<Longrightarrow> moves True ts r"
proof -
  assume a: "parseClause uni flds ts = Inr (p, r)"
  then have k: "Kind (Peek ts) = KindIdent" "Kind (Peek (Advance ts)) = KindOp"
    by (auto simp: parseClause_def Let_def split: if_splits)
  have "moves True (Advance (Advance ts)) r"
    using a by (auto simp: parseClause_def Let_def split: if_splits option.splits dest: value_clause_moves)
  moreover have "moves True ts (Advance (Advance ts))"
    using k by (intro moves_trans [OF moves_Advance moves_Advance]) simp_all
  ultimately show ?thesis by (metis moves_trans)
qed

interpretation surface: clause_parser "parseClause uni flds" for uni and flds :: "'v Fields"
  by unfold_locales (rule parseClause_moves)

text \<open>
  Compiling a list filter always returns, with a filter or an error, and a filter matches an item exactly
  when each of its clauses does.
\<close>

theorem list_filter_returns:
  "Compile uni e flds \<noteq> None \<and> Match f v = (\<forall>p \<in> set (preds f). p v)"
proof
  show "Compile uni e flds \<noteq> None"
  proof (cases "Tokenize e")
    case (Inr toks)
    from surface.clauses_return [of uni flds toks] obtain res where "ParseClauses (parseClause uni flds) toks = Some res" by blast
    with Inr show ?thesis by (cases res) (auto simp: Compile_def)
  qed (simp add: Compile_def)
  have "match_loop ps v = (\<forall>p \<in> set ps. p v)" for ps :: "'b predicate list" and v by (induction ps) auto
  then show "Match f v = (\<forall>p \<in> set (preds f). p v)" by (simp add: Match_def)
qed

section \<open>Filters on times\<close>

record time_clause =
  tc_key :: string
  tc_op :: string
  tc_time :: time

definition time_tokens :: "time_clause \<Rightarrow> Token list" where
  "time_tokens c = [Tok KindIdent (tc_key c), Tok KindOp (tc_op c), Tok KindString (FormatTime (tc_time c))]"

definition get_time :: "(string \<Rightarrow> string) \<Rightarrow> 'v Fields \<Rightarrow> time_clause \<Rightarrow> 'v \<Rightarrow> time" where
  "get_time uni flds c = the (fmlookup (TimeFields flds) (foldOrderName uni (tc_key c)))"

definition time_ok :: "(string \<Rightarrow> string) \<Rightarrow> 'v Fields \<Rightarrow> time_clause \<Rightarrow> bool" where
  "time_ok uni flds c \<longleftrightarrow>
     plain_word (tc_key c) \<and> printable (Tok KindIdent (tc_key c)) \<and>
     tc_op c \<in> {''='', ''!='', ''<'', ''<='', ''>'', ''>=''} \<and> year_4 (tc_time c) \<and>
     (let f = foldOrderName uni (tc_key c)
      in f \<noteq> ''name'' \<and> f \<noteq> ''labels'' \<and> \<not> HasPrefix f ''labels.'' \<and>
         fmlookup (StringFields flds) f = None \<and> fmlookup (TimeFields flds) f \<noteq> None)"

definition time_pred :: "(string \<Rightarrow> string) \<Rightarrow> 'v Fields \<Rightarrow> time_clause \<Rightarrow> 'v predicate" where
  "time_pred uni flds c v = compare_time (tc_op c) (FormatTime (get_time uni flds c v)) (FormatTime (tc_time c))"

text \<open>The chronological comparison an operator stands for.\<close>

definition time_holds :: "(string \<Rightarrow> string) \<Rightarrow> 'v Fields \<Rightarrow> 'v \<Rightarrow> time_clause \<Rightarrow> bool" where
  "time_holds uni flds v c =
     (let t = get_time uni flds c v; u = tc_time c
      in if tc_op c = ''='' then t = u else if tc_op c = ''!='' then t \<noteq> u
         else if tc_op c = ''<'' then t < u else if tc_op c = ''<='' then t \<le> u
         else if tc_op c = ''>'' then t > u else t \<ge> u)"

lemma ParseTime_FormatTime: "year_4 t \<Longrightarrow> ParseTime (FormatTime t) = Some t"
  by (simp add: ParseTime_def ParseRFC3339_FormatTime)

lemma time_pred_holds: "year_4 (tc_time c) \<Longrightarrow> year_4 (get_time uni flds c v) \<Longrightarrow> time_pred uni flds c v = time_holds uni flds v c"
  by (simp add: time_pred_def time_holds_def compare_time_def FormatTime_less FormatTime_eq Let_def not_less [symmetric] del: not_less)

interpretation time_syntax: clause_syntax "parseClause uni flds" time_tokens "time_pred uni flds" "time_ok uni flds"
  for uni and flds :: "'v Fields"
proof (unfold_locales)
  fix c r
  assume ok: "time_ok uni flds c"
  then obtain get where get: "fmlookup (TimeFields flds) (foldOrderName uni (tc_key c)) = Some get" by (auto simp: time_ok_def Let_def)
  have "time_pred uni flds c = (\<lambda>v. compare_time (tc_op c) (FormatTime (get v)) (FormatTime (tc_time c)))"
    by (simp add: time_pred_def get_time_def get fun_eq_iff)
  with ok get show "parseClause uni flds (time_tokens c @ r) = Inr (time_pred uni flds c, r)"
    by (auto simp: parseClause_def time_tokens_def time_ok_def parseTimeClause_def TokenValue_def ParseTime_FormatTime Let_def)
  from ok show "\<exists>w ts. time_tokens c = Tok KindIdent w # ts \<and> plain_word w" by (simp add: time_ok_def time_tokens_def)
qed

text \<open>
  a filter that is a sequence of comparisons of time fields with timestamps of the years 0 to 9999,
  joined by AND or by white space, compiles, and matches an item exactly when every comparison holds of the
  instants themselves, although the code compares their fixed-width texts.
\<close>

theorem time_filter_chronological:
  assumes "cs \<noteq> []" and "\<forall>c \<in> set cs. time_ok uni flds c" and "\<forall>c \<in> set cs. year_4 (get_time uni flds c v)"
  shows "\<exists>f. Compile uni (text_of (clause_seq imp time_tokens cs)) flds = Some (Inr f) \<and>
    Match f v = (\<forall>c \<in> set cs. time_holds uni flds v c)"
proof -
  let ?ts = "clause_seq imp time_tokens cs"
  have pr: "\<forall>t \<in> set ?ts. printable t" using assms(2)
    by (induction imp time_tokens cs rule: clause_seq.induct) (auto simp: time_tokens_def time_ok_def printable_def operators_def
        isIdentPart_def isIdentStart_def less_eq_char_def)
  obtain t ts where t: "?ts = t # ts" using assms(1) by (cases "(imp, time_tokens, cs)" rule: clause_seq.cases) (auto simp: time_tokens_def)
  with pr have "TrimSpace (text_of ?ts) \<noteq> []" by (simp add: text_of_not_blank)
  then have "Compile uni (text_of ?ts) flds = Some (Inr \<lparr>preds = map (time_pred uni flds) cs\<rparr>)"
    by (simp add: Compile_def Tokenize_text_of [OF pr] time_syntax.clauses_of_tokens [OF assms(1,2)])
  moreover have "match_loop (map (time_pred uni flds) cs) v = (\<forall>c \<in> set cs. time_pred uni flds c v)" by (induction cs) auto
  moreover have "(\<forall>c \<in> set cs. time_pred uni flds c v) = (\<forall>c \<in> set cs. time_holds uni flds v c)"
    using assms(2,3) by (auto simp: time_pred_holds time_ok_def Let_def)
  ultimately show ?thesis by (simp add: Match_def)
qed

definition demo_flds :: "time Fields" where
  "demo_flds = \<lparr>NameOf = None, LabelsOf = None, StringFields = fmempty, TimeFields = fmap_of_list [(''createtime'', \<lambda>t. t)]\<rparr>"

definition demo_range :: "time_clause list" where
  "demo_range = [\<lparr>tc_key = ''create_time'', tc_op = ''>='', tc_time = 63000000000 * Second\<rparr>,
     \<lparr>tc_key = ''createTime'', tc_op = ''<'', tc_time = 64000000000 * Second\<rparr>]"

theorem time_filter_chronological_witness:
  "\<exists>f. Compile (\<lambda>s. s) (text_of (clause_seq True time_tokens demo_range)) demo_flds = Some (Inr f) \<and> Match f (63500000000 * Second)"
proof -
  have ok: "\<forall>c \<in> set demo_range. time_ok (\<lambda>s. s) demo_flds c" by code_simp
  have y: "\<forall>c \<in> set demo_range. year_4 (get_time (\<lambda>s. s) demo_flds c (63500000000 * Second))" by code_simp
  have "\<forall>c \<in> set demo_range. time_holds (\<lambda>s. s) demo_flds (63500000000 * Second) c" by code_simp
  with time_filter_chronological [OF _ ok y, of True] show ?thesis by (auto simp: demo_range_def)
qed

end
