(* ===== verification/Aip160_Order.thy ===== *)
theory Aip160_Order
  imports Aip160_Filter "HOL-Library.Multiset"
begin

text \<open>
  List orders: \<open>internal/gcp/aip160/order.go\<close>. An order is a list of keys, each ascending or descending,
  and a final tie key; \<open>Cursor\<close> writes an item's position and \<open>AfterCursor\<close> compares an item with a
  position. \<open>Sort\<close> is a stable sort; since \<open>less\<close> is a strict weak order, a stable sort has one result,
  which \<open>SliceStable\<close> computes by insertion.
\<close>

section \<open>Order specifications\<close>

record 'v OrderField =
  field_name :: string
  field_value :: "'v \<Rightarrow> string"

record 'v OrderSpec =
  spec_fields :: "(string, 'v OrderField) fmap"
  spec_tie :: "'v \<Rightarrow> string"

definition NewOrderSpec :: "(string \<Rightarrow> string) \<Rightarrow> ('v \<Rightarrow> string) \<Rightarrow> 'v OrderField list \<Rightarrow> 'v OrderSpec" where
  "NewOrderSpec uni t flds =
     \<lparr>spec_fields = fold (\<lambda>f m. fmupd (foldOrderName uni (field_name f)) f m) flds fmempty, spec_tie = t\<rparr>"

definition Tie :: "'v OrderSpec \<Rightarrow> 'v \<Rightarrow> string" where
  "Tie s item = spec_tie s item"

record 'v OrderKey =
  key_name :: string
  desc :: bool
  key_value :: "'v \<Rightarrow> string"

record 'v Order =
  keys :: "'v OrderKey list"
  tie :: "'v \<Rightarrow> string"

datatype order_error = EmptyField | UnsupportedField string | UnsupportedDirection string

text \<open>One comma-separated part of an \<open>orderBy\<close>.\<close>

definition parse_part :: "(string \<Rightarrow> string) \<Rightarrow> 'v OrderSpec \<Rightarrow> string \<Rightarrow> order_error + 'v OrderKey" where
  "parse_part uni s raw =
     (let part = TrimSpace raw
      in if part = [] then Inl EmptyField
         else let pieces = Fields part
           in case fmlookup (spec_fields s) (foldOrderName uni (hd pieces)) of
                None \<Rightarrow> Inl (UnsupportedField (hd pieces))
              | Some field \<Rightarrow>
                  let key = \<lparr>key_name = field_name field, desc = False, key_value = field_value field\<rparr>
                  in if length pieces = 1 then Inr key
                     else if length pieces = 2 \<and> EqualFold (pieces ! 1) ''desc'' then Inr (key\<lparr>desc := True\<rparr>)
                     else if length pieces = 2 \<and> EqualFold (pieces ! 1) ''asc'' then Inr key
                     else Inl (UnsupportedDirection part))"

fun parse_parts :: "(string \<Rightarrow> string) \<Rightarrow> 'v OrderSpec \<Rightarrow> string list \<Rightarrow> order_error + 'v OrderKey list" where
  "parse_parts uni s [] = Inr []"
| "parse_parts uni s (raw # raws) =
     (case parse_part uni s raw of
        Inl e \<Rightarrow> Inl e
      | Inr k \<Rightarrow> (case parse_parts uni s raws of Inl e \<Rightarrow> Inl e | Inr ks \<Rightarrow> Inr (k # ks)))"

definition Parse :: "(string \<Rightarrow> string) \<Rightarrow> 'v OrderSpec \<Rightarrow> string \<Rightarrow> order_error + 'v Order" where
  "Parse uni s orderBy =
     (let orderBy = TrimSpace orderBy
      in if orderBy = [] then Inr \<lparr>keys = [], tie = spec_tie s\<rparr>
         else case parse_parts uni s (Split orderBy CHR '','') of
           Inl e \<Rightarrow> Inl e
         | Inr ks \<Rightarrow> Inr \<lparr>keys = ks, tie = spec_tie s\<rparr>)"

section \<open>Comparing and sorting\<close>

fun less_keys :: "'v OrderKey list \<Rightarrow> ('v \<Rightarrow> string) \<Rightarrow> 'v \<Rightarrow> 'v \<Rightarrow> bool" where
  "less_keys [] t a b = (t a < t b)"
| "less_keys (k # ks) t a b =
     (let av = key_value k a; bv = key_value k b
      in if av = bv then less_keys ks t a b else if desc k then av > bv else av < bv)"

definition less :: "'v Order \<Rightarrow> 'v \<Rightarrow> 'v \<Rightarrow> bool" where
  "less ord a b = less_keys (keys ord) (tie ord) a b"

primrec insert_stable :: "('v \<Rightarrow> 'v \<Rightarrow> bool) \<Rightarrow> 'v \<Rightarrow> 'v list \<Rightarrow> 'v list" where
  "insert_stable lt x [] = [x]"
| "insert_stable lt x (y # ys) = (if lt y x then y # insert_stable lt x ys else x # y # ys)"

definition SliceStable :: "('v \<Rightarrow> 'v \<Rightarrow> bool) \<Rightarrow> 'v list \<Rightarrow> 'v list" where
  "SliceStable lt xs = foldr (insert_stable lt) xs []"

definition Sort :: "'v Order \<Rightarrow> 'v list \<Rightarrow> 'v list" where
  "Sort ord items = SliceStable (less ord) items"

section \<open>Cursors\<close>

definition Cursor :: "'v Order \<Rightarrow> 'v \<Rightarrow> string" where
  "Cursor ord item =
     (if keys ord = [] then tie ord item
      else Join (map (\<lambda>k. EncodeToString (key_value k item)) (keys ord) @ [EncodeToString (tie ord item)]) ''.'')"

fun after_parts :: "'v OrderKey list \<Rightarrow> ('v \<Rightarrow> string) \<Rightarrow> 'v \<Rightarrow> string list \<Rightarrow> bool" where
  "after_parts [] t item parts =
     (case DecodeString (hd parts) of None \<Rightarrow> True | Some raw \<Rightarrow> t item > raw)"
| "after_parts (k # ks) t item parts =
     (case DecodeString (hd parts) of
        None \<Rightarrow> True
      | Some raw \<Rightarrow>
          let v = key_value k item
          in if v = raw then after_parts ks t item (tl parts) else if desc k then v < raw else v > raw)"

definition AfterCursor :: "'v Order \<Rightarrow> 'v \<Rightarrow> string \<Rightarrow> bool" where
  "AfterCursor ord item token =
     (if keys ord = [] then tie ord item > token
      else let parts = Split token CHR ''.''
        in if length parts \<noteq> length (keys ord) + 1 then True
           else after_parts (keys ord) (tie ord) item parts)"

section \<open>The order and its cursors agree\<close>

lemma less_keys_irrefl: "\<not> less_keys ks t a a"
  by (induction ks) (auto simp: Let_def)

lemma less_keys_trans: "less_keys ks t a b \<Longrightarrow> less_keys ks t b c \<Longrightarrow> less_keys ks t a c"
  by (induction ks) (auto simp: Let_def split: if_splits)

lemma less_keys_total: "t a \<noteq> t b \<Longrightarrow> less_keys ks t a b \<or> less_keys ks t b a"
  by (induction ks) (auto simp: Let_def)

lemma not_less_trans: "\<not> less_keys ks t a b \<Longrightarrow> \<not> less_keys ks t b c \<Longrightarrow> \<not> less_keys ks t a c"
  by (induction ks) (auto simp: Let_def split: if_splits)

lemma dot_not_encoded: "CHR ''.'' \<notin> set (EncodeToString s)"
proof
  assume "CHR ''.'' \<in> set (EncodeToString s)"
  then obtain n where n: "n \<in> set (enc_bytes (map of_char s))" "CHR ''.'' = url_char n" by (auto simp: EncodeToString_def)
  have "n < 64" using enc_bytes_bound [of "map of_char s"] n(1) by (simp add: of_char_bound)
  from url_val_url_char [OF this] n(2) have "url_val (CHR ''.'') = Some n" by simp
  then show False by (simp add: url_val_def)
qed

lemma after_parts_encoded:
  "after_parts ks t y (map (\<lambda>k. EncodeToString (key_value k x)) ks @ [EncodeToString (t x)]) \<longleftrightarrow> less_keys ks t x y"
  by (induction ks) (auto simp: Let_def)

lemma cursor_position: "AfterCursor ord y (Cursor ord x) \<longleftrightarrow> less ord x y"
proof (cases "keys ord = []")
  case False
  let ?ps = "map (\<lambda>k. EncodeToString (key_value k x)) (keys ord) @ [EncodeToString (tie ord x)]"
  have "Split (Join ?ps [CHR ''.'']) CHR ''.'' = ?ps" by (rule Split_Join) (auto simp: dot_not_encoded)
  with False show ?thesis by (simp add: AfterCursor_def Cursor_def less_def after_parts_encoded Let_def)
qed (simp add: AfterCursor_def Cursor_def less_def)

lemma mset_insert_stable [simp]: "mset (insert_stable lt x ys) = add_mset x (mset ys)"
  by (induction ys) auto

lemma set_insert_stable [simp]: "set (insert_stable lt x ys) = insert x (set ys)"
  by (induction ys) auto

lemma mset_SliceStable [simp]: "mset (SliceStable lt xs) = mset xs"
  by (induction xs) (simp_all add: SliceStable_def)

lemma sorted_insert_stable:
  assumes "\<And>a b c. \<not> lt a b \<Longrightarrow> \<not> lt b c \<Longrightarrow> \<not> lt a c" and "\<And>a b. lt a b \<Longrightarrow> \<not> lt b a"
  shows "sorted_wrt (\<lambda>a b. \<not> lt b a) ys \<Longrightarrow> sorted_wrt (\<lambda>a b. \<not> lt b a) (insert_stable lt x ys)"
  by (induction ys) (auto dest: assms)

lemma sorted_SliceStable:
  assumes "\<And>a b c. \<not> lt a b \<Longrightarrow> \<not> lt b c \<Longrightarrow> \<not> lt a c" and "\<And>a b. lt a b \<Longrightarrow> \<not> lt b a"
  shows "sorted_wrt (\<lambda>a b. \<not> lt b a) (SliceStable lt xs)"
  by (induction xs) (simp_all add: SliceStable_def sorted_insert_stable [OF assms])

lemma less_asym: "less ord a b \<Longrightarrow> \<not> less ord b a"
  using less_keys_trans [of "keys ord" "tie ord" a b a] less_keys_irrefl [of "keys ord" "tie ord" a] by (auto simp: less_def)

lemma strict_of_distinct:
  "sorted_wrt (\<lambda>a b. \<not> less ord b a) xs \<Longrightarrow> distinct (map (tie ord) xs) \<Longrightarrow> sorted_wrt (less ord) xs"
proof (induction xs)
  case (Cons x xs)
  have "less ord x y" if y: "y \<in> set xs" for y
  proof -
    from Cons.prems y have "tie ord x \<noteq> tie ord y" "\<not> less ord y x" by (auto simp: image_iff)
    with less_keys_total [of "tie ord" x y "keys ord"] show ?thesis by (auto simp: less_def)
  qed
  with Cons show ?case by simp
qed simp

text \<open>With distinct tie keys the sorted list is strictly ascending in the order.\<close>

lemma Sort_strict:
  assumes "distinct (map (tie ord) items)"
  shows "sorted_wrt (less ord) (Sort ord items)"
proof (rule strict_of_distinct)
  show "sorted_wrt (\<lambda>a b. \<not> less ord b a) (Sort ord items)"
    unfolding Sort_def
  proof (rule sorted_SliceStable)
    show "\<not> less ord a c" if "\<not> less ord a b" "\<not> less ord b c" for a b c
      using that by (auto simp: less_def dest: not_less_trans)
  qed (rule less_asym)
  show "distinct (map (tie ord) (Sort ord items))"
    using assms by (metis Sort_def mset_SliceStable mset_eq_imp_distinct_iff mset_map)
qed

definition demo_order :: "(string \<times> string) Order" where
  "demo_order = \<lparr>keys = [\<lparr>key_name = ''a'', desc = True, key_value = fst\<rparr>], tie = snd\<rparr>"

end
