(* ===== verification/Page_Contract.thy ===== *)
theory Page_Contract
  imports Go_Prelude
begin

text \<open>
  What cursor pagination relies on: every item has a cursor, and an item is past another item's cursor
  exactly when it comes strictly later in the listing's order. Then the items past the cursor of an item
  are the rest of the listing.
\<close>

locale cursor_order =
  fixes lt :: "'v \<Rightarrow> 'v \<Rightarrow> bool" and cursor :: "'v \<Rightarrow> string" and past :: "'v \<Rightarrow> string \<Rightarrow> bool"
  assumes past_cursor: "past y (cursor x) \<longleftrightarrow> lt x y"
    and lt_asym: "lt x y \<Longrightarrow> \<not> lt y x"
begin

lemma lt_irrefl: "\<not> lt x x"
  using lt_asym by blast

lemma resume_after:
  assumes "sorted_wrt lt (us @ x # vs)"
  shows "takeWhile (\<lambda>y. \<not> past y (cursor x)) (us @ x # vs) = us @ [x]"
proof -
  from assms have "\<not> lt x y" if "y \<in> set (us @ [x])" for y
    using that lt_asym lt_irrefl by (auto simp: sorted_wrt_append)
  then have "takeWhile (\<lambda>y. \<not> past y (cursor x)) ((us @ [x]) @ vs) = (us @ [x]) @ takeWhile (\<lambda>y. \<not> past y (cursor x)) vs"
    by (subst takeWhile_append2) (auto simp: past_cursor)
  moreover have "takeWhile (\<lambda>y. \<not> past y (cursor x)) vs = []"
    using assms by (cases vs) (auto simp: past_cursor sorted_wrt_append)
  ultimately show ?thesis by simp
qed

text \<open>Strictly sorted items have distinct cursors.\<close>

lemma cursor_inj: "sorted_wrt lt xs \<Longrightarrow> distinct (map cursor xs)"
proof (induction xs)
  case (Cons x xs)
  have "cursor x \<noteq> cursor y" if "y \<in> set xs" for y
  proof
    assume eq: "cursor x = cursor y"
    from that Cons.prems have "past y (cursor x)" by (simp add: past_cursor)
    with eq have "lt y y" by (simp add: past_cursor)
    with lt_irrefl show False by blast
  qed
  with Cons show ?case by auto
qed simp

end

end
