(* ===== verification/Paging.thy ===== *)
theory Paging
  imports Go_Base64 Page_Contract Complex_Main "HOL-Library.Multiset"
begin

text \<open>
  Cursor pagination: \<open>internal/gcp/paging/paging.go\<close>.

  \<^item> A request parameter is a value of type \<open>any\<close>, the dynamic types the code distinguishes. A float is
    not-a-number, an infinity or a rational; an error value carries the data its text is built from.
  \<^item> \<open>Page\<close> sorts with \<open>sort.Slice\<close>, which leaves the order of equal keys open: the sort is the argument
    \<open>srt\<close>, and \<open>sorts_by\<close> states what is known of it.
  \<^item> \<open>Follow\<close> takes the caller's \<open>fetch\<close> closure as a function on the closure's state, and the
    errors of the context as a function of the page number.
\<close>

section \<open>Parameters\<close>

datatype float64 = NaN | PosInf | NegInf | Finite rat

datatype any = VNil | VString string | VInt int | VInt32 int | VInt64 int | VFloat float64 | VNumber string | VOther

datatype paging_error =
    InvalidBoundSize (bound_kind: string) (bound_name: string) (bound_value: any)
  | NegativePageSize
  | RangeBoundSize string any

definition MinInt32 :: int where "MinInt32 = - (2 ^ 31)"
definition MaxInt32 :: int where "MaxInt32 = 2 ^ 31 - 1"
definition MaxUint32 :: int where "MaxUint32 = 2 ^ 32 - 1"

definition defaultPageSize :: int where "defaultPageSize = 1000"

text \<open>\<open>strconv.ParseInt(s, 10, 32)\<close> and \<open>strconv.ParseUint(s, 10, 32)\<close>.\<close>

definition ParseInt32 :: "string \<Rightarrow> int option" where
  "ParseInt32 s = (case parse_int s of None \<Rightarrow> None | Some n \<Rightarrow> if n < MinInt32 \<or> n > MaxInt32 then None else Some n)"

definition ParseUint32 :: "string \<Rightarrow> int option" where
  "ParseUint32 s = (case parse_nat s of None \<Rightarrow> None | Some n \<Rightarrow> if int n > MaxUint32 then None else Some (int n))"

text \<open>The camel-case parameter name as the proto field: the names are ASCII.\<close>

fun proto_loop :: "nat \<Rightarrow> string \<Rightarrow> string" where
  "proto_loop i [] = []"
| "proto_loop i (r # rs) =
     (if CHR ''A'' \<le> r \<and> r \<le> CHR ''Z''
      then (if 0 < i then ''_'' else []) @ [char_of (of_char r - 65 + 97 :: nat)] @ proto_loop (i + 1) rs
      else r # proto_loop (i + 1) rs)"

definition protoFieldName :: "string \<Rightarrow> string" where
  "protoFieldName name = proto_loop 0 name"

definition invalidBoundSize :: "string \<Rightarrow> string \<Rightarrow> any \<Rightarrow> paging_error" where
  "invalidBoundSize knd name v = InvalidBoundSize knd (protoFieldName name) v"

definition check_bound :: "string \<Rightarrow> string \<Rightarrow> any \<Rightarrow> int \<Rightarrow> int \<Rightarrow> int \<Rightarrow> paging_error + int" where
  "check_bound knd name v mn mx n = (if n < mn \<or> n > mx then Inl (invalidBoundSize knd name v) else Inr n)"

definition parseBoundSize :: "any \<Rightarrow> string \<Rightarrow> bool \<Rightarrow> paging_error + int" where
  "parseBoundSize v name sgnd =
     (let mn = (if sgnd then MinInt32 else 0); mx = (if sgnd then MaxInt32 else MaxUint32);
          knd = (if sgnd then ''int32'' else ''uint32'');
          check = check_bound knd name v mn mx; invalid = Inl (invalidBoundSize knd name v)
      in case v of
           VNil \<Rightarrow> Inr 0
         | VString x \<Rightarrow>
             if sgnd then (case ParseInt32 x of None \<Rightarrow> invalid | Some n \<Rightarrow> check n)
             else (case ParseUint32 x of None \<Rightarrow> invalid | Some n \<Rightarrow> check n)
         | VInt x \<Rightarrow> check x
         | VInt32 x \<Rightarrow> check x
         | VInt64 x \<Rightarrow> check x
         | VFloat x \<Rightarrow>
             (case x of
                Finite q \<Rightarrow>
                  if q \<noteq> of_int \<lfloor>q\<rfloor> \<or> q < of_int mn \<or> q > of_int mx then invalid else check \<lfloor>q\<rfloor>
              | _ \<Rightarrow> invalid)
         | VNumber x \<Rightarrow>
             if sgnd then (case ParseInt32 x of None \<Rightarrow> invalid | Some n \<Rightarrow> check n)
             else (case ParseUint32 x of None \<Rightarrow> invalid | Some n \<Rightarrow> check n)
         | VOther \<Rightarrow> invalid)"

definition ParseSizeNamed :: "any \<Rightarrow> string \<Rightarrow> paging_error + int" where
  "ParseSizeNamed v name = parseBoundSize v name True"

definition ParseSize :: "any \<Rightarrow> paging_error + int" where
  "ParseSize v = ParseSizeNamed v ''pageSize''"

definition ParseUintSizeNamed :: "any \<Rightarrow> string \<Rightarrow> paging_error + int" where
  "ParseUintSizeNamed v name = parseBoundSize v name False"

definition normalizePageSize :: "int \<Rightarrow> paging_error + int" where
  "normalizePageSize n = (if n < 0 then Inl NegativePageSize else if n = 0 then Inr defaultPageSize else Inr n)"

definition Size :: "int \<Rightarrow> int \<Rightarrow> paging_error + int" where
  "Size n mx =
     (let mx = (if mx < 1 then 1 else mx)
      in if n < 0 then Inl NegativePageSize else if n = 0 \<or> n > mx then Inr mx else Inr n)"

definition SizeFrom :: "any \<Rightarrow> int \<Rightarrow> paging_error + int" where
  "SizeFrom v mx = (case ParseSize v of Inl e \<Rightarrow> Inl e | Inr n \<Rightarrow> Size n mx)"

type_synonym params = "(string, any) fmap"

text \<open>Reading an absent key of the map gives nil.\<close>

definition PageSize :: "params \<Rightarrow> paging_error + int" where
  "PageSize params =
     (case ParseSize (the_default VNil (fmlookup params ''pageSize'')) of Inl e \<Rightarrow> Inl e | Inr n \<Rightarrow> normalizePageSize n)"

section \<open>Legacy maxResults\<close>

record MaxResultsBinding =
  BSize :: int
  Param :: string
  Raw :: any

definition zero_binding :: MaxResultsBinding where
  "zero_binding = \<lparr>BSize = 0, Param = [], Raw = VNil\<rparr>"

fun BindMaxResults :: "params \<Rightarrow> string list \<Rightarrow> paging_error + MaxResultsBinding" where
  "BindMaxResults params [] = Inr zero_binding"
| "BindMaxResults params (k # ks) =
     (case fmlookup params k of
        None \<Rightarrow> BindMaxResults params ks
      | Some v \<Rightarrow>
          if v = VNil then BindMaxResults params ks
          else case ParseSizeNamed v k of
            Inl e \<Rightarrow> Inl e
          | Inr n \<Rightarrow> Inr \<lparr>BSize = n, Param = k, Raw = v\<rparr>)"

definition Resolve :: "MaxResultsBinding \<Rightarrow> int \<Rightarrow> int \<Rightarrow> int \<Rightarrow> paging_error + int" where
  "Resolve b def lo hi =
     (if Param b = [] then Inr def
      else if BSize b < lo \<or> BSize b > hi then Inl (RangeBoundSize (Param b) (Raw b))
      else Inr (BSize b))"

fun maxResultsParam ::
  "params \<Rightarrow> string list \<Rightarrow> int \<Rightarrow> (any \<Rightarrow> string \<Rightarrow> paging_error + int) \<Rightarrow> paging_error + int" where
  "maxResultsParam params [] def prs = Inr def"
| "maxResultsParam params (k # ks) def prs =
     (case fmlookup params k of
        None \<Rightarrow> maxResultsParam params ks def prs
      | Some v \<Rightarrow>
          (case prs v k of
             Inl e \<Rightarrow> Inl e
           | Inr n \<Rightarrow> if n > 0 then Inr n else maxResultsParam params ks def prs))"

definition MaxResultsUint32 :: "params \<Rightarrow> string list \<Rightarrow> int \<Rightarrow> paging_error + int" where
  "MaxResultsUint32 params ks def = maxResultsParam params ks def ParseUintSizeNamed"

section \<open>Pages\<close>

definition encodeCursor :: "string \<Rightarrow> string" where
  "encodeCursor i = EncodeToString i"

definition decodeCursor :: "string \<Rightarrow> string" where
  "decodeCursor token = (case DecodeString token of None \<Rightarrow> [] | Some b \<Rightarrow> b)"

text \<open>\<open>params["pageToken"].(string)\<close>, the empty string for any other type.\<close>

definition page_token :: "params \<Rightarrow> string" where
  "page_token params = (case fmlookup params ''pageToken'' of Some (VString s) \<Rightarrow> s | _ \<Rightarrow> [])"

text \<open>The first index whose item is past the cursor.\<close>

definition start_index :: "('v \<Rightarrow> string \<Rightarrow> bool) \<Rightarrow> 'v list \<Rightarrow> params \<Rightarrow> nat" where
  "start_index past items params =
     (let tok = page_token params
      in if tok = [] then 0
         else let cur = decodeCursor tok
           in if cur = [] then 0 else length (takeWhile (\<lambda>x. \<not> past x cur) items))"

definition slice_page :: "('v \<Rightarrow> string) \<Rightarrow> 'v list \<Rightarrow> nat \<Rightarrow> int \<Rightarrow> 'v list \<times> string" where
  "slice_page cursor items start sz =
     (let end_ix = (if int start + sz > int (length items) then length items else nat (int start + sz));
          page = take (end_ix - start) (drop start items)
      in (page, if end_ix < length items then encodeCursor (cursor (items ! (end_ix - 1))) else []))"

definition Page :: "('v list \<Rightarrow> 'v list) \<Rightarrow> 'v list \<Rightarrow> ('v \<Rightarrow> string) \<Rightarrow> params \<Rightarrow> paging_error + 'v list \<times> string" where
  "Page srt items key params =
     (case PageSize params of
        Inl e \<Rightarrow> Inl e
      | Inr sz \<Rightarrow>
          let items = srt items
          in Inr (slice_page key items (start_index (\<lambda>x cur. \<not> key x \<le> cur) items params) sz))"

definition PageOrdered ::
  "'v list \<Rightarrow> params \<Rightarrow> ('v \<Rightarrow> string) \<Rightarrow> ('v \<Rightarrow> string \<Rightarrow> bool) \<Rightarrow> paging_error + 'v list \<times> string" where
  "PageOrdered items params cursor afterCursor =
     (case PageSize params of
        Inl e \<Rightarrow> Inl e
      | Inr sz \<Rightarrow> Inr (slice_page cursor items (start_index afterCursor items params) sz))"

section \<open>Following pages\<close>

definition MaxPages :: nat where "MaxPages = 10000"

datatype 'e follow_error = CtxErr 'e | FetchErr 'e | ErrPageLoop

function follow_loop ::
  "(nat \<Rightarrow> 'e option) \<Rightarrow> (string \<Rightarrow> 's \<Rightarrow> ('e + string) \<times> 's) \<Rightarrow> nat \<Rightarrow> string fset \<Rightarrow> string \<Rightarrow> 's \<Rightarrow> ('e follow_error + unit) \<times> 's"
where
  "follow_loop ctx fetch page seen token st =
     (case ctx page of
        Some e \<Rightarrow> (Inl (CtxErr e), st)
      | None \<Rightarrow>
          if MaxPages \<le> page then (Inl ErrPageLoop, st)
          else case fetch token st of
            (Inl e, st) \<Rightarrow> (Inl (FetchErr e), st)
          | (Inr nxt, st) \<Rightarrow>
              if nxt = [] then (Inr (), st)
              else if nxt |\<in>| seen then (Inl ErrPageLoop, st)
              else follow_loop ctx fetch (page + 1) (finsert nxt seen) nxt st)"
  by pat_completeness auto
termination by (relation "measure (\<lambda>(ctx, fetch, page, seen, token, st). MaxPages - page)") auto

declare follow_loop.simps [simp del]

definition Follow ::
  "(nat \<Rightarrow> 'e option) \<Rightarrow> (string \<Rightarrow> 's \<Rightarrow> ('e + string) \<times> 's) \<Rightarrow> 's \<Rightarrow> ('e follow_error + unit) \<times> 's" where
  "Follow ctx fetch st = follow_loop ctx fetch 0 {||} [] st"

section \<open>Sizes\<close>

text \<open>The integer a parameter denotes; a signed binding takes a sign, an unsigned one only digits.\<close>

definition denotes :: "bool \<Rightarrow> any \<Rightarrow> int \<Rightarrow> bool" where
  "denotes sgnd v n =
     (case v of
        VNil \<Rightarrow> n = 0
      | VString x \<Rightarrow> (if sgnd then parse_int x else map_option int (parse_nat x)) = Some n
      | VNumber x \<Rightarrow> (if sgnd then parse_int x else map_option int (parse_nat x)) = Some n
      | VInt x \<Rightarrow> x = n
      | VInt32 x \<Rightarrow> x = n
      | VInt64 x \<Rightarrow> x = n
      | VFloat x \<Rightarrow> x = Finite (of_int n)
      | VOther \<Rightarrow> False)"

lemma check_bound_Inr: "check_bound knd name v mn mx m = Inr n \<longleftrightarrow> m = n \<and> mn \<le> n \<and> n \<le> mx"
  by (auto simp: check_bound_def)

lemma ParseInt32_bound: "(case ParseInt32 x of None \<Rightarrow> Inl e | Some m \<Rightarrow> check_bound knd name v MinInt32 MaxInt32 m) = Inr n \<longleftrightarrow>
    parse_int x = Some n \<and> MinInt32 \<le> n \<and> n \<le> MaxInt32"
  by (auto simp: ParseInt32_def check_bound_Inr split: option.splits)

lemma ParseUint32_bound: "(case ParseUint32 x of None \<Rightarrow> Inl e | Some m \<Rightarrow> check_bound knd name v 0 MaxUint32 m) = Inr n \<longleftrightarrow>
    map_option int (parse_nat x) = Some n \<and> 0 \<le> n \<and> n \<le> MaxUint32"
  by (auto simp: ParseUint32_def check_bound_Inr split: option.splits)

lemma int32_zero [simp]: "MinInt32 \<le> 0" "0 \<le> MaxInt32" "0 \<le> MaxUint32"
  by (simp_all add: MinInt32_def MaxInt32_def MaxUint32_def)

lemma parseBoundSize_exact:
  "parseBoundSize v name sgnd = Inr n \<longleftrightarrow> denotes sgnd v n \<and>
     (if sgnd then MinInt32 \<le> n \<and> n \<le> MaxInt32 else 0 \<le> n \<and> n \<le> MaxUint32)"
proof (cases v)
  case (VFloat x)
  then show ?thesis by (cases x; cases sgnd) (auto simp: parseBoundSize_def denotes_def Let_def check_bound_Inr)
qed (cases sgnd; auto simp: parseBoundSize_def denotes_def Let_def ParseInt32_bound ParseUint32_bound check_bound_Inr)+

text \<open>
  The page size of a request. A binding yields an integer exactly when the parameter denotes that
  integer within the range of its type, and an error otherwise; a page size is then at least 1 and at most
  the largest 32-bit integer, 1000 for an absent or zero parameter; a bounded size is between 1 and the
  bound.
\<close>

theorem page_size_exact:
  "(parseBoundSize v name sgnd = Inr n \<longleftrightarrow> denotes sgnd v n \<and>
     (if sgnd then MinInt32 \<le> n \<and> n \<le> MaxInt32 else 0 \<le> n \<and> n \<le> MaxUint32)) \<and>
   (PageSize params = Inr k \<longleftrightarrow> (\<exists>m. denotes True (the_default VNil (fmlookup params ''pageSize'')) m \<and> 0 \<le> m \<and> m \<le> MaxInt32 \<and>
     k = (if m = 0 then 1000 else m))) \<and>
   (SizeFrom v mx = Inr b \<longleftrightarrow> (\<exists>m. denotes True v m \<and> 0 \<le> m \<and> m \<le> MaxInt32 \<and> b = (if m = 0 then max 1 mx else min m (max 1 mx))))"
proof (intro conjI)
  have p: "ParseSize w = Inr m \<longleftrightarrow> denotes True w m \<and> MinInt32 \<le> m \<and> m \<le> MaxInt32" for w m
    by (simp add: ParseSize_def ParseSizeNamed_def parseBoundSize_exact)
  have zero: "MinInt32 \<le> m" if "0 \<le> m" for m using that int32_zero(1) by linarith
  have "PageSize params = Inr k \<longleftrightarrow> (\<exists>m. ParseSize (the_default VNil (fmlookup params ''pageSize'')) = Inr m \<and> normalizePageSize m = Inr k)"
    by (simp add: PageSize_def split: sum.split)
  moreover have "normalizePageSize m = Inr k \<longleftrightarrow> 0 \<le> m \<and> k = (if m = 0 then 1000 else m)" for m
    by (auto simp: normalizePageSize_def defaultPageSize_def)
  ultimately show "PageSize params = Inr k \<longleftrightarrow> (\<exists>m. denotes True (the_default VNil (fmlookup params ''pageSize'')) m \<and> 0 \<le> m \<and> m \<le> MaxInt32 \<and>
      k = (if m = 0 then 1000 else m))" unfolding p using zero by blast
  have "SizeFrom v mx = Inr b \<longleftrightarrow> (\<exists>m. ParseSize v = Inr m \<and> Size m mx = Inr b)"
    by (simp add: SizeFrom_def split: sum.split)
  moreover have "Size m mx = Inr b \<longleftrightarrow> 0 \<le> m \<and> b = (if m = 0 then max 1 mx else min m (max 1 mx))" for m
    by (auto simp: Size_def Let_def)
  ultimately show "SizeFrom v mx = Inr b \<longleftrightarrow> (\<exists>m. denotes True v m \<and> 0 \<le> m \<and> m \<le> MaxInt32 \<and> b = (if m = 0 then max 1 mx else min m (max 1 mx)))"
    unfolding p using zero by blast
qed (rule parseBoundSize_exact)

section \<open>Reading a listing to its end\<close>

text \<open>A client that asks for pages of a size and keeps what it reads.\<close>

definition list_params :: "int \<Rightarrow> string \<Rightarrow> params" where
  "list_params sz tok = fmap_of_list [(''pageSize'', VInt sz), (''pageToken'', VString tok)]"

definition page_fetch ::
  "(params \<Rightarrow> paging_error + 'v list \<times> string) \<Rightarrow> int \<Rightarrow> string \<Rightarrow> 'v list \<Rightarrow> (paging_error + string) \<times> 'v list" where
  "page_fetch lst sz tok acc =
     (case lst (list_params sz tok) of Inl e \<Rightarrow> (Inl e, acc) | Inr (pg, nxt) \<Rightarrow> (Inr nxt, acc @ pg))"

lemma page_token_list_params [simp]: "page_token (list_params sz tok) = tok"
  by (simp add: page_token_def list_params_def)

lemma PageSize_list_params: "1 \<le> sz \<Longrightarrow> sz \<le> MaxInt32 \<Longrightarrow> PageSize (list_params sz tok) = Inr sz"
  using order_trans [OF int32_zero(1), of sz]
  by (simp add: PageSize_def list_params_def ParseSize_def ParseSizeNamed_def parseBoundSize_def check_bound_def normalizePageSize_def Let_def)

lemma decode_encodeCursor [simp]: "decodeCursor (encodeCursor s) = s"
  by (simp add: decodeCursor_def encodeCursor_def)

lemma encodeCursor_inj [simp]: "encodeCursor s = encodeCursor t \<longleftrightarrow> s = t"
  by (metis decode_encodeCursor)

lemma encodeCursor_Nil [simp]: "encodeCursor s = [] \<longleftrightarrow> s = []"
  using encodeCursor_inj [of s "[]"] by (simp add: encodeCursor_def EncodeToString_def)

lemma slice_page_step:
  assumes "0 < sz"
  shows "slice_page cursor (us @ vs) (length us) (int sz) =
    (take sz vs, if sz < length vs then encodeCursor (cursor (last (us @ take sz vs))) else [])"
proof (cases "sz < length vs")
  case True
  have "(us @ vs) ! (length us + sz - 1) = last (us @ take sz vs)"
    using True assms by (auto simp: nth_append last_append last_conv_nth)
  moreover have "nat (int (length us) + int sz) = length us + sz" by simp
  ultimately show ?thesis using True by (simp add: slice_page_def Let_def)
qed (auto simp: slice_page_def Let_def nat_add_distrib)

context cursor_order
begin

lemma start_after:
  assumes "sorted_wrt lt (us @ vs)" and "\<forall>x \<in> set us. cursor x \<noteq> []"
    and "tok = (if us = [] then [] else encodeCursor (cursor (last us)))"
  shows "start_index past (us @ vs) (list_params sz tok) = length us"
proof (cases us rule: rev_cases)
  case (snoc ws x)
  then show ?thesis using resume_after [of ws x vs] assms by (simp add: start_index_def Let_def)
qed (use assms in \<open>simp add: start_index_def\<close>)

text \<open>From any position the client reads the rest, if the page limit allows.\<close>

lemma follow_rest:
  fixes lst :: "params \<Rightarrow> paging_error + 'v list \<times> string"
  assumes lst: "\<And>tok. lst (list_params (int sz) tok) = Inr (slice_page cursor (us @ vs) (start_index past (us @ vs) (list_params (int sz) tok)) (int sz))"
    and sz: "0 < sz" and sorted: "sorted_wrt lt (us @ vs)" and ne: "\<forall>x \<in> set (us @ vs). cursor x \<noteq> []"
    and tok: "tok = (if us = [] then [] else encodeCursor (cursor (last us)))"
    and seen: "fset seen \<subseteq> encodeCursor ` cursor ` set us"
    and pages: "p < MaxPages" "length vs \<le> (MaxPages - p) * sz"
  shows "follow_loop (\<lambda>_. None) (page_fetch lst (int sz)) p seen tok acc = (Inr (), acc @ vs)"
  using assms
proof (induction "length vs" arbitrary: us vs p seen tok acc rule: less_induct)
  case less
  let ?us = "us @ take sz vs" and ?vs = "drop sz vs"
  let ?next = "if sz < length vs then encodeCursor (cursor (last ?us)) else []"
  have fetch: "page_fetch lst (int sz) tok acc = (Inr ?next, acc @ take sz vs)"
    using less.prems(1) [of tok] start_after [OF less.prems(3) _ less.prems(5), of "int sz"] less.prems(4)
    by (simp add: page_fetch_def slice_page_step [OF less.prems(2)])
  show ?case
  proof (cases "sz < length vs")
    case False
    then show ?thesis using fetch less.prems(7) by (simp add: follow_loop.simps [of _ _ p])
  next
    case True
    let ?x = "last ?us"
    have x: "?x \<in> set (take sz vs)" using True less.prems(2) by (cases vs) (auto simp: last_append)
    then have "cursor ?x \<noteq> []" using less.prems(4) by (auto dest: in_set_takeD)
    have "distinct (map cursor (us @ vs))" by (rule cursor_inj [OF less.prems(3)])
    then have "cursor ` set us \<inter> cursor ` set vs = {}" by auto
    with in_set_takeD [OF x] have "cursor ?x \<notin> cursor ` set us" by blast
    then have new: "encodeCursor (cursor ?x) \<notin> fset seen"
      using less.prems(6) by (metis encodeCursor_inj imageE subsetD)
    have step: "follow_loop (\<lambda>_. None) (page_fetch lst (int sz)) p seen tok acc =
        follow_loop (\<lambda>_. None) (page_fetch lst (int sz)) (p + 1) (finsert ?next seen) ?next (acc @ take sz vs)"
      using fetch less.prems(7) True \<open>cursor ?x \<noteq> []\<close> new by (simp add: follow_loop.simps [of _ _ p])
    have p: "p + 1 < MaxPages"
    proof (rule ccontr)
      assume "\<not> p + 1 < MaxPages"
      with less.prems(7) have "MaxPages - p = 1" by simp
      with less.prems(8) True show False by simp
    qed
    have "follow_loop (\<lambda>_. None) (page_fetch lst (int sz)) (p + 1) (finsert ?next seen) ?next (acc @ take sz vs) = (Inr (), (acc @ take sz vs) @ ?vs)"
    proof (rule less.hyps [of ?vs ?us])
      show "length ?vs < length vs" using True less.prems(2) by simp
      show "?next = (if ?us = [] then [] else encodeCursor (cursor ?x))" using True less.prems(2) by (cases vs) auto
      show "fset (finsert ?next seen) \<subseteq> encodeCursor ` cursor ` set ?us" using less.prems(6) True x by auto
      show "length ?vs \<le> (MaxPages - (p + 1)) * sz"
        using less.prems(7,8) by (simp add: diff_mult_distrib)
    qed (use less.prems p in simp_all)
    with step show ?thesis by simp
  qed
qed

end

text \<open>The order of \<open>Page\<close>: by key, with the key as the cursor.\<close>

interpretation by_key: cursor_order "\<lambda>x y. key x < key y" key "\<lambda>x cur. \<not> key x \<le> cur" for key :: "'v \<Rightarrow> string"
  by unfold_locales auto

definition sorts_by :: "('v \<Rightarrow> string) \<Rightarrow> ('v list \<Rightarrow> 'v list) \<Rightarrow> bool" where
  "sorts_by key srt \<longleftrightarrow> (\<forall>xs. mset (srt xs) = mset xs \<and> sorted (map key (srt xs)))"

lemma sorts_by_strict:
  assumes "sorts_by key srt" and "distinct (map key items)"
  shows "sorted_wrt (\<lambda>x y. key x < key y) (srt items)" "set (srt items) = set items" "length (srt items) = length items"
proof -
  from assms(1) have m: "mset (srt items) = mset items" "sorted (map key (srt items))" by (auto simp: sorts_by_def)
  from m(1) assms(2) have "distinct (map key (srt items))" by (metis mset_eq_imp_distinct_iff mset_map)
  with m(2) have "sorted_wrt (<) (map key (srt items))" by (simp add: strict_sorted_iff)
  then show "sorted_wrt (\<lambda>x y. key x < key y) (srt items)" by (simp add: sorted_wrt_map)
  show "set (srt items) = set items" "length (srt items) = length items"
    using m(1) by (auto dest: mset_eq_setD mset_eq_length)
qed

text \<open>
  C39: a client that follows the page tokens of a listing whose items have distinct, non-empty keys reads
  every item exactly once, in key order, and then stops without an error, for every page size and however
  the sort orders equal keys, as long as the listing fits into \<open>MaxPages\<close> pages.
\<close>

theorem follow_reads_every_item:
  assumes "sorts_by key srt" and "distinct (map key items)" and "\<forall>x \<in> set items. key x \<noteq> []"
    and "1 \<le> sz" and "int sz \<le> MaxInt32" and "length items \<le> MaxPages * sz"
  shows "Follow (\<lambda>_. None) (page_fetch (Page srt items key) (int sz)) [] = (Inr (), srt items)"
proof -
  note S = sorts_by_strict [OF assms(1,2)]
  have "follow_loop (\<lambda>_. None) (page_fetch (Page srt items key) (int sz)) 0 {||} [] [] = (Inr (), [] @ srt items)"
  proof (rule by_key.follow_rest [where us = "[]" and key = key])
    show "Page srt items key (list_params (int sz) tok) = Inr (slice_page key ([] @ srt items)
        (start_index (\<lambda>x cur. \<not> key x \<le> cur) ([] @ srt items) (list_params (int sz) tok)) (int sz))" for tok
      using assms(4,5) by (simp add: Page_def PageSize_list_params Let_def)
  qed (use S assms in \<open>simp_all add: MaxPages_def\<close>)
  then show ?thesis by (simp add: Follow_def)
qed

theorem follow_reads_every_item_witness:
  "Follow (\<lambda>_. None) (page_fetch (Page (sort_key (\<lambda>s. s)) [''c'', ''a'', ''b''] (\<lambda>s. s)) (int 2)) [] = (Inr (), [''a'', ''b'', ''c''])"
proof -
  have "sorts_by (\<lambda>s. s) (sort_key (\<lambda>s. s))" by (simp add: sorts_by_def)
  moreover have "sort_key (\<lambda>s. s) [''c'', ''a'', ''b''] = [''a'', ''b'', ''c'']" by code_simp
  ultimately show ?thesis
    using follow_reads_every_item [of "\<lambda>s. s" "sort_key (\<lambda>s. s)" "[''c'', ''a'', ''b'']" 2] by (simp add: MaxInt32_def MaxPages_def)
qed

text \<open>The tokens a call of the loop fetches: the current one, and then new non-empty ones.\<close>

lemma follow_loop_tokens:
  "token \<in> insert [] (fset seen) \<Longrightarrow> \<exists>toks. length toks \<le> MaxPages - page \<and> distinct toks \<and> (toks = [] \<or> hd toks = token) \<and>
     set (tl toks) \<inter> insert [] (fset seen) = {} \<and> snd (follow_loop ctx fetch page seen token st) = fold (\<lambda>tok s. snd (fetch tok s)) toks st"
proof (induction ctx fetch page seen token st rule: follow_loop.induct)
  case (1 ctx fetch page seen token st)
  show ?case
  proof (cases "ctx page = None \<and> page < MaxPages")
    case False
    then show ?thesis by (intro exI [of _ "[]"]) (auto simp: follow_loop.simps [of ctx fetch page] split: option.split)
  next
    case True
    obtain r st' where f: "fetch token st = (r, st')" by (cases "fetch token st")
    show ?thesis
    proof (cases "\<exists>nxt. r = Inr nxt \<and> nxt \<noteq> [] \<and> nxt |\<notin>| seen")
      case False
      then have "snd (follow_loop ctx fetch page seen token st) = st'"
        using True f by (auto simp: follow_loop.simps [of ctx fetch page] split: sum.split)
      then show ?thesis using True f by (intro exI [of _ "[token]"]) auto
    next
      case inner: True
      then obtain nxt where n: "r = Inr nxt" "nxt \<noteq> []" "nxt |\<notin>| seen" by blast
      have step: "follow_loop ctx fetch page seen token st = follow_loop ctx fetch (page + 1) (finsert nxt seen) nxt st'"
        using True f n by (simp add: follow_loop.simps [of ctx fetch page])
      have "\<exists>toks. length toks \<le> MaxPages - (page + 1) \<and> distinct toks \<and> (toks = [] \<or> hd toks = nxt) \<and>
          set (tl toks) \<inter> insert [] (fset (finsert nxt seen)) = {} \<and>
          snd (follow_loop ctx fetch (page + 1) (finsert nxt seen) nxt st') = fold (\<lambda>tok s. snd (fetch tok s)) toks st'"
        by (rule 1(1)) (use True f n in auto)
      then obtain toks where t: "length toks \<le> MaxPages - (page + 1)" "distinct toks" "toks = [] \<or> hd toks = nxt"
        "set (tl toks) \<inter> insert [] (fset (finsert nxt seen)) = {}"
        "snd (follow_loop ctx fetch (page + 1) (finsert nxt seen) nxt st') = fold (\<lambda>tok s. snd (fetch tok s)) toks st'" by blast
      have new: "set toks \<inter> insert [] (fset seen) = {}" using t(3,4) n by (cases toks) auto
      with 1(2) have "token \<notin> set toks" by auto
      with t(2) new show ?thesis
        using True t(1,5) f step by (intro exI [of _ "token # toks"]) auto
    qed
  qed
qed

text \<open>
  reading a listing always ends after at most \<open>MaxPages\<close> fetches with pairwise different tokens,
  whatever the source answers, and leaves the state those fetches lead to.
\<close>

theorem follow_bounded:
  "\<exists>toks. length toks \<le> MaxPages \<and> distinct toks \<and> snd (Follow ctx fetch st) = fold (\<lambda>tok s. snd (fetch tok s)) toks st"
  using follow_loop_tokens [of "[]" "{||}" 0 ctx fetch st] by (auto simp: Follow_def)

end
