(* ===== verification/Ordered_Listing.thy ===== *)
theory Ordered_Listing
  imports Aip160_Order Paging
begin

text \<open>
  How the list methods compose the two packages: the items are put into the order of the request
  (\<open>aip160.Order.Sort\<close>) and paged with that order's cursors (\<open>paging.PageOrdered\<close> with
  \<open>Order.Cursor\<close> and \<open>Order.AfterCursor\<close>).
\<close>

interpretation by_order: cursor_order "less ord" "Cursor ord" "AfterCursor ord" for ord :: "'v Order"
  by unfold_locales (simp_all add: cursor_position less_asym)

lemma Cursor_not_Nil: "tie ord x \<noteq> [] \<Longrightarrow> Cursor ord x \<noteq> []"
proof (cases "keys ord")
  case (Cons k ks)
  have "Join (p # ps @ [q]) ''.'' \<noteq> []" for p ps q by (cases ps) auto
  with Cons show ?thesis by (simp add: Cursor_def)
qed (simp add: Cursor_def)

text \<open>
  C38: whatever order a request asks for, a client that follows the page tokens of the ordered listing reads
  every item exactly once, in that order, ascending and descending keys mixed, if the tie keys are distinct and
  not empty and the listing fits into \<open>MaxPages\<close> pages.
\<close>

theorem follow_reads_ordered_listing:
  assumes "distinct (map (tie ord) items)" and "\<forall>x \<in> set items. tie ord x \<noteq> []"
    and "1 \<le> sz" and "int sz \<le> MaxInt32" and "length items \<le> MaxPages * sz"
  shows "Follow (\<lambda>_. None) (page_fetch (\<lambda>params. PageOrdered (Sort ord items) params (Cursor ord) (AfterCursor ord)) (int sz)) [] =
    (Inr (), Sort ord items)"
proof -
  have set: "set (Sort ord items) = set items" "length (Sort ord items) = length items"
    unfolding Sort_def by (rule mset_eq_setD [OF mset_SliceStable], rule mset_eq_length [OF mset_SliceStable])
  have "follow_loop (\<lambda>_. None) (page_fetch (\<lambda>params. PageOrdered (Sort ord items) params (Cursor ord) (AfterCursor ord)) (int sz)) 0 {||} [] [] =
      (Inr (), [] @ Sort ord items)"
  proof (rule by_order.follow_rest [where us = "[]" and ord = ord])
    show "PageOrdered (Sort ord items) (list_params (int sz) tok) (Cursor ord) (AfterCursor ord) =
        Inr (slice_page (Cursor ord) ([] @ Sort ord items) (start_index (AfterCursor ord) ([] @ Sort ord items) (list_params (int sz) tok)) (int sz))" for tok
      using assms(3,4) by (simp add: PageOrdered_def PageSize_list_params)
  qed (use set assms Sort_strict [OF assms(1)] in \<open>simp_all add: MaxPages_def Cursor_not_Nil\<close>)
  then show ?thesis by (simp add: Follow_def)
qed

theorem follow_reads_ordered_listing_witness:
  "Follow (\<lambda>_. None) (page_fetch (\<lambda>params. PageOrdered (Sort demo_order [(''b'', ''1''), (''c'', ''2''), (''b'', ''0'')]) params
     (Cursor demo_order) (AfterCursor demo_order)) (int 2)) [] = (Inr (), [(''c'', ''2''), (''b'', ''0''), (''b'', ''1'')])"
proof -
  have "Sort demo_order [(''b'', ''1''), (''c'', ''2''), (''b'', ''0'')] = [(''c'', ''2''), (''b'', ''0''), (''b'', ''1'')]" by code_simp
  then show ?thesis
    using follow_reads_ordered_listing [of demo_order "[(''b'', ''1''), (''c'', ''2''), (''b'', ''0'')]" 2]
    by (simp add: MaxInt32_def MaxPages_def demo_order_def)
qed

end
