(* ===== verification/Map_Contract.thy ===== *)
theory Map_Contract
  imports Go_Prelude
begin

text \<open>
  The contract of a keyed store: what a client may expect of a read after writes and deletions, when
  distinct keys do not interfere. \<open>valid\<close> delimits the keys for which the provider keeps that promise.
\<close>

datatype ('k, 'v) store_op = Write 'k 'v | Remove 'k

fun op_key :: "('k, 'v) store_op \<Rightarrow> 'k" where
  "op_key (Write k v) = k"
| "op_key (Remove k) = k"

text \<open>The specification: a map, updated and restricted.\<close>

fun spec_op :: "('k, 'v) store_op \<Rightarrow> ('k \<rightharpoonup> 'v) \<Rightarrow> ('k \<rightharpoonup> 'v)" where
  "spec_op (Write k v) m = m(k \<mapsto> v)"
| "spec_op (Remove k) m = m(k := None)"

locale keyed_store =
  fixes valid :: "'k \<Rightarrow> bool"
    and get :: "'s \<Rightarrow> 'k \<Rightarrow> 'v option"
    and run_op :: "'a \<Rightarrow> ('k, 'v) store_op \<Rightarrow> 's \<Rightarrow> 's"
  assumes get_write: "valid k \<Longrightarrow> get (run_op a (Write k v) s) k = Some v"
    and get_remove: "valid k \<Longrightarrow> get (run_op a (Remove k) s) k = None"
    and get_frame: "valid k \<Longrightarrow> valid (op_key x) \<Longrightarrow> k \<noteq> op_key x \<Longrightarrow> get (run_op a x s) k = get s k"
begin

text \<open>Any sequence of operations on valid keys refines the same sequence on a map.\<close>

lemma run_refines_map:
  assumes "\<forall>(a, x) \<in> set ops. valid (op_key x)" and "valid k"
  shows "get (fold (\<lambda>(a, x). run_op a x) ops s) k = fold (\<lambda>(a, x). spec_op x) ops (get s) k"
proof -
  have step: "get (run_op a x s) k = spec_op x (get s) k" if "valid (op_key x)" "valid k" for a x s k
    using that by (cases x) (auto simp: get_write get_remove get_frame)
  have "fold (\<lambda>(a, x). spec_op x) ops f k = fold (\<lambda>(a, x). spec_op x) ops g k"
    if "\<forall>k. valid k \<longrightarrow> f k = g k" "\<forall>(a, x) \<in> set ops. valid (op_key x)" "valid k" for f g k ops
    using that
  proof (induction ops arbitrary: f g)
    case (Cons p ops)
    obtain a x where p: "p = (a, x)" by (cases p)
    have "\<forall>k. valid k \<longrightarrow> spec_op x f k = spec_op x g k" using Cons.prems(1) by (cases x) auto
    with Cons.IH [of "spec_op x f" "spec_op x g"] Cons.prems(2,3) show ?case by (simp add: p)
  qed simp
  note cong = this
  from assms show ?thesis
  proof (induction ops arbitrary: s)
    case (Cons p ops)
    obtain a x where p: "p = (a, x)" by (cases p)
    have "fold (\<lambda>(a, x). spec_op x) ops (get (run_op a x s)) k = fold (\<lambda>(a, x). spec_op x) ops (spec_op x (get s)) k"
      using Cons.prems p by (intro cong) (auto simp: step)
    with Cons.IH [of "run_op a x s"] Cons.prems show ?case by (simp add: p)
  qed simp
qed

end

end
