(* ===== verification/Resource_Store.thy ===== *)
theory Resource_Store
  imports Map_Contract
begin

text \<open>
  The control-plane resource store, \<open>src/internal/store\<close> (\<open>store.go\<close> and \<open>memory.go\<close>): one
  map from the text \<open>account:region:type:id\<close> to entries. Every service keeps its queues, topics, roles
  and buckets here, so isolation between accounts, regions and types rests on that text.

  The clock is an argument. \<open>order\<close> lists the keys in the order Go ranges over the map; \<open>sort.Slice\<close>
  is not stable, and every result it may give is the stable sort of some such order. A decoded snapshot is an
  object (a JSON \<open>null\<close> would leave a nil map).
\<close>

section \<open>Data\<close>

record ResourceEntry =
  Type :: string
  ID :: string
  Data :: string
  Seeded :: bool
  CreatedAt :: time
  UpdatedAt :: time
  Account :: string
  Region :: string

definition zero_entry :: ResourceEntry where
  "zero_entry = \<lparr>Type = [], ID = [], Data = [], Seeded = False, CreatedAt = 0, UpdatedAt = 0, Account = [], Region = []\<rparr>"

record MemoryResourceStore =
  entries :: "(string, ResourceEntry) fmap"

datatype 'e store_error = ErrNotFound | ErrAlreadyExists | ErrEmptyRegion string | ErrMutate 'e

definition NewMemoryResourceStore :: MemoryResourceStore where
  "NewMemoryResourceStore = \<lparr>entries = fmempty\<rparr>"

definition key :: "string \<Rightarrow> string \<Rightarrow> string \<Rightarrow> string \<Rightarrow> string" where
  "key account region resourceType i = account @ '':'' @ region @ '':'' @ resourceType @ '':'' @ i"

definition empty_region :: "string \<Rightarrow> string \<Rightarrow> 'e store_error" where
  "empty_region t i = ErrEmptyRegion (''store: region must not be empty (type='' @ t @ '' id='' @ i @
     ''); use store.GlobalRegion for global services'')"

section \<open>Operations\<close>

definition Create ::
    "time \<Rightarrow> string \<Rightarrow> string \<Rightarrow> ResourceEntry \<Rightarrow> MemoryResourceStore \<Rightarrow> 'e store_error + MemoryResourceStore" where
  "Create now account region entry s =
     (if region = [] then Inl (empty_region (Type entry) (ID entry))
      else
        (let k = key account region (Type entry) (ID entry)
         in if fmlookup (entries s) k \<noteq> None then Inl ErrAlreadyExists
            else Inr (s\<lparr>entries := fmupd k (entry\<lparr>CreatedAt := now, UpdatedAt := now\<rparr>) (entries s)\<rparr>)))"

definition Upsert ::
    "time \<Rightarrow> string \<Rightarrow> string \<Rightarrow> ResourceEntry \<Rightarrow> MemoryResourceStore \<Rightarrow> 'e store_error + MemoryResourceStore" where
  "Upsert now account region entry s =
     (if region = [] then Inl (empty_region (Type entry) (ID entry))
      else
        (let k = key account region (Type entry) (ID entry);
             created = (case fmlookup (entries s) k of Some existing \<Rightarrow> CreatedAt existing | None \<Rightarrow> now)
         in Inr (s\<lparr>entries := fmupd k (entry\<lparr>CreatedAt := created, UpdatedAt := now\<rparr>) (entries s)\<rparr>)))"

definition Get ::
    "string \<Rightarrow> string \<Rightarrow> string \<Rightarrow> string \<Rightarrow> MemoryResourceStore \<Rightarrow> 'e store_error + ResourceEntry" where
  "Get account region resourceType i s =
     (case fmlookup (entries s) (key account region resourceType i) of
        None \<Rightarrow> Inl ErrNotFound
      | Some e \<Rightarrow> Inr e)"

definition Update ::
    "time \<Rightarrow> string \<Rightarrow> string \<Rightarrow> ResourceEntry \<Rightarrow> MemoryResourceStore \<Rightarrow> 'e store_error + MemoryResourceStore" where
  "Update now account region entry s =
     (let k = key account region (Type entry) (ID entry)
      in case fmlookup (entries s) k of
           None \<Rightarrow> Inl ErrNotFound
         | Some existing \<Rightarrow>
             Inr (s\<lparr>entries := fmupd k (entry\<lparr>CreatedAt := CreatedAt existing, UpdatedAt := now\<rparr>) (entries s)\<rparr>))"

text \<open>\<open>mutate\<close> is the caller's function: an error aborts without writing.\<close>

definition UpsertAtomic ::
    "time \<Rightarrow> string \<Rightarrow> string \<Rightarrow> string \<Rightarrow> string \<Rightarrow> (ResourceEntry \<Rightarrow> bool \<Rightarrow> 'e + ResourceEntry) \<Rightarrow>
     MemoryResourceStore \<Rightarrow> 'e store_error + MemoryResourceStore \<times> ResourceEntry" where
  "UpsertAtomic now account region resourceType i mutate s =
     (if region = [] then Inl (empty_region resourceType i)
      else
        (let k = key account region resourceType i;
             found = fmlookup (entries s) k;
             current = the_default zero_entry found
         in case mutate current (found \<noteq> None) of
              Inl err \<Rightarrow> Inl (ErrMutate err)
            | Inr nxt \<Rightarrow>
                (let nxt' = nxt\<lparr>CreatedAt := if found \<noteq> None then CreatedAt current else now, UpdatedAt := now,
                                Type := resourceType, ID := i\<rparr>
                 in Inr (s\<lparr>entries := fmupd k nxt' (entries s)\<rparr>, nxt'))))"

definition Delete ::
    "string \<Rightarrow> string \<Rightarrow> string \<Rightarrow> string \<Rightarrow> MemoryResourceStore \<Rightarrow> 'e store_error + MemoryResourceStore" where
  "Delete account region resourceType i s =
     (let k = key account region resourceType i
      in if fmlookup (entries s) k = None then Inl ErrNotFound
         else Inr (s\<lparr>entries := fmdrop k (entries s)\<rparr>))"

text \<open>The body of the loop of \<open>List\<close> on one key and entry: the entry it appends, if any.\<close>

definition list_one ::
    "string \<Rightarrow> string \<Rightarrow> string \<Rightarrow> string \<Rightarrow> string \<Rightarrow> ResourceEntry \<Rightarrow> ResourceEntry option" where
  "list_one account region resourceType pfx k e =
     (if account = [] \<and> region = [] then
        (let parts = SplitN k (CHR '':'') 4
         in if length parts < 4 \<or> parts ! 2 \<noteq> resourceType then None
            else if pfx \<noteq> [] \<and> \<not> Contains (ID e) pfx then None
            else Some (e\<lparr>Account := parts ! 0, Region := parts ! 1\<rparr>))
      else if \<not> HasPrefix k (account @ '':'' @ region @ '':'' @ resourceType @ '':'') then None
      else if pfx \<noteq> [] \<and> \<not> Contains (ID e) pfx then None
      else Some (e\<lparr>Account := account, Region := region\<rparr>))"

definition ListEntries ::
    "string list \<Rightarrow> string \<Rightarrow> string \<Rightarrow> string \<Rightarrow> string \<Rightarrow> MemoryResourceStore \<Rightarrow> ResourceEntry list" where
  "ListEntries order account region resourceType pfx s =
     sort_key ID
       (List.map_filter
         (\<lambda>k. case fmlookup (entries s) k of None \<Rightarrow> None | Some e \<Rightarrow> list_one account region resourceType pfx k e)
         order)"

definition Purge :: "string \<Rightarrow> string \<Rightarrow> string \<Rightarrow> MemoryResourceStore \<Rightarrow> MemoryResourceStore" where
  "Purge account region resourceType s =
     s\<lparr>entries := fmfilter
         (\<lambda>k. \<not> (if account = [] \<and> region = []
                 then (let parts = SplitN k (CHR '':'') 4 in 4 \<le> length parts \<and> parts ! 2 = resourceType)
                 else HasPrefix k (account @ '':'' @ region @ '':'' @ resourceType @ '':'')))
         (entries s)\<rparr>"

definition Reset :: "MemoryResourceStore \<Rightarrow> MemoryResourceStore" where
  "Reset s = s\<lparr>entries := fmempty\<rparr>"

definition ResetScope :: "string \<Rightarrow> string \<Rightarrow> MemoryResourceStore \<Rightarrow> MemoryResourceStore" where
  "ResetScope account region s =
     s\<lparr>entries := fmfilter (\<lambda>k. \<not> HasPrefix k (account @ '':'' @ region @ '':'')) (entries s)\<rparr>"

definition ResetAccount :: "string \<Rightarrow> MemoryResourceStore \<Rightarrow> MemoryResourceStore" where
  "ResetAccount account s = s\<lparr>entries := fmfilter (\<lambda>k. \<not> HasPrefix k (account @ '':'')) (entries s)\<rparr>"

definition Snapshot :: "MemoryResourceStore \<Rightarrow> (string, ResourceEntry) fmap" where
  "Snapshot s = entries s"

definition IsEmpty :: "MemoryResourceStore \<Rightarrow> bool" where
  "IsEmpty s \<longleftrightarrow> fmpred (\<lambda>k e. Seeded e) (entries s)"

definition Restore :: "string + (string, ResourceEntry) fmap \<Rightarrow> MemoryResourceStore \<Rightarrow> string + MemoryResourceStore" where
  "Restore decoded s = (case decoded of Inl err \<Rightarrow> Inl err | Inr es \<Rightarrow> Inr (s\<lparr>entries := es\<rparr>))"

section \<open>Keys of distinct scopes are distinct\<close>

definition no_colon :: "string \<Rightarrow> bool" where
  "no_colon w \<longleftrightarrow> CHR '':'' \<notin> set w"

lemma key_inj:
  assumes "no_colon a" "no_colon r" "no_colon t" and "no_colon a'" "no_colon r'" "no_colon t'"
  shows "key a r t i = key a' r' t' i' \<longleftrightarrow> a = a' \<and> r = r' \<and> t = t' \<and> i = i'"
  using assms by (simp add: key_def no_colon_def field_cancel)

lemma key_scope_prefix:
  assumes "no_colon a" "no_colon r" and "no_colon a'" "no_colon r'"
  shows "HasPrefix (key a r t i) (a' @ '':'' @ r' @ '':'') \<longleftrightarrow> a = a' \<and> r = r'"
  using assms by (auto simp: HasPrefix_iff key_def no_colon_def field_cancel)

lemma key_account_prefix:
  assumes "no_colon a" and "no_colon a'"
  shows "HasPrefix (key a r t i) (a' @ '':'') \<longleftrightarrow> a = a'"
  using assms by (auto simp: HasPrefix_iff key_def no_colon_def field_cancel)

lemma key_type_prefix:
  assumes "no_colon a" "no_colon r" "no_colon t" and "no_colon a'" "no_colon r'" "no_colon t'"
  shows "HasPrefix (key a r t i) (a' @ '':'' @ r' @ '':'' @ t' @ '':'') \<longleftrightarrow> a = a' \<and> r = r' \<and> t = t'"
  using assms by (auto simp: HasPrefix_iff key_def no_colon_def field_cancel)

lemmas key_prefixes =
  key_scope_prefix [unfolded append_Cons append_Nil]
  key_account_prefix [unfolded append_Cons append_Nil]
  key_type_prefix [unfolded append_Cons append_Nil]

lemma key_SplitN:
  assumes "no_colon a" "no_colon r" "no_colon t"
  shows "SplitN (key a r t i) (CHR '':'') 4 = [a, r, t, i]"
  using assms by (simp add: SplitN_def key_def no_colon_def splitN_loop_field splitN_loop_last)

section \<open>The keyed-store contract\<close>

type_synonym scope = "string \<times> string \<times> string \<times> string"

definition valid_scope :: "scope \<Rightarrow> bool" where
  "valid_scope k = (case k of (a, r, t, i) \<Rightarrow> no_colon a \<and> no_colon r \<and> no_colon t \<and> r \<noteq> [])"

definition payload :: "ResourceEntry \<Rightarrow> string \<times> bool" where
  "payload e = (Data e, Seeded e)"

definition get_payload :: "MemoryResourceStore \<Rightarrow> scope \<Rightarrow> (string \<times> bool) option" where
  "get_payload s k = (case k of (a, r, t, i) \<Rightarrow>
     (case (Get a r t i s :: unit store_error + ResourceEntry) of Inl _ \<Rightarrow> None | Inr e \<Rightarrow> Some (payload e)))"

text \<open>One write or deletion at time \<open>now\<close>; an error leaves the store as it was.\<close>

definition resource_op :: "time \<Rightarrow> (scope, string \<times> bool) store_op \<Rightarrow> MemoryResourceStore \<Rightarrow> MemoryResourceStore" where
  "resource_op now x s =
     (case x of
        Write (a, r, t, i) (d, b) \<Rightarrow>
          (case (Upsert now a r (zero_entry\<lparr>Type := t, ID := i, Data := d, Seeded := b\<rparr>) s :: unit store_error + _) of
             Inl _ \<Rightarrow> s | Inr s' \<Rightarrow> s')
      | Remove (a, r, t, i) \<Rightarrow>
          (case (Delete a r t i s :: unit store_error + _) of Inl _ \<Rightarrow> s | Inr s' \<Rightarrow> s'))"

interpretation resources: keyed_store valid_scope get_payload resource_op
proof
  fix s now and k :: scope and v :: "string \<times> bool"
  obtain a r t i where k: "k = (a, r, t, i)" by (cases k)
  obtain d b where v: "v = (d, b)" by (cases v)
  show "get_payload (resource_op now (Write k v) s) k = Some v" if "valid_scope k"
    using that by (simp add: k v valid_scope_def resource_op_def get_payload_def Upsert_def Get_def Let_def payload_def)
  show "get_payload (resource_op now (Remove k) s) k = None" if "valid_scope k"
    by (simp add: k resource_op_def get_payload_def Delete_def Get_def Let_def)
  show "get_payload (resource_op now x s) k = get_payload s k"
    if "valid_scope k" "valid_scope (op_key x)" "k \<noteq> op_key x" for x
  proof (cases x)
    case (Write k' v')
    obtain a' r' t' i' where k': "k' = (a', r', t', i')" by (cases k')
    obtain d' b' where v': "v' = (d', b')" by (cases v')
    from that have "key a r t i \<noteq> key a' r' t' i'"
      by (auto simp: Write k k' valid_scope_def key_inj)
    then show ?thesis
      by (simp add: Write k k' v' resource_op_def get_payload_def Upsert_def Get_def Let_def)
  next
    case (Remove k')
    obtain a' r' t' i' where k': "k' = (a', r', t', i')" by (cases k')
    from that have "key a r t i \<noteq> key a' r' t' i'"
      by (auto simp: Remove k k' valid_scope_def key_inj)
    then show ?thesis
      by (simp add: Remove k k' resource_op_def get_payload_def Delete_def Get_def Let_def)
  qed
qed

section \<open>Reachable stores\<close>

definition res_inv :: "MemoryResourceStore \<Rightarrow> bool" where
  "res_inv s \<longleftrightarrow> (\<forall>k e. fmlookup (entries s) k = Some e \<longrightarrow>
     (\<exists>a r. k = key a r (Type e) (ID e) \<and> no_colon a \<and> no_colon r \<and> no_colon (Type e) \<and> r \<noteq> []))"

text \<open>
  Stores reached by calls whose account, region and type contain no colon, as the providers pass them.
\<close>

inductive res_reach :: "MemoryResourceStore \<Rightarrow> bool" where
  init: "res_reach NewMemoryResourceStore"
| create: "res_reach s \<Longrightarrow> no_colon a \<Longrightarrow> no_colon r \<Longrightarrow> no_colon (Type e) \<Longrightarrow>
    (Create now a r e s :: unit store_error + _) = Inr s' \<Longrightarrow> res_reach s'"
| upsert: "res_reach s \<Longrightarrow> no_colon a \<Longrightarrow> no_colon r \<Longrightarrow> no_colon (Type e) \<Longrightarrow>
    (Upsert now a r e s :: unit store_error + _) = Inr s' \<Longrightarrow> res_reach s'"
| update: "res_reach s \<Longrightarrow> no_colon a \<Longrightarrow> no_colon r \<Longrightarrow> no_colon (Type e) \<Longrightarrow>
    (Update now a r e s :: unit store_error + _) = Inr s' \<Longrightarrow> res_reach s'"
| atomic: "res_reach s \<Longrightarrow> no_colon a \<Longrightarrow> no_colon r \<Longrightarrow> no_colon t \<Longrightarrow>
    (UpsertAtomic now a r t i mutate s :: string store_error + _) = Inr (s', e) \<Longrightarrow> res_reach s'"
| delete: "res_reach s \<Longrightarrow> (Delete a r t i s :: unit store_error + _) = Inr s' \<Longrightarrow> res_reach s'"
| purge: "res_reach s \<Longrightarrow> res_reach (Purge a r t s)"
| reset: "res_reach s \<Longrightarrow> res_reach (Reset s)"
| reset_scope: "res_reach s \<Longrightarrow> res_reach (ResetScope a r s)"
| reset_account: "res_reach s \<Longrightarrow> res_reach (ResetAccount a s)"
| restore: "res_reach s \<Longrightarrow> res_reach old \<Longrightarrow> Restore (Inr (Snapshot old)) s = Inr s' \<Longrightarrow> res_reach s'"

lemma res_invD:
  "res_inv s \<Longrightarrow> fmlookup (entries s) k = Some e \<Longrightarrow>
     \<exists>a r. k = key a r (Type e) (ID e) \<and> no_colon a \<and> no_colon r \<and> no_colon (Type e) \<and> r \<noteq> []"
  unfolding res_inv_def by blast

lemma res_inv_fmupd:
  "res_inv s \<Longrightarrow> k = key a r (Type e) (ID e) \<Longrightarrow> no_colon a \<Longrightarrow> no_colon r \<Longrightarrow> no_colon (Type e) \<Longrightarrow> r \<noteq> [] \<Longrightarrow>
     res_inv (s\<lparr>entries := fmupd k e (entries s)\<rparr>)"
  by (auto simp: res_inv_def)

lemma res_inv_subset:
  "res_inv s \<Longrightarrow> (\<And>k e. fmlookup m k = Some e \<Longrightarrow> fmlookup (entries s) k = Some e) \<Longrightarrow> res_inv (s\<lparr>entries := m\<rparr>)"
  by (auto simp: res_inv_def)

lemma res_reach_inv: "res_reach s \<Longrightarrow> res_inv s"
proof (induction rule: res_reach.induct)
  case init
  then show ?case by (simp add: NewMemoryResourceStore_def res_inv_def)
next
  case create
  then show ?case by (auto simp: Create_def Let_def split: if_splits intro!: res_inv_fmupd)
next
  case upsert
  then show ?case by (auto simp: Upsert_def Let_def split: if_splits intro!: res_inv_fmupd)
next
  case (update s a r e now s')
  then obtain old where old: "fmlookup (entries s) (key a r (Type e) (ID e)) = Some old"
    and s': "s' = s\<lparr>entries := fmupd (key a r (Type e) (ID e)) (e\<lparr>CreatedAt := CreatedAt old, UpdatedAt := now\<rparr>) (entries s)\<rparr>"
    by (auto simp: Update_def Let_def split: option.splits)
  from update.IH old obtain a' r' where "key a r (Type e) (ID e) = key a' r' (Type old) (ID old)"
      "no_colon a'" "no_colon r'" "no_colon (Type old)" "r' \<noteq> []"
    by (blast dest: res_invD)
  with update.hyps have "r \<noteq> []" by (simp add: key_inj)
  with update s' show ?case by (auto intro!: res_inv_fmupd)
next
  case atomic
  then show ?case by (auto simp: UpsertAtomic_def Let_def split: if_splits sum.splits intro!: res_inv_fmupd)
next
  case delete
  then show ?case by (auto simp: Delete_def Let_def split: if_splits intro!: res_inv_subset)
next
  case purge
  then show ?case by (auto simp: Purge_def intro!: res_inv_subset split: if_splits)
next
  case reset
  then show ?case by (simp add: Reset_def res_inv_def)
next
  case reset_scope
  then show ?case by (auto simp: ResetScope_def intro!: res_inv_subset split: if_splits)
next
  case reset_account
  then show ?case by (auto simp: ResetAccount_def intro!: res_inv_subset split: if_splits)
next
  case restore
  then show ?case by (auto simp: Restore_def Snapshot_def res_inv_def)
qed

section \<open>Properties\<close>

text \<open>A store with two entries of one account and region and one of another region.\<close>

definition res_demo_entry :: "string \<Rightarrow> string \<Rightarrow> ResourceEntry" where
  "res_demo_entry i d = zero_entry\<lparr>Type := ''queues'', ID := i, Data := d\<rparr>"

definition res_demo_upsert :: "string \<Rightarrow> ResourceEntry \<Rightarrow> MemoryResourceStore \<Rightarrow> MemoryResourceStore" where
  "res_demo_upsert r e s = (case (Upsert 5 ''1'' r e s :: unit store_error + _) of Inl _ \<Rightarrow> s | Inr s' \<Rightarrow> s')"

definition res_demo_store :: MemoryResourceStore where
  "res_demo_store = res_demo_upsert ''us'' (res_demo_entry ''b'' ''B'') (res_demo_upsert ''us'' (res_demo_entry ''a:x'' ''A'')
     (res_demo_upsert ''eu'' (res_demo_entry ''a:x'' ''E'') NewMemoryResourceStore))"

lemma res_demo_upsert_reach: "res_reach s \<Longrightarrow> no_colon r \<Longrightarrow> r \<noteq> [] \<Longrightarrow> no_colon (Type e) \<Longrightarrow> res_reach (res_demo_upsert r e s)"
  by (rule res_reach.upsert [of s "''1''" r e 5]) (simp_all add: res_demo_upsert_def Upsert_def Let_def no_colon_def)

lemma res_demo_reach: "res_reach res_demo_store"
  by (simp add: res_demo_store_def res_demo_upsert_reach res_reach.init no_colon_def res_demo_entry_def)

lemma res_demo_dom: "fset (fmdom (entries res_demo_store)) = set [''1:us:queues:b'', ''1:us:queues:a:x'', ''1:eu:queues:a:x'']"
  by (simp add: res_demo_store_def res_demo_upsert_def Upsert_def Let_def key_def res_demo_entry_def NewMemoryResourceStore_def insert_commute)

text \<open>
  C26: Any sequence of upserts and deletions under accounts, regions and types without colons (identifiers may
  contain them) refines the same sequence on a map from (account, region, type, identifier): a read
  returns the last write to exactly that resource, and no write reaches another scope.
\<close>

theorem resource_store_refines_map:
  assumes "\<forall>(now, x) \<in> set ops. valid_scope (op_key x)" and "valid_scope k"
  shows "get_payload (fold (\<lambda>(now, x). resource_op now x) ops s) k = fold (\<lambda>(now, x). spec_op x) ops (get_payload s) k"
  using assms by (rule resources.run_refines_map)

theorem resource_store_refines_map_witness:
  "get_payload (fold (\<lambda>(now, x). resource_op now x)
      [(1, Write (''1'', ''us'', ''queues'', ''a:x'') (''A'', False)), (2, Write (''1'', ''eu'', ''queues'', ''a:x'') (''B'', True)),
       (3, Remove (''1'', ''us'', ''queues'', ''b''))] NewMemoryResourceStore) (''1'', ''us'', ''queues'', ''a:x'')
   = Some (''A'', False)"
  by (subst resource_store_refines_map) (simp_all add: valid_scope_def no_colon_def)

text \<open>
  Listing one account and region returns, sorted by identifier and without duplicates, exactly the entries
  that a read in that scope finds and whose identifier contains the filter text, each labelled with the scope.
\<close>

theorem list_scope_exact:
  fixes order :: "string list" and pfx :: string
  assumes reach: "res_reach s" and sc: "no_colon a" "no_colon r" "no_colon t" "a \<noteq> [] \<or> r \<noteq> []"
    and order: "distinct order" "set order = fset (fmdom (entries s))"
  defines "l \<equiv> ListEntries order a r t pfx s"
  shows "sorted (map ID l) \<and> distinct (map ID l) \<and>
    set l = {e\<lparr>Account := a, Region := r\<rparr> | e. (Get a r t (ID e) s :: unit store_error + _) = Inr e \<and> (pfx = [] \<or> Contains (ID e) pfx)}"
proof -
  let ?f = "\<lambda>k. case fmlookup (entries s) k of None \<Rightarrow> None | Some e \<Rightarrow> list_one a r t pfx k e"
  have f: "?f k = Some x \<longleftrightarrow> (\<exists>e. fmlookup (entries s) k = Some e \<and> k = key a r t (ID e) \<and> Type e = t \<and>
      (pfx = [] \<or> Contains (ID e) pfx) \<and> x = e\<lparr>Account := a, Region := r\<rparr>)" for k x
  proof (cases "fmlookup (entries s) k")
    case (Some e)
    from res_invD [OF res_reach_inv [OF reach] Some] obtain a' r' where k: "k = key a' r' (Type e) (ID e)"
      "no_colon a'" "no_colon r'" "no_colon (Type e)" by blast
    then show ?thesis using sc Some
      by (auto simp: list_one_def key_prefixes key_inj)
  qed simp
  have dist: "distinct (map ID (List.map_filter ?f order))"
  proof (rule distinct_map_filter [OF _ order(1)])
    show "k = key a r t (ID x)" if "?f k = Some x" for k x using that unfolding f by auto
  qed
  have "set l = {x. \<exists>k. ?f k = Some x}"
  proof -
    have "?f k = Some x \<Longrightarrow> k \<in> set order" for k x unfolding f order by (auto dest: fmdomI)
    then show ?thesis unfolding l_def ListEntries_def set_sort by (auto simp only: in_set_map_filter) blast
  qed
  also have "\<dots> = {e\<lparr>Account := a, Region := r\<rparr> | e. (Get a r t (ID e) s :: unit store_error + _) = Inr e \<and> (pfx = [] \<or> Contains (ID e) pfx)}"
  proof -
    have "Type e = t" if "fmlookup (entries s) (key a r t (ID e)) = Some e" for e
      using res_invD [OF res_reach_inv [OF reach] that] sc by (auto simp: key_inj)
    moreover have "(Get a r t (ID e) s :: unit store_error + _) = Inr e \<longleftrightarrow> fmlookup (entries s) (key a r t (ID e)) = Some e" for e
      by (simp add: Get_def split: option.split)
    ultimately show ?thesis unfolding f by blast
  qed
  finally show ?thesis using dist
    by (simp add: l_def ListEntries_def distinct_map)
qed

theorem list_scope_exact_witness:
  "(res_demo_entry ''b'' ''B'')\<lparr>CreatedAt := 5, UpdatedAt := 5, Account := ''1'', Region := ''us''\<rparr>
    \<in> set (ListEntries [''1:us:queues:b'', ''1:us:queues:a:x'', ''1:eu:queues:a:x''] ''1'' ''us'' ''queues'' [] res_demo_store)"
proof -
  let ?e = "(res_demo_entry ''b'' ''B'')\<lparr>CreatedAt := 5, UpdatedAt := 5\<rparr>"
  have "set [''1:us:queues:b'', ''1:us:queues:a:x'', ''1:eu:queues:a:x''] = fset (fmdom (entries res_demo_store))"
    by (simp only: res_demo_dom)
  from list_scope_exact [OF res_demo_reach _ _ _ _ _ this, of "''1''" "''us''" "''queues''" "[]"]
  have "set (ListEntries [''1:us:queues:b'', ''1:us:queues:a:x'', ''1:eu:queues:a:x''] ''1'' ''us'' ''queues'' [] res_demo_store) =
      {e\<lparr>Account := ''1'', Region := ''us''\<rparr> | e. (Get ''1'' ''us'' ''queues'' (ID e) res_demo_store :: unit store_error + _) = Inr e}"
    by (simp add: no_colon_def)
  moreover have "(Get ''1'' ''us'' ''queues'' (ID ?e) res_demo_store :: unit store_error + _) = Inr ?e"
    by (simp add: Get_def res_demo_store_def res_demo_upsert_def Upsert_def Let_def key_def res_demo_entry_def NewMemoryResourceStore_def)
  ultimately show ?thesis by auto
qed



text \<open>
  A list across all scopes labels every entry with the scope it was read from, so that a read with those
  labels finds that entry again: exactly the entries of the type whose identifier contains the filter text.
\<close>

theorem list_all_scopes_exact:
  assumes reach: "res_reach s" and t: "no_colon t" and order: "set order = fset (fmdom (entries s))"
  shows "x \<in> set (ListEntries order [] [] t pfx s) \<longleftrightarrow>
    (\<exists>e. x = e\<lparr>Account := Account x, Region := Region x\<rparr> \<and> no_colon (Account x) \<and> no_colon (Region x) \<and>
       (Get (Account x) (Region x) t (ID x) s :: unit store_error + _) = Inr e \<and> (pfx = [] \<or> Contains (ID x) pfx))"
    (is "?l \<longleftrightarrow> ?r")
proof
  note inv = res_invD [OF res_reach_inv [OF reach]]
  assume ?l
  then obtain k e where k: "fmlookup (entries s) k = Some e" "list_one [] [] t pfx k e = Some x"
    by (auto simp: ListEntries_def in_set_map_filter split: option.splits)
  from inv [OF k(1)] obtain a r where key: "k = key a r (Type e) (ID e)" "no_colon a" "no_colon r" "no_colon (Type e)" by blast
  with k(2) have "Type e = t" "x = e\<lparr>Account := a, Region := r\<rparr>" "pfx = [] \<or> Contains (ID e) pfx"
    by (auto simp: list_one_def key_SplitN Let_def split: if_splits)
  with k(1) key show ?r by (intro exI [of _ e]) (simp add: Get_def)
next
  note inv = res_invD [OF res_reach_inv [OF reach]]
  assume ?r
  then obtain e where e: "x = e\<lparr>Account := Account x, Region := Region x\<rparr>" "no_colon (Account x)" "no_colon (Region x)"
    "fmlookup (entries s) (key (Account x) (Region x) t (ID x)) = Some e" "pfx = [] \<or> Contains (ID x) pfx"
    by (auto simp: Get_def split: option.splits)
  have "ID x = ID e" by (subst e(1)) simp
  with e t have "list_one [] [] t pfx (key (Account x) (Region x) t (ID x)) e = Some x"
    by (auto simp: list_one_def key_SplitN Let_def)
  moreover have "key (Account x) (Region x) t (ID x) \<in> set order" using e(4) order by (auto dest: fmdomI)
  ultimately show ?l using e(4) by (auto simp: ListEntries_def in_set_map_filter intro!: bexI [of _ "key (Account x) (Region x) t (ID x)"])
qed

theorem list_all_scopes_exact_witness:
  "(res_demo_entry ''b'' ''B'')\<lparr>CreatedAt := 5, UpdatedAt := 5, Account := ''1'', Region := ''us''\<rparr>
    \<in> set (ListEntries [''1:us:queues:b'', ''1:us:queues:a:x'', ''1:eu:queues:a:x''] [] [] ''queues'' [] res_demo_store)"
proof -
  let ?e = "(res_demo_entry ''b'' ''B'')\<lparr>CreatedAt := 5, UpdatedAt := 5\<rparr>"
  let ?x = "?e\<lparr>Account := ''1'', Region := ''us''\<rparr>"
  have dom: "set [''1:us:queues:b'', ''1:us:queues:a:x'', ''1:eu:queues:a:x''] = fset (fmdom (entries res_demo_store))"
    by (simp only: res_demo_dom)
  have "(Get (Account ?x) (Region ?x) ''queues'' (ID ?x) res_demo_store :: unit store_error + _) = Inr ?e"
    by (simp add: Get_def res_demo_store_def res_demo_upsert_def Upsert_def Let_def key_def res_demo_entry_def NewMemoryResourceStore_def)
  then show ?thesis
    by (subst list_all_scopes_exact [OF res_demo_reach _ dom]) (auto simp: no_colon_def)
qed

text \<open>
  \<open>UpsertAtomic\<close> gives the caller's function the entry a read would return and writes its result:
  a later read returns exactly the returned entry, under the requested type and identifier, with its creation
  time kept if it existed and set otherwise; an aborting function and an empty region change nothing.
\<close>

theorem upsert_atomic_read_modify_write:
  assumes "r \<noteq> []"
  shows "case mutate (case (Get a r t i s :: unit store_error + _) of Inl _ \<Rightarrow> zero_entry | Inr e \<Rightarrow> e)
          (case (Get a r t i s :: unit store_error + _) of Inl _ \<Rightarrow> False | Inr e \<Rightarrow> True) of
      Inl err \<Rightarrow> UpsertAtomic now a r t i mutate s = Inl (ErrMutate err)
    | Inr nxt \<Rightarrow> \<exists>s' e. UpsertAtomic now a r t i mutate s = Inr (s', e) \<and>
        (Get a r t i s' :: unit store_error + _) = Inr e \<and> Type e = t \<and> ID e = i \<and> payload e = payload nxt \<and> UpdatedAt e = now \<and>
        CreatedAt e = (case (Get a r t i s :: unit store_error + _) of Inl _ \<Rightarrow> now | Inr old \<Rightarrow> CreatedAt old) \<and>
        (\<forall>k. k \<noteq> key a r t i \<longrightarrow> fmlookup (entries s') k = fmlookup (entries s) k)"
  using assms by (cases "fmlookup (entries s) (key a r t i)") (auto simp: UpsertAtomic_def Get_def Let_def payload_def split: sum.splits)

theorem upsert_atomic_read_modify_write_witness:
  "\<exists>s' e. UpsertAtomic 9 ''1'' ''us'' ''queues'' ''b'' (\<lambda>e found. Inr (e\<lparr>Data := Data e @ ''!''\<rparr>) :: string + _) res_demo_store = Inr (s', e) \<and>
     (Get ''1'' ''us'' ''queues'' ''b'' s' :: unit store_error + _) = Inr e"
  using upsert_atomic_read_modify_write [where r = "''us''" and a = "''1''" and t = "''queues''" and i = "''b''" and now = 9
      and s = res_demo_store and mutate = "\<lambda>e found. Inr (e\<lparr>Data := Data e @ ''!''\<rparr>) :: string + _"]
  by auto

end
