(* ===== verification/Dynamo_Paths.thy ===== *)
theory Dynamo_Paths
  imports Go_Strings
begin

text \<open>
  Nested attribute paths of DynamoDB items: \<open>internal/aws/store/dynamodb/paths.go\<close>,
  \<open>projection.go\<close>, the attribute readers of \<open>schema.go\<close> and \<open>splitComma\<close> of \<open>memory.go\<close>.

  An item is a map from attribute names to values as the JSON decoder builds them: nil, strings, other
  scalars, maps and lists. A typed attribute is a map with one key, \<open>M\<close> for a nested map and \<open>L\<close> for
  a list. An operation that writes into an item returns the updated item; items are trees, so that writing
  into a nested map in place and rebuilding it are the same.
\<close>

section \<open>Values and paths\<close>

datatype val = Nil | Str string | Scalar string | Map "(string, val) fmap" | Arr "val list"

type_synonym item = "(string, val) fmap"

record PathPart =
  Name :: string
  Index :: int

definition noIndex :: int where "noIndex = -1"

abbreviation named :: "string \<Rightarrow> PathPart" where
  "named n \<equiv> \<lparr>Name = n, Index = noIndex\<rparr>"

abbreviation indexed :: "int \<Rightarrow> PathPart" where
  "indexed i \<equiv> \<lparr>Name = [], Index = i\<rparr>"

text \<open>The scan that splits at a separator outside brackets; \<open>cur\<close> is the current segment, reversed.\<close>

fun split_outside :: "char set \<Rightarrow> char set \<Rightarrow> char \<Rightarrow> int \<Rightarrow> string \<Rightarrow> string \<Rightarrow> string list" where
  "split_outside opn cls sep depth cur [] = (if cur = [] then [] else [rev cur])"
| "split_outside opn cls sep depth cur (c # cs) =
     (if c \<in> opn then split_outside opn cls sep (depth + 1) (c # cur) cs
      else if c \<in> cls then split_outside opn cls sep (depth - 1) (c # cur) cs
      else if c = sep \<and> depth = 0 then rev cur # split_outside opn cls sep depth [] cs
      else split_outside opn cls sep depth (c # cur) cs)"

definition splitPathSegments :: "string \<Rightarrow> string list" where
  "splitPathSegments ref = split_outside {CHR ''[''} {CHR '']''} CHR ''.'' 0 [] ref"

definition splitComma :: "string \<Rightarrow> string list" where
  "splitComma s = map TrimSpace (split_outside {CHR ''('', CHR ''[''} {CHR '')'', CHR '']''} CHR '','' 0 [] s)"

text \<open>The loop over the bracketed indexes of a segment.\<close>

function index_parts :: "string \<Rightarrow> PathPart list" where
  "index_parts rest =
     (if rest = [] \<or> hd rest \<noteq> CHR ''['' then []
      else case IndexByte rest CHR '']'' of
        None \<Rightarrow> []
      | Some e \<Rightarrow>
          (case Atoi (take (e - 1) (drop 1 rest)) of
             None \<Rightarrow> []
           | Some n \<Rightarrow> indexed n # index_parts (drop (e + 1) rest)))"
  by pat_completeness auto
termination by (relation "measure length") auto

declare index_parts.simps [simp del]

definition segment_parts :: "string \<Rightarrow> PathPart list" where
  "segment_parts seg =
     (case IndexByte seg CHR ''['' of
        None \<Rightarrow> [named seg]
      | Some i \<Rightarrow> (if take i seg = [] then [] else [named (take i seg)]) @ index_parts (drop i seg))"

definition ParsePathParts :: "string \<Rightarrow> PathPart list" where
  "ParsePathParts ref = concat (map segment_parts (splitPathSegments ref))"

definition ResolveParts :: "PathPart list \<Rightarrow> (string, string) fmap \<Rightarrow> PathPart list" where
  "ResolveParts parts names =
     map (\<lambda>p. if HasPrefix (Name p) ''#''
              then p\<lparr>Name := (case fmlookup names (Name p) of Some n \<Rightarrow> n | None \<Rightarrow> drop 1 (Name p))\<rparr>
              else p) parts"

section \<open>Reading\<close>

definition get_M :: "val \<Rightarrow> item option" where
  "get_M v = (case v of Map m \<Rightarrow> (case fmlookup m ''M'' of Some (Map i) \<Rightarrow> Some i | _ \<Rightarrow> None) | _ \<Rightarrow> None)"

definition get_L :: "val \<Rightarrow> val list option" where
  "get_L v = (case v of Map m \<Rightarrow> (case fmlookup m ''L'' of Some (Arr l) \<Rightarrow> Some l | _ \<Rightarrow> None) | _ \<Rightarrow> None)"

fun resolveInValue :: "val \<Rightarrow> PathPart list \<Rightarrow> val option" where
  "resolveInValue v [] = Some v"
| "resolveInValue v (part # rest) =
     (if Name part \<noteq> [] then
        (case get_M v of
           None \<Rightarrow> None
         | Some m \<Rightarrow> (case fmlookup m (Name part) of None \<Rightarrow> None | Some attr \<Rightarrow> resolveInValue attr rest))
      else case get_L v of
        None \<Rightarrow> None
      | Some l \<Rightarrow>
          if Index part < 0 \<or> Index part \<ge> int (length l) then None
          else resolveInValue (l ! nat (Index part)) rest)"

definition ResolvePath :: "item \<Rightarrow> PathPart list \<Rightarrow> val option" where
  "ResolvePath it parts =
     (case parts of
        [] \<Rightarrow> None
      | p # rest \<Rightarrow>
          if Name p = [] then None
          else case fmlookup it (Name p) of
            None \<Rightarrow> None
          | Some v \<Rightarrow> if rest = [] then Some v else resolveInValue v rest)"

section \<open>Writing\<close>

datatype path_error = EmptyPath | TopLevelMustBeNamed | NegativeListIndex

text \<open>The child a map lookup yields, nil if it is absent.\<close>

definition child_of :: "item \<Rightarrow> string \<Rightarrow> val" where
  "child_of m n = the_default Nil (fmlookup m n)"

definition pad_list :: "val list \<Rightarrow> nat \<Rightarrow> val list" where
  "pad_list l i = l @ replicate (i + 1 - length l) Nil"

fun setInValue :: "val \<Rightarrow> PathPart list \<Rightarrow> val \<Rightarrow> path_error + val" where
  "setInValue v [] x = Inr x"
| "setInValue v (part # rest) x =
     (if Name part \<noteq> [] then
        let innerMap = the_default fmempty (get_M v)
        in case setInValue (child_of innerMap (Name part)) rest x of
             Inl e \<Rightarrow> Inl e
           | Inr newChild \<Rightarrow> Inr (Map (fmap_of_list [(''M'', Map (fmupd (Name part) newChild innerMap))]))
      else if Index part < 0 then Inl NegativeListIndex
      else let l = pad_list (the_default [] (get_L v)) (nat (Index part))
        in case setInValue (l ! nat (Index part)) rest x of
             Inl e \<Rightarrow> Inl e
           | Inr newChild \<Rightarrow> Inr (Map (fmap_of_list [(''L'', Arr (l[nat (Index part) := newChild]))])))"

definition SetPath :: "item \<Rightarrow> PathPart list \<Rightarrow> val \<Rightarrow> path_error + item" where
  "SetPath it parts x =
     (case parts of
        [] \<Rightarrow> Inl EmptyPath
      | p # rest \<Rightarrow>
          if Name p = [] then Inl TopLevelMustBeNamed
          else if rest = [] then Inr (fmupd (Name p) x it)
          else case setInValue (child_of it (Name p)) rest x of
            Inl e \<Rightarrow> Inl e
          | Inr newVal \<Rightarrow> Inr (fmupd (Name p) newVal it))"

section \<open>Removing\<close>

fun removeInValue :: "val \<Rightarrow> PathPart list \<Rightarrow> val \<times> bool" where
  "removeInValue v [] = (Nil, False)"
| "removeInValue v (part # rest) =
     (if Name part \<noteq> [] then
        (case get_M v of
           None \<Rightarrow> (v, False)
         | Some m \<Rightarrow>
             if rest = [] then (Map (fmap_of_list [(''M'', Map (fmdrop (Name part) m))]), True)
             else case fmlookup m (Name part) of
               None \<Rightarrow> (v, False)
             | Some child \<Rightarrow>
                 (case removeInValue child rest of
                    (newChild, changed) \<Rightarrow>
                      if \<not> changed then (v, False)
                      else (Map (fmap_of_list [(''M'', Map (fmupd (Name part) newChild m))]), True)))
      else case get_L v of
        None \<Rightarrow> (v, False)
      | Some l \<Rightarrow>
          if Index part < 0 \<or> Index part \<ge> int (length l) then (v, False)
          else let i = nat (Index part)
            in if rest = [] then (Map (fmap_of_list [(''L'', Arr (take i l @ drop (i + 1) l))]), True)
               else (case removeInValue (l ! i) rest of
                       (newChild, changed) \<Rightarrow>
                         if \<not> changed then (v, False)
                         else (Map (fmap_of_list [(''L'', Arr (l[i := newChild]))]), True)))"

definition RemovePath :: "item \<Rightarrow> PathPart list \<Rightarrow> item" where
  "RemovePath it parts =
     (case parts of
        [] \<Rightarrow> it
      | p # rest \<Rightarrow>
          if Name p = [] then it
          else if rest = [] then fmdrop (Name p) it
          else case fmlookup it (Name p) of
            None \<Rightarrow> it
          | Some v \<Rightarrow>
              (case removeInValue v rest of (newV, changed) \<Rightarrow> if changed then fmupd (Name p) newV it else it))"

section \<open>Projections\<close>

definition resolve_segment :: "(string, string) fmap \<Rightarrow> string \<Rightarrow> string" where
  "resolve_segment names seg =
     (let (base, suffix) = (case IndexByte seg CHR ''['' of None \<Rightarrow> (seg, []) | Some i \<Rightarrow> (take i seg, drop i seg))
      in (if HasPrefix base ''#'' then (case fmlookup names base of Some v \<Rightarrow> v | None \<Rightarrow> base) else base) @ suffix)"

definition resolveProjectionPath :: "string \<Rightarrow> (string, string) fmap \<Rightarrow> string" where
  "resolveProjectionPath path names = Join (map (resolve_segment names) (Split path CHR ''.'')) ''.''"

text \<open>A nil slice is the empty list: the callers test its length only.\<close>

definition ParseProjection :: "string \<Rightarrow> (string, string) fmap \<Rightarrow> string list" where
  "ParseProjection e names =
     (if e = [] then []
      else map (\<lambda>p. resolveProjectionPath p names) (filter (\<lambda>p. p \<noteq> []) (map TrimSpace (splitComma e))))"

definition splitPath :: "string \<Rightarrow> string list" where
  "splitPath path = Split path CHR ''.''"

text \<open>\<open>parseListIndex\<close>: \<open>None\<close> for -1; the accumulated index wraps at 64 bits.\<close>

fun list_index_loop :: "int \<Rightarrow> string \<Rightarrow> int option" where
  "list_index_loop n [] = Some n"
| "list_index_loop n (c # cs) =
     (if c < CHR ''0'' \<or> c > CHR ''9'' then None else list_index_loop (wrap64 (wrap64 (n * 10) + int (digit_val c))) cs)"

definition parseListIndex :: "string \<Rightarrow> int" where
  "parseListIndex s =
     (if length s < 3 \<or> hd s \<noteq> CHR ''['' \<or> last s \<noteq> CHR '']'' then -1
      else the_default (-1) (list_index_loop 0 (butlast (tl s))))"

fun getNestedValue :: "val \<Rightarrow> string list \<Rightarrow> val" where
  "getNestedValue cur [] = cur"
| "getNestedValue cur (seg # segs) =
     (let (base, listIdx) = (case IndexByte seg CHR ''['' of
              None \<Rightarrow> (seg, -1) | Some i \<Rightarrow> (take i seg, parseListIndex (drop i seg)))
      in case cur of
           Map m \<Rightarrow>
             (let cur = child_of m base
              in if listIdx \<ge> 0 then
                   (case cur of
                      Arr l \<Rightarrow> if listIdx \<ge> int (length l) then Nil else getNestedValue (l ! nat listIdx) segs
                    | _ \<Rightarrow> Nil)
                 else getNestedValue cur segs)
         | _ \<Rightarrow> Nil)"

fun setNestedValue :: "item \<Rightarrow> string list \<Rightarrow> val \<Rightarrow> item" where
  "setNestedValue out [] x = out"
| "setNestedValue out [seg] x = fmupd seg x out"
| "setNestedValue out (seg # seg' # segs) x =
     (let sub = (case fmlookup out seg of Some (Map m) \<Rightarrow> m | _ \<Rightarrow> fmempty)
      in fmupd seg (Map (setNestedValue sub (seg' # segs) x)) out)"

definition project_one :: "item \<Rightarrow> string \<Rightarrow> item \<Rightarrow> item" where
  "project_one it path out =
     (let segments = splitPath path
      in if segments = [] then out
         else let top = hd segments
           in case fmlookup it top of
                None \<Rightarrow> out
              | Some v \<Rightarrow>
                  if length segments = 1 then fmupd top v out
                  else let x = getNestedValue (Map it) segments
                    in if x \<noteq> Nil then setNestedValue out segments x else out)"

definition ApplyProjection :: "item \<Rightarrow> string list \<Rightarrow> item" where
  "ApplyProjection it attrs = (if attrs = [] then it else fold (project_one it) attrs fmempty)"

section \<open>Typed attributes\<close>

definition AttrVal :: "val \<Rightarrow> string option" where
  "AttrVal v =
     (case v of
        Map m \<Rightarrow>
          (case find (\<lambda>t. case fmlookup m t of Some (Str s) \<Rightarrow> True | _ \<Rightarrow> False) [''S'', ''N'', ''B''] of
             None \<Rightarrow> None
           | Some t \<Rightarrow> (case fmlookup m t of Some (Str s) \<Rightarrow> Some s | _ \<Rightarrow> None))
      | _ \<Rightarrow> None)"

definition AttrType :: "val \<Rightarrow> string" where
  "AttrType v =
     (case v of Map m \<Rightarrow> the_default [] (find (\<lambda>t. fmlookup m t \<noteq> None) [''S'', ''N'', ''B'']) | _ \<Rightarrow> [])"

section \<open>Reading back what was written\<close>

lemma get_M_typed [simp]: "get_M (Map (fmupd ''M'' (Map m) fmempty)) = Some m"
  by (simp add: get_M_def)

lemma get_L_typed [simp]: "get_L (Map (fmupd ''L'' (Arr l) fmempty)) = Some l"
  by (simp add: get_L_def)

lemma get_Nil [simp]: "get_M Nil = None" "get_L Nil = None"
  by (simp_all add: get_M_def get_L_def)

lemma resolve_Nil: "ps \<noteq> [] \<Longrightarrow> resolveInValue Nil ps = None"
  by (cases ps) simp_all

lemma length_pad_list [simp]: "i < length (pad_list l i)"
  by (simp add: pad_list_def)

lemma nth_pad_list: "pad_list l i ! i = (if i < length l then l ! i else Nil)"
  by (simp add: pad_list_def nth_append)

lemma set_resolves: "setInValue v ps x = Inr v' \<Longrightarrow> resolveInValue v' ps = Some x"
proof (induction ps arbitrary: v v')
  case (Cons p ps)
  show ?case
  proof (cases "Name p = []")
    case True
    let ?i = "nat (Index p)"
    let ?l = "pad_list (the_default [] (get_L v)) ?i"
    from Cons.prems True obtain c where c: "0 \<le> Index p" "setInValue (?l ! ?i) ps x = Inr c" "v' = Map (fmap_of_list [(''L'', Arr (?l[?i := c]))])"
      by (auto simp: Let_def split: if_splits sum.splits)
    have "int ?i < int (length ?l)" by (simp only: of_nat_less_iff length_pad_list)
    with True c Cons.IH [OF c(2)] show ?thesis by simp
  qed (use Cons in \<open>auto simp: Let_def split: sum.splits\<close>)
qed simp

lemma case_sum_Inr: "(\<exists>y. (case r of Inl e \<Rightarrow> Inl e | Inr n \<Rightarrow> Inr (f n)) = Inr y) \<longleftrightarrow> (\<exists>n. r = Inr n)"
  by (auto split: sum.splits)

lemma set_succeeds: "(\<exists>v'. setInValue v ps x = Inr v') \<longleftrightarrow> (\<forall>p \<in> set ps. Name p = [] \<longrightarrow> 0 \<le> Index p)"
proof (induction ps arbitrary: v)
  case (Cons p ps)
  show ?case by (cases "Name p = []"; cases "Index p < 0") (simp_all add: Let_def case_sum_Inr Cons.IH)
qed simp

text \<open>Two paths that part at names.\<close>

definition diverge :: "PathPart list \<Rightarrow> PathPart list \<Rightarrow> bool" where
  "diverge ps qs \<longleftrightarrow> (\<exists>us p vs q ws. ps = us @ p # vs \<and> qs = us @ q # ws \<and> Name p \<noteq> [] \<and> Name q \<noteq> [] \<and> Name p \<noteq> Name q)"

lemma set_keeps:
  assumes "Name p \<noteq> []" "Name q \<noteq> []" "Name p \<noteq> Name q"
  shows "setInValue v (us @ p # vs) x = Inr v' \<Longrightarrow> resolveInValue v' (us @ q # ws) = resolveInValue v (us @ q # ws)"
proof (induction us arbitrary: v v')
  case Nil
  then show ?case using assms by (auto simp: Let_def split: sum.splits option.splits)
next
  case (Cons u us)
  show ?case
  proof (cases "Name u = []")
    case True
    let ?i = "nat (Index u)"
    let ?l0 = "the_default [] (get_L v)"
    let ?l = "pad_list ?l0 ?i"
    from Cons.prems True obtain c where c: "0 \<le> Index u" "setInValue (?l ! ?i) (us @ p # vs) x = Inr c"
      "v' = Map (fmap_of_list [(''L'', Arr (?l[?i := c]))])" by (auto simp: Let_def split: if_splits sum.splits)
    have "int ?i < int (length ?l)" by (simp only: of_nat_less_iff length_pad_list)
    with True c have "resolveInValue v' ((u # us) @ q # ws) = resolveInValue c (us @ q # ws)" by simp
    also have "\<dots> = resolveInValue (?l ! ?i) (us @ q # ws)" by (rule Cons.IH [OF c(2)])
    also have "\<dots> = resolveInValue v ((u # us) @ q # ws)"
    proof (cases "get_L v")
      case None
      with True show ?thesis by (simp add: nth_pad_list resolve_Nil)
    next
      case (Some l)
      with True c(1) show ?thesis by (auto simp: nth_pad_list resolve_Nil)
    qed
    finally show ?thesis .
  next
    case False
    let ?m = "the_default fmempty (get_M v)"
    from Cons.prems False obtain c where c: "setInValue (child_of ?m (Name u)) (us @ p # vs) x = Inr c"
      "v' = Map (fmap_of_list [(''M'', Map (fmupd (Name u) c ?m))])" by (auto simp: Let_def split: sum.splits)
    with False have "resolveInValue v' ((u # us) @ q # ws) = resolveInValue c (us @ q # ws)" by simp
    also have "\<dots> = resolveInValue (child_of ?m (Name u)) (us @ q # ws)" by (rule Cons.IH [OF c(1)])
    also have "\<dots> = resolveInValue v ((u # us) @ q # ws)"
      using False by (auto simp: child_of_def resolve_Nil the_default_def split: option.splits)
    finally show ?thesis .
  qed
qed

subsection \<open>Removal\<close>

lemma remove_gone:
  "Name (last (p # ps)) \<noteq> [] \<Longrightarrow> (let (v', changed) = removeInValue v (p # ps) in resolveInValue (if changed then v' else v) (p # ps) = None)"
proof (induction ps arbitrary: p v)
  case Nil
  then show ?case by (auto split: option.splits)
next
  case (Cons q qs)
  show ?case
  proof (cases "Name p = []")
    case True
    show ?thesis
    proof (cases "get_L v")
      case (Some l)
      with True Cons.IH [of q "l ! nat (Index p)"] Cons.prems show ?thesis
        by (cases "removeInValue (l ! nat (Index p)) (q # qs)") (auto simp: Let_def split: if_splits)
    qed (use True in simp)
  next
    case False
    show ?thesis
    proof (cases "get_M v")
      case (Some m)
      show ?thesis
      proof (cases "fmlookup m (Name p)")
        case child: (Some c)
        with Some False Cons.IH [of q c] Cons.prems show ?thesis
          by (cases "removeInValue c (q # qs)") (auto simp: Let_def split: if_splits)
      qed (use Some False in simp)
    qed (use False in simp)
  qed
qed

lemma remove_keeps:
  assumes "Name p \<noteq> []" "Name q \<noteq> []" "Name p \<noteq> Name q"
  shows "removeInValue v (us @ p # vs) = (v', True) \<Longrightarrow> resolveInValue v' (us @ q # ws) = resolveInValue v (us @ q # ws)"
proof (induction us arbitrary: v v')
  case Nil
  then show ?case using assms by (auto split: option.splits if_splits prod.splits)
next
  case (Cons u us)
  have ne: "us @ p # vs \<noteq> []" by simp
  show ?case
  proof (cases "Name u = []")
    case True
    from Cons.prems True ne obtain l c where l: "get_L v = Some l" "0 \<le> Index u" "Index u < int (length l)"
      "removeInValue (l ! nat (Index u)) (us @ p # vs) = (c, True)" "v' = Map (fmap_of_list [(''L'', Arr (l[nat (Index u) := c]))])"
      by (auto simp: Let_def split: option.splits if_splits prod.splits)
    then show ?thesis using True Cons.IH [OF l(4)] by simp
  next
    case False
    from Cons.prems False ne obtain m d c where m: "get_M v = Some m" "fmlookup m (Name u) = Some d"
      "removeInValue d (us @ p # vs) = (c, True)" "v' = Map (fmap_of_list [(''M'', Map (fmupd (Name u) c m))])"
      by (auto split: option.splits if_splits prod.splits)
    then show ?thesis using False Cons.IH [OF m(3)] by simp
  qed
qed

section \<open>Paths of an item\<close>

lemma ResolvePath_Cons: "Name p \<noteq> [] \<Longrightarrow> ResolvePath it (p # ps) = Option.bind (fmlookup it (Name p)) (\<lambda>v. resolveInValue v ps)"
  by (auto simp: ResolvePath_def split: option.split)

lemma SetPath_resolves: "SetPath it ps x = Inr it' \<Longrightarrow> ResolvePath it' ps = Some x"
  by (cases ps) (auto simp: SetPath_def ResolvePath_Cons dest: set_resolves split: if_splits sum.splits)

lemma SetPath_keeps:
  assumes "SetPath it ps x = Inr it'" "diverge ps qs"
  shows "ResolvePath it' qs = ResolvePath it qs"
proof -
  from assms(2) obtain us p vs q ws where d: "ps = us @ p # vs" "qs = us @ q # ws" "Name p \<noteq> []" "Name q \<noteq> []" "Name p \<noteq> Name q"
    by (auto simp: diverge_def)
  show ?thesis
  proof (cases us)
    case Nil
    with assms(1) d show ?thesis by (auto simp: SetPath_def ResolvePath_Cons split: if_splits sum.splits)
  next
    case (Cons u us')
    from assms(1) d(1) Cons obtain nv where nv: "Name u \<noteq> []" "setInValue (child_of it (Name u)) (us' @ p # vs) x = Inr nv" "it' = fmupd (Name u) nv it"
      by (auto simp: SetPath_def split: if_splits sum.splits)
    from set_keeps [OF d(3-5) nv(2), of ws] nv(1,3) d(2) Cons show ?thesis
      by (auto simp: ResolvePath_Cons child_of_def resolve_Nil the_default_def split: option.splits)
  qed
qed

lemma RemovePath_gone:
  assumes "ps \<noteq> []" "Name (last ps) \<noteq> []"
  shows "ResolvePath (RemovePath it ps) ps = None"
proof (cases ps)
  case (Cons p qs)
  show ?thesis
  proof (cases "Name p = [] \<or> qs = [] \<or> fmlookup it (Name p) = None")
    case False
    then obtain v q qs' where v: "Name p \<noteq> []" "fmlookup it (Name p) = Some v" "qs = q # qs'" by (cases qs) auto
    with remove_gone [of q qs' v] assms Cons show ?thesis
      by (cases "removeInValue v qs") (auto simp: RemovePath_def ResolvePath_Cons split: if_splits)
  qed (auto simp: Cons RemovePath_def ResolvePath_def)
qed (use assms in simp)

lemma RemovePath_keeps:
  assumes "diverge ps qs"
  shows "ResolvePath (RemovePath it ps) qs = ResolvePath it qs"
proof -
  from assms obtain us p vs q ws where d: "ps = us @ p # vs" "qs = us @ q # ws" "Name p \<noteq> []" "Name q \<noteq> []" "Name p \<noteq> Name q"
    by (auto simp: diverge_def)
  show ?thesis
  proof (cases us)
    case Nil
    with d show ?thesis by (auto simp: RemovePath_def ResolvePath_Cons split: option.splits prod.splits)
  next
    case (Cons u us')
    show ?thesis
    proof (cases "Name u = [] \<or> fmlookup it (Name u) = None \<or> \<not> snd (removeInValue (the (fmlookup it (Name u))) (us' @ p # vs))")
      case False
      then obtain v v' where v: "Name u \<noteq> []" "fmlookup it (Name u) = Some v" "removeInValue v (us' @ p # vs) = (v', True)"
        by (cases "removeInValue (the (fmlookup it (Name u))) (us' @ p # vs)") auto
      with remove_keeps [OF d(3-5) v(3), of ws] d(1,2) Cons show ?thesis by (simp add: RemovePath_def ResolvePath_Cons)
    qed (use d Cons in \<open>auto simp: RemovePath_def split: prod.splits option.splits\<close>)
  qed
qed


definition demo_item :: item where
  "demo_item = fmap_of_list [(''a'', Map (fmap_of_list [(''M'', Map (fmap_of_list [(''b'', Map (fmap_of_list [(''S'', Str ''x'')]))]))]))]"


section \<open>Projections of nested attributes\<close>

definition plain_name :: "string \<Rightarrow> bool" where
  "plain_name n \<longleftrightarrow> n \<noteq> [] \<and> set n \<inter> {CHR ''.'', CHR ''['', CHR '']''} = {}"

lemma IndexByte_none: "c \<notin> set s \<Longrightarrow> IndexByte s c = None"
  by (induction s) auto

lemma split_outside_plain:
  assumes "sep \<notin> opn \<union> cls"
  shows "set w \<inter> (opn \<union> cls \<union> {sep}) = {} \<Longrightarrow>
     split_outside opn cls sep 0 cur (w @ sep # rest) = (rev cur @ w) # split_outside opn cls sep 0 [] rest"
  using assms by (induction w arbitrary: cur) auto

lemma split_outside_last: "set w \<inter> (opn \<union> cls \<union> {sep}) = {} \<Longrightarrow> split_outside opn cls sep 0 cur w = (if rev cur @ w = [] then [] else [rev cur @ w])"
  by (induction w arbitrary: cur) auto

lemma parts_of_two_names:
  assumes "plain_name a" "plain_name b"
  shows "ParsePathParts (a @ ''.'' @ b) = [named a, named b]" "splitPath (a @ ''.'' @ b) = [a, b]"
proof -
  from assms have ab: "set a \<inter> ({CHR ''[''} \<union> {CHR '']''} \<union> {CHR ''.''}) = {}" "set b \<inter> ({CHR ''[''} \<union> {CHR '']''} \<union> {CHR ''.''}) = {}" "a \<noteq> []" "b \<noteq> []"
    by (auto simp: plain_name_def)
  have "splitPathSegments (a @ ''.'' @ b) = [a, b]"
    using split_outside_plain [OF _ ab(1), of "[]" b] split_outside_last [OF ab(2), of "[]"] ab(4) by (simp add: splitPathSegments_def)
  moreover have "IndexByte a CHR ''['' = None" "IndexByte b CHR ''['' = None" using ab by (auto intro!: IndexByte_none)
  ultimately show "ParsePathParts (a @ ''.'' @ b) = [named a, named b]" by (simp add: ParsePathParts_def segment_parts_def)
  show "splitPath (a @ ''.'' @ b) = [a, b]"
    using ab split_loop_append [of "CHR ''.''" a "[]" b] split_loop_no_sep [of "CHR ''.''" b "[]"] by (simp add: splitPath_def Split_def)
qed

text \<open>
  A projection onto a nested attribute loses it. An attribute \<open>a\<close> of map type is stored as
  \<open>{"M": m}\<close>, and the path \<open>a.b\<close> reads \<open>b\<close> of \<open>m\<close>; but the projection onto \<open>a.b\<close> looks for
  \<open>b\<close> beside the type tag and returns an empty item.
\<close>

theorem projection_loses_nested_attribute:
  assumes "plain_name a" "plain_name b" "b \<noteq> ''M''"
    and "fmlookup it a = Some (Map (fmap_of_list [(''M'', Map m)]))"
  shows "ResolvePath it (ParsePathParts (a @ ''.'' @ b)) = fmlookup m b \<and> ApplyProjection it [a @ ''.'' @ b] = fmempty"
proof -
  have i: "IndexByte a CHR ''['' = None" "IndexByte b CHR ''['' = None" "a \<noteq> []" "b \<noteq> []"
    using assms(1,2) by (auto simp: plain_name_def intro!: IndexByte_none)
  have "getNestedValue (Map it) [a, b] = Nil"
    using assms(3,4) i by (simp add: child_of_def)
  then have "ApplyProjection it [a @ ''.'' @ b] = fmempty"
    using assms(4) parts_of_two_names [OF assms(1,2)] by (simp add: ApplyProjection_def project_one_def Let_def)
  moreover have "ResolvePath it [named a, named b] = fmlookup m b"
    using assms(4) i by (simp add: ResolvePath_Cons get_M_def split: option.split)
  ultimately show ?thesis using parts_of_two_names [OF assms(1,2)] by simp
qed

theorem projection_loses_nested_attribute_witness:
  "ResolvePath demo_item (ParsePathParts (''a'' @ ''.'' @ ''b'')) = Some (Map (fmap_of_list [(''S'', Str ''x'')])) \<and>
   ApplyProjection demo_item [''a'' @ ''.'' @ ''b''] = fmempty"
proof -
  have "plain_name ''a''" "plain_name ''b''" by code_simp+
  from projection_loses_nested_attribute [OF this, of demo_item "fmap_of_list [(''b'', Map (fmap_of_list [(''S'', Str ''x'')]))]"]
  show ?thesis by (simp add: demo_item_def)
qed

end
