(* ===== verification/Go_Float.thy ===== *)
theory Go_Float
  imports Go_Strings
begin

text \<open>
  Go's \<open>float64\<close> as far as the packages use it: rounding to the nearest double with ties to even, addition,
  subtraction, multiplication, division and comparison, the verb \<open>%f\<close> of \<open>fmt.Sscanf\<close> and the verb
  \<open>%g\<close> of \<open>fmt.Sprintf\<close>.

  A finite double is a sign, a mantissa below \<open>2 ^ 53\<close> and a binary exponent between -1074 and 971; zero has
  the exponent 0. The functions are exact: they compute on natural numbers and round once.
\<close>

section \<open>Values and rounding\<close>

datatype float64 = FNaN | FInf bool | FFin bool nat int

fun bitlen :: "nat \<Rightarrow> nat" where
  "bitlen n = (if n = 0 then 0 else Suc (bitlen (n div 2)))"

declare bitlen.simps [simp del]

text \<open>The fraction \<open>p / d\<close> divided by \<open>2 ^ e\<close>, and a fraction rounded to the nearest integer, ties to even.\<close>

definition scale :: "nat \<Rightarrow> nat \<Rightarrow> int \<Rightarrow> nat \<times> nat" where
  "scale p d e = (if 0 \<le> e then (p, d * 2 ^ nat e) else (p * 2 ^ nat (- e), d))"

definition half_even :: "nat \<Rightarrow> nat \<Rightarrow> nat" where
  "half_even p d = (let q = p div d; r = p mod d in if 2 * r < d \<or> (2 * r = d \<and> even q) then q else Suc q)"

text \<open>The least exponent, from -1074 on, at which \<open>p / d\<close> has an integer part below \<open>2 ^ 53\<close>.\<close>

definition exponent_of :: "nat \<Rightarrow> nat \<Rightarrow> int" where
  "exponent_of p d =
     (let e = max (-1074) (int (bitlen p) - int (bitlen d) - 53)
      in case scale p d e of (a, b) \<Rightarrow> if a < b * 2 ^ 53 then e else e + 1)"

definition pack :: "bool \<Rightarrow> nat \<Rightarrow> int \<Rightarrow> float64" where
  "pack s m e =
     (if m = 0 then FFin s 0 0
      else if m = 2 ^ 53 then (if e + 1 > 971 then FInf s else FFin s (2 ^ 52) (e + 1))
      else if e > 971 then FInf s else FFin s m e)"

text \<open>The double nearest to \<open>p / d\<close>, with sign \<open>s\<close>; the double nearest to \<open>n * 2 ^ e\<close>.\<close>

definition round_frac :: "bool \<Rightarrow> nat \<Rightarrow> nat \<Rightarrow> float64" where
  "round_frac s p d =
     (if p = 0 then FFin s 0 0
      else let e = exponent_of p d in case scale p d e of (a, b) \<Rightarrow> pack s (half_even a b) e)"

definition round_bin :: "bool \<Rightarrow> nat \<Rightarrow> int \<Rightarrow> float64" where
  "round_bin s n e = (if 0 \<le> e then round_frac s (n * 2 ^ nat e) 1 else round_frac s n (2 ^ nat (- e)))"

text \<open>The conversion \<open>float64(n)\<close> of an integer.\<close>

definition float_of_int :: "int \<Rightarrow> float64" where
  "float_of_int n = round_frac (n < 0) (nat \<bar>n\<bar>) 1"

section \<open>Arithmetic and comparison\<close>

text \<open>A finite value as an integer multiple of \<open>2 ^ f\<close>, for \<open>f\<close> at most its exponent.\<close>

definition units :: "bool \<Rightarrow> nat \<Rightarrow> int \<Rightarrow> int \<Rightarrow> int" where
  "units s m e f = (if s then -1 else 1) * (int m * 2 ^ nat (e - f))"

definition fneg :: "float64 \<Rightarrow> float64" where
  "fneg x = (case x of FNaN \<Rightarrow> FNaN | FInf s \<Rightarrow> FInf (\<not> s) | FFin s m e \<Rightarrow> FFin (\<not> s) m e)"

fun fadd :: "float64 \<Rightarrow> float64 \<Rightarrow> float64" where
  "fadd FNaN y = FNaN"
| "fadd x FNaN = FNaN"
| "fadd (FInf s) (FInf s') = (if s = s' then FInf s else FNaN)"
| "fadd (FInf s) (FFin s' m' e') = FInf s"
| "fadd (FFin s m e) (FInf s') = FInf s'"
| "fadd (FFin s m e) (FFin s' m' e') =
     (let f = min e e'; n = units s m e f + units s' m' e' f
      in if n = 0 then FFin (m = 0 \<and> m' = 0 \<and> s \<and> s') 0 0 else round_bin (n < 0) (nat \<bar>n\<bar>) f)"

definition fsub :: "float64 \<Rightarrow> float64 \<Rightarrow> float64" where
  "fsub x y = fadd x (fneg y)"

fun fmul :: "float64 \<Rightarrow> float64 \<Rightarrow> float64" where
  "fmul FNaN y = FNaN"
| "fmul x FNaN = FNaN"
| "fmul (FInf s) (FInf s') = FInf (s \<noteq> s')"
| "fmul (FInf s) (FFin s' m' e') = (if m' = 0 then FNaN else FInf (s \<noteq> s'))"
| "fmul (FFin s m e) (FInf s') = (if m = 0 then FNaN else FInf (s \<noteq> s'))"
| "fmul (FFin s m e) (FFin s' m' e') = round_bin (s \<noteq> s') (m * m') (e + e')"

fun fless :: "float64 \<Rightarrow> float64 \<Rightarrow> bool" where
  "fless FNaN y = False"
| "fless x FNaN = False"
| "fless (FInf s) (FInf s') = (s \<and> \<not> s')"
| "fless (FInf s) (FFin s' m' e') = s"
| "fless (FFin s m e) (FInf s') = (\<not> s')"
| "fless (FFin s m e) (FFin s' m' e') = (units s m e (min e e') < units s' m' e' (min e e'))"

fun feq :: "float64 \<Rightarrow> float64 \<Rightarrow> bool" where
  "feq FNaN y = False"
| "feq x FNaN = False"
| "feq (FInf s) (FInf s') = (s = s')"
| "feq (FInf s) (FFin s' m' e') = False"
| "feq (FFin s m e) (FInf s') = False"
| "feq (FFin s m e) (FFin s' m' e') = (units s m e (min e e') = units s' m' e' (min e e'))"

definition fle :: "float64 \<Rightarrow> float64 \<Rightarrow> bool" where
  "fle x y \<longleftrightarrow> fless x y \<or> feq x y"

section \<open>Reading a number\<close>

subsection \<open>The syntax of \<open>strconv.ParseFloat\<close>\<close>

definition is_hex :: "char \<Rightarrow> bool" where
  "is_hex c \<longleftrightarrow> is_digit c \<or> lower_char c \<in> set ''abcdef''"

definition hex_val :: "char \<Rightarrow> nat" where
  "hex_val c = (if is_digit c then digit_val c else byte (lower_char c) - 87)"

text \<open>
  The mantissa of a number in base \<open>b\<close>: digits with at most one point, and underscores. The result is the value of
  the digits, the number of digits after the point, whether there was a digit, and the rest.
\<close>

fun mantissa :: "nat \<Rightarrow> nat \<Rightarrow> nat \<Rightarrow> bool \<Rightarrow> bool \<Rightarrow> string \<Rightarrow> nat \<times> nat \<times> bool \<times> string" where
  "mantissa b v k dot saw [] = (v, k, saw, [])"
| "mantissa b v k dot saw (c # cs) =
     (if c = CHR ''_'' then mantissa b v k dot saw cs
      else if c = CHR ''.'' \<and> \<not> dot then mantissa b v k True saw cs
      else if (if b = 16 then is_hex c else is_digit c) then
        mantissa b (b * v + hex_val c) (if dot then Suc k else k) dot True cs
      else (v, k, saw, c # cs))"

text \<open>An underscore stands between digits, or between a base prefix and a digit.\<close>

fun underscore_loop :: "bool \<Rightarrow> char \<Rightarrow> string \<Rightarrow> bool" where
  "underscore_loop hex prev [] = (prev \<noteq> CHR ''_'')"
| "underscore_loop hex prev (c # cs) =
     (if is_digit c \<or> (hex \<and> is_hex c) then underscore_loop hex CHR ''0'' cs
      else if c = CHR ''_'' then prev = CHR ''0'' \<and> underscore_loop hex CHR ''_'' cs
      else prev \<noteq> CHR ''_'' \<and> underscore_loop hex CHR ''!'' cs)"

definition underscoreOK :: "string \<Rightarrow> bool" where
  "underscoreOK s =
     (let s = (if s \<noteq> [] \<and> (hd s = CHR ''-'' \<or> hd s = CHR ''+'') then tl s else s)
      in if length s \<ge> 2 \<and> hd s = CHR ''0'' \<and> lower_char (s ! 1) \<in> set ''box''
         then underscore_loop (lower_char (s ! 1) = CHR ''x'') CHR ''0'' (drop 2 s)
         else underscore_loop False CHR ''^'' s)"

text \<open>The exponent, after its letter: a sign and digits, underscores skipped; it stops growing at 10000.\<close>

definition exponent_digits :: "string \<Rightarrow> (int \<times> string) option" where
  "exponent_digits s =
     (let neg = s \<noteq> [] \<and> hd s = CHR ''-'';
          t = (if s \<noteq> [] \<and> (hd s = CHR ''-'' \<or> hd s = CHR ''+'') then tl s else s)
      in if t = [] \<or> \<not> is_digit (hd t) then None
         else let ds = takeWhile (\<lambda>c. is_digit c \<or> c = CHR ''_'') t;
                  v = fold (\<lambda>c e. if e < 10000 then e * 10 + int (digit_val c) else e) (filter is_digit ds) (0 :: int)
           in Some (if neg then - v else v, drop (length ds) t))"

definition split_sign :: "string \<Rightarrow> bool \<times> string" where
  "split_sign s = (case s of c # cs \<Rightarrow> if c = CHR ''-'' then (True, cs) else if c = CHR ''+'' then (False, cs) else (False, s) | [] \<Rightarrow> (False, []))"

text \<open>\<open>v * 10 ^ x\<close> and \<open>v * 2 ^ x\<close> rounded; \<open>ErrRange\<close> when that overflows.\<close>

definition round_dec :: "bool \<Rightarrow> nat \<Rightarrow> int \<Rightarrow> float64" where
  "round_dec s v x = (if 0 \<le> x then round_frac s (v * 10 ^ nat x) 1 else round_frac s v (10 ^ nat (- x)))"

definition in_range :: "float64 \<Rightarrow> float64 option" where
  "in_range x = (case x of FInf s \<Rightarrow> None | _ \<Rightarrow> Some x)"

definition ParseFloat :: "string \<Rightarrow> float64 option" where
  "ParseFloat str =
     (let (neg, s) = split_sign str; l = map lower_char s
      in if l = ''inf'' \<or> l = ''infinity'' then Some (FInf neg)
         else if map lower_char str = ''nan'' then Some FNaN
         else let hex = (length s > 2 \<and> hd s = CHR ''0'' \<and> lower_char (s ! 1) = CHR ''x'')
           in case mantissa (if hex then 16 else 10) 0 0 False False (if hex then drop 2 s else s) of
                (v, k, saw, rest) \<Rightarrow>
                  if \<not> saw \<or> (CHR ''_'' \<in> set str \<and> \<not> underscoreOK str) then None
                  else if rest \<noteq> [] \<and> lower_char (hd rest) = (if hex then CHR ''p'' else CHR ''e'') then
                    (case exponent_digits (tl rest) of
                       Some (x, []) \<Rightarrow>
                         in_range (if hex then round_bin neg v (x - 4 * int k) else round_dec neg v (x - int k))
                     | _ \<Rightarrow> None)
                  else if hex \<or> rest \<noteq> [] then None
                  else in_range (round_dec neg v (- int k)))"

subsection \<open>The verb \<open>%f\<close> of \<open>fmt.Sscanf\<close>\<close>

definition accept :: "string \<Rightarrow> string \<Rightarrow> string \<times> string" where
  "accept ok s = (if s \<noteq> [] \<and> hd s \<in> set ok then ([hd s], tl s) else ([], s))"

definition accept_all :: "string \<Rightarrow> string \<Rightarrow> string \<times> string" where
  "accept_all ok s = (takeWhile (\<lambda>c. c \<in> set ok) s, dropWhile (\<lambda>c. c \<in> set ok) s)"

text \<open>Three letters in turn: what was taken, whether all three were there, and the rest.\<close>

fun accept_word :: "string list \<Rightarrow> string \<Rightarrow> string \<times> bool \<times> string" where
  "accept_word [] s = ([], True, s)"
| "accept_word (ok # oks) s =
     (case accept ok s of (t, r) \<Rightarrow>
        if t = [] then ([], False, s)
        else case accept_word oks r of (t', b, r') \<Rightarrow> (t @ t', b, r'))"

definition decimal_digits :: string where "decimal_digits = ''0123456789''"

definition floatToken :: "string \<Rightarrow> string" where
  "floatToken s =
     (case accept_word [''nN'', ''aA'', ''nN''] s of (t0, isNaN, s) \<Rightarrow>
        if isNaN then t0
        else case accept ''+-'' s of (t1, s) \<Rightarrow>
          case accept_word [''iI'', ''nN'', ''fF''] s of (t2, isInf, s) \<Rightarrow>
            if isInf then t0 @ t1 @ t2
            else case accept_word [''0'', ''xX''] s of (t3, hex, s) \<Rightarrow>
              let digits = (if hex then decimal_digits @ ''aAbBcCdDeEfF_'' else decimal_digits @ ''_'')
              in case accept_all digits s of (t4, s) \<Rightarrow>
                case accept ''.'' s of (t5, s) \<Rightarrow>
                  case (if t5 = [] then ([], s) else accept_all digits s) of (t6, s) \<Rightarrow>
                    case accept (if hex then ''pP'' else ''eEpP'') s of (t7, s) \<Rightarrow>
                      case (if t7 = [] then ([], s) else accept ''+-'' s) of (t8, s) \<Rightarrow>
                        case (if t7 = [] then ([], s) else accept_all (decimal_digits @ ''_'') s) of (t9, s) \<Rightarrow>
                          t0 @ t1 @ t2 @ t3 @ t4 @ t5 @ t6 @ t7 @ t8 @ t9)"

definition Ldexp :: "float64 \<Rightarrow> int \<Rightarrow> float64" where
  "Ldexp x n = (case x of FFin s m e \<Rightarrow> round_bin s m (e + n) | _ \<Rightarrow> x)"

definition convertFloat :: "string \<Rightarrow> float64 option" where
  "convertFloat str =
     (case IndexByte str CHR ''p'' of
        Some p \<Rightarrow>
          if CHR ''x'' \<in> set str \<or> CHR ''X'' \<in> set str then ParseFloat str
          else (case ParseFloat (take p str) of
                  None \<Rightarrow> None
                | Some x \<Rightarrow> (case Atoi (drop (p + 1) str) of None \<Rightarrow> None | Some n \<Rightarrow> Some (Ldexp x n)))
      | None \<Rightarrow> ParseFloat str)"

text \<open>White space is skipped, a line end is an error; what follows the number is not read.\<close>

function skip_space :: "string \<Rightarrow> string option" where
  "skip_space s =
     (if s = [] then Some []
      else if take 2 s = [CHR 0x0D, CHR 0x0A] then skip_space (drop 1 s)
      else if hd s = CHR 0x0A then None
      else if white_len s = 0 then Some s
      else skip_space (drop (white_len s) s))"
  by pat_completeness auto
termination by (relation "measure length") auto

declare skip_space.simps [simp del]

definition Sscanf_f :: "string \<Rightarrow> float64 option" where
  "Sscanf_f s = (case skip_space s of None \<Rightarrow> None | Some t \<Rightarrow> if t = [] then None else convertFloat (floatToken t))"

section \<open>Writing a number\<close>

text \<open>
  The shortest decimal \<open>q * 10 ^ (dp - n)\<close> with \<open>n\<close> digits that rounds to the double, the nearer one if the
  two neighbours of the double do; 17 digits always suffice.
\<close>

definition frac_of :: "nat \<Rightarrow> int \<Rightarrow> nat \<times> nat" where
  "frac_of m e = (if 0 \<le> e then (m * 2 ^ nat e, 1) else (m, 2 ^ nat (- e)))"

definition ten_scale :: "nat \<times> nat \<Rightarrow> int \<Rightarrow> nat \<times> nat" where
  "ten_scale f x = (case f of (p, d) \<Rightarrow> if 0 \<le> x then (p, d * 10 ^ nat x) else (p * 10 ^ nat (- x), d))"

text \<open>The decimal exponent: \<open>10 ^ (dp - 1) \<le> p / d < 10 ^ dp\<close>.\<close>

definition dec_exponent :: "nat \<times> nat \<Rightarrow> int" where
  "dec_exponent f =
     (case f of (p, d) \<Rightarrow>
        if p \<ge> d then int (length (dec_of_nat (p div d)))
        else let k = length (dec_of_nat (d div p)) in if 10 ^ (k - 1) * p = d then 2 - int k else 1 - int k)"

definition candidate :: "bool \<Rightarrow> nat \<Rightarrow> int \<Rightarrow> nat \<Rightarrow> nat option" where
  "candidate s m e n =
     (let f = frac_of m e; dp = dec_exponent f; x = dp - int n
      in case ten_scale f x of (a, b) \<Rightarrow>
           let q = a div b; ok = (\<lambda>q. round_dec s q x = FFin s m e)
           in if ok q \<and> ok (Suc q) then Some (half_even a b)
              else if ok q then Some q else if ok (Suc q) then Some (Suc q) else None)"

definition shortest :: "bool \<Rightarrow> nat \<Rightarrow> int \<Rightarrow> nat \<times> int" where
  "shortest s m e =
     (let dp = dec_exponent (frac_of m e)
      in case find (\<lambda>n. candidate s m e n \<noteq> None) [1..<18] of
           Some n \<Rightarrow> (the (candidate s m e n), dp - int n)
         | None \<Rightarrow> (0, 0))"

fun strip_zeros :: "string \<Rightarrow> string" where
  "strip_zeros s = (if s \<noteq> [] \<and> last s = CHR ''0'' then strip_zeros (butlast s) else s)"

declare strip_zeros.simps [simp del]

text \<open>The digits without trailing zeros, and the position of the point.\<close>

definition shortest_digits :: "bool \<Rightarrow> nat \<Rightarrow> int \<Rightarrow> string \<times> int" where
  "shortest_digits s m e =
     (case shortest s m e of (q, x) \<Rightarrow> (strip_zeros (dec_of_nat q), int (length (dec_of_nat q)) + x))"

definition fmt_e :: "string \<Rightarrow> int \<Rightarrow> string" where
  "fmt_e ds x =
     take 1 ds @ (if length ds > 1 then ''.'' @ drop 1 ds else []) @ ''e'' @ (if x < 0 then ''-'' else ''+'') @ zpad 2 (nat \<bar>x\<bar>)"

definition fmt_f :: "string \<Rightarrow> int \<Rightarrow> string" where
  "fmt_f ds dp =
     (if dp > 0 then take (nat dp) ds @ replicate (nat dp - length ds) CHR ''0'' else ''0'') @
     (let frac = replicate (nat (- dp)) CHR ''0'' @ drop (nat dp) ds in if int (length ds) > dp then ''.'' @ frac else [])"

definition fmt_g :: "float64 \<Rightarrow> string" where
  "fmt_g x =
     (case x of
        FNaN \<Rightarrow> ''NaN''
      | FInf s \<Rightarrow> (if s then ''-Inf'' else ''+Inf'')
      | FFin s m e \<Rightarrow>
          (if s then ''-'' else []) @
          (if m = 0 then ''0''
           else case shortest_digits s m e of (ds, dp) \<Rightarrow>
             if dp - 1 < -4 \<or> dp - 1 \<ge> 6 then fmt_e ds (dp - 1) else fmt_f ds dp))"

text \<open>\<open>strconv.FormatFloat(x, 'f', -1, 64)\<close>: the shortest digits that give \<open>x\<close> back, without an exponent.\<close>

definition FormatFloat_f :: "float64 \<Rightarrow> string" where
  "FormatFloat_f x =
     (case x of
        FNaN \<Rightarrow> ''NaN''
      | FInf s \<Rightarrow> (if s then ''-Inf'' else ''+Inf'')
      | FFin s m e \<Rightarrow> (if s then ''-'' else []) @ (if m = 0 then ''0'' else case shortest_digits s m e of (ds, dp) \<Rightarrow> fmt_f ds dp))"

text \<open>\<open>Duration.Seconds\<close>.\<close>

definition Seconds :: "duration \<Rightarrow> float64" where
  "Seconds d =
     (let sec = sgn d * (\<bar>d\<bar> div Second); nsec = sgn d * (\<bar>d\<bar> mod Second)
      in fadd (float_of_int sec) (round_frac (nsec < 0) (nat \<bar>nsec\<bar>) 1000000000))"

end
