(* ===== verification/Dynamo_Heap.thy ===== *)
theory Dynamo_Heap
  imports Dynamo_Paths Go_Float
begin

text \<open>
  Items as the store holds them in memory: \<open>internal/aws/store/dynamodb/paths.go\<close> and \<open>schema.go\<close> on
  Go values, with the maps that are shared.

  A Go map is a reference. \<open>SetPath\<close> and \<open>RemovePath\<close> write into the nested maps of an item in place,
  while \<open>copyItem\<close> copies the outermost map only, so that a nested map may be reached from several places.
  The values are therefore addresses into a heap of maps; slices are copied before they are written and are values.
  The outermost map of an item is copied before it is written, and is never the value of an attribute; it is a value
  too. A nil slice, which only \<open>list_append\<close> of no lists makes, is not told apart from an empty one.
\<close>

section \<open>Values\<close>

datatype hval = HNil | HStr string | HBool bool | HNum float64 | HMap nat | HArr "hval list"

type_synonym obj = "(string, hval) fmap"

record heap =
  objs :: "(nat, obj) fmap"
  lim :: nat

definition empty_heap :: heap where
  "empty_heap = \<lparr>objs = fmempty, lim = 0\<rparr>"

definition alloc :: "heap \<Rightarrow> obj \<Rightarrow> heap \<times> hval" where
  "alloc h m = (\<lparr>objs = fmupd (lim h) m (objs h), lim = Suc (lim h)\<rparr>, HMap (lim h))"

definition put_obj :: "heap \<Rightarrow> nat \<Rightarrow> obj \<Rightarrow> heap" where
  "put_obj h a m = h\<lparr>objs := fmupd a m (objs h)\<rparr>"

text \<open>The map behind an address, \<open>v.(map[string]any)\<close>, and \<open>m[k]\<close>.\<close>

definition obj_at :: "heap \<Rightarrow> nat \<Rightarrow> obj" where
  "obj_at h a = the_default fmempty (fmlookup (objs h) a)"

definition as_map :: "heap \<Rightarrow> hval \<Rightarrow> obj option" where
  "as_map h v = (case v of HMap a \<Rightarrow> Some (obj_at h a) | _ \<Rightarrow> None)"

definition fld :: "obj \<Rightarrow> string \<Rightarrow> hval" where
  "fld m k = the_default HNil (fmlookup m k)"

definition as_str :: "hval \<Rightarrow> string option" where
  "as_str v = (case v of HStr s \<Rightarrow> Some s | _ \<Rightarrow> None)"

definition as_arr :: "hval \<Rightarrow> hval list option" where
  "as_arr v = (case v of HArr l \<Rightarrow> Some l | _ \<Rightarrow> None)"

definition as_bool :: "hval \<Rightarrow> bool option" where
  "as_bool v = (case v of HBool b \<Rightarrow> Some b | _ \<Rightarrow> None)"

text \<open>The address of the map under \<open>M\<close>, and the list under \<open>L\<close>, of a typed attribute.\<close>

definition inner_addr :: "heap \<Rightarrow> hval \<Rightarrow> nat option" where
  "inner_addr h v =
     (case as_map h v of Some m \<Rightarrow> (case fld m ''M'' of HMap a \<Rightarrow> Some a | _ \<Rightarrow> None) | None \<Rightarrow> None)"

definition inner_list :: "heap \<Rightarrow> hval \<Rightarrow> hval list option" where
  "inner_list h v = (case as_map h v of Some m \<Rightarrow> as_arr (fld m ''L'') | None \<Rightarrow> None)"

section \<open>Typed attributes\<close>

definition hAttrVal :: "heap \<Rightarrow> hval \<Rightarrow> string option" where
  "hAttrVal h v =
     (case as_map h v of
        None \<Rightarrow> None
      | Some m \<Rightarrow>
          (case find (\<lambda>t. as_str (fld m t) \<noteq> None) [''S'', ''N'', ''B''] of
             None \<Rightarrow> None
           | Some t \<Rightarrow> as_str (fld m t)))"

definition hAttrType :: "heap \<Rightarrow> hval \<Rightarrow> string" where
  "hAttrType h v =
     (case as_map h v of
        None \<Rightarrow> []
      | Some m \<Rightarrow> the_default [] (find (\<lambda>t. fmlookup m t \<noteq> None) [''S'', ''N'', ''B'']))"

text \<open>\<open>ParseNumeric\<close>: \<open>None\<close> for \<open>(0, false)\<close>; a failed scan leaves the number 0.\<close>

definition ParseNumeric :: "heap \<Rightarrow> hval \<Rightarrow> float64 option" where
  "ParseNumeric h v =
     (case as_map h v of
        None \<Rightarrow> None
      | Some m \<Rightarrow> (case as_str (fld m ''N'') of None \<Rightarrow> None | Some s \<Rightarrow> Sscanf_f s))"

definition numeric_or_zero :: "heap \<Rightarrow> hval \<Rightarrow> float64" where
  "numeric_or_zero h v = the_default (FFin False 0 0) (ParseNumeric h v)"

section \<open>Paths\<close>

fun hresolveInValue :: "heap \<Rightarrow> hval \<Rightarrow> PathPart list \<Rightarrow> hval option" where
  "hresolveInValue h v [] = Some v"
| "hresolveInValue h v (part # rest) =
     (if Name part \<noteq> [] then
        (case inner_addr h v of
           None \<Rightarrow> None
         | Some a \<Rightarrow>
             (case fmlookup (obj_at h a) (Name part) of None \<Rightarrow> None | Some attr \<Rightarrow> hresolveInValue h attr rest))
      else case inner_list h v of
        None \<Rightarrow> None
      | Some l \<Rightarrow>
          if Index part < 0 \<or> Index part \<ge> int (length l) then None
          else hresolveInValue h (l ! nat (Index part)) rest)"

definition hResolvePath :: "heap \<Rightarrow> obj \<Rightarrow> PathPart list \<Rightarrow> hval option" where
  "hResolvePath h it parts =
     (case parts of
        [] \<Rightarrow> None
      | p # rest \<Rightarrow>
          if Name p = [] then None
          else case fmlookup it (Name p) of
            None \<Rightarrow> None
          | Some v \<Rightarrow> if rest = [] then Some v else hresolveInValue h v rest)"

definition hpad_list :: "hval list \<Rightarrow> nat \<Rightarrow> hval list" where
  "hpad_list l i = l @ replicate (i + 1 - length l) HNil"

fun hsetInValue :: "heap \<Rightarrow> hval \<Rightarrow> PathPart list \<Rightarrow> hval \<Rightarrow> path_error + heap \<times> hval" where
  "hsetInValue h v [] x = Inr (h, x)"
| "hsetInValue h v (part # rest) x =
     (if Name part \<noteq> [] then
        (case inner_addr h v of
           Some a \<Rightarrow>
             (case hsetInValue h (fld (obj_at h a) (Name part)) rest x of
                Inl e \<Rightarrow> Inl e
              | Inr (h, newChild) \<Rightarrow>
                  Inr (alloc (put_obj h a (fmupd (Name part) newChild (obj_at h a))) (fmap_of_list [(''M'', HMap a)])))
         | None \<Rightarrow>
             (case hsetInValue h HNil rest x of
                Inl e \<Rightarrow> Inl e
              | Inr (h, newChild) \<Rightarrow>
                  (case alloc h (fmap_of_list [(Name part, newChild)]) of
                     (h, m) \<Rightarrow> Inr (alloc h (fmap_of_list [(''M'', m)])))))
      else if Index part < 0 then Inl NegativeListIndex
      else let l = hpad_list (the_default [] (inner_list h v)) (nat (Index part))
        in case hsetInValue h (l ! nat (Index part)) rest x of
             Inl e \<Rightarrow> Inl e
           | Inr (h, newChild) \<Rightarrow> Inr (alloc h (fmap_of_list [(''L'', HArr (l[nat (Index part) := newChild]))])))"

definition hSetPath :: "heap \<Rightarrow> obj \<Rightarrow> PathPart list \<Rightarrow> hval \<Rightarrow> path_error + heap \<times> obj" where
  "hSetPath h it parts x =
     (case parts of
        [] \<Rightarrow> Inl EmptyPath
      | p # rest \<Rightarrow>
          if Name p = [] then Inl TopLevelMustBeNamed
          else if rest = [] then Inr (h, fmupd (Name p) x it)
          else case hsetInValue h (fld it (Name p)) rest x of
            Inl e \<Rightarrow> Inl e
          | Inr (h, newVal) \<Rightarrow> Inr (h, fmupd (Name p) newVal it))"

fun hremoveInValue :: "heap \<Rightarrow> hval \<Rightarrow> PathPart list \<Rightarrow> heap \<times> hval \<times> bool" where
  "hremoveInValue h v [] = (h, HNil, False)"
| "hremoveInValue h v (part # rest) =
     (if Name part \<noteq> [] then
        (case inner_addr h v of
           None \<Rightarrow> (h, v, False)
         | Some a \<Rightarrow>
             if rest = [] then
               (case alloc (put_obj h a (fmdrop (Name part) (obj_at h a))) (fmap_of_list [(''M'', HMap a)]) of
                  (h, w) \<Rightarrow> (h, w, True))
             else case fmlookup (obj_at h a) (Name part) of
               None \<Rightarrow> (h, v, False)
             | Some child \<Rightarrow>
                 (case hremoveInValue h child rest of
                    (h, newChild, changed) \<Rightarrow>
                      if \<not> changed then (h, v, False)
                      else (case alloc (put_obj h a (fmupd (Name part) newChild (obj_at h a))) (fmap_of_list [(''M'', HMap a)]) of
                              (h, w) \<Rightarrow> (h, w, True))))
      else case inner_list h v of
        None \<Rightarrow> (h, v, False)
      | Some l \<Rightarrow>
          if Index part < 0 \<or> Index part \<ge> int (length l) then (h, v, False)
          else let i = nat (Index part)
            in if rest = [] then
                 (case alloc h (fmap_of_list [(''L'', HArr (take i l @ drop (i + 1) l))]) of (h, w) \<Rightarrow> (h, w, True))
               else (case hremoveInValue h (l ! i) rest of
                       (h, newChild, changed) \<Rightarrow>
                         if \<not> changed then (h, v, False)
                         else (case alloc h (fmap_of_list [(''L'', HArr (l[i := newChild]))]) of (h, w) \<Rightarrow> (h, w, True))))"

definition hRemovePath :: "heap \<Rightarrow> obj \<Rightarrow> PathPart list \<Rightarrow> heap \<times> obj" where
  "hRemovePath h it parts =
     (case parts of
        [] \<Rightarrow> (h, it)
      | p # rest \<Rightarrow>
          if Name p = [] then (h, it)
          else if rest = [] then (h, fmdrop (Name p) it)
          else case fmlookup it (Name p) of
            None \<Rightarrow> (h, it)
          | Some v \<Rightarrow>
              (case hremoveInValue h v rest of
                 (h, newV, changed) \<Rightarrow> (h, if changed then fmupd (Name p) newV it else it)))"

section \<open>The verb \<open>%v\<close>\<close>

text \<open>
  \<open>fmt.Sprintf("%v", v)\<close>: a map prints its entries in the order of their keys. The fuel bounds the number of maps
  entered on the way down; \<open>None\<close> if it does not suffice. A value whose maps contain one another never stops
  printing: the process runs out of stack.
\<close>

definition sorted_keys :: "obj \<Rightarrow> string list" where
  "sorted_keys m = sorted_list_of_set (fset (fmdom m))"

definition concat_opt :: "string option list \<Rightarrow> string \<Rightarrow> string option" where
  "concat_opt xs sep = (if None \<in> set xs then None else Some (Join (map the xs) sep))"

function sprint :: "heap \<Rightarrow> nat \<Rightarrow> hval \<Rightarrow> string option" where
  "sprint h n HNil = Some ''<nil>''"
| "sprint h n (HStr s) = Some s"
| "sprint h n (HBool b) = Some (if b then ''true'' else ''false'')"
| "sprint h n (HNum x) = Some (fmt_g x)"
| "sprint h n (HArr l) = map_option (\<lambda>s. ''['' @ s @ '']'') (concat_opt (map (\<lambda>v. sprint h n v) l) '' '')"
| "sprint h n (HMap a) =
     (case n of
        0 \<Rightarrow> None
      | Suc n \<Rightarrow>
          map_option (\<lambda>s. ''map['' @ s @ '']'')
            (concat_opt (map (\<lambda>k. map_option (\<lambda>s. k @ '':'' @ s) (sprint h n (fld (obj_at h a) k))) (sorted_keys (obj_at h a))) '' ''))"
  by pat_completeness auto
termination by (relation "measures [\<lambda>(h, n, v). n, \<lambda>(h, n, v). size v]") (auto simp: size_list_estimation' less_Suc_eq_le)

definition Sprint_v :: "heap \<Rightarrow> hval \<Rightarrow> string option" where
  "Sprint_v h v = sprint h (Suc (lim h)) v"

section \<open>Decoded requests\<close>

text \<open>A JSON text after decoding: every object becomes a fresh map, and a repeated key keeps its last value.\<close>

datatype json = JNull | JStr string | JBool bool | JNum float64 | JObj "(string \<times> json) list" | JArr "json list"

primrec decode :: "json \<Rightarrow> heap \<Rightarrow> heap \<times> hval"
  and decode_fields :: "(string \<times> json) list \<Rightarrow> heap \<Rightarrow> heap \<times> obj"
  and decode_field :: "string \<times> json \<Rightarrow> heap \<Rightarrow> heap \<times> string \<times> hval"
  and decode_list :: "json list \<Rightarrow> heap \<Rightarrow> heap \<times> hval list"
where
  "decode JNull h = (h, HNil)"
| "decode (JStr s) h = (h, HStr s)"
| "decode (JBool b) h = (h, HBool b)"
| "decode (JNum x) h = (h, HNum x)"
| "decode (JObj fs) h = (case decode_fields fs h of (h, m) \<Rightarrow> alloc h m)"
| "decode (JArr js) h = (case decode_list js h of (h, vs) \<Rightarrow> (h, HArr vs))"
| "decode_fields [] h = (h, fmempty)"
| "decode_fields (f # fs) h =
     (case decode_field f h of (h, k, v) \<Rightarrow>
        case decode_fields fs h of (h, m) \<Rightarrow> (h, if k |\<in>| fmdom m then m else fmupd k v m))"
| "decode_field (k, j) h = (case decode j h of (h, v) \<Rightarrow> (h, k, v))"
| "decode_list [] h = (h, [])"
| "decode_list (j # js) h = (case decode j h of (h, v) \<Rightarrow> case decode_list js h of (h, vs) \<Rightarrow> (h, v # vs))"

section \<open>Reading a heap that was written\<close>

lemma obj_at_alloc [simp]: "obj_at (fst (alloc h m)) a = (if a = lim h then m else obj_at h a)"
  by (simp add: alloc_def obj_at_def)

lemma obj_at_put [simp]: "obj_at (put_obj h a m) b = (if b = a then m else obj_at h b)"
  by (simp add: put_obj_def obj_at_def)

lemma lim_alloc [simp]: "lim (fst (alloc h m)) = Suc (lim h)" "snd (alloc h m) = HMap (lim h)"
  by (simp_all add: alloc_def)

lemma lim_put [simp]: "lim (put_obj h a m) = lim h"
  by (simp add: put_obj_def)

lemma alloc_split: "alloc h m = (fst (alloc h m), HMap (lim h))"
  by (simp add: alloc_def)

lemma as_map_HMap [simp]: "as_map h (HMap a) = Some (obj_at h a)"
  by (simp add: as_map_def)

lemma as_map_other [simp]: "as_map h HNil = None" "as_map h (HStr s) = None" "as_map h (HBool b) = None" "as_map h (HNum x) = None"
  "as_map h (HArr l) = None"
  by (simp_all add: as_map_def)

lemma fld_simps [simp]: "fld (fmupd k v m) k' = (if k' = k then v else fld m k')" "fld fmempty k = HNil"
  by (simp_all add: fld_def)

lemma as_simps [simp]: "as_str (HStr s) = Some s" "as_arr (HArr l) = Some l" "as_bool (HBool b) = Some b" "as_str HNil = None"
  "as_arr HNil = None" "as_bool HNil = None" "as_str (HMap a) = None" "as_arr (HMap a) = None" "as_bool (HMap a) = None"
  by (simp_all add: as_str_def as_arr_def as_bool_def)

lemma inner_addr_HMap: "inner_addr h (HMap w) = (case fld (obj_at h w) ''M'' of HMap a \<Rightarrow> Some a | _ \<Rightarrow> None)"
  by (simp add: inner_addr_def)

lemma inner_list_HMap: "inner_list h (HMap w) = as_arr (fld (obj_at h w) ''L'')"
  by (simp add: inner_list_def)

lemma inner_addr_Some: "inner_addr h v = Some a \<longleftrightarrow> (\<exists>w. v = HMap w \<and> fld (obj_at h w) ''M'' = HMap a)"
  by (cases v) (auto simp: inner_addr_def split: hval.splits)

lemma inner_list_Some: "inner_list h v = Some l \<longleftrightarrow> (\<exists>w. v = HMap w \<and> fld (obj_at h w) ''L'' = HArr l)"
  by (cases v) (auto simp: inner_list_def as_arr_def split: hval.splits)

subsection \<open>The fuel of printing\<close>

text \<open>A map that is entered again on the way down is never printed, with any fuel.\<close>

lemma concat_opt_None: "concat_opt xs sep = None \<longleftrightarrow> None \<in> set xs"
  by (simp add: concat_opt_def)

lemma set_sorted_keys [simp]: "set (sorted_keys m) = fset (fmdom m)"
  by (simp add: sorted_keys_def)

lemma sprint_HMap_None: "sprint h (Suc n) (HMap a) = None \<longleftrightarrow> (\<exists>k \<in> fset (fmdom (obj_at h a)). sprint h n (fld (obj_at h a) k) = None)"
  by (auto simp: concat_opt_None image_iff)

lemma sprint_HMap_0 [simp]: "sprint h 0 (HMap a) = None"
  by simp

end
