(* ===== verification/Dynamo_Expr.thy ===== *)
theory Dynamo_Expr
  imports Dynamo_Heap
begin

text \<open>
  Filter, condition and key-condition expressions of DynamoDB: \<open>internal/aws/store/dynamodb/expression.go\<close>,
  the tokenizer, the recursive-descent parser and the evaluation of the syntax tree.

  The parser works on the tokens that are left. Evaluation reads the item in the heap; a \<open>size\<close> operand is a
  fresh number attribute, so that resolving an operand may extend the heap, for the comparison at hand only.
  Identifiers are ASCII by the tokenizer, so that folding their case is byte by byte.
\<close>

section \<open>Tokens\<close>

datatype token =
    tkEOF | tkIdent string | tkExprName string | tkExprVal string | tkNumber string | tkDot | tkLBracket | tkRBracket
  | tkLParen | tkRParen | tkComma | tkEq | tkNeq | tkLt | tkLe | tkGt | tkGe | tkPlus | tkMinus

datatype expr_error =
    UnexpectedCharacter char | UnexpectedToken token | ExpectedKeyword string token | ExpectedRParen
  | ExpectedLParenAfter string | ExpectedRParenClosing string | ExpectedComparisonOperator token | ExpectedOperand token
  | ExpectedAttributeName | ExpectedIntegerIndex | ExpectedRBracket
  | RequiresArguments string nat | RequiresPathArgument string | ValueNotFound string | UnknownFunction string
  | PathError path_error | MalformedExpression string | RequiresExactlyTwo string

definition isDigit :: "char \<Rightarrow> bool" where
  "isDigit c \<longleftrightarrow> CHR ''0'' \<le> c \<and> c \<le> CHR ''9''"

definition isAlpha :: "char \<Rightarrow> bool" where
  "isAlpha c \<longleftrightarrow> (CHR ''a'' \<le> c \<and> c \<le> CHR ''z'') \<or> (CHR ''A'' \<le> c \<and> c \<le> CHR ''Z'')"

definition isAlphaNum :: "char \<Rightarrow> bool" where
  "isAlphaNum c \<longleftrightarrow> isAlpha c \<or> isDigit c"

definition is_word :: "char \<Rightarrow> bool" where
  "is_word c \<longleftrightarrow> isAlphaNum c \<or> c = CHR ''_''"

definition is_space :: "char \<Rightarrow> bool" where
  "is_space c \<longleftrightarrow> c = CHR '' '' \<or> c = CHR 0x09 \<or> c = CHR 0x0A \<or> c = CHR 0x0D"

definition punct :: "char \<Rightarrow> token option" where
  "punct c =
     (if c = CHR ''.'' then Some tkDot else if c = CHR ''['' then Some tkLBracket else if c = CHR '']'' then Some tkRBracket
      else if c = CHR ''('' then Some tkLParen else if c = CHR '')'' then Some tkRParen else if c = CHR '','' then Some tkComma
      else if c = CHR ''+'' then Some tkPlus else if c = CHR ''-'' then Some tkMinus else if c = CHR ''='' then Some tkEq
      else None)"

text \<open>One token and the rest of the text, for a text that does not start with white space.\<close>

definition next_token :: "char \<Rightarrow> string \<Rightarrow> (token \<times> string) option" where
  "next_token c s =
     (case punct c of
        Some t \<Rightarrow> Some (t, s)
      | None \<Rightarrow>
          if c = CHR ''<'' then
            (if s \<noteq> [] \<and> hd s = CHR ''>'' then Some (tkNeq, tl s)
             else if s \<noteq> [] \<and> hd s = CHR ''='' then Some (tkLe, tl s)
             else Some (tkLt, s))
          else if c = CHR ''>'' then
            (if s \<noteq> [] \<and> hd s = CHR ''='' then Some (tkGe, tl s) else Some (tkGt, s))
          else if c = CHR ''#'' then Some (tkExprName (c # takeWhile is_word s), dropWhile is_word s)
          else if c = CHR '':'' then Some (tkExprVal (c # takeWhile is_word s), dropWhile is_word s)
          else if isDigit c then Some (tkNumber (c # takeWhile isDigit s), dropWhile isDigit s)
          else if isAlpha c \<or> c = CHR ''_'' then Some (tkIdent (c # takeWhile is_word s), dropWhile is_word s)
          else None)"

lemma next_token_length: "next_token c s = Some (t, r) \<Longrightarrow> length r \<le> length s"
  by (auto simp: next_token_def split: option.splits if_splits intro: length_dropWhile_le)

function tokenize :: "string \<Rightarrow> expr_error + token list" where
  "tokenize [] = Inr [tkEOF]"
| "tokenize (c # s) =
     (if is_space c then tokenize s
      else case next_token c s of
        None \<Rightarrow> Inl (UnexpectedCharacter c)
      | Some (t, r) \<Rightarrow> (case tokenize r of Inl e \<Rightarrow> Inl e | Inr ts \<Rightarrow> Inr (t # ts)))"
  by pat_completeness auto
termination by (relation "measure length") (auto dest: next_token_length)

section \<open>Syntax trees\<close>

datatype cmp = CEq | CNeq | CLt | CLe | CGt | CGe

datatype operandNode = pathOperandNode "PathPart list" | valOperandNode string | sizeOperandNode operandNode

datatype exprNode =
    orNode exprNode exprNode
  | andNode exprNode exprNode
  | notNode exprNode
  | compareNode operandNode operandNode cmp
  | betweenNode operandNode operandNode operandNode
  | inNode operandNode "operandNode list"
  | funcNode string "operandNode list"

section \<open>Parser\<close>

definition peek :: "token list \<Rightarrow> token" where
  "peek ts = (case ts of [] \<Rightarrow> tkEOF | t # _ \<Rightarrow> t)"

text \<open>\<open>consume\<close> advances the position; past the end every token is the end.\<close>

abbreviation consume :: "token list \<Rightarrow> token list" where
  "consume ts \<equiv> tl ts"

definition is_kw :: "token \<Rightarrow> string \<Rightarrow> bool" where
  "is_kw t kw \<longleftrightarrow> (case t of tkIdent v \<Rightarrow> EqualFold v kw | _ \<Rightarrow> False)"

definition lower :: "string \<Rightarrow> string" where "lower s = map lower_char s"
definition upper :: "string \<Rightarrow> string" where "upper s = map upper_char s"

definition bool_functions :: "string list" where
  "bool_functions = [''attribute_exists'', ''attribute_not_exists'', ''attribute_type'', ''begins_with'', ''contains'']"

definition cmp_of :: "token \<Rightarrow> cmp option" where
  "cmp_of t = (case t of tkEq \<Rightarrow> Some CEq | tkNeq \<Rightarrow> Some CNeq | tkLt \<Rightarrow> Some CLt | tkLe \<Rightarrow> Some CLe
     | tkGt \<Rightarrow> Some CGt | tkGe \<Rightarrow> Some CGe | _ \<Rightarrow> None)"

text \<open>The loop of \<open>parsePath\<close> over the steps after the first name. An index that overflows saturates.\<close>

function path_steps :: "token list \<Rightarrow> expr_error + PathPart list \<times> token list" where
  "path_steps ts =
     (case peek ts of
        tkDot \<Rightarrow>
          (case peek (consume ts) of
             tkIdent n \<Rightarrow> (case path_steps (consume (consume ts)) of Inl e \<Rightarrow> Inl e | Inr (ps, r) \<Rightarrow> Inr (named n # ps, r))
           | tkExprName n \<Rightarrow> (case path_steps (consume (consume ts)) of Inl e \<Rightarrow> Inl e | Inr (ps, r) \<Rightarrow> Inr (named n # ps, r))
           | _ \<Rightarrow> Inl ExpectedAttributeName)
      | tkLBracket \<Rightarrow>
          (case peek (consume ts) of
             tkNumber d \<Rightarrow>
               if peek (consume (consume ts)) \<noteq> tkRBracket then Inl ExpectedRBracket
               else (case path_steps (consume (consume (consume ts))) of
                       Inl e \<Rightarrow> Inl e
                     | Inr (ps, r) \<Rightarrow> Inr (indexed (min (2 ^ 63 - 1) (int (dec_val 0 d))) # ps, r))
           | _ \<Rightarrow> Inl ExpectedIntegerIndex)
      | _ \<Rightarrow> Inr ([], ts))"
  by pat_completeness auto
termination by (relation "measure length") (auto simp: peek_def split: list.splits)

definition parsePath :: "string \<Rightarrow> token list \<Rightarrow> expr_error + operandNode \<times> token list" where
  "parsePath n ts = (case path_steps ts of Inl e \<Rightarrow> Inl e | Inr (ps, r) \<Rightarrow> Inr (pathOperandNode (named n # ps), r))"

function parseOperand :: "token list \<Rightarrow> expr_error + operandNode \<times> token list" where
  "parseOperand ts =
     (let t = peek ts
      in if is_kw t ''size'' then
           if peek (consume ts) \<noteq> tkLParen then Inl (ExpectedLParenAfter ''size'')
           else (case parseOperand (consume (consume ts)) of
                   Inl e \<Rightarrow> Inl e
                 | Inr (inner, r) \<Rightarrow>
                     if peek r \<noteq> tkRParen then Inl (ExpectedRParenClosing ''size()'')
                     else Inr (sizeOperandNode inner, consume r))
         else case t of
           tkExprVal v \<Rightarrow> Inr (valOperandNode v, consume ts)
         | tkIdent n \<Rightarrow> parsePath n (consume ts)
         | tkExprName n \<Rightarrow> parsePath n (consume ts)
         | _ \<Rightarrow> Inl (ExpectedOperand t))"
  by pat_completeness auto
termination by (relation "measure length") (auto simp: peek_def is_kw_def split: list.splits)

declare path_steps.simps [simp del] parseOperand.simps [simp del]

lemma peek_simps [simp]: "peek (t # ts) = t" "peek [] = tkEOF"
  by (simp_all add: peek_def)

lemma tl_less [simp]: "peek ts \<noteq> tkEOF \<Longrightarrow> length (tl ts) < length ts"
  by (cases ts) simp_all

lemma tl_less' [simp]: "peek ts \<noteq> tkEOF \<Longrightarrow> length ts - Suc 0 < length ts"
  by (cases ts) simp_all

lemma tl_le: "length r \<le> length ts \<Longrightarrow> length (tl r) \<le> length ts"
  by (metis diff_le_self le_trans length_tl)

lemma path_steps_length: "path_steps ts = Inr (ps, r) \<Longrightarrow> length r \<le> length ts"
proof (induction ts arbitrary: ps r rule: path_steps.induct)
  case (1 ts)
  from "1.prems" show ?case
    by (subst (asm) path_steps.simps) (fastforce split: token.splits sum.splits if_splits dest: "1.IH")
qed

lemma parsePath_length: "parsePath n ts = Inr (x, r) \<Longrightarrow> length r \<le> length ts"
  by (auto simp: parsePath_def split: sum.splits dest: path_steps_length)

lemma is_kw_ident: "is_kw t kw \<Longrightarrow> t \<noteq> tkEOF"
  by (auto simp: is_kw_def)

lemma parseOperand_length: "parseOperand ts = Inr (x, r) \<Longrightarrow> length r < length ts"
proof (induction ts arbitrary: x r rule: parseOperand.induct)
  case (1 ts)
  show ?case
  proof (cases "is_kw (peek ts) ''size''")
    case True
    with "1.prems" obtain i u where u: "peek (tl ts) = tkLParen" "parseOperand (tl (tl ts)) = Inr (i, u)" "r = tl u"
      by (subst (asm) parseOperand.simps) (auto simp: Let_def split: sum.splits if_splits)
    from "1.IH" [OF refl True _ u(2)] u(1) have "length u < length (tl (tl ts))" by simp
    with u(3) show ?thesis by simp
  next
    case False
    with "1.prems" have "peek ts \<noteq> tkEOF" by (subst (asm) parseOperand.simps) (auto simp: Let_def split: token.splits)
    then obtain t us where "ts = t # us" by (cases ts) simp_all
    with False "1.prems" show ?thesis
      by (subst (asm) parseOperand.simps) (auto simp: Let_def split: token.splits dest!: parsePath_length)
  qed
qed

function parseOperandList :: "token list \<Rightarrow> expr_error + operandNode list \<times> token list" where
  "parseOperandList ts =
     (case parseOperand ts of
        Inl e \<Rightarrow> Inl e
      | Inr (op, r) \<Rightarrow>
          if peek r \<noteq> tkComma then Inr ([op], r)
          else (case parseOperandList (consume r) of Inl e \<Rightarrow> Inl e | Inr (ops, r) \<Rightarrow> Inr (op # ops, r)))"
  by pat_completeness auto
termination by (relation "measure length") (auto dest!: parseOperand_length)

declare parseOperandList.simps [simp del]

definition expectKwd :: "string \<Rightarrow> token list \<Rightarrow> expr_error + token list" where
  "expectKwd kwd ts = (if is_kw (peek ts) kwd then Inr (consume ts) else Inl (ExpectedKeyword kwd (peek ts)))"

text \<open>The calls of boolean functions: the arguments after the name.\<close>

definition parseCall :: "string \<Rightarrow> token list \<Rightarrow> expr_error + exprNode \<times> token list" where
  "parseCall name ts =
     (if peek ts \<noteq> tkLParen then Inl (ExpectedLParenAfter name)
      else case parseOperandList (consume ts) of
        Inl e \<Rightarrow> Inl e
      | Inr (args, r) \<Rightarrow>
          if peek r \<noteq> tkRParen then Inl (ExpectedRParenClosing name) else Inr (funcNode name args, consume r))"

text \<open>The comparisons: an operand, an operator and its operands.\<close>

definition parseOperator :: "token list \<Rightarrow> expr_error + exprNode \<times> token list" where
  "parseOperator ts =
     (case parseOperand ts of
        Inl e \<Rightarrow> Inl e
      | Inr (left, ts) \<Rightarrow>
          (case cmp_of (peek ts) of
             Some op \<Rightarrow> (case parseOperand (consume ts) of Inl e \<Rightarrow> Inl e | Inr (right, r) \<Rightarrow> Inr (compareNode left right op, r))
           | None \<Rightarrow>
               (case peek ts of
                  tkIdent v \<Rightarrow>
                    if upper v = ''BETWEEN'' then
                      (case parseOperand (consume ts) of
                         Inl e \<Rightarrow> Inl e
                       | Inr (lo, ts) \<Rightarrow>
                           (case expectKwd ''AND'' ts of
                              Inl e \<Rightarrow> Inl e
                            | Inr ts \<Rightarrow> (case parseOperand ts of Inl e \<Rightarrow> Inl e | Inr (hi, r) \<Rightarrow> Inr (betweenNode left lo hi, r))))
                    else if upper v = ''IN'' then
                      (if peek (consume ts) \<noteq> tkLParen then Inl (ExpectedLParenAfter ''IN'')
                       else case parseOperandList (consume (consume ts)) of
                         Inl e \<Rightarrow> Inl e
                       | Inr (l, r) \<Rightarrow>
                           if peek r \<noteq> tkRParen then Inl (ExpectedRParenClosing ''IN'') else Inr (inNode left l, consume r))
                    else Inl (ExpectedComparisonOperator (peek ts))
                | t \<Rightarrow> Inl (ExpectedComparisonOperator t))))"

lemma parseOperandList_length: "parseOperandList ts = Inr (x, r) \<Longrightarrow> length r < length ts"
proof (induction ts arbitrary: x r rule: parseOperandList.induct)
  case (1 ts)
  from "1.prems" obtain op u where u: "parseOperand ts = Inr (op, u)" "r = u \<or> (\<exists>l. peek u = tkComma \<and> parseOperandList (tl u) = Inr (l, r))"
    by (subst (asm) parseOperandList.simps) (auto split: sum.splits if_splits)
  from u(2) show ?case
  proof (elim disjE exE conjE)
    fix l assume "peek u = tkComma" "parseOperandList (tl u) = Inr (l, r)"
    with "1.IH" [OF u(1) refl] have "length r < length (tl u)" by simp
    with parseOperand_length [OF u(1)] show ?thesis by simp
  qed (use parseOperand_length [OF u(1)] in simp)
qed

lemma parseCall_length: "parseCall n ts = Inr (x, r) \<Longrightarrow> length r \<le> length ts"
  by (auto simp: parseCall_def split: sum.splits if_splits dest!: parseOperandList_length)

lemma parseOperator_length: "parseOperator ts = Inr (x, r) \<Longrightarrow> length r \<le> length ts"
  by (auto simp: parseOperator_def expectKwd_def split: sum.splits if_splits option.splits token.splits
      dest!: parseOperandList_length parseOperand_length) linarith+

function (sequential) parseOr :: "token list \<Rightarrow> expr_error + exprNode \<times> token list"
  and orLoop :: "exprNode \<Rightarrow> token list \<Rightarrow> expr_error + exprNode \<times> token list"
  and parseAnd :: "token list \<Rightarrow> expr_error + exprNode \<times> token list"
  and andLoop :: "exprNode \<Rightarrow> token list \<Rightarrow> expr_error + exprNode \<times> token list"
  and parseNot :: "token list \<Rightarrow> expr_error + exprNode \<times> token list"
  and parseComparison :: "token list \<Rightarrow> expr_error + exprNode \<times> token list"
where
  "parseOr ts = (case parseAnd ts of Inl e \<Rightarrow> Inl e | Inr (left, ts) \<Rightarrow> orLoop left ts)"
| "orLoop left ts =
     (if is_kw (peek ts) ''OR'' then
        case parseAnd (consume ts) of Inl e \<Rightarrow> Inl e | Inr (right, ts) \<Rightarrow> orLoop (orNode left right) ts
      else Inr (left, ts))"
| "parseAnd ts = (case parseNot ts of Inl e \<Rightarrow> Inl e | Inr (left, ts) \<Rightarrow> andLoop left ts)"
| "andLoop left ts =
     (if is_kw (peek ts) ''AND'' then
        case parseNot (consume ts) of Inl e \<Rightarrow> Inl e | Inr (right, ts) \<Rightarrow> andLoop (andNode left right) ts
      else Inr (left, ts))"
| "parseNot ts =
     (if is_kw (peek ts) ''NOT'' then
        case parseNot (consume ts) of Inl e \<Rightarrow> Inl e | Inr (inner, ts) \<Rightarrow> Inr (notNode inner, ts)
      else parseComparison ts)"
| "parseComparison ts =
     (if peek ts = tkLParen then
        case parseOr (consume ts) of
          Inl e \<Rightarrow> Inl e
        | Inr (inner, ts) \<Rightarrow> if peek ts \<noteq> tkRParen then Inl ExpectedRParen else Inr (inner, consume ts)
      else case peek ts of
        tkIdent v \<Rightarrow> if lower v \<in> set bool_functions then parseCall v (consume ts) else parseOperator ts
      | _ \<Rightarrow> parseOperator ts)"
  by pat_completeness auto

lemma parser_dom_length:
  "parseOr_orLoop_parseAnd_andLoop_parseNot_parseComparison_dom (Inl (Inl ts)) \<Longrightarrow> parseOr ts = Inr (n, r) \<Longrightarrow> length r \<le> length ts"
  "parseOr_orLoop_parseAnd_andLoop_parseNot_parseComparison_dom (Inl (Inr (Inl (left, ts)))) \<Longrightarrow> orLoop left ts = Inr (n, r) \<Longrightarrow> length r \<le> length ts"
  "parseOr_orLoop_parseAnd_andLoop_parseNot_parseComparison_dom (Inl (Inr (Inr ts))) \<Longrightarrow> parseAnd ts = Inr (n, r) \<Longrightarrow> length r \<le> length ts"
  "parseOr_orLoop_parseAnd_andLoop_parseNot_parseComparison_dom (Inr (Inl (left, ts))) \<Longrightarrow> andLoop left ts = Inr (n, r) \<Longrightarrow> length r \<le> length ts"
  "parseOr_orLoop_parseAnd_andLoop_parseNot_parseComparison_dom (Inr (Inr (Inl ts))) \<Longrightarrow> parseNot ts = Inr (n, r) \<Longrightarrow> length r \<le> length ts"
  "parseOr_orLoop_parseAnd_andLoop_parseNot_parseComparison_dom (Inr (Inr (Inr ts))) \<Longrightarrow> parseComparison ts = Inr (n, r) \<Longrightarrow> length r \<le> length ts"
proof (induction arbitrary: n r and n r and n r and n r and n r and n r rule: parseOr_orLoop_parseAnd_andLoop_parseNot_parseComparison.pinduct)
  case (1 ts)
  then show ?case by (fastforce simp: parseOr.psimps split: sum.splits)
next
  case (2 left ts)
  then show ?case by (fastforce simp: orLoop.psimps split: sum.splits if_splits)
next
  case (3 ts)
  then show ?case by (fastforce simp: parseAnd.psimps split: sum.splits)
next
  case (4 left ts)
  then show ?case by (fastforce simp: andLoop.psimps split: sum.splits if_splits)
next
  case (5 ts)
  then show ?case by (fastforce simp: parseNot.psimps split: sum.splits if_splits)
next
  case (6 ts)
  then show ?case
    by (fastforce simp: parseComparison.psimps split: sum.splits if_splits token.splits
        dest: parseOperator_length parseCall_length intro: tl_le)
qed

termination parseOr
  by (relation "measures [\<lambda>x. case x of Inl (Inl ts) \<Rightarrow> length ts | Inl (Inr (Inl (_, ts))) \<Rightarrow> length ts | Inl (Inr (Inr ts)) \<Rightarrow> length ts
        | Inr (Inl (_, ts)) \<Rightarrow> length ts | Inr (Inr (Inl ts)) \<Rightarrow> length ts | Inr (Inr (Inr ts)) \<Rightarrow> length ts,
      \<lambda>x. case x of Inl (Inl _) \<Rightarrow> 4 | Inl (Inr (Inl _)) \<Rightarrow> 0 | Inl (Inr (Inr _)) \<Rightarrow> 3 | Inr (Inl _) \<Rightarrow> 0 | Inr (Inr (Inl _)) \<Rightarrow> 2
        | Inr (Inr (Inr _)) \<Rightarrow> 1]")
    (auto dest!: parser_dom_length is_kw_ident simp: le_less_trans order_le_less)

declare parseOr.simps [simp del] orLoop.simps [simp del] parseAnd.simps [simp del] andLoop.simps [simp del]
  parseNot.simps [simp del] parseComparison.simps [simp del]

definition parseFilterExpr :: "string \<Rightarrow> expr_error + exprNode" where
  "parseFilterExpr s =
     (case tokenize s of
        Inl e \<Rightarrow> Inl e
      | Inr toks \<Rightarrow>
          (case parseOr toks of
             Inl e \<Rightarrow> Inl e
           | Inr (node, r) \<Rightarrow> if peek r \<noteq> tkEOF then Inl (UnexpectedToken (peek r)) else Inr node))"

section \<open>Operands\<close>

definition Sprintf_d :: "nat \<Rightarrow> string" where
  "Sprintf_d n = dec_of_nat n"

definition dynSize :: "heap \<Rightarrow> hval \<Rightarrow> nat" where
  "dynSize h v =
     (case as_map h v of
        None \<Rightarrow> 0
      | Some m \<Rightarrow>
          (case List.map_filter (\<lambda>t. map_option length (as_str (fld m t))) [''S'', ''N'', ''B''] of
             n # _ \<Rightarrow> n
           | [] \<Rightarrow>
               (case as_arr (fld m ''L'') of
                  Some l \<Rightarrow> length l
                | None \<Rightarrow>
                    (case as_map h (fld m ''M'') of
                       Some mp \<Rightarrow> fcard (fmdom mp)
                     | None \<Rightarrow>
                         (case List.map_filter (\<lambda>t. map_option length (as_arr (fld m t))) [''SS'', ''NS'', ''BS''] of
                            n # _ \<Rightarrow> n
                          | [] \<Rightarrow> 0)))))"

text \<open>The value of an operand and whether it was found; \<open>nil\<close> if not. \<open>size\<close> makes a fresh number attribute.\<close>

fun resolve :: "heap \<Rightarrow> obj \<Rightarrow> (string, string) fmap \<Rightarrow> (string, hval) fmap \<Rightarrow> operandNode \<Rightarrow> expr_error + heap \<times> hval \<times> bool" where
  "resolve h item names values (pathOperandNode parts) =
     (case hResolvePath h item (ResolveParts parts names) of None \<Rightarrow> Inr (h, HNil, False) | Some v \<Rightarrow> Inr (h, v, True))"
| "resolve h item names values (valOperandNode ref) =
     (case fmlookup values ref of None \<Rightarrow> Inl (ValueNotFound ref) | Some v \<Rightarrow> Inr (h, v, True))"
| "resolve h item names values (sizeOperandNode inner) =
     (case resolve h item names values inner of
        Inl e \<Rightarrow> Inl e
      | Inr (h, v, ok) \<Rightarrow>
          if \<not> ok \<or> v = HNil then Inr (h, HNil, False)
          else case alloc h (fmap_of_list [(''N'', HStr (Sprintf_d (dynSize h v)))]) of (h, n) \<Rightarrow> Inr (h, n, True))"

section \<open>Comparison\<close>

definition cmp_float :: "cmp \<Rightarrow> float64 \<Rightarrow> float64 \<Rightarrow> bool" where
  "cmp_float op x y =
     (case op of CEq \<Rightarrow> feq x y | CNeq \<Rightarrow> \<not> feq x y | CLt \<Rightarrow> fless x y | CLe \<Rightarrow> fle x y | CGt \<Rightarrow> fless y x | CGe \<Rightarrow> fle y x)"

definition cmp_string :: "cmp \<Rightarrow> string \<Rightarrow> string \<Rightarrow> bool" where
  "cmp_string op s t =
     (case op of CEq \<Rightarrow> s = t | CNeq \<Rightarrow> s \<noteq> t | CLt \<Rightarrow> s < t | CLe \<Rightarrow> s \<le> t | CGt \<Rightarrow> t < s | CGe \<Rightarrow> t \<le> s)"

definition cmp_eq_only :: "cmp \<Rightarrow> bool \<Rightarrow> bool" where
  "cmp_eq_only op e = (case op of CEq \<Rightarrow> e | CNeq \<Rightarrow> \<not> e | _ \<Rightarrow> False)"

definition attr_bool :: "heap \<Rightarrow> hval \<Rightarrow> bool option" where
  "attr_bool h v = (case as_map h v of None \<Rightarrow> None | Some m \<Rightarrow> as_bool (fld m ''BOOL''))"

definition compareValues :: "heap \<Rightarrow> hval \<Rightarrow> hval \<Rightarrow> cmp \<Rightarrow> bool" where
  "compareValues h a b op =
     (if a = HNil \<or> b = HNil then cmp_eq_only op (a = HNil \<and> b = HNil)
      else case (ParseNumeric h a, ParseNumeric h b) of
        (Some x, Some y) \<Rightarrow> cmp_float op x y
      | _ \<Rightarrow>
          (case (attr_bool h a, attr_bool h b) of
             (Some x, Some y) \<Rightarrow> cmp_eq_only op (x = y)
           | _ \<Rightarrow> cmp_string op (the_default [] (hAttrVal h a)) (the_default [] (hAttrVal h b))))"

text \<open>
  \<open>contains\<close>: substrings, list elements compared by their \<open>%v\<close> texts, and members of sets. \<open>None\<close> where
  printing does not return.
\<close>

fun contains_elem :: "heap \<Rightarrow> hval list \<Rightarrow> string option \<Rightarrow> bool option" where
  "contains_elem h [] t = Some False"
| "contains_elem h (e # es) t =
     (case (Sprint_v h e, t) of
        (Some s, Some t') \<Rightarrow> if s = t' then Some True else contains_elem h es t
      | _ \<Rightarrow> None)"

fun contains_set :: "heap \<Rightarrow> obj \<Rightarrow> obj \<Rightarrow> (string \<times> string) list \<Rightarrow> bool option" where
  "contains_set h cm sm [] = Some False"
| "contains_set h cm sm ((setKey, singleKey) # ks) =
     (case (as_arr (fld cm setKey), as_str (fld sm singleKey)) of
        (Some l, Some sv) \<Rightarrow> contains_elem h l (Some sv)
      | _ \<Rightarrow> contains_set h cm sm ks)"

definition dynContains :: "heap \<Rightarrow> hval \<Rightarrow> hval \<Rightarrow> bool option" where
  "dynContains h container sub =
     (case (as_map h container, as_map h sub) of
        (Some cm, Some sm) \<Rightarrow>
          (case as_str (fld cm ''S'') of
             Some cs \<Rightarrow> (case as_str (fld sm ''S'') of Some ss \<Rightarrow> Some (Contains cs ss) | None \<Rightarrow> Some False)
           | None \<Rightarrow>
               (case as_arr (fld cm ''L'') of
                  Some l \<Rightarrow> contains_elem h l (Sprint_v h sub)
                | None \<Rightarrow> contains_set h cm sm [(''SS'', ''S''), (''NS'', ''N''), (''BS'', ''B'')]))
      | _ \<Rightarrow> Some False)"

section \<open>Evaluation\<close>

type_synonym eval_result = "(expr_error + bool) go_result"

text \<open>The \<open>IN\<close> loop, and two operands in turn.\<close>

fun in_loop :: "heap \<Rightarrow> obj \<Rightarrow> (string, string) fmap \<Rightarrow> (string, hval) fmap \<Rightarrow> hval \<Rightarrow> operandNode list \<Rightarrow> expr_error + bool" where
  "in_loop h item names values t [] = Inr False"
| "in_loop h item names values t (elem # es) =
     (case resolve h item names values elem of
        Inl e \<Rightarrow> Inl e
      | Inr (h, v, _) \<Rightarrow> if compareValues h t v CEq then Inr True else in_loop h item names values t es)"

definition resolve2 :: "heap \<Rightarrow> obj \<Rightarrow> (string, string) fmap \<Rightarrow> (string, hval) fmap \<Rightarrow> operandNode \<Rightarrow> operandNode \<Rightarrow>
    (heap \<Rightarrow> hval \<Rightarrow> hval \<Rightarrow> eval_result) \<Rightarrow> eval_result" where
  "resolve2 h item names values x y k =
     (case resolve h item names values x of
        Inl e \<Rightarrow> Ret (Inl e)
      | Inr (h, v, _) \<Rightarrow> (case resolve h item names values y of Inl e \<Rightarrow> Ret (Inl e) | Inr (h, w, _) \<Rightarrow> k h v w))"

definition path_exists :: "heap \<Rightarrow> obj \<Rightarrow> (string, string) fmap \<Rightarrow> string \<Rightarrow> operandNode list \<Rightarrow> expr_error + bool" where
  "path_exists h item names fn args =
     (case args of
        [pathOperandNode parts] \<Rightarrow> Inr (hResolvePath h item (ResolveParts parts names) \<noteq> None)
      | [_] \<Rightarrow> Inl (RequiresPathArgument fn)
      | _ \<Rightarrow> Inl (RequiresArguments fn 1))"

definition evalFunc :: "heap \<Rightarrow> obj \<Rightarrow> (string, string) fmap \<Rightarrow> (string, hval) fmap \<Rightarrow> string \<Rightarrow> operandNode list \<Rightarrow> eval_result" where
  "evalFunc h item names values name args =
     (let fn = lower name;
          two = (\<lambda>k. case args of [x, y] \<Rightarrow> resolve2 h item names values x y k | _ \<Rightarrow> Ret (Inl (RequiresArguments fn 2)))
      in if fn = ''attribute_exists'' then Ret (path_exists h item names fn args)
         else if fn = ''attribute_not_exists'' then Ret (map_sum id Not (path_exists h item names fn args))
         else if fn = ''attribute_type'' then
           two (\<lambda>h v typeRef.
             let expected = the_default [] (hAttrVal h typeRef);
                 expected = (if expected = [] then the_default [] (as_str typeRef) else expected)
             in Ret (Inr (hAttrType h v = expected)))
         else if fn = ''begins_with'' then
           two (\<lambda>h v prefix. Ret (Inr (HasPrefix (the_default [] (hAttrVal h v)) (the_default [] (hAttrVal h prefix)))))
         else if fn = ''contains'' then
           two (\<lambda>h v sub. case dynContains h v sub of None \<Rightarrow> Panic | Some b \<Rightarrow> Ret (Inr b))
         else Ret (Inl (UnknownFunction name)))"

primrec eval :: "heap \<Rightarrow> obj \<Rightarrow> (string, string) fmap \<Rightarrow> (string, hval) fmap \<Rightarrow> exprNode \<Rightarrow> eval_result" where
  "eval h item names values (orNode l r) =
     go_bind (eval h item names values l) (\<lambda>b. if b then Ret (Inr True) else eval h item names values r)"
| "eval h item names values (andNode l r) =
     go_bind (eval h item names values l) (\<lambda>b. if \<not> b then Ret (Inr False) else eval h item names values r)"
| "eval h item names values (notNode n) = go_bind (eval h item names values n) (\<lambda>b. Ret (Inr (\<not> b)))"
| "eval h item names values (compareNode x y op) =
     resolve2 h item names values x y (\<lambda>h v w. Ret (Inr (compareValues h v w op)))"
| "eval h item names values (betweenNode t lo hi) =
     resolve2 h item names values t lo (\<lambda>h v l.
       case resolve h item names values hi of
         Inl e \<Rightarrow> Ret (Inl e)
       | Inr (h, u, _) \<Rightarrow> Ret (Inr (compareValues h v l CGe \<and> compareValues h v u CLe)))"
| "eval h item names values (inNode t es) =
     (case resolve h item names values t of
        Inl e \<Rightarrow> Ret (Inl e)
      | Inr (h, v, _) \<Rightarrow> Ret (in_loop h item names values v es))"
| "eval h item names values (funcNode name args) = evalFunc h item names values name args"

definition EvalFilter :: "heap \<Rightarrow> obj \<Rightarrow> string \<Rightarrow> (string, string) fmap \<Rightarrow> (string, hval) fmap \<Rightarrow> eval_result" where
  "EvalFilter h item expr names values =
     (if expr = [] then Ret (Inr True)
      else case parseFilterExpr expr of Inl e \<Rightarrow> Ret (Inl e) | Inr ast \<Rightarrow> eval h item names values ast)"

end
