(* ===== verification/Dynamo_Roundtrip.thy ===== *)
theory Dynamo_Roundtrip
  imports Dynamo_Expr
begin

text \<open>
  Filter expressions written out and parsed again: every syntax tree over proper names has a text that parses to
  it.
\<close>

section \<open>Writing tokens\<close>

fun token_text :: "token \<Rightarrow> string" where
  "token_text (tkIdent s) = s"
| "token_text (tkExprName s) = s"
| "token_text (tkExprVal s) = s"
| "token_text (tkNumber s) = s"
| "token_text tkDot = ''.''"
| "token_text tkLBracket = ''[''"
| "token_text tkRBracket = '']''"
| "token_text tkLParen = ''(''"
| "token_text tkRParen = '')''"
| "token_text tkComma = '',''"
| "token_text tkEq = ''=''"
| "token_text tkNeq = ''<>''"
| "token_text tkLt = ''<''"
| "token_text tkLe = ''<=''"
| "token_text tkGt = ''>''"
| "token_text tkGe = ''>=''"
| "token_text tkPlus = ''+''"
| "token_text tkMinus = ''-''"
| "token_text tkEOF = []"

definition ident :: "string \<Rightarrow> bool" where
  "ident s \<longleftrightarrow> s \<noteq> [] \<and> (isAlpha (hd s) \<or> hd s = CHR ''_'') \<and> list_all is_word s"

definition refname :: "char \<Rightarrow> string \<Rightarrow> bool" where
  "refname c s \<longleftrightarrow> s \<noteq> [] \<and> hd s = c \<and> list_all is_word (tl s)"

fun proper :: "token \<Rightarrow> bool" where
  "proper (tkIdent s) = ident s"
| "proper (tkExprName s) = refname CHR ''#'' s"
| "proper (tkExprVal s) = refname CHR '':'' s"
| "proper (tkNumber s) = (s \<noteq> [] \<and> list_all isDigit s)"
| "proper tkEOF = False"
| "proper _ = True"

definition tokens_text :: "token list \<Rightarrow> string" where
  "tokens_text ts = concat (map (\<lambda>t. token_text t @ '' '') ts)"

lemma not_word [simp]: "\<not> is_word CHR '' ''" "\<not> isDigit CHR '' ''" "is_space CHR '' ''"
  by (simp_all add: is_word_def isAlphaNum_def isAlpha_def isDigit_def is_space_def)

definition specials :: string where
  "specials = '' .[](),+-=<>#:'' @ [CHR 0x09, CHR 0x0A, CHR 0x0D]"

lemma specials_not_word: "c \<in> set specials \<Longrightarrow> \<not> isDigit c \<and> \<not> isAlpha c \<and> c \<noteq> CHR ''_''"
  by (auto simp: specials_def isDigit_def isAlpha_def less_eq_char_def)

lemma not_special: "c \<notin> set specials \<Longrightarrow> \<not> is_space c \<and> punct c = None \<and> c \<noteq> CHR ''<'' \<and> c \<noteq> CHR ''>'' \<and> c \<noteq> CHR ''#'' \<and> c \<noteq> CHR '':''"
  by (simp add: specials_def is_space_def punct_def)

lemma char_classes:
  "isDigit c \<Longrightarrow> \<not> is_space c \<and> punct c = None \<and> c \<noteq> CHR ''<'' \<and> c \<noteq> CHR ''>'' \<and> c \<noteq> CHR ''#'' \<and> c \<noteq> CHR '':''"
  "isAlpha c \<or> c = CHR ''_'' \<Longrightarrow> \<not> is_space c \<and> punct c = None \<and> c \<noteq> CHR ''<'' \<and> c \<noteq> CHR ''>'' \<and> c \<noteq> CHR ''#'' \<and> c \<noteq> CHR '':''"
  using specials_not_word [of c] not_special [of c] by (cases "c \<in> set specials"; simp)+

lemma alpha_not_digit: "isAlpha c \<or> c = CHR ''_'' \<Longrightarrow> \<not> isDigit c"
  by (auto simp: isDigit_def isAlpha_def less_eq_char_def)

lemma takeWhile_word:
  assumes "list_all P r" "\<not> P CHR '' ''"
  shows "takeWhile P (r @ CHR '' '' # s) = r" "dropWhile P (r @ CHR '' '' # s) = CHR '' '' # s"
  using assms by (induction r) auto

definition reads_as :: "token \<Rightarrow> string \<Rightarrow> bool" where
  "reads_as t s \<longleftrightarrow> (\<exists>c cs. token_text t @ '' '' @ s = c # cs \<and> \<not> is_space c \<and> next_token c cs = Some (t, '' '' @ s))"

lemma reads_as_intro: "token_text t = c # r \<Longrightarrow> \<not> is_space c \<Longrightarrow> next_token c (r @ '' '' @ s) = Some (t, '' '' @ s) \<Longrightarrow> reads_as t s"
  by (auto simp: reads_as_def)

lemma reads_ident: "ident n \<Longrightarrow> reads_as (tkIdent n) s"
proof -
  assume "ident n"
  then obtain c r where c: "n = c # r" "isAlpha c \<or> c = CHR ''_''" "list_all is_word r" by (cases n) (auto simp: ident_def)
  show ?thesis by (rule reads_as_intro [of _ c r])
    (use c char_classes(2) [OF c(2)] alpha_not_digit [OF c(2)] in \<open>simp_all add: next_token_def takeWhile_word\<close>)
qed

lemma reads_number: "n \<noteq> [] \<Longrightarrow> list_all isDigit n \<Longrightarrow> reads_as (tkNumber n) s"
proof -
  assume "n \<noteq> []" "list_all isDigit n"
  then obtain c r where c: "n = c # r" "isDigit c" "list_all isDigit r" by (cases n) auto
  show ?thesis by (rule reads_as_intro [of _ c r])
    (use c char_classes(1) [OF c(2)] in \<open>simp_all add: next_token_def takeWhile_word\<close>)
qed

lemma reads_ref: "refname CHR ''#'' n \<Longrightarrow> reads_as (tkExprName n) s" "refname CHR '':'' n \<Longrightarrow> reads_as (tkExprVal n) s"
proof -
  assume "refname CHR ''#'' n"
  then obtain r where r: "n = CHR ''#'' # r" "list_all is_word r" by (cases n) (auto simp: refname_def)
  show "reads_as (tkExprName n) s" by (rule reads_as_intro [of _ "CHR ''#''" r]) (use r in \<open>simp_all add: next_token_def takeWhile_word punct_def is_space_def\<close>)
next
  assume "refname CHR '':'' n"
  then obtain r where r: "n = CHR '':'' # r" "list_all is_word r" by (cases n) (auto simp: refname_def)
  show "reads_as (tkExprVal n) s" by (rule reads_as_intro [of _ "CHR '':''" r]) (use r in \<open>simp_all add: next_token_def takeWhile_word punct_def is_space_def\<close>)
qed

lemma reads_proper: "proper t \<Longrightarrow> reads_as t s"
proof (cases t)
  case (tkIdent n)
  then show "proper t \<Longrightarrow> reads_as t s" by (simp add: reads_ident)
next
  case (tkExprName n)
  then show "proper t \<Longrightarrow> reads_as t s" by (simp add: reads_ref)
next
  case (tkExprVal n)
  then show "proper t \<Longrightarrow> reads_as t s" by (simp add: reads_ref)
next
  case (tkNumber n)
  then show "proper t \<Longrightarrow> reads_as t s" by (simp add: reads_number)
qed (simp_all add: reads_as_def next_token_def punct_def is_space_def)

lemma tokenize_text: "list_all proper ts \<Longrightarrow> tokenize (tokens_text ts) = Inr (ts @ [tkEOF])"
proof (induction ts)
  case (Cons t ts)
  then have "reads_as t (tokens_text ts)" by (simp add: reads_proper)
  then obtain c cs where c: "token_text t @ '' '' @ tokens_text ts = c # cs" "\<not> is_space c" "next_token c cs = Some (t, '' '' @ tokens_text ts)"
    by (auto simp: reads_as_def)
  have "tokenize (c # cs) = Inr (t # ts @ [tkEOF])" using c(2,3) Cons by simp
  moreover have "tokens_text (t # ts) = c # cs" using c(1) by (simp add: tokens_text_def)
  ultimately show ?case by simp
qed (simp add: tokens_text_def)

section \<open>Writing operands\<close>

text \<open>A name as it stands in a path: an identifier or a name placeholder.\<close>

definition name_token :: "string \<Rightarrow> token" where
  "name_token n = (if refname CHR ''#'' n then tkExprName n else tkIdent n)"

fun step_tokens :: "PathPart list \<Rightarrow> token list" where
  "step_tokens [] = []"
| "step_tokens (p # ps) =
     (if Name p \<noteq> [] then [tkDot, name_token (Name p)] else [tkLBracket, tkNumber (dec_of_nat (nat (Index p))), tkRBracket]) @ step_tokens ps"

fun operand_tokens :: "operandNode \<Rightarrow> token list" where
  "operand_tokens (pathOperandNode ps) = name_token (Name (hd ps)) # step_tokens (tl ps)"
| "operand_tokens (valOperandNode v) = [tkExprVal v]"
| "operand_tokens (sizeOperandNode x) = tkIdent ''size'' # tkLParen # operand_tokens x @ [tkRParen]"

definition proper_name :: "string \<Rightarrow> bool" where
  "proper_name n \<longleftrightarrow> ident n \<or> refname CHR ''#'' n"

definition proper_step :: "PathPart \<Rightarrow> bool" where
  "proper_step p \<longleftrightarrow> (if Name p \<noteq> [] then proper_name (Name p) \<and> p = named (Name p) else p = indexed (Index p) \<and> 0 \<le> Index p \<and> Index p < 2 ^ 63)"

definition reserved :: "string \<Rightarrow> bool" where
  "reserved n \<longleftrightarrow> EqualFold n ''size'' \<or> EqualFold n ''NOT'' \<or> lower n \<in> set bool_functions"

fun proper_operand :: "operandNode \<Rightarrow> bool" where
  "proper_operand (pathOperandNode ps) =
     (ps \<noteq> [] \<and> proper_name (Name (hd ps)) \<and> hd ps = named (Name (hd ps)) \<and> (ident (Name (hd ps)) \<longrightarrow> \<not> reserved (Name (hd ps))) \<and>
      list_all proper_step (tl ps))"
| "proper_operand (valOperandNode v) = refname CHR '':'' v"
| "proper_operand (sizeOperandNode x) = proper_operand x"

section \<open>Reading operands\<close>

definition ends_path :: "token \<Rightarrow> bool" where
  "ends_path t \<longleftrightarrow> t \<noteq> tkDot \<and> t \<noteq> tkLBracket"

lemma step_tokens_read: "list_all proper_step ps \<Longrightarrow> ends_path (peek ts) \<Longrightarrow> path_steps (step_tokens ps @ ts) = Inr (ps, ts)"
proof (induction ps)
  case Nil
  then show ?case by (subst path_steps.simps) (simp add: ends_path_def split: token.split)
next
  case (Cons p ps)
  then have ih: "path_steps (step_tokens ps @ ts) = Inr (ps, ts)" by simp
  show ?case
  proof (cases "Name p = []")
    case False
    with Cons.prems(1) have "p = named (Name p)" by (simp add: proper_step_def)
    with False ih show ?thesis by (subst path_steps.simps) (simp add: name_token_def)
  next
    case True
    with Cons.prems(1) have p: "p = indexed (Index p)" "0 \<le> Index p" "Index p < 2 ^ 63" by (simp_all add: proper_step_def)
    with True ih show ?thesis by (subst path_steps.simps) (simp add: dec_val_dec_of_nat min_def)
  qed
qed

lemma not_size_kw: "proper_operand (pathOperandNode ps) \<Longrightarrow> \<not> is_kw (name_token (Name (hd ps))) ''size'' \<and> \<not> is_kw (name_token (Name (hd ps))) ''NOT''"
  by (auto simp: is_kw_def name_token_def proper_name_def reserved_def)

lemma operand_read: "proper_operand x \<Longrightarrow> ends_path (peek ts) \<Longrightarrow> parseOperand (operand_tokens x @ ts) = Inr (x, ts)"
proof (induction x arbitrary: ts)
  case (pathOperandNode ps)
  let ?n = "Name (hd ps)"
  have ps: "list_all proper_step (tl ps)" "ps = named ?n # tl ps" using pathOperandNode.prems(1) by (auto simp: neq_Nil_conv)
  have "parsePath ?n (step_tokens (tl ps) @ ts) = Inr (pathOperandNode ps, ts)"
    using step_tokens_read [OF ps(1) pathOperandNode.prems(2)] ps(2) by (simp add: parsePath_def)
  with not_size_kw [OF pathOperandNode.prems(1)] show ?case
    by (subst parseOperand.simps) (simp add: Let_def name_token_def)
next
  case (valOperandNode v)
  then show ?case by (subst parseOperand.simps) (simp add: is_kw_def)
next
  case (sizeOperandNode x)
  have "parseOperand (operand_tokens x @ tkRParen # ts) = Inr (x, tkRParen # ts)"
    using sizeOperandNode.prems by (intro sizeOperandNode.IH) (simp_all add: ends_path_def)
  then show ?case by (subst parseOperand.simps) (simp add: is_kw_def EqualFold_same Let_def)
qed

fun list_tokens :: "operandNode list \<Rightarrow> token list" where
  "list_tokens [] = []"
| "list_tokens [x] = operand_tokens x"
| "list_tokens (x # y # xs) = operand_tokens x @ tkComma # list_tokens (y # xs)"

lemma list_read:
  "xs \<noteq> [] \<Longrightarrow> list_all proper_operand xs \<Longrightarrow> parseOperandList (list_tokens xs @ tkRParen # ts) = Inr (xs, tkRParen # ts)"
proof (induction xs rule: list_tokens.induct)
  case (2 x)
  then show ?case by (subst parseOperandList.simps) (simp add: operand_read ends_path_def)
next
  case (3 x y xs)
  then have "parseOperandList (list_tokens (y # xs) @ tkRParen # ts) = Inr (y # xs, tkRParen # ts)" by simp
  with 3 show ?case by (subst parseOperandList.simps) (simp add: operand_read ends_path_def)
qed simp

section \<open>Writing and reading expressions\<close>

fun cmp_token :: "cmp \<Rightarrow> token" where
  "cmp_token CEq = tkEq"
| "cmp_token CNeq = tkNeq"
| "cmp_token CLt = tkLt"
| "cmp_token CLe = tkLe"
| "cmp_token CGt = tkGt"
| "cmp_token CGe = tkGe"

lemma cmp_token_read [simp]: "cmp_of (cmp_token op) = Some op" "ends_path (cmp_token op)"
  by (cases op; simp add: cmp_of_def ends_path_def)+

definition parens :: "token list \<Rightarrow> token list" where
  "parens ts = tkLParen # ts @ [tkRParen]"

fun expr_tokens :: "exprNode \<Rightarrow> token list" where
  "expr_tokens (orNode l r) = parens (expr_tokens l) @ tkIdent ''OR'' # parens (expr_tokens r)"
| "expr_tokens (andNode l r) = parens (expr_tokens l) @ tkIdent ''AND'' # parens (expr_tokens r)"
| "expr_tokens (notNode n) = tkIdent ''NOT'' # parens (expr_tokens n)"
| "expr_tokens (compareNode x y op) = operand_tokens x @ cmp_token op # operand_tokens y"
| "expr_tokens (betweenNode x lo hi) = operand_tokens x @ tkIdent ''BETWEEN'' # operand_tokens lo @ tkIdent ''AND'' # operand_tokens hi"
| "expr_tokens (inNode x ys) = operand_tokens x @ tkIdent ''IN'' # parens (list_tokens ys)"
| "expr_tokens (funcNode f ys) = tkIdent f # parens (list_tokens ys)"

fun proper_expr :: "exprNode \<Rightarrow> bool" where
  "proper_expr (orNode l r) = (proper_expr l \<and> proper_expr r)"
| "proper_expr (andNode l r) = (proper_expr l \<and> proper_expr r)"
| "proper_expr (notNode n) = proper_expr n"
| "proper_expr (compareNode x y op) = (proper_operand x \<and> proper_operand y)"
| "proper_expr (betweenNode x lo hi) = (proper_operand x \<and> proper_operand lo \<and> proper_operand hi)"
| "proper_expr (inNode x ys) = (proper_operand x \<and> ys \<noteq> [] \<and> list_all proper_operand ys)"
| "proper_expr (funcNode f ys) = (ident f \<and> lower f \<in> set bool_functions \<and> ys \<noteq> [] \<and> list_all proper_operand ys)"

text \<open>What ends an expression: the closing parenthesis around it, or the end of the text.\<close>

definition ends_expr :: "token \<Rightarrow> bool" where
  "ends_expr t \<longleftrightarrow> t = tkRParen \<or> t = tkEOF"

lemma ends_expr_kw: "ends_expr t \<Longrightarrow> \<not> is_kw t kw \<and> ends_path t"
  by (auto simp: ends_expr_def is_kw_def ends_path_def)

lemma is_kw_simps [simp]: "is_kw (tkIdent n) kw = EqualFold n kw" "\<not> is_kw tkLParen kw" "\<not> is_kw tkRParen kw"
  by (simp_all add: is_kw_def)

text \<open>An operand does not start like a parenthesis, a negation or a call.\<close>

lemma operand_start:
  assumes "proper_operand x"
  shows "\<exists>t us. operand_tokens x @ ts = t # us \<and> t \<noteq> tkLParen \<and> \<not> is_kw t ''NOT'' \<and> (\<forall>v. t = tkIdent v \<longrightarrow> lower v \<notin> set bool_functions)"
proof (cases x)
  case (pathOperandNode ps)
  with assms not_size_kw show ?thesis by (auto simp: name_token_def proper_name_def reserved_def)
next
  case (sizeOperandNode y)
  have "\<not> EqualFold ''size'' ''NOT''" "lower ''size'' \<notin> set bool_functions" by code_simp+
  with sizeOperandNode show ?thesis by simp
qed (simp add: is_kw_def)

lemma operator_read:
  assumes "proper_operand x" "parseOperator (operand_tokens x @ ts) = Inr (e, r)"
  shows "parseNot (operand_tokens x @ ts) = Inr (e, r)"
proof -
  from operand_start [OF assms(1)] obtain t us where t: "operand_tokens x @ ts = t # us" "t \<noteq> tkLParen" "\<not> is_kw t ''NOT''"
    "\<forall>v. t = tkIdent v \<longrightarrow> lower v \<notin> set bool_functions" by blast
  from assms(2) show ?thesis unfolding t(1) using t(2-4)
    by (subst parseNot.simps, subst parseComparison.simps) (auto split: token.splits)
qed

lemma parens_read:
  assumes "\<And>ts. ends_expr (peek ts) \<Longrightarrow> parseOr (u @ ts) = Inr (e, ts)"
  shows "parseNot (parens u @ ts) = Inr (e, ts)"
  using assms [of "tkRParen # ts"] by (subst parseNot.simps, subst parseComparison.simps) (simp add: parens_def ends_expr_def)

lemma loops_end:
  assumes "ends_expr (peek ts)"
  shows "andLoop e ts = Inr (e, ts)" "orLoop e ts = Inr (e, ts)"
  using ends_expr_kw [OF assms] by (simp_all add: andLoop.simps orLoop.simps)

lemma not_to_or: "parseNot us = Inr (e, ts) \<Longrightarrow> ends_expr (peek ts) \<Longrightarrow> parseOr us = Inr (e, ts)"
  by (simp add: parseOr.simps parseAnd.simps loops_end)

lemma kw_facts [simp]: "\<not> EqualFold ''OR'' ''AND''" "EqualFold ''OR'' ''OR''" "EqualFold ''AND'' ''AND''" "EqualFold ''NOT'' ''NOT''"
  "upper ''BETWEEN'' = ''BETWEEN''" "upper ''IN'' = ''IN''" "cmp_of (tkIdent v) = None" "ends_path (tkIdent v)"
  by (simp_all add: EqualFold_same cmp_of_def ends_path_def) code_simp+

lemma bool_function_not_kw: "lower f \<in> set bool_functions \<Longrightarrow> \<not> EqualFold f ''NOT''"
proof -
  assume "lower f \<in> set bool_functions"
  then obtain c r where c: "f = c # r" "lower_char c \<in> {CHR ''a'', CHR ''b'', CHR ''c''}" by (cases f) (auto simp: lower_def bool_functions_def)
  have "lower_char CHR ''N'' = CHR ''n''" by code_simp
  with c show ?thesis by (auto simp: EqualFold.simps)
qed

lemma expr_read: "proper_expr e \<Longrightarrow> ends_expr (peek ts) \<Longrightarrow> parseOr (expr_tokens e @ ts) = Inr (e, ts)"
proof (induction e arbitrary: ts)
  case (orNode l r)
  have "parseNot (parens (expr_tokens l) @ us) = Inr (l, us)" "parseNot (parens (expr_tokens r) @ us) = Inr (r, us)" for us
    using orNode by (auto intro!: parens_read)
  then show ?case using orNode.prems(2) by (simp add: parseOr.simps parseAnd.simps andLoop.simps [of l] orLoop.simps [of l] loops_end)
next
  case (andNode l r)
  have "parseNot (parens (expr_tokens l) @ us) = Inr (l, us)" "parseNot (parens (expr_tokens r) @ us) = Inr (r, us)" for us
    using andNode by (auto intro!: parens_read)
  then show ?case using andNode.prems(2) by (simp add: parseOr.simps parseAnd.simps andLoop.simps [of l] loops_end)
next
  case (notNode n)
  have "parseNot (parens (expr_tokens n) @ us) = Inr (n, us)" for us using notNode by (auto intro!: parens_read)
  then have "parseNot (tkIdent ''NOT'' # parens (expr_tokens n) @ ts) = Inr (notNode n, ts)" by (subst parseNot.simps) simp
  then show ?case using notNode.prems(2) by (simp add: not_to_or)
next
  case (compareNode x y op)
  have "parseOperator (operand_tokens x @ cmp_token op # operand_tokens y @ ts) = Inr (compareNode x y op, ts)"
    using compareNode ends_expr_kw by (simp add: parseOperator_def operand_read)
  then have "parseNot (operand_tokens x @ cmp_token op # operand_tokens y @ ts) = Inr (compareNode x y op, ts)"
    using compareNode.prems(1) by (intro operator_read) simp_all
  then show ?case using compareNode.prems(2) by (simp add: not_to_or)
next
  case (betweenNode x lo hi)
  let ?us = "tkIdent ''BETWEEN'' # operand_tokens lo @ tkIdent ''AND'' # operand_tokens hi @ ts"
  have "parseOperator (operand_tokens x @ ?us) = Inr (betweenNode x lo hi, ts)"
    using betweenNode ends_expr_kw by (simp add: parseOperator_def operand_read expectKwd_def)
  then have "parseNot (operand_tokens x @ ?us) = Inr (betweenNode x lo hi, ts)" using betweenNode.prems(1) by (intro operator_read) simp_all
  then show ?case using betweenNode.prems(2) by (simp add: not_to_or)
next
  case (inNode x ys)
  let ?us = "tkIdent ''IN'' # parens (list_tokens ys) @ ts"
  have "parseOperator (operand_tokens x @ ?us) = Inr (inNode x ys, ts)"
    using inNode by (simp add: parseOperator_def operand_read list_read parens_def)
  then have "parseNot (operand_tokens x @ ?us) = Inr (inNode x ys, ts)" using inNode.prems(1) by (intro operator_read) simp_all
  then show ?case using inNode.prems(2) by (simp add: not_to_or)
next
  case (funcNode f ys)
  have "parseNot (tkIdent f # parens (list_tokens ys) @ ts) = Inr (funcNode f ys, ts)"
    using funcNode bool_function_not_kw
    by (subst parseNot.simps, subst parseComparison.simps) (simp add: parseCall_def list_read parens_def)
  then show ?case using funcNode.prems(2) by (simp add: not_to_or)
qed

section \<open>The tokens of proper trees are proper\<close>

lemma isDigit_dec: "list_all isDigit (dec_of_nat n)"
  using list_all_is_digit_dec [of n] by (simp add: isDigit_def [abs_def] is_digit_def [abs_def])

lemma name_token_proper: "proper_name n \<Longrightarrow> proper (name_token n)"
  by (auto simp: proper_name_def name_token_def)

lemma step_tokens_proper: "list_all proper_step ps \<Longrightarrow> list_all proper (step_tokens ps)"
  by (induction ps) (auto simp: proper_step_def name_token_proper isDigit_dec)

lemma operand_tokens_proper: "proper_operand x \<Longrightarrow> list_all proper (operand_tokens x)"
proof (induction x)
  case (sizeOperandNode x)
  have "ident ''size''" by code_simp
  with sizeOperandNode show ?case by simp
qed (auto simp: name_token_proper step_tokens_proper)

lemma list_tokens_proper: "list_all proper_operand xs \<Longrightarrow> list_all proper (list_tokens xs)"
  by (induction xs rule: list_tokens.induct) (auto simp: operand_tokens_proper)

lemma expr_tokens_proper: "proper_expr e \<Longrightarrow> list_all proper (expr_tokens e)"
proof -
  have "ident ''OR''" "ident ''AND''" "ident ''NOT''" "ident ''BETWEEN''" "ident ''IN''" by code_simp+
  moreover have "proper (cmp_token op)" for op by (cases op) simp_all
  ultimately show "proper_expr e \<Longrightarrow> list_all proper (expr_tokens e)"
    by (induction e) (auto simp: parens_def operand_tokens_proper list_tokens_proper)
qed

definition expr_text :: "exprNode \<Rightarrow> string" where
  "expr_text e = tokens_text (expr_tokens e)"

text \<open>
  C30: the expression parser reads back what is written. For every syntax tree whose names are identifiers or placeholders, whose
  list indexes are 63-bit numbers and whose calls name a boolean function, the written text is accepted, and the result is
  the tree itself: no operator, operand order or nesting is lost.
\<close>

theorem filter_parse_round_trip:
  assumes "proper_expr e"
  shows "parseFilterExpr (expr_text e) = Inr e"
  using expr_read [OF assms, of "[tkEOF]"] tokenize_text [OF expr_tokens_proper [OF assms]]
  by (simp add: parseFilterExpr_def expr_text_def ends_expr_def)

theorem filter_parse_round_trip_witness:
  "parseFilterExpr (expr_text (andNode (compareNode (pathOperandNode [named ''a'', indexed 2]) (valOperandNode '':v'') CLe)
      (notNode (funcNode ''contains'' [pathOperandNode [named ''#b''], valOperandNode '':w''])))) =
    Inr (andNode (compareNode (pathOperandNode [named ''a'', indexed 2]) (valOperandNode '':v'') CLe)
      (notNode (funcNode ''contains'' [pathOperandNode [named ''#b''], valOperandNode '':w''])))"
  by (rule filter_parse_round_trip) code_simp

end
