(* ===== verification/Dynamo_Update.thy ===== *)
theory Dynamo_Update
  imports Dynamo_Expr
begin

text \<open>
  Update expressions of DynamoDB: \<open>applyUpdateExpression\<close> of
  \<open>internal/aws/store/dynamodb/expression.go\<close> and its helpers.

  An update works on the item in place. It returns the heap also when it fails: what the clauses before the failure
  wrote into nested maps stays written. \<open>Panic\<close> stands for a slice out of range, which a text whose upper-case form has
  another length can cause, and for printing a value whose maps contain one another.
\<close>

section \<open>Clauses\<close>

definition update_keywords :: "string list" where
  "update_keywords = [''SET'', ''REMOVE'', ''ADD'', ''DELETE'']"

text \<open>The positions of a keyword: followed by a space, at the start or after a space.\<close>

definition keyword_positions :: "string \<Rightarrow> string \<Rightarrow> (string \<times> nat) list" where
  "keyword_positions padded kw =
     map (\<lambda>i. (kw, i))
       (filter (\<lambda>i. HasPrefix (drop i padded) (kw @ '' '') \<and> (i = 0 \<or> padded ! (i - 1) = CHR '' '')) [0..<length padded])"

fun clause_bodies :: "string \<Rightarrow> (string \<times> nat) list \<Rightarrow> (string, string) fmap \<Rightarrow> (string, string) fmap go_result" where
  "clause_bodies expr [] result = Ret result"
| "clause_bodies expr ((kw, pos) # found) result =
     (let contentEnd = (case found of [] \<Rightarrow> length expr | (_, p) # _ \<Rightarrow> p);
          contentStart = min (pos + length kw + 1) contentEnd
      in case slice expr contentStart contentEnd of
           Panic \<Rightarrow> Panic
         | Ret body \<Rightarrow> clause_bodies expr found (fmupd kw (TrimSpace body) result))"

definition parseUpdateClauses :: "unicode \<Rightarrow> string \<Rightarrow> (string, string) fmap go_result" where
  "parseUpdateClauses uni expr =
     (let padded = ToUpper (uUpper uni) expr @ '' '';
          found = sort_key snd (concat (map (keyword_positions padded) update_keywords))
      in clause_bodies expr found fmempty)"

section \<open>Values\<close>

definition resolveExprValue :: "string \<Rightarrow> (string, hval) fmap \<Rightarrow> hval" where
  "resolveExprValue ref values =
     (if HasPrefix ref '':'' then the_default (HStr ref) (fmlookup values ref) else HStr ref)"

definition resolveExprName :: "string \<Rightarrow> (string, string) fmap \<Rightarrow> string" where
  "resolveExprName ref names =
     (if HasPrefix ref ''#'' then the_default (drop 1 ref) (fmlookup names ref) else ref)"

definition evalOperandForSet :: "heap \<Rightarrow> obj \<Rightarrow> string \<Rightarrow> (string, string) fmap \<Rightarrow> (string, hval) fmap \<Rightarrow> hval" where
  "evalOperandForSet h item ref names values =
     (let ref = TrimSpace ref
      in if HasPrefix ref '':'' then resolveExprValue ref values
         else the_default HNil (hResolvePath h item (ResolveParts (ParsePathParts ref) names)))"

fun matching_paren :: "nat \<Rightarrow> string \<Rightarrow> string \<Rightarrow> string option" where
  "matching_paren depth cur [] = None"
| "matching_paren depth cur (c # cs) =
     (if c = CHR ''('' then matching_paren (Suc depth) (c # cur) cs
      else if c = CHR '')'' then (if depth = 1 then Some (rev cur) else matching_paren (depth - 1) (c # cur) cs)
      else matching_paren depth (c # cur) cs)"

definition extractFunctionBody :: "string \<Rightarrow> nat \<Rightarrow> string option" where
  "extractFunctionBody expr n =
     (if length expr \<le> n + 1 then None
      else if expr ! n \<noteq> CHR ''('' then None
      else matching_paren 1 [] (drop (n + 1) expr))"

fun arith_scan :: "int \<Rightarrow> nat \<Rightarrow> string \<Rightarrow> nat option" where
  "arith_scan depth i [] = None"
| "arith_scan depth i (c # cs) =
     (if c = CHR ''('' \<or> c = CHR ''['' then arith_scan (depth + 1) (Suc i) cs
      else if c = CHR '')'' \<or> c = CHR '']'' then arith_scan (depth - 1) (Suc i) cs
      else if (c = CHR ''+'' \<or> c = CHR ''-'') \<and> depth = 0 then Some i
      else arith_scan depth (Suc i) cs)"

definition findTopLevelArithOp :: "string \<Rightarrow> nat option" where
  "findTopLevelArithOp expr = arith_scan 0 0 expr"

definition list_or_empty :: "heap \<Rightarrow> hval \<Rightarrow> hval list" where
  "list_or_empty h v = (case as_map h v of None \<Rightarrow> [] | Some m \<Rightarrow> the_default [] (as_arr (fld m ''L'')))"

definition appendLists :: "heap \<Rightarrow> hval \<Rightarrow> hval \<Rightarrow> heap \<times> hval" where
  "appendLists h a b = alloc h (fmap_of_list [(''L'', HArr (list_or_empty h a @ list_or_empty h b))])"

definition number :: "heap \<Rightarrow> float64 \<Rightarrow> heap \<times> hval" where
  "number h x = alloc h (fmap_of_list [(''N'', HStr (fmt_g x))])"

lemma TrimLeftSpace_length: "length (TrimLeftSpace s) \<le> length s"
  by (induction s rule: TrimLeftSpace.induct) (subst TrimLeftSpace.simps, auto)

lemma TrimRightSpace_length: "length (TrimRightSpace s) \<le> length s"
  by (metis TrimRightSpace_prefix length_append le_add1)

lemma TrimSpace_length: "length (TrimSpace s) \<le> length s"
  unfolding TrimSpace_def by (rule order_trans [OF TrimRightSpace_length TrimLeftSpace_length])

lemma split_outside_part: "p \<in> set (split_outside opn cls sep d cur s) \<Longrightarrow> length p \<le> length cur + length s"
  by (induction opn cls sep d cur s rule: split_outside.induct) (auto split: if_splits)

lemma splitComma_part: "p \<in> set (splitComma s) \<Longrightarrow> length p \<le> length s"
  by (auto simp: splitComma_def dest!: split_outside_part intro: order_trans [OF TrimSpace_length])

lemma matching_paren_length: "matching_paren d cur s = Some t \<Longrightarrow> length t \<le> length cur + length s"
  by (induction d cur s rule: matching_paren.induct) (auto split: if_splits)

lemma extractFunctionBody_length: "extractFunctionBody s n = Some t \<Longrightarrow> length t < length s"
  by (auto simp: extractFunctionBody_def split: if_splits dest!: matching_paren_length)

text \<open>The right-hand side of an assignment; the fallback of \<open>if_not_exists\<close> is evaluated in turn.\<close>

function evalSetValue :: "unicode \<Rightarrow> heap \<Rightarrow> obj \<Rightarrow> string \<Rightarrow> (string, string) fmap \<Rightarrow> (string, hval) fmap \<Rightarrow> expr_error + heap \<times> hval" where
  "evalSetValue uni h item expr0 names values =
     (let expr = TrimSpace expr0; low = ToLower (uLower uni) expr
      in if HasPrefix low ''if_not_exists('' then
           (case extractFunctionBody expr (length ''if_not_exists'') of
              None \<Rightarrow> Inl (MalformedExpression ''if_not_exists'')
            | Some inner \<Rightarrow>
                (case splitComma inner of
                   [p, v] \<Rightarrow>
                     (case hResolvePath h item (ResolveParts (ParsePathParts (TrimSpace p)) names) of
                        Some cur \<Rightarrow> Inr (h, cur)
                      | None \<Rightarrow> evalSetValue uni h item (TrimSpace v) names values)
                 | _ \<Rightarrow> Inl (RequiresExactlyTwo ''if_not_exists'')))
         else if HasPrefix low ''list_append('' then
           (case extractFunctionBody expr (length ''list_append'') of
              None \<Rightarrow> Inl (MalformedExpression ''list_append'')
            | Some inner \<Rightarrow>
                (case splitComma inner of
                   [l, r] \<Rightarrow>
                     Inr (appendLists h (evalOperandForSet h item (TrimSpace l) names values)
                                        (evalOperandForSet h item (TrimSpace r) names values))
                 | _ \<Rightarrow> Inl (RequiresExactlyTwo ''list_append'')))
         else
           let plain = Inr (h, evalOperandForSet h item expr names values)
           in case findTopLevelArithOp expr of
                None \<Rightarrow> plain
              | Some i \<Rightarrow>
                  (case (ParseNumeric h (evalOperandForSet h item (TrimSpace (take i expr)) names values),
                         ParseNumeric h (evalOperandForSet h item (TrimSpace (drop (i + 1) expr)) names values)) of
                     (Some x, Some y) \<Rightarrow> Inr (number h (if expr ! i = CHR ''+'' then fadd x y else fsub x y))
                   | _ \<Rightarrow> plain))"
  by pat_completeness auto
termination
proof (relation "measure (\<lambda>(uni, h, item, expr, names, values). length expr)", goal_cases)
  case (2 uni h item expr0 names vals expr low inner p q v)
  then have "length v \<le> length inner" by (intro splitComma_part) simp
  with 2 show ?case
    using TrimSpace_length [of expr0] TrimSpace_length [of v] extractFunctionBody_length [of expr _ inner] by fastforce
qed simp

declare evalSetValue.simps [simp del]

section \<open>Numbers and sets\<close>

text \<open>Elements with the same \<open>%v\<close> text are the same element; \<open>None\<close> where printing does not return.\<close>

fun union_loop :: "heap \<Rightarrow> string list \<Rightarrow> hval list \<Rightarrow> hval list option" where
  "union_loop h seen [] = Some []"
| "union_loop h seen (v # vs) =
     (case Sprint_v h v of
        None \<Rightarrow> None
      | Some key \<Rightarrow>
          if key \<in> set seen then union_loop h seen vs else map_option ((#) v) (union_loop h (key # seen) vs))"

definition unionSet :: "heap \<Rightarrow> hval list \<Rightarrow> hval list \<Rightarrow> hval list option" where
  "unionSet h a b = union_loop h [] (a @ b)"

definition set_types :: "string list" where
  "set_types = [''SS'', ''NS'', ''BS'']"

definition common_set_type :: "obj \<Rightarrow> obj \<Rightarrow> (string \<times> hval list \<times> hval list) option" where
  "common_set_type em vm =
     (case List.map_filter (\<lambda>t. case (as_arr (fld em t), as_arr (fld vm t)) of (Some x, Some y) \<Rightarrow> Some (t, x, y) | _ \<Rightarrow> None) set_types of
        [] \<Rightarrow> None
      | r # _ \<Rightarrow> Some r)"

definition applyAddOp :: "heap \<Rightarrow> hval \<Rightarrow> hval \<Rightarrow> (heap \<times> hval) option" where
  "applyAddOp h existing val =
     (case (as_map h existing, as_map h val) of
        (Some em, Some vm) \<Rightarrow>
          if fmlookup em ''N'' \<noteq> None \<and> fmlookup vm ''N'' \<noteq> None then
            Some (number h (fadd (numeric_or_zero h existing) (numeric_or_zero h val)))
          else (case common_set_type em vm of
                  Some (t, x, y) \<Rightarrow>
                    (case unionSet h x y of None \<Rightarrow> None | Some u \<Rightarrow> Some (alloc h (fmap_of_list [(t, HArr u)])))
                | None \<Rightarrow> Some (h, val))
      | _ \<Rightarrow> Some (h, val))"

datatype delete_result = EmptySet | NewSet heap hval

definition deleteFromSet :: "heap \<Rightarrow> hval \<Rightarrow> hval \<Rightarrow> delete_result option" where
  "deleteFromSet h existing val =
     (case (as_map h existing, as_map h val) of
        (Some em, Some vm) \<Rightarrow>
          (case common_set_type em vm of
             None \<Rightarrow> Some (NewSet h existing)
           | Some (t, x, y) \<Rightarrow>
               if None \<in> Sprint_v h ` set (y @ x) then None
               else let result = filter (\<lambda>v. Sprint_v h v \<notin> Sprint_v h ` set y) x
                 in if result = [] then Some EmptySet
                    else (case alloc h (fmap_of_list [(t, HArr result)]) of (h, v) \<Rightarrow> Some (NewSet h v)))
      | _ \<Rightarrow> Some (NewSet h existing))"

section \<open>The clauses of an update\<close>

type_synonym update_result = "(heap \<times> (expr_error + obj)) go_result"

fun set_loop :: "unicode \<Rightarrow> (string, string) fmap \<Rightarrow> (string, hval) fmap \<Rightarrow> string list \<Rightarrow> heap \<Rightarrow> obj \<Rightarrow> update_result" where
  "set_loop uni names values [] h item = Ret (h, Inr item)"
| "set_loop uni names values (a # as) h item =
     (let a = TrimSpace a
      in case IndexByte a CHR ''='' of
           None \<Rightarrow> set_loop uni names values as h item
         | Some i \<Rightarrow>
             let lhsParts = ResolveParts (ParsePathParts (TrimSpace (take i a))) names
             in case evalSetValue uni h item (TrimSpace (drop (i + 1) a)) names values of
                  Inl e \<Rightarrow> Ret (h, Inl e)
                | Inr (h, val) \<Rightarrow>
                    if val = HNil then set_loop uni names values as h item
                    else (case hSetPath h item lhsParts val of
                            Inl e \<Rightarrow> Ret (h, Inl (PathError e))
                          | Inr (h, item) \<Rightarrow> set_loop uni names values as h item))"

fun remove_loop :: "(string, string) fmap \<Rightarrow> string list \<Rightarrow> heap \<Rightarrow> obj \<Rightarrow> heap \<times> obj" where
  "remove_loop names [] h item = (h, item)"
| "remove_loop names (a # as) h item =
     (case hRemovePath h item (ResolveParts (ParsePathParts (TrimSpace a)) names) of (h, item) \<Rightarrow> remove_loop names as h item)"

text \<open>A path and a value reference separated by the first space.\<close>

definition path_and_value :: "string \<Rightarrow> (string \<times> string) option" where
  "path_and_value a =
     (let a = TrimSpace a
      in case IndexByte a CHR '' '' of None \<Rightarrow> None | Some i \<Rightarrow> Some (TrimSpace (take i a), TrimSpace (drop (i + 1) a)))"

fun add_loop :: "(string, string) fmap \<Rightarrow> (string, hval) fmap \<Rightarrow> string list \<Rightarrow> heap \<Rightarrow> obj \<Rightarrow> update_result" where
  "add_loop names values [] h item = Ret (h, Inr item)"
| "add_loop names values (a # as) h item =
     (case path_and_value a of
        None \<Rightarrow> add_loop names values as h item
      | Some (pathRef, valRef) \<Rightarrow>
          let parts = ResolveParts (ParsePathParts pathRef) names;
              existing = the_default HNil (hResolvePath h item parts)
          in case applyAddOp h existing (resolveExprValue valRef values) of
               None \<Rightarrow> Panic
             | Some (h, newVal) \<Rightarrow>
                 (case hSetPath h item parts newVal of
                    Inl e \<Rightarrow> Ret (h, Inl (PathError e))
                  | Inr (h, item) \<Rightarrow> add_loop names values as h item))"

fun delete_loop :: "(string, string) fmap \<Rightarrow> (string, hval) fmap \<Rightarrow> string list \<Rightarrow> heap \<Rightarrow> obj \<Rightarrow> update_result" where
  "delete_loop names values [] h item = Ret (h, Inr item)"
| "delete_loop names values (a # as) h item =
     (case path_and_value a of
        None \<Rightarrow> delete_loop names values as h item
      | Some (pathRef, valRef) \<Rightarrow>
          let parts = ResolveParts (ParsePathParts pathRef) names
          in case hResolvePath h item parts of
               None \<Rightarrow> delete_loop names values as h item
             | Some existing \<Rightarrow>
                 (case deleteFromSet h existing (resolveExprValue valRef values) of
                    None \<Rightarrow> Panic
                  | Some EmptySet \<Rightarrow> (case hRemovePath h item parts of (h, item) \<Rightarrow> delete_loop names values as h item)
                  | Some (NewSet h newSet) \<Rightarrow>
                      if newSet = HNil then delete_loop names values as h item
                      else (case hSetPath h item parts newSet of
                              Inl e \<Rightarrow> delete_loop names values as h item
                            | Inr (h, item) \<Rightarrow> delete_loop names values as h item)))"

definition then_update :: "update_result \<Rightarrow> (heap \<Rightarrow> obj \<Rightarrow> update_result) \<Rightarrow> update_result" where
  "then_update r f = (case r of Panic \<Rightarrow> Panic | Ret (h, Inl e) \<Rightarrow> Ret (h, Inl e) | Ret (h, Inr item) \<Rightarrow> f h item)"

definition applyUpdateExpression :: "unicode \<Rightarrow> heap \<Rightarrow> obj \<Rightarrow> string \<Rightarrow> (string, string) fmap \<Rightarrow> (string, hval) fmap \<Rightarrow> update_result" where
  "applyUpdateExpression uni h item expr names values =
     (case parseUpdateClauses uni expr of
        Panic \<Rightarrow> Panic
      | Ret clauses \<Rightarrow>
          let clause = (\<lambda>kw. splitComma (the_default [] (fmlookup clauses kw)))
          in then_update (set_loop uni names values (clause ''SET'') h item) (\<lambda>h item.
             then_update (Ret (case remove_loop names (clause ''REMOVE'') h item of (h, item) \<Rightarrow> (h, Inr item))) (\<lambda>h item.
             then_update (add_loop names values (clause ''ADD'') h item) (\<lambda>h item.
             delete_loop names values (clause ''DELETE'') h item))))"

end
