(* ===== verification/Dynamo_Key.thy ===== *)
theory Dynamo_Key
  imports Dynamo_Update
begin

text \<open>
  Key conditions of DynamoDB queries: the validation of \<open>KeyConditionExpression\<close> in
  \<open>internal/aws/store/dynamodb/expression.go\<close>, and \<open>splitAND\<close> and \<open>extractEqValue\<close> of
  \<open>memory.go\<close>. They work on the text of the expression. Positions are found in its upper-case form and used on
  the text itself: a text whose upper-case form has another length may be cut out of range, which panics.
\<close>

section \<open>Splitting\<close>

definition go_map :: "('a \<Rightarrow> 'b) \<Rightarrow> 'a go_result \<Rightarrow> 'b go_result" where
  "go_map f r = (case r of Panic \<Rightarrow> Panic | Ret x \<Rightarrow> Ret (f x))"

lemma go_map_simps [simp]: "go_map f Panic = Panic" "go_map f (Ret x) = Ret (f x)"
  by (simp_all add: go_map_def)

function split_and_loop :: "string \<Rightarrow> string \<Rightarrow> nat \<Rightarrow> nat \<Rightarrow> string list go_result" where
  "split_and_loop up expr partStart i =
     (if i + 5 \<le> length up then
        if take 5 (drop i up) \<noteq> '' AND '' then split_and_loop up expr partStart (i + 1)
        else let clause = take (i - partStart) (drop partStart up)
          in if Count clause '' BETWEEN '' > Count clause '' AND '' then split_and_loop up expr partStart (i + 5)
             else (case slice expr partStart i of
                     Panic \<Rightarrow> Panic
                   | Ret part \<Rightarrow> go_map ((#) part) (split_and_loop up expr (i + 5) (i + 5)))
      else go_map (\<lambda>part. [part]) (slice expr partStart (max partStart (length expr))))"
  by pat_completeness auto
termination by (relation "measure (\<lambda>(up, expr, partStart, i). length up - i)") auto

declare split_and_loop.simps [simp del]

definition splitAND :: "unicode \<Rightarrow> string \<Rightarrow> string list go_result" where
  "splitAND uni expr = split_and_loop (ToUpper (uUpper uni) expr) expr 0 0"

section \<open>The value of an equality\<close>

definition extractDynamoString :: "heap \<Rightarrow> hval \<Rightarrow> hval" where
  "extractDynamoString h v =
     (case as_map h v of
        None \<Rightarrow> v
      | Some m \<Rightarrow> (case fmlookup m ''S'' of Some s \<Rightarrow> s | None \<Rightarrow> (case fmlookup m ''N'' of Some n \<Rightarrow> n | None \<Rightarrow> v)))"

text \<open>The two sides of an equality, spaced or not; \<open>None\<close> if the condition is none.\<close>

definition eq_sides :: "string \<Rightarrow> (string \<times> string) option" where
  "eq_sides cond =
     (case IndexStr cond '' = '' of
        Some i \<Rightarrow> Some (TrimSpace (take i cond), TrimSpace (drop (i + 3) cond))
      | None \<Rightarrow>
          (case IndexByte cond CHR ''='' of
             None \<Rightarrow> None
           | Some i \<Rightarrow>
               if i > 0 \<and> (cond ! (i - 1) = CHR ''<'' \<or> cond ! (i - 1) = CHR ''>'') then None
               else if i + 1 < length cond \<and> (cond ! (i + 1) = CHR ''>'' \<or> cond ! (i + 1) = CHR ''='') then None
               else Some (TrimSpace (take i cond), TrimSpace (drop (i + 1) cond))))"

fun eq_value_loop :: "heap \<Rightarrow> string \<Rightarrow> (string, string) fmap \<Rightarrow> (string, hval) fmap \<Rightarrow> string list \<Rightarrow> string option go_result" where
  "eq_value_loop h attrName names values [] = Ret None"
| "eq_value_loop h attrName names values (cond # cs) =
     (case eq_sides (TrimSpace cond) of
        None \<Rightarrow> eq_value_loop h attrName names values cs
      | Some (lhs, rhs) \<Rightarrow>
          if resolveExprName lhs names \<noteq> attrName then eq_value_loop h attrName names values cs
          else let val = resolveExprValue rhs values
            in case hAttrVal h val of
                 Some s \<Rightarrow> Ret (Some s)
               | None \<Rightarrow> (case Sprint_v h (extractDynamoString h val) of None \<Rightarrow> Panic | Some s \<Rightarrow> Ret (Some s)))"

definition extractEqValue :: "unicode \<Rightarrow> heap \<Rightarrow> string \<Rightarrow> string \<Rightarrow> (string, string) fmap \<Rightarrow> (string, hval) fmap \<Rightarrow> string option go_result" where
  "extractEqValue uni h expr attrName names values =
     (case splitAND uni expr of Panic \<Rightarrow> Panic | Ret conds \<Rightarrow> eq_value_loop h attrName names values conds)"

section \<open>Validation\<close>

datatype key_error = EmptyKeyCondition | PartitionKeyNeedsEq string | SortKeyOperator string | NotAKeyAttribute string

definition comparison_texts :: "string list" where
  "comparison_texts = ['' <> '', '' <= '', '' >= '', '' < '', '' > '', '' = '', ''<>'', ''<='', ''>='', ''<'', ''>'', ''='']"

text \<open>The left-hand side before the first operator that has a single word before it; empty if there is none.\<close>

definition comparison_lhs :: "string \<Rightarrow> string" where
  "comparison_lhs cond =
     the_default [] (Option.bind
       (find (\<lambda>op. case IndexStr cond op of None \<Rightarrow> False | Some i \<Rightarrow> i > 0 \<and> \<not> Contains (TrimSpace (take i cond)) '' '') comparison_texts)
       (\<lambda>op. map_option (\<lambda>i. TrimSpace (take i cond)) (IndexStr cond op)))"

definition extractConditionAttr :: "unicode \<Rightarrow> string \<Rightarrow> (string, string) fmap \<Rightarrow> string go_result" where
  "extractConditionAttr uni cond0 names =
     (let cond = TrimSpace cond0
      in if HasPrefix (ToLower (uLower uni) cond) ''begins_with('' then
           Ret (case extractFunctionBody cond (length ''begins_with'') of
                  None \<Rightarrow> []
                | Some inner \<Rightarrow> (case splitComma inner of [] \<Rightarrow> [] | p # _ \<Rightarrow> resolveExprName (TrimSpace p) names))
         else case IndexStr (ToUpper (uUpper uni) cond) '' BETWEEN '' of
           Some (Suc i) \<Rightarrow> go_map (\<lambda>l. resolveExprName (TrimSpace l) names) (slice cond 0 (Suc i))
         | _ \<Rightarrow> Ret (resolveExprName (comparison_lhs cond) names))"

definition isEqualityCondition :: "unicode \<Rightarrow> string \<Rightarrow> bool" where
  "isEqualityCondition uni cond =
     (let up = ToUpper (uUpper uni) cond
      in list_ex (\<lambda>op. case IndexStr cond op of
             None \<Rightarrow> False
           | Some i \<Rightarrow> i > 0 \<and> TrimSpace (drop (i + length op) cond) \<noteq> [] \<and>
               \<not> list_ex (Contains up) ['' <> '', '' < '', '' > '', '' BETWEEN '', '' IN '']) ['' = '', ''=''])"

definition isValidSortKeyCondition :: "unicode \<Rightarrow> string \<Rightarrow> string \<Rightarrow> bool" where
  "isValidSortKeyCondition uni cond condUpper \<longleftrightarrow>
     HasPrefix (ToLower (uLower uni) cond) ''begins_with('' \<or> Contains condUpper '' BETWEEN '' \<or>
     (list_ex (Contains cond) ['' <= '', '' >= '', '' < '', '' > '', '' = '', ''<='', ''>='', ''<'', ''>'', ''=''] \<and>
      \<not> Contains cond ''<>'')"

fun validate_loop :: "unicode \<Rightarrow> string \<Rightarrow> string \<Rightarrow> (string, string) fmap \<Rightarrow> string list \<Rightarrow> (key_error + unit) go_result" where
  "validate_loop uni pkAttr skAttr names [] = Ret (Inr ())"
| "validate_loop uni pkAttr skAttr names (raw # raws) =
     (let cond = TrimSpace raw
      in if cond = [] then validate_loop uni pkAttr skAttr names raws
         else case extractConditionAttr uni cond names of
           Panic \<Rightarrow> Panic
         | Ret attr \<Rightarrow>
             if attr = [] then validate_loop uni pkAttr skAttr names raws
             else if attr = pkAttr then
               if \<not> isEqualityCondition uni cond then Ret (Inl (PartitionKeyNeedsEq attr))
               else validate_loop uni pkAttr skAttr names raws
             else if skAttr \<noteq> [] \<and> attr = skAttr then
               if \<not> isValidSortKeyCondition uni cond (ToUpper (uUpper uni) cond) then Ret (Inl (SortKeyOperator attr))
               else validate_loop uni pkAttr skAttr names raws
             else Ret (Inl (NotAKeyAttribute attr)))"

definition ValidateKeyConditionExpression :: "unicode \<Rightarrow> string \<Rightarrow> string \<Rightarrow> string \<Rightarrow> (string, string) fmap \<Rightarrow> (key_error + unit) go_result" where
  "ValidateKeyConditionExpression uni expr pkAttr skAttr names =
     (if expr = [] then Ret (Inl EmptyKeyCondition)
      else case splitAND uni expr of Panic \<Rightarrow> Panic | Ret conds \<Rightarrow> validate_loop uni pkAttr skAttr names conds)"

end
