(* ===== verification/Dynamo_Store.thy ===== *)
theory Dynamo_Store
  imports Dynamo_Key
begin

text \<open>
  The in-memory item store of DynamoDB: \<open>internal/aws/store/dynamodb/memory.go\<close>, \<open>store.go\<close>,
  the schema types of \<open>schema.go\<close>, the token bucket of \<open>throttle.go\<close>, and \<open>computePKHash\<close> of
  \<open>internal/aws/provider/table/table.go\<close>, which computes the keys the items are stored under.

  \<^item> An operation runs under the store's lock: it is a function from the state to its result and the new state. The clock
    is the argument \<open>now\<close>.
  \<^item> The state holds the heap of the nested maps of all items; an operation gets its request already decoded into that heap.
  \<^item> Ranging over a Go map visits the entries in any order, and \<open>sort.Slice\<close> leaves elements that compare equal in any
    order. The argument \<open>perm\<close> permutes what is collected before it is sorted stably: every outcome of the code is the
    outcome for some permutation.
  \<^item> A page's last key is the last item, as \<open>json.Marshal\<close> takes it, \<open>None\<close> for the empty text; the exclusive start key
    is the decoded map, empty for none.
\<close>

section \<open>Schemas and requests\<close>

record ProjectionDef =
  ProjType :: string
  NonKeyAttrs :: "string list"

record IndexDef =
  IndexName :: string
  IxPKAttr :: string
  IxSKAttr :: string
  IxPKType :: string
  IxSKType :: string
  Projection :: ProjectionDef
  IsLSI :: bool

record TableSchema =
  TableName :: string
  PKAttr :: string
  SKAttr :: string
  PKType :: string
  SKType :: string
  GSIs :: "IndexDef list"
  LSIs :: "IndexDef list"
  BillingMode :: string
  WCU :: int
  RCU :: int

record IndexKeyRef =
  RefIndexName :: string
  RefPKAttr :: string
  RefSKAttr :: string
  RefPKType :: string
  RefSKType :: string
  RefIsLSI :: bool

type_synonym names = "(string, string) fmap"
type_synonym vals = "(string, hval) fmap"

record ConditionSpec =
  CondExpr :: string
  CondNames :: names
  CondValues :: vals
  CondReturn :: string
  CondSchema :: "TableSchema option"

record UpdateSpec =
  UpdExpr :: string
  UpdCond :: string
  UpdNames :: names
  UpdValues :: vals
  UpdSchema :: "TableSchema option"

record QuerySpec =
  QIndexSchema :: "IndexKeyRef option"
  KeyCond :: string
  QFilter :: string
  QNames :: names
  QValues :: vals
  ScanIndexForward :: bool
  QLimit :: int
  QStartKey :: obj

record ScanSpec =
  SIndexSchema :: "IndexKeyRef option"
  SFilter :: string
  SNames :: names
  SValues :: vals
  SLimit :: int
  SStartKey :: obj
  Segment :: int
  TotalSegments :: int

record BatchWriteRequest =
  BTable :: string
  BSchema :: "TableSchema option"
  BPutItem :: "obj option"
  BPutHash :: string
  BDeleteKey :: "obj option"
  BDeleteHash :: string

record TransactWriteOp =
  OpType :: string
  OpTable :: string
  OpPKHash :: string
  OpItem :: obj
  OpKey :: obj
  OpCond :: ConditionSpec
  OpUpdate :: UpdateSpec
  OpReturn :: string

section \<open>Token buckets\<close>

record tokenBucket =
  capacity :: int
  tokens :: float64
  refillRate :: float64
  last_refill :: time

definition newTokenBucket :: "time \<Rightarrow> int \<Rightarrow> float64 \<Rightarrow> tokenBucket" where
  "newTokenBucket now cap rate = \<lparr>capacity = cap, tokens = float_of_int cap, refillRate = rate, last_refill = now\<rparr>"

definition TryConsume :: "time \<Rightarrow> int \<Rightarrow> tokenBucket \<Rightarrow> tokenBucket \<times> bool" where
  "TryConsume now n b =
     (let elapsed = Seconds (time_Sub now (last_refill b));
          cap = float_of_int (capacity b);
          refilled = fadd (tokens b) (fmul elapsed (refillRate b));
          refilled = (if fless cap refilled then cap else refilled);
          b = b\<lparr>last_refill := now, tokens := refilled\<rparr>
      in if fless (tokens b) (float_of_int n) then (b, False)
         else (b\<lparr>tokens := fsub (tokens b) (float_of_int n)\<rparr>, True))"

section \<open>The store\<close>

type_synonym table = "(string, obj) fmap"
type_synonym gsi_table = "(string, (string, string list) fmap) fmap"

record store =
  hp :: heap
  schemas :: "(string, TableSchema) fmap"
  tables :: "(string, table) fmap"
  gsiIdx :: "(string, gsi_table) fmap"
  throttles :: "(string, tokenBucket) fmap"

definition NewMemoryDynamoDBItemStore :: "heap \<Rightarrow> store" where
  "NewMemoryDynamoDBItemStore h = \<lparr>hp = h, schemas = fmempty, tables = fmempty, gsiIdx = fmempty, throttles = fmempty\<rparr>"

datatype store_error = ProvisionedThroughputError string | ConditionFailedError | ExpressionFailed expr_error

definition tableMap :: "string \<Rightarrow> store \<Rightarrow> store" where
  "tableMap table s = (if fmlookup (tables s) table = None then s\<lparr>tables := fmupd table fmempty (tables s)\<rparr> else s)"

definition table_of :: "store \<Rightarrow> string \<Rightarrow> table" where
  "table_of s table = the_default fmempty (fmlookup (tables s) table)"

definition item_of :: "store \<Rightarrow> string \<Rightarrow> string \<Rightarrow> obj option" where
  "item_of s table pkHash = fmlookup (table_of s table) pkHash"

definition set_item :: "string \<Rightarrow> string \<Rightarrow> obj \<Rightarrow> store \<Rightarrow> store" where
  "set_item table pkHash item s = s\<lparr>tables := fmupd table (fmupd pkHash item (table_of s table)) (tables s)\<rparr>"

definition delete_item :: "string \<Rightarrow> string \<Rightarrow> store \<Rightarrow> store" where
  "delete_item table pkHash s =
     (case fmlookup (tables s) table of None \<Rightarrow> s | Some t \<Rightarrow> s\<lparr>tables := fmupd table (fmdrop pkHash t) (tables s)\<rparr>)"

text \<open>The write throttle in front of an operation: the new state and whether a token was there.\<close>

definition try_write :: "time \<Rightarrow> string \<Rightarrow> store \<Rightarrow> store \<times> bool" where
  "try_write now table s =
     (case fmlookup (throttles s) table of
        None \<Rightarrow> (s, True)
      | Some b \<Rightarrow> (case TryConsume now 1 b of (b, ok) \<Rightarrow> (s\<lparr>throttles := fmupd table b (throttles s)\<rparr>, ok)))"

section \<open>Index entries\<close>

definition bucket_of :: "store \<Rightarrow> string \<Rightarrow> string \<Rightarrow> string \<Rightarrow> string list" where
  "bucket_of s table idx val =
     the_default [] (Option.bind (fmlookup (gsiIdx s) table) (\<lambda>g. Option.bind (fmlookup g idx) (\<lambda>b. fmlookup b val)))"

definition set_bucket :: "string \<Rightarrow> string \<Rightarrow> string \<Rightarrow> string list \<Rightarrow> store \<Rightarrow> store" where
  "set_bucket table idx val hashes s =
     (let g = the_default fmempty (fmlookup (gsiIdx s) table); b = the_default fmempty (fmlookup g idx)
      in s\<lparr>gsiIdx := fmupd table (fmupd idx (fmupd val hashes b) g) (gsiIdx s)\<rparr>)"

definition index_value :: "store \<Rightarrow> obj \<Rightarrow> IndexDef \<Rightarrow> string option" where
  "index_value s item gsi = hAttrVal (hp s) (fld item (IxPKAttr gsi))"

definition remove_entry :: "string \<Rightarrow> string \<Rightarrow> obj \<Rightarrow> IndexDef \<Rightarrow> store \<Rightarrow> store" where
  "remove_entry table pkHash old gsi s =
     (case index_value s old gsi of
        None \<Rightarrow> s
      | Some val \<Rightarrow>
          let bucket = bucket_of s table (IndexName gsi) val
          in if pkHash \<in> set bucket then set_bucket table (IndexName gsi) val (remove1 pkHash bucket) s else s)"

definition removeGSIEntries :: "string \<Rightarrow> string \<Rightarrow> obj \<Rightarrow> TableSchema \<Rightarrow> store \<Rightarrow> store" where
  "removeGSIEntries table pkHash old schema s =
     (if fmlookup (gsiIdx s) table = None then s else fold (remove_entry table pkHash old) (GSIs schema) s)"

definition add_entry :: "string \<Rightarrow> string \<Rightarrow> obj \<Rightarrow> IndexDef \<Rightarrow> store \<Rightarrow> store" where
  "add_entry table pkHash item gsi s =
     (case index_value s item gsi of
        None \<Rightarrow> s
      | Some val \<Rightarrow> set_bucket table (IndexName gsi) val (bucket_of s table (IndexName gsi) val @ [pkHash]) s)"

definition addGSIEntries :: "string \<Rightarrow> string \<Rightarrow> obj \<Rightarrow> TableSchema \<Rightarrow> store \<Rightarrow> store" where
  "addGSIEntries table pkHash item schema s =
     (let s = (if fmlookup (gsiIdx s) table = None then s\<lparr>gsiIdx := fmupd table fmempty (gsiIdx s)\<rparr> else s)
      in fold (add_entry table pkHash item) (GSIs schema) s)"

text \<open>The index maintenance around a write, if the request carries a schema.\<close>

definition unindex :: "string \<Rightarrow> string \<Rightarrow> obj option \<Rightarrow> TableSchema option \<Rightarrow> store \<Rightarrow> store" where
  "unindex table pkHash old schema s =
     (case (old, schema) of (Some item, Some sch) \<Rightarrow> removeGSIEntries table pkHash item sch s | _ \<Rightarrow> s)"

definition index :: "string \<Rightarrow> string \<Rightarrow> obj \<Rightarrow> TableSchema option \<Rightarrow> store \<Rightarrow> store" where
  "index table pkHash item schema s =
     (case schema of Some sch \<Rightarrow> addGSIEntries table pkHash item sch s | None \<Rightarrow> s)"

section \<open>Single items\<close>

type_synonym 'a op_result = "(store \<times> (store_error + 'a)) go_result"

text \<open>A condition on the stored item, empty if there is none; the empty expression holds.\<close>

definition check_condition :: "store \<Rightarrow> obj option \<Rightarrow> string \<Rightarrow> names \<Rightarrow> vals \<Rightarrow> eval_result" where
  "check_condition s old expr names values =
     (if expr = [] then Ret (Inr True) else EvalFilter (hp s) (the_default fmempty old) expr names values)"

definition guarded :: "store \<Rightarrow> eval_result \<Rightarrow> (store \<Rightarrow> 'a op_result) \<Rightarrow> 'a op_result" where
  "guarded s c k =
     (case c of
        Panic \<Rightarrow> Panic
      | Ret (Inl e) \<Rightarrow> Ret (s, Inl (ExpressionFailed e))
      | Ret (Inr b) \<Rightarrow> if b then k s else Ret (s, Inl ConditionFailedError))"

definition return_old :: "ConditionSpec \<Rightarrow> obj option \<Rightarrow> obj option" where
  "return_old cond old = (if CondReturn cond = ''ALL_OLD'' then old else None)"

definition PutItem :: "time \<Rightarrow> string \<Rightarrow> string \<Rightarrow> obj \<Rightarrow> ConditionSpec \<Rightarrow> store \<Rightarrow> obj option op_result" where
  "PutItem now table pkHash item cond s =
     (case try_write now table s of (s, ok) \<Rightarrow>
        if \<not> ok then Ret (s, Inl (ProvisionedThroughputError table))
        else let s = tableMap table s; old = item_of s table pkHash
          in guarded s (check_condition s old (CondExpr cond) (CondNames cond) (CondValues cond)) (\<lambda>s.
               let s = unindex table pkHash old (CondSchema cond) s;
                   s = set_item table pkHash item s;
                   s = index table pkHash item (CondSchema cond) s
               in Ret (s, Inr (return_old cond old))))"

definition GetItem :: "string \<Rightarrow> string \<Rightarrow> store \<Rightarrow> obj option" where
  "GetItem table pkHash s = item_of s table pkHash"

definition DeleteItem :: "time \<Rightarrow> string \<Rightarrow> string \<Rightarrow> ConditionSpec \<Rightarrow> store \<Rightarrow> obj option op_result" where
  "DeleteItem now table pkHash cond s =
     (case try_write now table s of (s, ok) \<Rightarrow>
        if \<not> ok then Ret (s, Inl (ProvisionedThroughputError table))
        else let old = item_of s table pkHash
          in guarded s (check_condition s old (CondExpr cond) (CondNames cond) (CondValues cond)) (\<lambda>s.
               let s = unindex table pkHash old (CondSchema cond) s;
                   s = delete_item table pkHash s
               in Ret (s, Inr (return_old cond old))))"

text \<open>The end of an update: the result of the expression is stored and indexed; after a failure the heap is as the expression left it.\<close>

definition finish_update :: "string \<Rightarrow> string \<Rightarrow> obj option \<Rightarrow> TableSchema option \<Rightarrow> update_result \<Rightarrow> store \<Rightarrow> obj op_result" where
  "finish_update table pkHash old schema res s =
     (case res of
        Panic \<Rightarrow> Panic
      | Ret (h, Inl e) \<Rightarrow> Ret (s\<lparr>hp := h\<rparr>, Inl (ExpressionFailed e))
      | Ret (h, Inr updated) \<Rightarrow>
          Ret (index table pkHash updated schema
                 (set_item table pkHash updated (unindex table pkHash old schema (s\<lparr>hp := h\<rparr>))), Inr updated))"

definition UpdateItem :: "unicode \<Rightarrow> time \<Rightarrow> string \<Rightarrow> string \<Rightarrow> obj \<Rightarrow> UpdateSpec \<Rightarrow> store \<Rightarrow> obj op_result" where
  "UpdateItem uni now table pkHash item spec s =
     (case try_write now table s of (s, ok) \<Rightarrow>
        if \<not> ok then Ret (s, Inl (ProvisionedThroughputError table))
        else let s = tableMap table s; old = item_of s table pkHash
          in guarded s (check_condition s old (UpdCond spec) (UpdNames spec) (UpdValues spec)) (\<lambda>s.
               let existing = the_default item old
               in finish_update table pkHash old (UpdSchema spec)
                    (if UpdExpr spec \<noteq> [] then applyUpdateExpression uni (hp s) existing (UpdExpr spec) (UpdNames spec) (UpdValues spec)
                     else Ret (hp s, Inr (existing ++\<^sub>f item))) s))"

section \<open>Keys of items\<close>

text \<open>\<open>None\<close> where printing a value does not return.\<close>

definition print_field :: "heap \<Rightarrow> obj \<Rightarrow> string \<Rightarrow> string option" where
  "print_field h item k = map_option (\<lambda>s. k @ ''='' @ s) (Sprint_v h (fld item k))"

definition itemPKHash :: "heap \<Rightarrow> obj \<Rightarrow> string option" where
  "itemPKHash h item =
     (let parts = map (print_field h item) (sorted_keys item)
      in if None \<in> set parts then None else Some (Join (sort (map the parts)) ''|''))"

text \<open>The provider's key of an item: the key attributes in the order of the key schema.\<close>

definition computePKHash :: "heap \<Rightarrow> obj \<Rightarrow> string list \<Rightarrow> string option" where
  "computePKHash h key keySchema =
     (let attrs = filter (\<lambda>a. fmlookup key a \<noteq> None) keySchema
      in if attrs = [] then itemPKHash h key
         else let parts = map (print_field h key) attrs
           in if None \<in> set parts then None else Some (Join (map the parts) ''|''))"

section \<open>Sorting and pages\<close>

text \<open>Insertion sort as \<open>sort.Slice\<close> runs it on short slices; the accumulator is reversed.\<close>

fun insert_rev :: "('a \<Rightarrow> 'a \<Rightarrow> bool) \<Rightarrow> 'a \<Rightarrow> 'a list \<Rightarrow> 'a list" where
  "insert_rev lt x [] = [x]"
| "insert_rev lt x (y # ys) = (if lt x y then y # insert_rev lt x ys else x # y # ys)"

definition sort_slice :: "('a \<Rightarrow> 'a \<Rightarrow> bool) \<Rightarrow> 'a list \<Rightarrow> 'a list" where
  "sort_slice lt xs = rev (fold (insert_rev lt) xs [])"

definition attr_less :: "heap \<Rightarrow> string \<Rightarrow> bool \<Rightarrow> bool \<Rightarrow> obj \<Rightarrow> obj \<Rightarrow> bool" where
  "attr_less h skAttr numeric fwd x y =
     (if numeric then
        (let nx = numeric_or_zero h (fld x skAttr); ny = numeric_or_zero h (fld y skAttr)
         in if fwd then fless nx ny else fless ny nx)
      else
        (let vx = the_default [] (hAttrVal h (fld x skAttr)); vy = the_default [] (hAttrVal h (fld y skAttr))
         in if fwd then vx < vy else vy < vx))"

text \<open>Sorting by the printed item: comparing two items prints both.\<close>

definition sort_by_hash :: "heap \<Rightarrow> obj list \<Rightarrow> obj list option" where
  "sort_by_hash h items =
     (if length items > 1 \<and> None \<in> itemPKHash h ` set items then None
      else Some (sort_slice (\<lambda>x y. the (itemPKHash h x) < the (itemPKHash h y)) items))"

text \<open>\<open>reflect.DeepEqual\<close>, with fuel for the maps entered on the way down.\<close>

function deep_equal :: "heap \<Rightarrow> nat \<Rightarrow> hval \<Rightarrow> hval \<Rightarrow> bool" where
  "deep_equal h n (HMap a) (HMap b) =
     (case n of
        0 \<Rightarrow> False
      | Suc n \<Rightarrow>
          fmdom (obj_at h a) = fmdom (obj_at h b) \<and>
          list_all (\<lambda>k. deep_equal h n (fld (obj_at h a) k) (fld (obj_at h b) k)) (sorted_keys (obj_at h a)))"
| "deep_equal h n (HArr xs) (HArr ys) = (length xs = length ys \<and> list_all (\<lambda>i. deep_equal h n (xs ! i) (ys ! i)) [0..<length xs])"
| "deep_equal h n (HNum x) w = (case w of HNum y \<Rightarrow> feq x y | _ \<Rightarrow> False)"
| "deep_equal h n HNil w = (w = HNil)"
| "deep_equal h n (HStr s) w = (w = HStr s)"
| "deep_equal h n (HBool b) w = (w = HBool b)"
| "deep_equal h n (HMap a) HNil = False"
| "deep_equal h n (HMap a) (HStr t) = False"
| "deep_equal h n (HMap a) (HBool t) = False"
| "deep_equal h n (HMap a) (HNum y) = False"
| "deep_equal h n (HMap a) (HArr ys) = False"
| "deep_equal h n (HArr xs) HNil = False"
| "deep_equal h n (HArr xs) (HStr t) = False"
| "deep_equal h n (HArr xs) (HBool t) = False"
| "deep_equal h n (HArr xs) (HNum y) = False"
| "deep_equal h n (HArr xs) (HMap b) = False"
  by pat_completeness auto
termination
  by (relation "measures [\<lambda>(h, n, v, w). n, \<lambda>(h, n, v, w). size v]")
    (auto simp: less_Suc_eq_le intro: size_list_estimation' [OF nth_mem])

definition matches_start :: "heap \<Rightarrow> obj \<Rightarrow> obj \<Rightarrow> bool" where
  "matches_start h startKey item \<longleftrightarrow>
     list_all (\<lambda>k. deep_equal h (Suc (lim h)) (fld item k) (fld startKey k)) (sorted_keys startKey)"

definition paginateItems :: "heap \<Rightarrow> obj list \<Rightarrow> obj \<Rightarrow> int \<Rightarrow> obj list" where
  "paginateItems h items startKey limit =
     (let rest = (if startKey = fmempty then items
                  else case dropWhile (\<lambda>i. \<not> matches_start h startKey i) items of [] \<Rightarrow> items | _ # rest \<Rightarrow> rest)
      in if limit > 0 \<and> int (length rest) > limit then take (nat limit) rest else rest)"

text \<open>The last key of a full page; encoding fails, and leaves it empty, if a map of the item contains itself.\<close>

definition last_key :: "heap \<Rightarrow> obj list \<Rightarrow> int \<Rightarrow> obj option" where
  "last_key h page limit =
     (if limit > 0 \<and> int (length page) = limit \<and> itemPKHash h (last page) \<noteq> None then Some (last page) else None)"

fun filter_matching :: "heap \<Rightarrow> string \<Rightarrow> names \<Rightarrow> vals \<Rightarrow> obj list \<Rightarrow> (expr_error + obj list) go_result" where
  "filter_matching h expr names values [] = Ret (Inr [])"
| "filter_matching h expr names values (item # items) =
     go_bind (EvalFilter h item expr names values) (\<lambda>ok.
     go_bind (filter_matching h expr names values items) (\<lambda>rest.
       Ret (Inr (if ok then item # rest else rest))))"

text \<open>The page of the sorted candidates, its count and its last key, then the filter expression on the page.\<close>

type_synonym page_result = "(store_error + obj list \<times> nat \<times> obj option) go_result"

definition filtered_page :: "heap \<Rightarrow> obj list \<Rightarrow> string \<Rightarrow> names \<Rightarrow> vals \<Rightarrow> int \<Rightarrow> page_result" where
  "filtered_page h page expr names values limit =
     (case filter_matching h expr names values page of
        Panic \<Rightarrow> Panic
      | Ret (Inl e) \<Rightarrow> Ret (Inl (ExpressionFailed e))
      | Ret (Inr items) \<Rightarrow> Ret (Inr (items, length page, last_key h page limit)))"

definition all_items :: "table \<Rightarrow> obj list" where
  "all_items t = map (\<lambda>k. the (fmlookup t k)) (sorted_list_of_set (fset (fmdom t)))"

section \<open>Query\<close>

text \<open>The direction: \<open>true\<close> by default, and set to \<open>true\<close> when the request asks for ascending order.\<close>

definition sort_forward :: "QuerySpec \<Rightarrow> bool" where
  "sort_forward q = (let sortForward = True in if ScanIndexForward q then True else sortForward)"

definition schema_of :: "store \<Rightarrow> string \<Rightarrow> TableSchema" where
  "schema_of s table =
     the_default \<lparr>TableName = [], PKAttr = [], SKAttr = [], PKType = [], SKType = [], GSIs = [], LSIs = [], BillingMode = [], WCU = 0, RCU = 0\<rparr>
       (fmlookup (schemas s) table)"

definition query_candidates :: "unicode \<Rightarrow> (obj list \<Rightarrow> obj list) \<Rightarrow> string \<Rightarrow> QuerySpec \<Rightarrow> table \<Rightarrow> store \<Rightarrow> obj list go_result" where
  "query_candidates uni perm table q t s =
     (case QIndexSchema q of
        None \<Rightarrow> Ret (perm (all_items t))
      | Some idx \<Rightarrow>
          let attr = (if RefIsLSI idx then PKAttr (schema_of s table) else RefPKAttr idx)
          in case extractEqValue uni (hp s) (KeyCond q) attr (QNames q) (QValues q) of
               Panic \<Rightarrow> Panic
             | Ret None \<Rightarrow> Ret (perm (all_items t))
             | Ret (Some val) \<Rightarrow>
                 if RefIsLSI idx then Ret (filter (\<lambda>item. hAttrVal (hp s) (fld item attr) = Some val) (perm (all_items t)))
                 else Ret (List.map_filter (fmlookup t) (bucket_of s table (RefIndexName idx) val)))"

definition query_sort :: "(obj list \<Rightarrow> obj list) \<Rightarrow> string \<Rightarrow> QuerySpec \<Rightarrow> store \<Rightarrow> obj list \<Rightarrow> obj list option" where
  "query_sort perm table q s items =
     (let sortAttr = (case QIndexSchema q of None \<Rightarrow> SKAttr (schema_of s table) | Some idx \<Rightarrow> RefSKAttr idx);
          numeric = (case QIndexSchema q of None \<Rightarrow> SKType (schema_of s table) | Some idx \<Rightarrow> RefSKType idx) = ''N''
      in if sortAttr \<noteq> [] then Some (sort_slice (attr_less (hp s) sortAttr numeric (sort_forward q)) (perm items))
         else sort_by_hash (hp s) (perm items))"

definition Query :: "unicode \<Rightarrow> (obj list \<Rightarrow> obj list) \<Rightarrow> string \<Rightarrow> QuerySpec \<Rightarrow> store \<Rightarrow> page_result" where
  "Query uni perm table q s =
     (case fmlookup (tables s) table of
        None \<Rightarrow> Ret (Inr ([], 0, None))
      | Some t \<Rightarrow>
          (case query_candidates uni perm table q t s of
             Panic \<Rightarrow> Panic
           | Ret candidates \<Rightarrow>
               (case filter_matching (hp s) (KeyCond q) (QNames q) (QValues q) candidates of
                  Panic \<Rightarrow> Panic
                | Ret (Inl e) \<Rightarrow> Ret (Inl (ExpressionFailed e))
                | Ret (Inr keyMatched) \<Rightarrow>
                    (case query_sort perm table q s keyMatched of
                       None \<Rightarrow> Panic
                     | Some inOrder \<Rightarrow>
                         filtered_page (hp s) (paginateItems (hp s) inOrder (QStartKey q) (QLimit q)) (QFilter q) (QNames q) (QValues q)
                           (QLimit q)))))"

section \<open>Scan\<close>

text \<open>FNV-1a, 32 bits.\<close>

definition fnv32a :: "string \<Rightarrow> 32 word" where
  "fnv32a s = fold (\<lambda>c x. xor x (of_nat (byte c)) * 16777619) s 2166136261"

text \<open>The segment test; \<open>enc\<close> is the JSON text of a value. A Go remainder has the sign of the dividend, which is not negative.\<close>

definition in_segment :: "(heap \<Rightarrow> hval \<Rightarrow> string) \<Rightarrow> heap \<Rightarrow> string \<Rightarrow> ScanSpec \<Rightarrow> obj \<Rightarrow> bool" where
  "in_segment enc h pkAttr sc item \<longleftrightarrow>
     (let pkVal = (if pkAttr = [] then [] else case fmlookup item pkAttr of None \<Rightarrow> [] | Some v \<Rightarrow> enc h v)
      in uint (fnv32a pkVal) mod TotalSegments sc = Segment sc)"

definition scan_candidates :: "(obj list \<Rightarrow> obj list) \<Rightarrow> string \<Rightarrow> ScanSpec \<Rightarrow> table \<Rightarrow> store \<Rightarrow> obj list" where
  "scan_candidates perm table sc t s =
     (case SIndexSchema sc of
        Some idx \<Rightarrow>
          if \<not> RefIsLSI idx then
            (let buckets = the_default fmempty (Option.bind (fmlookup (gsiIdx s) table) (\<lambda>g. fmlookup g (RefIndexName idx)));
                 hashes = concat (map (\<lambda>v. the (fmlookup buckets v)) (sorted_list_of_set (fset (fmdom buckets))))
             in perm (List.map_filter (fmlookup t) (remdups hashes)))
          else perm (all_items t)
      | None \<Rightarrow> perm (all_items t))"

definition Scan :: "(heap \<Rightarrow> hval \<Rightarrow> string) \<Rightarrow> (obj list \<Rightarrow> obj list) \<Rightarrow> string \<Rightarrow> ScanSpec \<Rightarrow> store \<Rightarrow> page_result" where
  "Scan enc perm table sc s =
     (case fmlookup (tables s) table of
        None \<Rightarrow> Ret (Inr ([], 0, None))
      | Some t \<Rightarrow>
          (let candidates = scan_candidates perm table sc t s;
               candidates = (if TotalSegments sc > 0 then filter (in_segment enc (hp s) (PKAttr (schema_of s table)) sc) candidates else candidates)
           in case sort_by_hash (hp s) candidates of
                None \<Rightarrow> Panic
              | Some inOrder \<Rightarrow>
                  filtered_page (hp s) (paginateItems (hp s) inOrder (SStartKey sc) (SLimit sc)) (SFilter sc) (SNames sc) (SValues sc)
                    (SLimit sc)))"

section \<open>Batches\<close>

definition batch_write_one :: "BatchWriteRequest \<Rightarrow> store \<Rightarrow> store" where
  "batch_write_one req s =
     (let s = tableMap (BTable req) s
      in case BPutItem req of
           Some item \<Rightarrow>
             index (BTable req) (BPutHash req) item (BSchema req)
               (set_item (BTable req) (BPutHash req) item
                 (unindex (BTable req) (BPutHash req) (item_of s (BTable req) (BPutHash req)) (BSchema req) s))
         | None \<Rightarrow>
             (case BDeleteKey req of
                Some _ \<Rightarrow>
                  delete_item (BTable req) (BDeleteHash req)
                    (unindex (BTable req) (BDeleteHash req) (item_of s (BTable req) (BDeleteHash req)) (BSchema req) s)
              | None \<Rightarrow> s))"

fun BatchWriteItems :: "time \<Rightarrow> BatchWriteRequest list \<Rightarrow> store \<Rightarrow> store \<times> BatchWriteRequest list" where
  "BatchWriteItems now [] s = (s, [])"
| "BatchWriteItems now (req # reqs) s =
     (case try_write now (BTable req) s of (s, ok) \<Rightarrow>
        if ok then BatchWriteItems now reqs (batch_write_one req s)
        else case BatchWriteItems now reqs s of (s, unprocessed) \<Rightarrow> (s, req # unprocessed))"

text \<open>The keys of one table: every key is printed, whether or not the table exists.\<close>

fun batch_get_table :: "store \<Rightarrow> string \<Rightarrow> obj list \<Rightarrow> obj list option" where
  "batch_get_table s table [] = Some []"
| "batch_get_table s table (key # keys) =
     (case itemPKHash (hp s) key of
        None \<Rightarrow> None
      | Some h \<Rightarrow>
          map_option (\<lambda>rest. case item_of s table h of None \<Rightarrow> rest | Some item \<Rightarrow> item # rest) (batch_get_table s table keys))"

fun BatchGetItems :: "(string \<times> obj list) list \<Rightarrow> store \<Rightarrow> (string, obj list) fmap \<Rightarrow> (string, obj list) fmap option" where
  "BatchGetItems [] s result = Some result"
| "BatchGetItems ((table, keys) # reqs) s result =
     (case batch_get_table s table keys of
        None \<Rightarrow> None
      | Some items \<Rightarrow>
          BatchGetItems reqs s
            (if items = [] then result else fmupd table (the_default [] (fmlookup result table) @ items) result))"

section \<open>Transactions\<close>

datatype CancellationReason = CancelNone | CancelConditionalCheckFailed "obj option"

text \<open>Phase 1: the reasons, one per operation, and the state with the tables that were looked at.\<close>

fun check_ops :: "TransactWriteOp list \<Rightarrow> store \<Rightarrow> (store \<times> (expr_error + CancellationReason list)) go_result" where
  "check_ops [] s = Ret (s, Inr [])"
| "check_ops (op # ops) s =
     (if CondExpr (OpCond op) = [] \<and> OpType op \<noteq> ''ConditionCheck'' then
        (case check_ops ops s of Ret (s, Inr rs) \<Rightarrow> Ret (s, Inr (CancelNone # rs)) | r \<Rightarrow> r)
      else
        let s = tableMap (OpTable op) s; old = item_of s (OpTable op) (OpPKHash op)
        in if CondExpr (OpCond op) = [] then
             (case check_ops ops s of Ret (s, Inr rs) \<Rightarrow> Ret (s, Inr (CancelNone # rs)) | r \<Rightarrow> r)
           else case EvalFilter (hp s) (the_default fmempty old) (CondExpr (OpCond op)) (CondNames (OpCond op)) (CondValues (OpCond op)) of
             Panic \<Rightarrow> Panic
           | Ret (Inl e) \<Rightarrow> Ret (s, Inl e)
           | Ret (Inr ok) \<Rightarrow>
               let reason = (if ok then CancelNone else CancelConditionalCheckFailed (if OpReturn op = ''ALL_OLD'' then old else None))
               in (case check_ops ops s of Ret (s, Inr rs) \<Rightarrow> Ret (s, Inr (reason # rs)) | r \<Rightarrow> r))"

text \<open>Phase 2: the writes, in order; an update expression that fails ends it.\<close>

definition apply_op :: "unicode \<Rightarrow> TransactWriteOp \<Rightarrow> store \<Rightarrow> (store \<times> (expr_error + unit)) go_result" where
  "apply_op uni op s0 =
     (let table = OpTable op; pkHash = OpPKHash op; s = tableMap table s0; old = item_of s table pkHash
      in if OpType op = ''Put'' then
           Ret (index table pkHash (OpItem op) (CondSchema (OpCond op))
                  (set_item table pkHash (OpItem op) (unindex table pkHash old (CondSchema (OpCond op)) s)), Inr ())
         else if OpType op = ''Delete'' then
           Ret (delete_item table pkHash (unindex table pkHash old (CondSchema (OpCond op)) s), Inr ())
         else if OpType op = ''Update'' then
           (case applyUpdateExpression uni (hp s) (the_default (OpKey op) old) (UpdExpr (OpUpdate op)) (UpdNames (OpUpdate op)) (UpdValues (OpUpdate op)) of
              Panic \<Rightarrow> Panic
            | Ret (h, Inl e) \<Rightarrow> Ret (s\<lparr>hp := h\<rparr>, Inl e)
            | Ret (h, Inr updated) \<Rightarrow>
                Ret (set_item table pkHash updated
                       (index table pkHash updated (UpdSchema (OpUpdate op))
                         (unindex table pkHash old (UpdSchema (OpUpdate op)) (s\<lparr>hp := h\<rparr>))), Inr ()))
         else Ret (s, Inr ()))"

fun apply_ops :: "unicode \<Rightarrow> TransactWriteOp list \<Rightarrow> store \<Rightarrow> (store \<times> (expr_error + unit)) go_result" where
  "apply_ops uni [] s = Ret (s, Inr ())"
| "apply_ops uni (op # ops) s =
     (case apply_op uni op s of Panic \<Rightarrow> Panic | Ret (s, Inl e) \<Rightarrow> Ret (s, Inl e) | Ret (s, Inr _) \<Rightarrow> apply_ops uni ops s)"

text \<open>The result is \<open>None\<close> on success and the reasons if a condition failed.\<close>

definition TransactWriteItems :: "unicode \<Rightarrow> TransactWriteOp list \<Rightarrow> store \<Rightarrow> (store \<times> (expr_error + CancellationReason list option)) go_result" where
  "TransactWriteItems uni ops s =
     (case check_ops ops s of
        Panic \<Rightarrow> Panic
      | Ret (s, Inl e) \<Rightarrow> Ret (s, Inl e)
      | Ret (s, Inr reasons) \<Rightarrow>
          if list_ex (\<lambda>r. r \<noteq> CancelNone) reasons then Ret (s, Inr (Some reasons))
          else (case apply_ops uni ops s of
                  Panic \<Rightarrow> Panic
                | Ret (s, Inl e) \<Rightarrow> Ret (s, Inl e)
                | Ret (s, Inr _) \<Rightarrow> Ret (s, Inr None)))"

section \<open>Tables\<close>

definition Reset :: "store \<Rightarrow> store" where
  "Reset s = s\<lparr>schemas := fmempty, tables := fmempty, gsiIdx := fmempty, throttles := fmempty\<rparr>"

text \<open>The write bucket of a table: 40000 units on demand, the provisioned units otherwise, none for zero units.\<close>

definition write_bucket :: "time \<Rightarrow> TableSchema \<Rightarrow> tokenBucket option" where
  "write_bucket now schema =
     (if BillingMode schema = ''PAY_PER_REQUEST'' then Some (newTokenBucket now 40000 (float_of_int 40000))
      else if WCU schema > 0 then Some (newTokenBucket now (WCU schema) (float_of_int (WCU schema)))
      else None)"

definition CreateTableSchema :: "time \<Rightarrow> TableSchema \<Rightarrow> store \<Rightarrow> store" where
  "CreateTableSchema now schema s =
     (let table = TableName schema;
          s = tableMap table (s\<lparr>schemas := fmupd table schema (schemas s)\<rparr>);
          s = s\<lparr>gsiIdx := fmupd table (fold (\<lambda>gsi g. fmupd (IndexName gsi) fmempty g) (GSIs schema) fmempty) (gsiIdx s)\<rparr>
      in case write_bucket now schema of None \<Rightarrow> s | Some b \<Rightarrow> s\<lparr>throttles := fmupd table b (throttles s)\<rparr>)"

definition DropTableSchema :: "string \<Rightarrow> store \<Rightarrow> store" where
  "DropTableSchema table s =
     s\<lparr>schemas := fmdrop table (schemas s), tables := fmdrop table (tables s), gsiIdx := fmdrop table (gsiIdx s),
       throttles := fmdrop table (throttles s)\<rparr>"

text \<open>The backfill visits the items of the table in the order \<open>keys\<close>.\<close>

definition backfill :: "store \<Rightarrow> string list \<Rightarrow> string \<Rightarrow> IndexDef \<Rightarrow> (string, string list) fmap" where
  "backfill s keys table idx =
     fold (\<lambda>pkHash b.
         case Option.bind (item_of s table pkHash) (\<lambda>item. index_value s item idx) of
           None \<Rightarrow> b
         | Some val \<Rightarrow> fmupd val (the_default [] (fmlookup b val) @ [pkHash]) b) keys fmempty"

definition AddGSI :: "string list \<Rightarrow> string \<Rightarrow> TableSchema \<Rightarrow> IndexDef \<Rightarrow> store \<Rightarrow> store" where
  "AddGSI keys table schema idx s =
     (let s = s\<lparr>schemas := fmupd table schema (schemas s)\<rparr>; g = the_default fmempty (fmlookup (gsiIdx s) table)
      in s\<lparr>gsiIdx := fmupd table (fmupd (IndexName idx) (backfill s keys table idx) g) (gsiIdx s)\<rparr>)"

definition DeleteGSI :: "string \<Rightarrow> TableSchema \<Rightarrow> string \<Rightarrow> store \<Rightarrow> store" where
  "DeleteGSI table schema indexName s =
     (let s = s\<lparr>schemas := fmupd table schema (schemas s)\<rparr>
      in case fmlookup (gsiIdx s) table of
           None \<Rightarrow> s
         | Some g \<Rightarrow> s\<lparr>gsiIdx := fmupd table (fmdrop indexName g) (gsiIdx s)\<rparr>)"

definition IsEmpty :: "store \<Rightarrow> bool" where
  "IsEmpty s \<longleftrightarrow> schemas s = fmempty"

end
