(* ===== verification/Dynamo_Types.thy ===== *)
theory Dynamo_Types
  imports Dynamo_Update
begin

text \<open>
  A type discipline for the maps of the heap. A typed attribute \<open>{"S": ...}\<close>, \<open>{"M": ...}\<close> is one kind of map, the
  map under \<open>M\<close> that holds attributes by name is another. \<open>W\<close> is the set of the addresses of the first kind. Under the
  discipline an update writes in place only into maps of the second kind: a typed attribute never changes once made,
  so that what is read from a key attribute stays.
\<close>

section \<open>The discipline\<close>

fun typed_val :: "nat set \<Rightarrow> hval \<Rightarrow> bool" where
  "typed_val W (HMap a) = (a \<in> W)"
| "typed_val W (HArr l) = list_all (typed_val W) l"
| "typed_val W _ = True"

definition typed_fields :: "nat set \<Rightarrow> obj \<Rightarrow> bool" where
  "typed_fields W m \<longleftrightarrow> (\<forall>k. typed_val W (fld m k))"

definition typed_attr :: "nat set \<Rightarrow> obj \<Rightarrow> bool" where
  "typed_attr W m \<longleftrightarrow> (\<forall>k. case fld m k of HMap b \<Rightarrow> if k = ''M'' then b \<notin> W else b \<in> W | v \<Rightarrow> typed_val W v)"

definition typed_heap :: "nat set \<Rightarrow> heap \<Rightarrow> bool" where
  "typed_heap W h \<longleftrightarrow> W \<subseteq> {..<lim h} \<and>
     (\<forall>a < lim h. if a \<in> W then typed_attr W (obj_at h a) \<and> (\<forall>b. fld (obj_at h a) ''M'' = HMap b \<longrightarrow> b < lim h)
                  else typed_fields W (obj_at h a))"

text \<open>What an update does to the heap: new typed attributes may appear, the old ones stay.\<close>

definition grows :: "nat set \<Rightarrow> heap \<Rightarrow> nat set \<Rightarrow> heap \<Rightarrow> bool" where
  "grows W h W' h' \<longleftrightarrow> W \<subseteq> W' \<and> W' \<inter> {..<lim h} = W \<and> lim h \<le> lim h' \<and> (\<forall>a \<in> W. obj_at h' a = obj_at h a) \<and> typed_heap W' h'"

lemma typed_val_mono: "typed_val W v \<Longrightarrow> W \<subseteq> W' \<Longrightarrow> typed_val W' v"
  by (induction W v rule: typed_val.induct) (auto simp: list_all_iff)

lemma typed_fields_mono: "typed_fields W m \<Longrightarrow> W \<subseteq> W' \<Longrightarrow> typed_fields W' m"
  by (auto simp: typed_fields_def intro: typed_val_mono)

lemma typed_attr_grow:
  assumes "typed_attr W m" "W \<subseteq> W'" "W' \<inter> {..<n} = W" "\<forall>b. fld m ''M'' = HMap b \<longrightarrow> b < n"
  shows "typed_attr W' m"
  unfolding typed_attr_def
proof
  fix k
  show "case fld m k of HMap b \<Rightarrow> if k = ''M'' then b \<notin> W' else b \<in> W' | v \<Rightarrow> typed_val W' v"
    using assms(1)[unfolded typed_attr_def, rule_format, of k] assms(2-4)
    by (auto split: hval.splits if_splits intro: typed_val_mono) (auto simp: list_all_iff intro: typed_val_mono)
qed

lemma grows_refl: "typed_heap W h \<Longrightarrow> grows W h W h"
  by (auto simp: grows_def typed_heap_def)

lemma grows_trans: "grows W h W1 h1 \<Longrightarrow> grows W1 h1 W2 h2 \<Longrightarrow> grows W h W2 h2"
  by (auto simp: grows_def subset_eq)

lemma typed_val_fld: "typed_fields W m \<Longrightarrow> typed_val W (fld m k)"
  by (simp add: typed_fields_def)

lemma typed_fields_upd: "typed_fields W m \<Longrightarrow> typed_val W v \<Longrightarrow> typed_fields W (fmupd k v m)"
  by (simp add: typed_fields_def)

lemma typed_fields_drop: "typed_fields W m \<Longrightarrow> typed_fields W (fmdrop k m)"
  by (auto simp: typed_fields_def fld_def)

lemma typed_fields_empty [simp]: "typed_fields W fmempty"
  by (simp add: typed_fields_def)

lemma typed_heap_attr: "typed_heap W h \<Longrightarrow> a \<in> W \<Longrightarrow> typed_attr W (obj_at h a)"
  by (auto simp: typed_heap_def)

lemma typed_heap_fields: "typed_heap W h \<Longrightarrow> a \<notin> W \<Longrightarrow> a < lim h \<Longrightarrow> typed_fields W (obj_at h a)"
  by (auto simp: typed_heap_def)

text \<open>The map under \<open>M\<close> of a typed attribute is not a typed attribute, and holds typed attributes.\<close>

lemma typed_inner:
  assumes "typed_heap W h" "typed_val W v" "inner_addr h v = Some a"
  shows "a \<notin> W" "a < lim h" "typed_fields W (obj_at h a)"
proof -
  from assms(2,3) obtain w where w: "w \<in> W" "fld (obj_at h w) ''M'' = HMap a" by (auto simp: inner_addr_Some)
  from typed_heap_attr [OF assms(1) w(1), unfolded typed_attr_def, rule_format, of "''M''"] w(2) show a: "a \<notin> W" by simp
  from assms(1) w show l: "a < lim h" by (auto simp: typed_heap_def subset_eq)
  from assms(1) a l show "typed_fields W (obj_at h a)" by (rule typed_heap_fields)
qed

lemma typed_inner_list:
  assumes "typed_heap W h" "typed_val W v" "inner_list h v = Some l"
  shows "list_all (typed_val W) l"
proof -
  from assms(2,3) obtain w where w: "w \<in> W" "fld (obj_at h w) ''L'' = HArr l" by (auto simp: inner_list_Some)
  from typed_heap_attr [OF assms(1) w(1), unfolded typed_attr_def, rule_format, of "''L''"] w(2) show ?thesis by simp
qed

lemma typed_resolve: "typed_heap W h \<Longrightarrow> typed_val W v \<Longrightarrow> hresolveInValue h v ps = Some x \<Longrightarrow> typed_val W x"
proof (induction ps arbitrary: v)
  case (Cons p ps)
  show ?case
  proof (cases "Name p = []")
    case True
    with Cons.prems obtain l where l: "inner_list h v = Some l" "0 \<le> Index p" "Index p < int (length l)"
      "hresolveInValue h (l ! nat (Index p)) ps = Some x" by (auto split: option.splits if_splits)
    from typed_inner_list [OF Cons.prems(1,2) l(1)] l(2,3) have "typed_val W (l ! nat (Index p))" by (simp add: list_all_length)
    with Cons.IH Cons.prems(1) l(4) show ?thesis by blast
  next
    case False
    with Cons.prems obtain a y where a: "inner_addr h v = Some a" "fmlookup (obj_at h a) (Name p) = Some y" "hresolveInValue h y ps = Some x"
      by (auto split: option.splits)
    from typed_val_fld [OF typed_inner(3) [OF Cons.prems(1,2) a(1)], of "Name p"] a(2) have "typed_val W y" by (simp add: fld_def)
    with Cons.IH Cons.prems(1) a(3) show ?thesis by blast
  qed
qed simp

lemma typed_ResolvePath: "typed_heap W h \<Longrightarrow> typed_fields W item \<Longrightarrow> hResolvePath h item ps = Some x \<Longrightarrow> typed_val W x"
proof (cases ps)
  case (Cons p qs)
  assume a: "typed_heap W h" "typed_fields W item" "hResolvePath h item ps = Some x"
  with Cons obtain v where v: "fmlookup item (Name p) = Some v" "hresolveInValue h v qs = Some x"
    by (auto simp: hResolvePath_def split: if_splits option.splits)
  from typed_val_fld [OF a(2), of "Name p"] v(1) have "typed_val W v" by (simp add: fld_def)
  with typed_resolve [OF a(1) _ v(2)] show ?thesis by blast
qed (simp add: hResolvePath_def)

section \<open>Allocation and writes\<close>

lemma grows_alloc_attr:
  assumes "typed_heap W h" "typed_attr W m" "\<forall>b. fld m ''M'' = HMap b \<longrightarrow> b < lim h"
  shows "grows W h (insert (lim h) W) (fst (alloc h m))"
proof -
  have W: "W \<subseteq> {..<lim h}" using assms(1) by (simp add: typed_heap_def)
  then have new: "lim h \<notin> W" by auto
  have "typed_attr (insert (lim h) W) (obj_at h a)" if "a \<in> W" for a
    by (rule typed_attr_grow [of W _ _ "lim h"]) (use assms(1) that W in \<open>auto simp: typed_heap_def\<close>)
  moreover have "typed_attr (insert (lim h) W) m"
    by (rule typed_attr_grow [of W _ _ "lim h"]) (use assms W in auto)
  moreover have "typed_fields (insert (lim h) W) (obj_at h a)" if "a \<notin> W" "a < lim h" for a
    by (rule typed_fields_mono [OF typed_heap_fields]) (use assms(1) that in auto)
  ultimately show ?thesis using assms W new
    by (fastforce simp: grows_def typed_heap_def less_Suc_eq)
qed

lemma grows_alloc_fields:
  assumes "typed_heap W h" "typed_fields W m"
  shows "grows W h W (fst (alloc h m))"
proof -
  have W: "W \<subseteq> {..<lim h}" using assms(1) by (simp add: typed_heap_def)
  with assms show ?thesis by (fastforce simp: grows_def typed_heap_def less_Suc_eq)
qed

lemma grows_put:
  assumes "typed_heap W h" "a \<notin> W" "typed_fields W m"
  shows "grows W h W (put_obj h a m)"
  using assms by (auto simp: grows_def typed_heap_def)

lemma typed_attr_single [simp]:
  "k \<noteq> ''M'' \<Longrightarrow> typed_val W v \<Longrightarrow> typed_attr W (fmupd k v fmempty)"
  "a \<notin> W \<Longrightarrow> typed_attr W (fmupd ''M'' (HMap a) fmempty)"
  by (auto simp: typed_attr_def split: hval.splits)

lemma grows_typed: "grows W h W' h' \<Longrightarrow> typed_heap W' h'" "grows W h W' h' \<Longrightarrow> W \<subseteq> W'" "grows W h W' h' \<Longrightarrow> lim h \<le> lim h'"
  by (simp_all add: grows_def)

lemma grows_val: "grows W h W' h' \<Longrightarrow> typed_val W v \<Longrightarrow> typed_val W' v"
  by (auto simp: grows_def intro: typed_val_mono)

lemma grows_fields: "grows W h W' h' \<Longrightarrow> typed_fields W m \<Longrightarrow> typed_fields W' m"
  by (auto simp: grows_def intro: typed_fields_mono)

lemma grows_to_fresh:
  assumes "grows W h W1 h1" "grows W1 h1 (insert (lim h1) W1) (fst (alloc h1 m))" "alloc h1 m = (h', v')"
  shows "\<exists>W'. grows W h W' h' \<and> typed_val W' v'"
proof -
  from assms(3) have "h' = fst (alloc h1 m)" "v' = HMap (lim h1)" by (simp_all add: alloc_def)
  with grows_trans [OF assms(1,2)] show ?thesis by (intro exI [of _ "insert (lim h1) W1"]) simp
qed

text \<open>A write into the map under \<open>M\<close> of a typed attribute, followed by a fresh attribute around it.\<close>

lemma grows_rewrap:
  assumes "grows W h W1 h1" "a \<notin> W" "a < lim h" "\<And>m. typed_fields W1 m \<Longrightarrow> typed_fields W1 (f m)"
    and "alloc (put_obj h1 a (f (obj_at h1 a))) (fmap_of_list [(''M'', HMap a)]) = (h', v')"
  shows "\<exists>W'. grows W h W' h' \<and> typed_val W' v'"
proof -
  let ?h2 = "put_obj h1 a (f (obj_at h1 a))"
  have a1: "a \<notin> W1" using assms(1-3) by (auto simp: grows_def)
  have "typed_fields W1 (obj_at h1 a)"
    using typed_heap_fields [OF grows_typed(1) [OF assms(1)] a1] assms(3) grows_typed(3) [OF assms(1)] by simp
  with a1 assms(1,4) have g2: "grows W1 h1 W1 ?h2" by (intro grows_put) (auto dest: grows_typed)
  have "grows W1 ?h2 (insert (lim ?h2) W1) (fst (alloc ?h2 (fmap_of_list [(''M'', HMap a)])))"
    by (rule grows_alloc_attr) (use grows_typed(1) [OF g2] a1 assms(3) grows_typed(3) [OF assms(1)] in auto)
  with grows_trans [OF assms(1) g2] show ?thesis using assms(5) by (rule grows_to_fresh)
qed

lemma grows_wrap_list:
  assumes "grows W h W1 h1" "list_all (typed_val W1) l" "alloc h1 (fmap_of_list [(''L'', HArr l)]) = (h', v')"
  shows "\<exists>W'. grows W h W' h' \<and> typed_val W' v'"
proof -
  have "grows W1 h1 (insert (lim h1) W1) (fst (alloc h1 (fmap_of_list [(''L'', HArr l)])))"
    by (rule grows_alloc_attr) (use assms(1,2) in \<open>auto dest: grows_typed\<close>)
  with assms(1) show ?thesis using assms(3) by (rule grows_to_fresh)
qed

lemma typed_pad: "list_all (typed_val W) l \<Longrightarrow> list_all (typed_val W) (hpad_list l i)"
  by (auto simp: hpad_list_def list_all_iff)

lemma length_hpad_list [simp]: "i < length (hpad_list l i)"
  by (simp add: hpad_list_def)

lemma typed_inner_list_default:
  "typed_heap W h \<Longrightarrow> typed_val W v \<Longrightarrow> list_all (typed_val W) (the_default [] (inner_list h v))"
  by (cases "inner_list h v") (auto dest: typed_inner_list)

lemma list_all_update: "list_all P l \<Longrightarrow> P x \<Longrightarrow> list_all P (l[i := x])"
  by (auto simp: list_all_iff dest!: set_update_subset_insert [THEN subsetD])

lemma list_all_mono_typed: "list_all (typed_val W) l \<Longrightarrow> W \<subseteq> W' \<Longrightarrow> list_all (typed_val W') l"
  by (auto simp: list_all_iff intro: typed_val_mono)

lemma typed_set:
  "typed_heap W h \<Longrightarrow> typed_val W v \<Longrightarrow> typed_val W x \<Longrightarrow> hsetInValue h v ps x = Inr (h', v') \<Longrightarrow>
   \<exists>W'. grows W h W' h' \<and> typed_val W' v'"
proof (induction ps arbitrary: v h' v')
  case (Cons p ps)
  show ?case
  proof (cases "Name p = []")
    case True
    let ?l = "hpad_list (the_default [] (inner_list h v)) (nat (Index p))"
    from Cons.prems(4) True obtain h1 c where c: "hsetInValue h (?l ! nat (Index p)) ps x = Inr (h1, c)"
      "alloc h1 (fmap_of_list [(''L'', HArr (?l[nat (Index p) := c]))]) = (h', v')"
      by (auto simp: Let_def split: if_splits sum.splits)
    have l: "list_all (typed_val W) ?l" by (intro typed_pad typed_inner_list_default Cons.prems)
    then have "typed_val W (?l ! nat (Index p))" by (simp add: list_all_length)
    from Cons.IH [OF Cons.prems(1) this Cons.prems(3) c(1)] obtain W1 where W1: "grows W h W1 h1" "typed_val W1 c" by blast
    have "list_all (typed_val W1) (?l[nat (Index p) := c])"
      by (intro list_all_update list_all_mono_typed [OF l] W1(2) grows_typed(2) [OF W1(1)])
    then show ?thesis using W1(1) c(2) by (intro grows_wrap_list)
  next
    case False
    show ?thesis
    proof (cases "inner_addr h v")
      case None
      with Cons.prems(4) False obtain h1 c where c: "hsetInValue h HNil ps x = Inr (h1, c)"
        "alloc (fst (alloc h1 (fmap_of_list [(Name p, c)]))) (fmap_of_list [(''M'', HMap (lim h1))]) = (h', v')"
        by (auto simp: case_prod_beta split: sum.splits)
      from Cons.IH [OF Cons.prems(1) _ Cons.prems(3) c(1)] obtain W1 where W1: "grows W h W1 h1" "typed_val W1 c" by auto
      let ?h2 = "fst (alloc h1 (fmap_of_list [(Name p, c)]))"
      have g2: "grows W1 h1 W1 ?h2"
        by (rule grows_alloc_fields) (use W1 in \<open>auto dest: grows_typed simp: typed_fields_upd\<close>)
      have "lim h1 \<notin> W1" using grows_typed(1) [OF W1(1)] by (auto simp: typed_heap_def)
      then have "grows W1 ?h2 (insert (lim ?h2) W1) (fst (alloc ?h2 (fmap_of_list [(''M'', HMap (lim h1))])))"
        using grows_typed(1) [OF g2] by (intro grows_alloc_attr) auto
      with grows_trans [OF W1(1) g2] show ?thesis using c(2) by (rule grows_to_fresh)
    next
      case (Some a)
      with Cons.prems(4) False obtain h1 c where c: "hsetInValue h (fld (obj_at h a) (Name p)) ps x = Inr (h1, c)"
        "alloc (put_obj h1 a (fmupd (Name p) c (obj_at h1 a))) (fmap_of_list [(''M'', HMap a)]) = (h', v')"
        by (auto split: sum.splits)
      note a = typed_inner [OF Cons.prems(1,2) Some]
      from Cons.IH [OF Cons.prems(1) typed_val_fld [OF a(3)] Cons.prems(3) c(1)]
      obtain W1 where "grows W h W1 h1" "typed_val W1 c" by blast
      with a(1,2) c(2) show ?thesis by (intro grows_rewrap [where f = "fmupd (Name p) c"]) (auto intro: typed_fields_upd)
    qed
  qed
qed (auto intro: grows_refl)

lemma typed_remove:
  "typed_heap W h \<Longrightarrow> typed_val W v \<Longrightarrow> hremoveInValue h v ps = (h', v', ch) \<Longrightarrow> \<exists>W'. grows W h W' h' \<and> typed_val W' v'"
proof (induction ps arbitrary: v h' v' ch)
  case (Cons p ps)
  have same: ?case if "h' = h" "v' = v" using that Cons.prems grows_refl by blast
  show ?case
  proof (cases "Name p = []")
    case True
    show ?thesis
    proof (cases "inner_list h v")
      case None
      with True Cons.prems(3) show ?thesis by (intro same) auto
    next
      case (Some l)
      note l = typed_inner_list [OF Cons.prems(1,2) Some]
      let ?i = "nat (Index p)"
      show ?thesis
      proof (cases "Index p < 0 \<or> int (length l) \<le> Index p")
        case out: True
        with True Some Cons.prems(3) show ?thesis by (intro same) auto
      next
        case False
        then have "?i < length l" by auto
        with l have li: "typed_val W (l ! ?i)" by (simp add: list_all_length)
        show ?thesis
        proof (cases "ps = []")
          case nil: True
          with True Some False Cons.prems(3) have "alloc h (fmap_of_list [(''L'', HArr (take ?i l @ drop (?i + 1) l))]) = (h', v')"
            by (auto simp: Let_def split: prod.splits)
          moreover have "list_all (typed_val W) (take ?i l @ drop (?i + 1) l)" using l by (auto simp: list_all_iff dest: in_set_takeD in_set_dropD)
          ultimately show ?thesis using Cons.prems(1) by (intro grows_wrap_list) (auto intro: grows_refl)
        next
          case ne: False
          obtain h1 c ch1 where c: "hremoveInValue h (l ! ?i) ps = (h1, c, ch1)" by (metis surj_pair)
          from Cons.IH [OF Cons.prems(1) li c] obtain W1 where W1: "grows W h W1 h1" "typed_val W1 c" by blast
          show ?thesis
          proof (cases ch1)
            case ch: True
            with True Some False ne c Cons.prems(3) have "alloc h1 (fmap_of_list [(''L'', HArr (l[?i := c]))]) = (h', v')"
              by (auto simp: Let_def split: prod.splits)
            moreover have "list_all (typed_val W1) (l[?i := c])" by (intro list_all_update list_all_mono_typed [OF l] W1(2) grows_typed(2) [OF W1(1)])
            ultimately show ?thesis using W1(1) by (intro grows_wrap_list)
          next
            case False': False
            with True Some False ne c Cons.prems(3) have "h' = h1" "v' = v" by (auto simp: Let_def)
            with W1(1) Cons.prems(2) show ?thesis by (auto intro: grows_val)
          qed
        qed
      qed
    qed
  next
    case False
    show ?thesis
    proof (cases "inner_addr h v")
      case None
      with False Cons.prems(3) show ?thesis by (intro same) auto
    next
      case (Some a)
      note a = typed_inner [OF Cons.prems(1,2) Some]
      show ?thesis
      proof (cases "ps = []")
        case True
        with False Some Cons.prems(3) have "alloc (put_obj h a (fmdrop (Name p) (obj_at h a))) (fmap_of_list [(''M'', HMap a)]) = (h', v')"
          by (auto split: prod.splits)
        with grows_refl [OF Cons.prems(1)] a(1,2) show ?thesis
          by (intro grows_rewrap [where f = "fmdrop (Name p)"]) (auto intro: typed_fields_drop)
      next
        case ne: False
        show ?thesis
        proof (cases "fmlookup (obj_at h a) (Name p)")
          case None
          with False Some ne Cons.prems(3) show ?thesis by (intro same) auto
        next
          case child: (Some y)
          then have y: "typed_val W y" using typed_val_fld [OF a(3), of "Name p"] by (simp add: fld_def)
          obtain h1 c ch1 where c: "hremoveInValue h y ps = (h1, c, ch1)" by (metis surj_pair)
          from Cons.IH [OF Cons.prems(1) y c] obtain W1 where W1: "grows W h W1 h1" "typed_val W1 c" by blast
          show ?thesis
          proof (cases ch1)
            case True
            with False Some ne child c Cons.prems(3)
            have "alloc (put_obj h1 a (fmupd (Name p) c (obj_at h1 a))) (fmap_of_list [(''M'', HMap a)]) = (h', v')"
              by (auto split: prod.splits)
            with W1 a(1,2) show ?thesis by (intro grows_rewrap [where f = "fmupd (Name p) c"]) (auto intro: typed_fields_upd)
          next
            case nch: False
            with False Some ne child c Cons.prems(3) have "h' = h1" "v' = v" by auto
            with W1(1) Cons.prems(2) show ?thesis by (auto intro: grows_val)
          qed
        qed
      qed
    qed
  qed
qed (auto intro: grows_refl)

section \<open>Updates\<close>

lemma typed_SetPath:
  assumes "typed_heap W h" "typed_fields W item" "typed_val W x" "hSetPath h item ps x = Inr (h', item')"
  shows "\<exists>W'. grows W h W' h' \<and> typed_fields W' item'"
proof (cases ps)
  case (Cons p qs)
  show ?thesis
  proof (cases "qs = []")
    case True
    with assms Cons show ?thesis
      by (intro exI [of _ W]) (auto simp: hSetPath_def intro: grows_refl typed_fields_upd split: if_splits)
  next
    case False
    with assms(4) Cons obtain v' where v: "hsetInValue h (fld item (Name p)) qs x = Inr (h', v')" "item' = fmupd (Name p) v' item"
      by (auto simp: hSetPath_def split: if_splits sum.splits)
    from typed_set [OF assms(1) typed_val_fld [OF assms(2)] assms(3) v(1)] obtain W' where "grows W h W' h'" "typed_val W' v'" by blast
    with assms(2) v(2) show ?thesis by (auto intro: typed_fields_upd grows_fields)
  qed
qed (use assms(4) in \<open>simp add: hSetPath_def\<close>)

lemma typed_RemovePath:
  assumes "typed_heap W h" "typed_fields W item" "hRemovePath h item ps = (h', item')"
  shows "\<exists>W'. grows W h W' h' \<and> typed_fields W' item'"
proof (cases "ps = [] \<or> Name (hd ps) = [] \<or> tl ps = [] \<or> fmlookup item (Name (hd ps)) = None")
  case True
  with assms show ?thesis
    by (intro exI [of _ W], cases ps) (auto simp: hRemovePath_def intro: grows_refl typed_fields_drop split: if_splits)
next
  case False
  then obtain p qs v where p: "ps = p # qs" "Name p \<noteq> []" "qs \<noteq> []" "fmlookup item (Name p) = Some v" by (cases ps) auto
  obtain h1 v' ch where r: "hremoveInValue h v qs = (h1, v', ch)" by (metis surj_pair)
  with assms(3) p have h: "h' = h1" "item' = (if ch then fmupd (Name p) v' item else item)" by (auto simp: hRemovePath_def)
  have "typed_val W v" using typed_val_fld [OF assms(2), of "Name p"] p(4) by (simp add: fld_def)
  from typed_remove [OF assms(1) this r] obtain W' where "grows W h W' h1" "typed_val W' v'" by blast
  with assms(2) h show ?thesis by (auto intro: typed_fields_upd grows_fields)
qed

lemma typed_resolveExprValue: "typed_fields W vs \<Longrightarrow> typed_val W (resolveExprValue ref vs)"
  using typed_val_fld [of W vs ref] by (cases "fmlookup vs ref") (auto simp: resolveExprValue_def fld_def)

lemma typed_operand: "typed_heap W h \<Longrightarrow> typed_fields W item \<Longrightarrow> typed_fields W vs \<Longrightarrow> typed_val W (evalOperandForSet h item ref names vs)"
  by (cases "hResolvePath h item (ResolveParts (ParsePathParts (TrimSpace ref)) names)")
    (auto simp: evalOperandForSet_def Let_def typed_resolveExprValue dest: typed_ResolvePath)

lemma typed_list_or_empty: "typed_heap W h \<Longrightarrow> typed_val W v \<Longrightarrow> list_all (typed_val W) (list_or_empty h v)"
  using typed_inner_list_default [of W h v] by (simp add: list_or_empty_def inner_list_def split: option.splits)

lemma typed_number: "typed_heap W h \<Longrightarrow> number h x = (h', v) \<Longrightarrow> \<exists>W'. grows W h W' h' \<and> typed_val W' v"
  unfolding number_def by (rule grows_to_fresh [OF grows_refl grows_alloc_attr]) auto

lemma typed_append:
  "typed_heap W h \<Longrightarrow> typed_val W a \<Longrightarrow> typed_val W b \<Longrightarrow> appendLists h a b = (h', v) \<Longrightarrow> \<exists>W'. grows W h W' h' \<and> typed_val W' v"
  unfolding appendLists_def by (rule grows_wrap_list [OF grows_refl]) (auto dest: typed_list_or_empty)

text \<open>The value of an assignment is one that the item holds, a fresh list, a fresh number or an operand.\<close>

lemma evalSetValue_cases:
  "evalSetValue uni h item e names vs = Inr (h', v) \<Longrightarrow>
     (\<exists>ps. hResolvePath h item ps = Some v \<and> h' = h) \<or>
     (\<exists>l r. appendLists h (evalOperandForSet h item l names vs) (evalOperandForSet h item r names vs) = (h', v)) \<or>
     (\<exists>x. number h x = (h', v)) \<or> (\<exists>r. v = evalOperandForSet h item r names vs \<and> h' = h)"
proof (induction uni h item e names vs rule: evalSetValue.induct)
  case (1 uni h item e names vs)
  let ?e = "TrimSpace e"
  let ?low = "ToLower (uLower uni) ?e"
  show ?case
  proof (cases "HasPrefix ?low ''if_not_exists(''")
    case True
    with "1.prems" obtain inner p q where i: "extractFunctionBody ?e (length ''if_not_exists'') = Some inner" "splitComma inner = [p, q]"
      by (subst (asm) evalSetValue.simps) (auto simp: Let_def split: option.splits list.splits)
    show ?thesis
    proof (cases "hResolvePath h item (ResolveParts (ParsePathParts (TrimSpace p)) names)")
      case None
      with True i "1.prems" have "evalSetValue uni h item (TrimSpace q) names vs = Inr (h', v)"
        by (subst (asm) evalSetValue.simps) (simp add: Let_def)
      from "1.IH" [OF refl refl True i refl refl None this] show ?thesis .
    next
      case (Some c)
      with True i "1.prems" show ?thesis by (subst (asm) evalSetValue.simps) (auto simp: Let_def)
    qed
  next
    case False
    with "1.prems" show ?thesis
      by (subst (asm) evalSetValue.simps) (auto simp: Let_def split: option.splits list.splits if_splits)
  qed
qed

lemma typed_evalSetValue:
  assumes "typed_heap W h" "typed_fields W item" "typed_fields W vs" "evalSetValue uni h item e names vs = Inr (h', v)"
  shows "\<exists>W'. grows W h W' h' \<and> typed_val W' v"
  using evalSetValue_cases [OF assms(4)] assms(1-3) grows_refl [OF assms(1)]
  by (auto intro: typed_append typed_number typed_operand dest: typed_ResolvePath)

text \<open>What an update promises, from a typed state on.\<close>

definition types_kept :: "nat set \<Rightarrow> heap \<Rightarrow> update_result \<Rightarrow> bool" where
  "types_kept W h r \<longleftrightarrow>
     (case r of Panic \<Rightarrow> True | Ret (h', x) \<Rightarrow> \<exists>W'. grows W h W' h' \<and> (case x of Inl _ \<Rightarrow> True | Inr item \<Rightarrow> typed_fields W' item))"

lemma types_kept_Ret [simp]:
  "types_kept W h (Ret (h', Inr item)) \<longleftrightarrow> (\<exists>W'. grows W h W' h' \<and> typed_fields W' item)"
  "types_kept W h (Ret (h', Inl e)) \<longleftrightarrow> (\<exists>W'. grows W h W' h')" "types_kept W h Panic"
  by (simp_all add: types_kept_def)

lemma types_kept_after: "grows W h W1 h1 \<Longrightarrow> types_kept W1 h1 r \<Longrightarrow> types_kept W h r"
  by (auto simp: types_kept_def split: go_result.splits prod.splits intro: grows_trans)

lemma types_kept_refl: "typed_heap W h \<Longrightarrow> typed_fields W item \<Longrightarrow> types_kept W h (Ret (h, Inr item))"
  by (auto intro: grows_refl)

lemma types_kept_set: "typed_heap W h \<Longrightarrow> typed_fields W item \<Longrightarrow> typed_fields W vs \<Longrightarrow> types_kept W h (set_loop uni names vs as h item)"
proof (induction as arbitrary: W h item)
  case (Cons a as)
  let ?a = "TrimSpace a"
  show ?case
  proof (cases "IndexByte ?a CHR ''=''")
    case (Some i)
    let ?ps = "ResolveParts (ParsePathParts (TrimSpace (take i ?a))) names"
    show ?thesis
    proof (cases "evalSetValue uni h item (TrimSpace (drop (i + 1) ?a)) names vs")
      case (Inl e)
      with Some Cons.prems(1) show ?thesis by (auto simp: Let_def intro: grows_refl)
    next
      case (Inr r)
      obtain h1 v where r: "r = (h1, v)" by (cases r)
      with typed_evalSetValue [OF Cons.prems] Inr obtain W1 where W1: "grows W h W1 h1" "typed_val W1 v" by blast
      have it: "typed_fields W1 item" "typed_fields W1 vs" using W1(1) Cons.prems by (auto intro: grows_fields)
      show ?thesis
      proof (cases "v = HNil")
        case True
        with Cons.IH [OF grows_typed(1) [OF W1(1)] it] Some Inr r show ?thesis
          by (simp add: Let_def types_kept_after [OF W1(1)])
      next
        case False
        show ?thesis
        proof (cases "hSetPath h1 item ?ps v")
          case e: (Inl e)
          with Some Inr r False W1(1) show ?thesis by (auto simp: Let_def)
        next
          case q: (Inr q)
          obtain h2 item2 where q': "q = (h2, item2)" by (cases q)
          with typed_SetPath [OF grows_typed(1) [OF W1(1)] it(1) W1(2)] q obtain W2 where W2: "grows W1 h1 W2 h2" "typed_fields W2 item2" by blast
          have "types_kept W2 h2 (set_loop uni names vs as h2 item2)"
            by (rule Cons.IH) (use W2 it in \<open>auto intro: grows_typed grows_fields\<close>)
          with Some Inr r False q q' show ?thesis
            by (simp add: Let_def types_kept_after [OF grows_trans [OF W1(1) W2(1)]])
        qed
      qed
    qed
  qed (use Cons in \<open>simp add: Let_def\<close>)
qed (auto intro: grows_refl)

lemma types_kept_remove: "typed_heap W h \<Longrightarrow> typed_fields W item \<Longrightarrow> remove_loop names as h item = (h', item') \<Longrightarrow>
    \<exists>W'. grows W h W' h' \<and> typed_fields W' item'"
proof (induction as arbitrary: W h item)
  case (Cons a as)
  obtain h1 item1 where r: "hRemovePath h item (ResolveParts (ParsePathParts (TrimSpace a)) names) = (h1, item1)" by (metis surj_pair)
  from typed_RemovePath [OF Cons.prems(1,2) r] obtain W1 where W1: "grows W h W1 h1" "typed_fields W1 item1" by blast
  from Cons.IH [OF grows_typed(1) [OF W1(1)] W1(2)] Cons.prems(3) r obtain W2 where "grows W1 h1 W2 h'" "typed_fields W2 item'" by auto
  with W1(1) show ?case by (blast intro: grows_trans)
qed (auto intro: grows_refl)

lemma typed_common_set: "typed_attr W em \<Longrightarrow> typed_attr W vm \<Longrightarrow> common_set_type em vm = Some (t, x, y) \<Longrightarrow>
    t \<noteq> ''M'' \<and> list_all (typed_val W) x \<and> list_all (typed_val W) y"
proof -
  assume a: "typed_attr W em" "typed_attr W vm" "common_set_type em vm = Some (t, x, y)"
  then have t: "t \<in> set set_types" "as_arr (fld em t) = Some x" "as_arr (fld vm t) = Some y"
    by (auto simp: common_set_type_def set_types_def List.map_filter_simps split: option.splits if_splits list.splits)
  then have "t \<noteq> ''M''" "fld em t = HArr x" "fld vm t = HArr y" by (auto simp: set_types_def as_arr_def split: hval.splits)
  with a(1,2) [unfolded typed_attr_def, rule_format, of t] show ?thesis by simp
qed

lemma union_loop_subset: "union_loop h seen vs = Some u \<Longrightarrow> set u \<subseteq> set vs"
  by (induction vs arbitrary: seen u) (fastforce split: option.splits if_splits)+

lemma as_map_typed: "typed_heap W h \<Longrightarrow> typed_val W v \<Longrightarrow> as_map h v = Some m \<Longrightarrow> typed_attr W m"
  by (cases v) (auto dest: typed_heap_attr)

lemma typed_set_attr: "typed_heap W h \<Longrightarrow> t \<noteq> ''M'' \<Longrightarrow> list_all (typed_val W) l \<Longrightarrow> alloc h (fmap_of_list [(t, HArr l)]) = (h', v) \<Longrightarrow>
    \<exists>W'. grows W h W' h' \<and> typed_val W' v"
  by (rule grows_to_fresh [OF grows_refl grows_alloc_attr]) auto

lemma typed_applyAddOp:
  assumes "typed_heap W h" "typed_val W e" "typed_val W v" "applyAddOp h e v = Some (h', v')"
  shows "\<exists>W'. grows W h W' h' \<and> typed_val W' v'"
proof (cases "(as_map h e, as_map h v)")
  case (Pair x y)
  show ?thesis
  proof (cases "\<exists>em vm. x = Some em \<and> y = Some vm \<and> \<not> (fmlookup em ''N'' \<noteq> None \<and> fmlookup vm ''N'' \<noteq> None) \<and> common_set_type em vm \<noteq> None")
    case True
    with Pair obtain em vm t a b where m: "as_map h e = Some em" "as_map h v = Some vm" "common_set_type em vm = Some (t, a, b)"
      "\<not> (fmlookup em ''N'' \<noteq> None \<and> fmlookup vm ''N'' \<noteq> None)" by auto
    from typed_common_set [OF as_map_typed [OF assms(1,2) m(1)] as_map_typed [OF assms(1,3) m(2)] m(3)]
    have t: "t \<noteq> ''M''" "list_all (typed_val W) (a @ b)" by auto
    from assms(4) m obtain u where u: "unionSet h a b = Some u" "alloc h (fmap_of_list [(t, HArr u)]) = (h', v')"
      by (auto simp: applyAddOp_def split: option.splits)
    from union_loop_subset [OF u(1) [unfolded unionSet_def]] t(2) have "list_all (typed_val W) u" by (auto simp: list_all_iff)
    with t(1) assms(1) u(2) show ?thesis by (intro typed_set_attr)
  next
    case False
    with Pair assms(4) have "(\<exists>x. number h x = (h', v')) \<or> (h' = h \<and> v' = v)"
      by (auto simp: applyAddOp_def split: option.splits if_splits)
    with assms(1,3) show ?thesis by (auto intro: typed_number grows_refl)
  qed
qed

lemma types_kept_add: "typed_heap W h \<Longrightarrow> typed_fields W item \<Longrightarrow> typed_fields W vs \<Longrightarrow> types_kept W h (add_loop names vs as h item)"
proof (induction as arbitrary: W h item)
  case (Cons a as)
  show ?case
  proof (cases "path_and_value a")
    case (Some pv)
    obtain p v where pv: "pv = (p, v)" by (cases pv)
    let ?ps = "ResolveParts (ParsePathParts p) names"
    let ?e = "the_default HNil (hResolvePath h item ?ps)"
    have e: "typed_val W ?e" using Cons.prems by (cases "hResolvePath h item ?ps") (auto dest: typed_ResolvePath)
    show ?thesis
    proof (cases "applyAddOp h ?e (resolveExprValue v vs)")
      case (Some r)
      obtain h1 n where r: "r = (h1, n)" by (cases r)
      with typed_applyAddOp [OF Cons.prems(1) e typed_resolveExprValue [OF Cons.prems(3)]] Some
      obtain W1 where W1: "grows W h W1 h1" "typed_val W1 n" by blast
      have it: "typed_fields W1 item" "typed_fields W1 vs" using W1(1) Cons.prems by (auto intro: grows_fields)
      show ?thesis
      proof (cases "hSetPath h1 item ?ps n")
        case (Inl e)
        with Some r pv \<open>path_and_value a = Some pv\<close> W1(1) show ?thesis by (auto simp: Let_def)
      next
        case (Inr q)
        obtain h2 item2 where q': "q = (h2, item2)" by (cases q)
        with typed_SetPath [OF grows_typed(1) [OF W1(1)] it(1) W1(2)] Inr obtain W2 where W2: "grows W1 h1 W2 h2" "typed_fields W2 item2" by blast
        have "types_kept W2 h2 (add_loop names vs as h2 item2)"
          by (rule Cons.IH) (use W2 it in \<open>auto intro: grows_typed grows_fields\<close>)
        with Some r pv \<open>path_and_value a = Some pv\<close> Inr q' show ?thesis
          by (simp add: Let_def types_kept_after [OF grows_trans [OF W1(1) W2(1)]])
      qed
    qed (use Some pv in \<open>simp add: Let_def\<close>)
  qed (use Cons in simp)
qed (auto intro: grows_refl)

lemma typed_deleteFromSet:
  assumes "typed_heap W h" "typed_val W e" "typed_val W v" "deleteFromSet h e v = Some (NewSet h' v')"
  shows "\<exists>W'. grows W h W' h' \<and> typed_val W' v'"
proof (cases "\<exists>em vm. as_map h e = Some em \<and> as_map h v = Some vm \<and> common_set_type em vm \<noteq> None")
  case True
  then obtain em vm t a b where m: "as_map h e = Some em" "as_map h v = Some vm" "common_set_type em vm = Some (t, a, b)" by auto
  from typed_common_set [OF as_map_typed [OF assms(1,2) m(1)] as_map_typed [OF assms(1,3) m(2)] m(3)]
  have t: "t \<noteq> ''M''" "list_all (typed_val W) a" by auto
  let ?l = "filter (\<lambda>v. Sprint_v h v \<notin> Sprint_v h ` set b) a"
  from assms(4) m have l: "alloc h (fmap_of_list [(t, HArr ?l)]) = (h', v')"
    by (auto simp: deleteFromSet_def Let_def split: option.splits if_splits prod.splits)
  from t(2) have "list_all (typed_val W) ?l" by (auto simp: list_all_iff)
  with t(1) assms(1) l show ?thesis by (intro typed_set_attr)
next
  case False
  with assms(4) have "h' = h" "v' = e" by (auto simp: deleteFromSet_def split: option.splits)
  with assms(1,2) show ?thesis by (auto intro: grows_refl)
qed

lemma types_kept_delete: "typed_heap W h \<Longrightarrow> typed_fields W item \<Longrightarrow> typed_fields W vs \<Longrightarrow> types_kept W h (delete_loop names vs as h item)"
proof (induction as arbitrary: W h item)
  case (Cons a as)
  note skip = Cons.IH [OF Cons.prems]
  show ?case
  proof (cases "path_and_value a")
    case pv: (Some pv)
    obtain p v where pv': "pv = (p, v)" by (cases pv)
    let ?ps = "ResolveParts (ParsePathParts p) names"
    show ?thesis
    proof (cases "hResolvePath h item ?ps")
      case e: (Some e)
      note te = typed_ResolvePath [OF Cons.prems(1,2) e]
      show ?thesis
      proof (cases "deleteFromSet h e (resolveExprValue v vs)")
        case d: (Some d)
        show ?thesis
        proof (cases d)
          case EmptySet
          obtain h1 item1 where r: "hRemovePath h item ?ps = (h1, item1)" by (metis surj_pair)
          from typed_RemovePath [OF Cons.prems(1,2) r] obtain W1 where W1: "grows W h W1 h1" "typed_fields W1 item1" by blast
          have "types_kept W1 h1 (delete_loop names vs as h1 item1)"
            by (rule Cons.IH) (use W1 Cons.prems(3) in \<open>auto intro: grows_typed grows_fields\<close>)
          with pv pv' e d EmptySet r show ?thesis by (simp add: Let_def types_kept_after [OF W1(1)])
        next
          case (NewSet h1 n)
          from typed_deleteFromSet [OF Cons.prems(1) te typed_resolveExprValue [OF Cons.prems(3)]] d NewSet
          obtain W1 where W1: "grows W h W1 h1" "typed_val W1 n" by blast
          have it: "typed_heap W1 h1" "typed_fields W1 item" "typed_fields W1 vs" using W1(1) Cons.prems by (auto intro: grows_fields grows_typed)
          show ?thesis
          proof (cases "n = HNil \<or> (\<exists>e. hSetPath h1 item ?ps n = Inl e)")
            case True
            with pv pv' e d NewSet Cons.IH [OF it] show ?thesis by (auto simp: Let_def types_kept_after [OF W1(1)])
          next
            case False
            then obtain h2 item2 where q: "n \<noteq> HNil" "hSetPath h1 item ?ps n = Inr (h2, item2)"
              by (cases "hSetPath h1 item ?ps n") auto
            from typed_SetPath [OF it(1,2) W1(2) q(2)] obtain W2 where W2: "grows W1 h1 W2 h2" "typed_fields W2 item2" by blast
            have "types_kept W2 h2 (delete_loop names vs as h2 item2)"
              by (rule Cons.IH) (use W2 it in \<open>auto intro: grows_typed grows_fields\<close>)
            with pv pv' e d NewSet q show ?thesis by (simp add: Let_def types_kept_after [OF grows_trans [OF W1(1) W2(1)]])
          qed
        qed
      qed (use pv pv' e in \<open>simp add: Let_def\<close>)
    qed (use pv pv' skip in \<open>simp add: Let_def\<close>)
  qed (use skip in simp)
qed (auto intro: grows_refl)

lemma types_kept_then:
  assumes "types_kept W h r" "\<And>W1 h1 item1. grows W h W1 h1 \<Longrightarrow> typed_fields W1 item1 \<Longrightarrow> types_kept W1 h1 (f h1 item1)"
  shows "types_kept W h (then_update r f)"
proof (cases r)
  case (Ret p)
  obtain h1 x where p: "p = (h1, x)" by (cases p)
  show ?thesis
  proof (cases x)
    case (Inr item1)
    with assms(1) Ret p obtain W1 where "grows W h W1 h1" "typed_fields W1 item1" by auto
    with assms(2) [OF this] Ret p Inr show ?thesis by (auto simp: then_update_def intro: types_kept_after)
  qed (use assms(1) Ret p in \<open>simp add: then_update_def\<close>)
qed (simp add: then_update_def)

lemma types_kept_update:
  assumes "typed_heap W h" "typed_fields W item" "typed_fields W vs"
  shows "types_kept W h (applyUpdateExpression uni h item expr names vs)"
proof (cases "parseUpdateClauses uni expr")
  case (Ret clauses)
  show ?thesis unfolding applyUpdateExpression_def Ret go_result.case Let_def
  proof (rule types_kept_then [OF types_kept_set [OF assms(1-3)]])
    fix W1 h1 item1 assume g1: "grows W h W1 h1" and i1: "typed_fields W1 item1"
    let ?r = "remove_loop names (splitComma (the_default [] (fmlookup clauses ''REMOVE''))) h1 item1"
    have "types_kept W1 h1 (Ret (case ?r of (h, item) \<Rightarrow> (h, Inr item)))"
      using types_kept_remove [OF grows_typed(1) [OF g1] i1] by (cases ?r) auto
    then show "types_kept W1 h1 (then_update (Ret (case ?r of (h, item) \<Rightarrow> (h, Inr item))) (\<lambda>h item.
        then_update (add_loop names vs (splitComma (the_default [] (fmlookup clauses ''ADD''))) h item)
          (delete_loop names vs (splitComma (the_default [] (fmlookup clauses ''DELETE''))))))"
    proof (rule types_kept_then)
      fix W2 h2 item2 assume g2: "grows W1 h1 W2 h2" and i2: "typed_fields W2 item2"
      have v2: "typed_fields W2 vs" using assms(3) g1 g2 by (blast intro: grows_fields)
      show "types_kept W2 h2 (then_update (add_loop names vs (splitComma (the_default [] (fmlookup clauses ''ADD''))) h2 item2)
          (delete_loop names vs (splitComma (the_default [] (fmlookup clauses ''DELETE'')))))"
        by (rule types_kept_then [OF types_kept_add [OF grows_typed(1) [OF g2] i2 v2]])
          (auto intro: types_kept_delete grows_typed grows_fields [OF _ v2])
    qed
  qed
qed (simp add: applyUpdateExpression_def)

text \<open>
  C20: updates keep the types of the heap. If the maps of the heap, the item and the expression's values follow the discipline, then
  after an update expression, whether it succeeds or fails, the heap follows it again, the updated item does, and every typed
  attribute that existed before still has the contents it had: an update writes in place only into maps that hold
  attributes by name.
\<close>

theorem update_keeps_types:
  assumes "typed_heap W h" "typed_fields W item" "typed_fields W vs"
    and "applyUpdateExpression uni h item expr names vs = Ret (h', r)"
  shows "\<exists>W'. W \<subseteq> W' \<and> typed_heap W' h' \<and> (\<forall>a \<in> W. obj_at h' a = obj_at h a) \<and> (\<forall>item'. r = Inr item' \<longrightarrow> typed_fields W' item')"
  using types_kept_update [OF assms(1-3), of uni expr names] assms(4) by (cases r) (auto simp: grows_def)

definition demo_heap :: heap where
  "demo_heap = \<lparr>objs = fmap_of_list [(0, fmap_of_list [(''S'', HStr ''x'')])], lim = 1\<rparr>"

theorem update_keeps_types_witness:
  "\<exists>W'. {0} \<subseteq> W' \<and> typed_heap W' demo_heap \<and>
     typed_fields W' (fmap_of_list [(''b'', HMap 0), (''a'', HMap 0)])"
proof -
  let ?item = "fmap_of_list [(''a'', HMap 0)]" and ?vs = "fmap_of_list [('':v'', HMap 0)]" and ?uni = "\<lparr>uLower = id, uUpper = id\<rparr>"
  have run: "applyUpdateExpression ?uni demo_heap ?item ''SET b = :v'' fmempty ?vs =
      Ret (demo_heap, Inr (fmap_of_list [(''b'', HMap 0), (''a'', HMap 0)]))"
    by code_simp
  have "typed_heap {0} demo_heap" by (simp add: typed_heap_def demo_heap_def typed_attr_def obj_at_def)
  moreover have "typed_fields {0} ?item" "typed_fields {0} ?vs" by (simp_all add: typed_fields_def)
  ultimately show ?thesis using update_keeps_types [OF _ _ _ run, of "{0}"] by blast
qed

end
