(* ===== verification/Dynamo_Index.thy ===== *)
theory Dynamo_Index
  imports Dynamo_Store Dynamo_Types "HOL-Library.Multiset"
begin

text \<open>
  The secondary indexes of the item store. \<open>index_exact\<close> says that the buckets of every index of a table list exactly the items
  that have the bucket's value, each once. The states that a sequence of typed requests can reach are an inductive
  predicate; every operation keeps the indexes exact, also when it fails and also when an update expression writes into
  shared maps.
\<close>

section \<open>Buckets\<close>

lemma set_bucket_simps [simp]:
  "hp (set_bucket t i v hs s) = hp s" "tables (set_bucket t i v hs s) = tables s" "schemas (set_bucket t i v hs s) = schemas s"
  "throttles (set_bucket t i v hs s) = throttles s"
  by (simp_all add: set_bucket_def Let_def)

lemma bucket_of_set_bucket [simp]:
  "bucket_of (set_bucket t i v hs s) t' i' v' = (if t' = t \<and> i' = i \<and> v' = v then hs else bucket_of s t' i' v')"
  by (auto simp: set_bucket_def bucket_of_def Let_def the_default_def split: option.splits)

lemma has_index_set_bucket [simp]: "fmlookup (gsiIdx (set_bucket t i v hs s)) t' = None \<longleftrightarrow> t' \<noteq> t \<and> fmlookup (gsiIdx s) t' = None"
  by (simp add: set_bucket_def Let_def)

lemma item_of_cong: "tables s = tables s' \<Longrightarrow> item_of s t k = item_of s' t k"
  by (simp add: item_of_def table_of_def)

lemma index_value_cong: "hp s = hp s' \<Longrightarrow> index_value s item g = index_value s' item g"
  by (simp add: index_value_def)

text \<open>What maintenance leaves alone.\<close>

definition same_items :: "store \<Rightarrow> store \<Rightarrow> bool" where
  "same_items s s' \<longleftrightarrow> hp s' = hp s \<and> tables s' = tables s \<and> schemas s' = schemas s \<and> throttles s' = throttles s"

lemma same_items_trans: "same_items s s1 \<Longrightarrow> same_items s1 s2 \<Longrightarrow> same_items s s2"
  by (simp add: same_items_def)

lemma same_items_value: "same_items s s' \<Longrightarrow> index_value s' item g = index_value s item g" "same_items s s' \<Longrightarrow> item_of s' t k = item_of s t k"
  by (simp_all add: same_items_def index_value_def item_of_def table_of_def)

lemma remove_entry_items: "same_items s (remove_entry t k old g s)"
  by (auto simp: same_items_def remove_entry_def Let_def split: option.splits)

lemma add_entry_items: "same_items s (add_entry t k item g s)"
  by (auto simp: same_items_def add_entry_def split: option.splits)

lemma fold_items: "(\<And>g s. same_items s (f g s)) \<Longrightarrow> same_items s (fold f gs s)"
  by (induction gs arbitrary: s) (auto simp: same_items_def)

lemma removeGSIEntries_items: "same_items s (removeGSIEntries t k old sch s)"
  unfolding removeGSIEntries_def using fold_items [of "remove_entry t k old", OF remove_entry_items] by (simp add: same_items_def)

lemma addGSIEntries_items: "same_items s (addGSIEntries t k item sch s)"
  unfolding addGSIEntries_def Let_def
  by (rule same_items_trans [OF _ fold_items [of "add_entry t k item", OF add_entry_items]]) (simp add: same_items_def)

lemma bucket_remove_entry:
  "bucket_of (remove_entry t k old g s) t' i v =
     (if t' = t \<and> i = IndexName g \<and> index_value s old g = Some v then remove1 k (bucket_of s t' i v) else bucket_of s t' i v)"
  by (auto simp: remove_entry_def Let_def remove1_idem split: option.splits)

lemma bucket_add_entry:
  "bucket_of (add_entry t k item g s) t' i v =
     (if t' = t \<and> i = IndexName g \<and> index_value s item g = Some v then bucket_of s t' i v @ [k] else bucket_of s t' i v)"
  by (auto simp: add_entry_def split: option.splits)

text \<open>With distinct index names each index is touched once.\<close>

lemma bucket_fold:
  assumes step: "\<And>g s t' i v. bucket_of (f g s) t' i v = (if t' = t \<and> i = IndexName g \<and> index_value s item g = Some v then F (bucket_of s t' i v) else bucket_of s t' i v)"
    and items: "\<And>g s. same_items s (f g s)"
  shows "distinct (map IndexName gs) \<Longrightarrow>
    bucket_of (fold f gs s) t' i v =
      (if t' = t \<and> (\<exists>g \<in> set gs. i = IndexName g \<and> index_value s item g = Some v) then F (bucket_of s t' i v) else bucket_of s t' i v)"
proof (induction gs arbitrary: s)
  case (Cons g gs)
  have iv: "index_value (f g s) item x = index_value s item x" for x by (rule same_items_value(1) [OF items])
  show ?case
  proof (cases "t' = t \<and> i = IndexName g \<and> index_value s item g = Some v")
    case True
    with Cons.prems have "\<not> (\<exists>x \<in> set gs. i = IndexName x)" by auto
    with Cons True show ?thesis by (auto simp: step iv)
  qed (use Cons in \<open>auto simp: step iv\<close>)
qed simp

lemma bucket_removeGSI:
  assumes "distinct (map IndexName (GSIs sch))"
  shows "bucket_of (removeGSIEntries t k old sch s) t' i v =
    (if t' = t \<and> (\<exists>g \<in> set (GSIs sch). i = IndexName g \<and> index_value s old g = Some v) then remove1 k (bucket_of s t' i v) else bucket_of s t' i v)"
proof (cases "fmlookup (gsiIdx s) t")
  case None
  then have "bucket_of s t i v = []" by (simp add: bucket_of_def)
  with None show ?thesis by (auto simp: removeGSIEntries_def)
next
  case (Some g)
  then show ?thesis
    using bucket_fold [of "remove_entry t k old" t old "remove1 k", OF bucket_remove_entry remove_entry_items assms]
    by (simp add: removeGSIEntries_def)
qed

lemma bucket_addGSI:
  assumes "distinct (map IndexName (GSIs sch))"
  shows "bucket_of (addGSIEntries t k item sch s) t' i v =
    (if t' = t \<and> (\<exists>g \<in> set (GSIs sch). i = IndexName g \<and> index_value s item g = Some v) then bucket_of s t' i v @ [k] else bucket_of s t' i v)"
proof -
  define s1 where "s1 = (if fmlookup (gsiIdx s) t = None then s\<lparr>gsiIdx := fmupd t fmempty (gsiIdx s)\<rparr> else s)"
  have "bucket_of s1 t'' i v = bucket_of s t'' i v" for t'' by (auto simp: bucket_of_def s1_def)
  moreover have "index_value s1 item g = index_value s item g" for g by (simp add: index_value_def s1_def)
  moreover have "addGSIEntries t k item sch s = fold (add_entry t k item) (GSIs sch) s1" by (simp add: addGSIEntries_def s1_def Let_def)
  ultimately show ?thesis
    using bucket_fold [of "add_entry t k item" t item "\<lambda>b. b @ [k]", OF bucket_add_entry add_entry_items assms, of s1 t' i v] by simp
qed

lemma unindex_items: "same_items s (unindex t k old sch s)"
  by (auto simp: unindex_def removeGSIEntries_items same_items_def split: option.splits)
    (use removeGSIEntries_items in \<open>auto simp: same_items_def\<close>)

lemma index_items: "same_items s (index t k item sch s)"
  using addGSIEntries_items by (auto simp: index_def same_items_def split: option.splits)

lemma maintenance_simps [simp]:
  "hp (unindex t k old sch s) = hp s" "item_of (unindex t k old sch s) t' k' = item_of s t' k'" "schemas (unindex t k old sch s) = schemas s"
  "index_value (unindex t k old sch s) x g = index_value s x g"
  "hp (index t k item sch s) = hp s" "item_of (index t k item sch s) t' k' = item_of s t' k'" "schemas (index t k item sch s) = schemas s"
  "index_value (index t k item sch s) x g = index_value s x g"
  using unindex_items [of s t k old sch] index_items [of s t k item sch]
  by (simp_all add: same_items_def item_of_def table_of_def index_value_def)

lemma set_item_simps [simp]:
  "hp (set_item t k item s) = hp s" "schemas (set_item t k item s) = schemas s" "gsiIdx (set_item t k item s) = gsiIdx s"
  "index_value (set_item t k item s) x g = index_value s x g"
  "item_of (set_item t k item s) t' k' = (if t' = t \<and> k' = k then Some item else item_of s t' k')"
  "bucket_of (set_item t k item s) t' i v = bucket_of s t' i v"
  by (auto simp: set_item_def item_of_def table_of_def bucket_of_def index_value_def)

lemma delete_item_simps [simp]:
  "hp (delete_item t k s) = hp s" "schemas (delete_item t k s) = schemas s" "gsiIdx (delete_item t k s) = gsiIdx s"
  "index_value (delete_item t k s) x g = index_value s x g"
  "item_of (delete_item t k s) t' k' = (if t' = t \<and> k' = k then None else item_of s t' k')"
  "bucket_of (delete_item t k s) t' i v = bucket_of s t' i v"
  by (auto simp: delete_item_def item_of_def table_of_def bucket_of_def index_value_def split: option.splits)

section \<open>Exact indexes\<close>

definition bucket_exact :: "store \<Rightarrow> string \<Rightarrow> IndexDef \<Rightarrow> bool" where
  "bucket_exact s table gsi \<longleftrightarrow>
     (\<forall>val. distinct (bucket_of s table (IndexName gsi) val) \<and>
        (\<forall>k. k \<in> set (bucket_of s table (IndexName gsi) val) \<longleftrightarrow>
             (\<exists>item. item_of s table k = Some item \<and> index_value s item gsi = Some val)))"

definition index_exact :: "store \<Rightarrow> bool" where
  "index_exact s \<longleftrightarrow>
     (\<forall>table sch. fmlookup (schemas s) table = Some sch \<longrightarrow>
        distinct (map IndexName (GSIs sch)) \<and> (\<forall>gsi \<in> set (GSIs sch). bucket_exact s table gsi))"

lemma bucket_exact_cong:
  assumes "\<And>v. bucket_of s' t (IndexName g) v = bucket_of s t (IndexName g) v" "\<And>k. item_of s' t k = item_of s t k"
    and "\<And>k item. item_of s t k = Some item \<Longrightarrow> index_value s' item g = index_value s item g"
  shows "bucket_exact s' t g = bucket_exact s t g"
  using assms by (auto simp: bucket_exact_def)

lemma index_name_unique: "distinct (map IndexName gs) \<Longrightarrow> g \<in> set gs \<Longrightarrow> g' \<in> set gs \<Longrightarrow> IndexName g = IndexName g' \<Longrightarrow> g = g'"
  by (auto simp: distinct_map inj_on_def)

lemma this_index:
  assumes "distinct (map IndexName (GSIs sch))" "g \<in> set (GSIs sch)"
  shows "(\<exists>g' \<in> set (GSIs sch). IndexName g = IndexName g' \<and> P g') \<longleftrightarrow> P g"
  using index_name_unique [OF assms] assms(2) by blast

lemma bucket_unindex:
  assumes d: "distinct (map IndexName (GSIs sch))" and g: "g \<in> set (GSIs sch)"
  shows "bucket_of (unindex t k (item_of s t k) (Some sch) s) t (IndexName g) v =
    (if \<exists>x. item_of s t k = Some x \<and> index_value s x g = Some v then remove1 k (bucket_of s t (IndexName g) v) else bucket_of s t (IndexName g) v)"
  using this_index [OF d g, of "\<lambda>g'. index_value s (the (item_of s t k)) g' = Some v"]
  by (cases "item_of s t k") (simp_all add: unindex_def bucket_removeGSI [OF d])

text \<open>Replacing the item under a key, with the maintenance around it.\<close>

lemma bucket_exact_replace:
  assumes d: "distinct (map IndexName (GSIs sch))" and g: "g \<in> set (GSIs sch)" and ex: "bucket_exact s t g"
  shows "bucket_exact (index t k item (Some sch) (set_item t k item (unindex t k (item_of s t k) (Some sch) s))) t g"
proof -
  let ?s1 = "unindex t k (item_of s t k) (Some sch) s"
  let ?s2 = "set_item t k item ?s1"
  let ?s3 = "index t k item (Some sch) ?s2"
  note u = this_index [OF d g]
  note b1 = bucket_unindex [OF d g, where s = s and t = t and k = k]
  have b3: "bucket_of ?s3 t (IndexName g) v =
      (if index_value s item g = Some v then bucket_of ?s1 t (IndexName g) v @ [k] else bucket_of ?s1 t (IndexName g) v)" for v
    using u [of "\<lambda>g'. index_value s item g' = Some v"] by (simp add: index_def bucket_addGSI [OF d])
  have s1: "distinct (bucket_of ?s1 t (IndexName g) v) \<and>
      (\<forall>k'. k' \<in> set (bucket_of ?s1 t (IndexName g) v) \<longleftrightarrow> k' \<noteq> k \<and> k' \<in> set (bucket_of s t (IndexName g) v))" for v
    using ex [unfolded bucket_exact_def, rule_format, of v] unfolding b1 by (auto simp: set_remove1_eq)
  show ?thesis unfolding bucket_exact_def
  proof (intro allI conjI)
    fix v k'
    show "distinct (bucket_of ?s3 t (IndexName g) v)" using s1 [of v] by (simp add: b3)
    show "k' \<in> set (bucket_of ?s3 t (IndexName g) v) \<longleftrightarrow> (\<exists>x. item_of ?s3 t k' = Some x \<and> index_value ?s3 x g = Some v)"
      using s1 [of v] ex [unfolded bucket_exact_def, rule_format, of v] by (auto simp: b3)
  qed
qed

lemma bucket_exact_delete:
  assumes d: "distinct (map IndexName (GSIs sch))" and g: "g \<in> set (GSIs sch)" and ex: "bucket_exact s t g"
  shows "bucket_exact (delete_item t k (unindex t k (item_of s t k) (Some sch) s)) t g"
proof -
  let ?s1 = "unindex t k (item_of s t k) (Some sch) s"
  note b1 = bucket_unindex [OF d g, where s = s and t = t and k = k]
  show ?thesis unfolding bucket_exact_def
    using ex [unfolded bucket_exact_def, rule_format] by (auto simp: b1 set_remove1_eq)
qed

section \<open>The states a store can reach\<close>

definition schema_for :: "store \<Rightarrow> string \<Rightarrow> TableSchema option" where
  "schema_for s table = fmlookup (schemas s) table"

definition items_typed :: "nat set \<Rightarrow> store \<Rightarrow> bool" where
  "items_typed W s \<longleftrightarrow> typed_heap W (hp s) \<and> (\<forall>t k item. item_of s t k = Some item \<longrightarrow> typed_fields W item)"

definition op_schema :: "TransactWriteOp \<Rightarrow> TableSchema option" where
  "op_schema op = (if OpType op = ''Update'' then UpdSchema (OpUpdate op) else CondSchema (OpCond op))"

text \<open>
  Requests: what they carry follows the type discipline, and their schema is the one of the table. \<open>arrive\<close> is a request whose
  decoded maps join the heap.
\<close>

definition typed_op :: "nat set \<Rightarrow> store \<Rightarrow> TransactWriteOp \<Rightarrow> bool" where
  "typed_op W s op \<longleftrightarrow> typed_fields W (OpItem op) \<and> typed_fields W (OpKey op) \<and> typed_fields W (UpdValues (OpUpdate op)) \<and>
     op_schema op = schema_for s (OpTable op)"

definition typed_write :: "nat set \<Rightarrow> store \<Rightarrow> BatchWriteRequest \<Rightarrow> bool" where
  "typed_write W s req \<longleftrightarrow> (\<forall>item. BPutItem req = Some item \<longrightarrow> typed_fields W item) \<and> BSchema req = schema_for s (BTable req)"

inductive reachable :: "store \<Rightarrow> bool" where
  start: "typed_heap W h \<Longrightarrow> reachable (NewMemoryDynamoDBItemStore h)"
| arrive: "reachable s \<Longrightarrow> items_typed W s \<Longrightarrow> grows W (hp s) W' h' \<Longrightarrow> reachable (s\<lparr>hp := h'\<rparr>)"
| create: "reachable s \<Longrightarrow> table_of s (TableName sch) = fmempty \<Longrightarrow> distinct (map IndexName (GSIs sch)) \<Longrightarrow>
    reachable (CreateTableSchema now sch s)"
| drop: "reachable s \<Longrightarrow> reachable (DropTableSchema t s)"
| reset: "reachable s \<Longrightarrow> reachable (Reset s)"
| put: "reachable s \<Longrightarrow> items_typed W s \<Longrightarrow> typed_fields W item \<Longrightarrow> CondSchema cond = schema_for s t \<Longrightarrow>
    PutItem now t k item cond s = Ret (s', r) \<Longrightarrow> reachable s'"
| delete: "reachable s \<Longrightarrow> CondSchema cond = schema_for s t \<Longrightarrow> DeleteItem now t k cond s = Ret (s', r') \<Longrightarrow> reachable s'"
| update: "reachable s \<Longrightarrow> items_typed W s \<Longrightarrow> typed_fields W item \<Longrightarrow> typed_fields W (UpdValues spec) \<Longrightarrow> UpdSchema spec = schema_for s t \<Longrightarrow>
    UpdateItem uni now t k item spec s = Ret (s', r'') \<Longrightarrow> reachable s'"
| batch: "reachable s \<Longrightarrow> items_typed W s \<Longrightarrow> list_all (typed_write W s) reqs \<Longrightarrow> BatchWriteItems now reqs s = (s', u) \<Longrightarrow> reachable s'"
| transact: "reachable s \<Longrightarrow> items_typed W s \<Longrightarrow> list_all (typed_op W s) ops \<Longrightarrow> TransactWriteItems uni ops s = Ret (s', r3) \<Longrightarrow> reachable s'"
| add_gsi: "reachable s \<Longrightarrow> schema_for s t = Some old \<Longrightarrow> distinct ks \<Longrightarrow> set ks = fset (fmdom (table_of s t)) \<Longrightarrow>
    set (GSIs sch) \<subseteq> insert idx (set (GSIs old)) \<Longrightarrow> distinct (map IndexName (GSIs sch)) \<Longrightarrow> idx \<in> set (GSIs sch) \<Longrightarrow>
    reachable (AddGSI ks t sch idx s)"
| delete_gsi: "reachable s \<Longrightarrow> schema_for s t = Some old \<Longrightarrow> set (GSIs sch) \<subseteq> {g \<in> set (GSIs old). IndexName g \<noteq> i} \<Longrightarrow>
    distinct (map IndexName (GSIs sch)) \<Longrightarrow> reachable (DeleteGSI t sch i s)"

definition store_inv :: "store \<Rightarrow> bool" where
  "store_inv s \<longleftrightarrow> (\<exists>W. items_typed W s) \<and> index_exact s"

lemma items_typed_stable:
  assumes "items_typed W s" "grows W (hp s) W' h'" "item_of s t k = Some item"
  shows "index_value (s\<lparr>hp := h'\<rparr>) item g = index_value s item g"
proof -
  have "typed_val W (fld item (IxPKAttr g))" using assms(1,3) by (auto simp: items_typed_def intro: typed_val_fld)
  then show ?thesis using assms(2) by (cases "fld item (IxPKAttr g)") (auto simp: index_value_def hAttrVal_def grows_def)
qed

lemma index_exact_heap:
  assumes "index_exact s" "items_typed W s" "grows W (hp s) W' h'"
  shows "index_exact (s\<lparr>hp := h'\<rparr>)" "items_typed W' (s\<lparr>hp := h'\<rparr>)"
proof -
  have it: "item_of (s\<lparr>hp := h'\<rparr>) t k = item_of s t k" for t k by (simp add: item_of_def table_of_def)
  have "bucket_exact (s\<lparr>hp := h'\<rparr>) t g = bucket_exact s t g" for t g
    by (rule bucket_exact_cong) (use items_typed_stable [OF assms(2,3)] in \<open>simp_all add: it bucket_of_def\<close>)
  with assms(1) show "index_exact (s\<lparr>hp := h'\<rparr>)" by (simp add: index_exact_def)
  show "items_typed W' (s\<lparr>hp := h'\<rparr>)"
    using assms(2,3) by (auto simp: items_typed_def it intro: grows_typed grows_fields)
qed

text \<open>Operations that change neither items, heap, schemas nor buckets.\<close>

definition same_view :: "store \<Rightarrow> store \<Rightarrow> bool" where
  "same_view s s' \<longleftrightarrow> hp s' = hp s \<and> schemas s' = schemas s \<and> (\<forall>t k. item_of s' t k = item_of s t k) \<and> gsiIdx s' = gsiIdx s"

lemma same_view_refl [simp]: "same_view s s"
  by (simp add: same_view_def)

lemma same_view_trans: "same_view s s1 \<Longrightarrow> same_view s1 s2 \<Longrightarrow> same_view s s2"
  by (simp add: same_view_def)

lemma same_view_inv:
  assumes "same_view s s'"
  shows "index_exact s' = index_exact s" "items_typed W s' = items_typed W s" "schema_for s' t = schema_for s t"
proof -
  have "bucket_exact s' t g = bucket_exact s t g" for t g
    by (rule bucket_exact_cong) (use assms in \<open>auto simp: same_view_def bucket_of_def index_value_def\<close>)
  with assms show "index_exact s' = index_exact s" "items_typed W s' = items_typed W s" "schema_for s' t = schema_for s t"
    by (simp_all add: index_exact_def items_typed_def same_view_def schema_for_def)
qed

lemma same_view_tableMap: "same_view s (tableMap t s)"
  by (auto simp: same_view_def tableMap_def item_of_def table_of_def)

lemma same_view_try_write: "try_write now t s = (s', ok) \<Longrightarrow> same_view s s'"
  by (auto simp: same_view_def try_write_def item_of_def table_of_def split: option.splits prod.splits)

lemma other_table:
  assumes "t' \<noteq> t" "sch = None \<or> (\<exists>x. sch = Some x \<and> distinct (map IndexName (GSIs x)))"
  shows "bucket_of (unindex t k old sch s) t' i v = bucket_of s t' i v" "bucket_of (index t k item sch s) t' i v = bucket_of s t' i v"
  using assms by (auto simp: unindex_def index_def bucket_removeGSI bucket_addGSI split: option.splits)

lemma index_exact_schema: "index_exact s \<Longrightarrow> schema_for s t = None \<or> (\<exists>x. schema_for s t = Some x \<and> distinct (map IndexName (GSIs x)))"
  by (auto simp: index_exact_def schema_for_def)

lemma index_exact_replace:
  assumes "index_exact s" "sch = schema_for s t"
  shows "index_exact (index t k item sch (set_item t k item (unindex t k (item_of s t k) sch s)))"
  unfolding index_exact_def
proof (intro allI impI)
  let ?s' = "index t k item sch (set_item t k item (unindex t k (item_of s t k) sch s))"
  fix t' sch' assume "fmlookup (schemas ?s') t' = Some sch'"
  then have sch': "schema_for s t' = Some sch'" by (simp add: schema_for_def)
  with assms(1) have d: "distinct (map IndexName (GSIs sch'))" and ex: "\<forall>g \<in> set (GSIs sch'). bucket_exact s t' g"
    by (auto simp: index_exact_def schema_for_def)
  have "bucket_exact ?s' t' g" if g: "g \<in> set (GSIs sch')" for g
  proof (cases "t' = t")
    case True
    with assms(2) sch' bucket_exact_replace [OF d g] ex g show ?thesis by simp
  next
    case False
    then have "bucket_exact ?s' t' g = bucket_exact s t' g"
      using index_exact_schema [OF assms(1), of t] assms(2) by (intro bucket_exact_cong) (simp_all add: other_table)
    with ex g show ?thesis by simp
  qed
  with d show "distinct (map IndexName (GSIs sch')) \<and> (\<forall>g \<in> set (GSIs sch'). bucket_exact ?s' t' g)" by simp
qed

lemma index_exact_delete:
  assumes "index_exact s" "sch = schema_for s t"
  shows "index_exact (delete_item t k (unindex t k (item_of s t k) sch s))"
  unfolding index_exact_def
proof (intro allI impI)
  let ?s' = "delete_item t k (unindex t k (item_of s t k) sch s)"
  fix t' sch' assume "fmlookup (schemas ?s') t' = Some sch'"
  then have sch': "schema_for s t' = Some sch'" by (simp add: schema_for_def)
  with assms(1) have d: "distinct (map IndexName (GSIs sch'))" and ex: "\<forall>g \<in> set (GSIs sch'). bucket_exact s t' g"
    by (auto simp: index_exact_def schema_for_def)
  have "bucket_exact ?s' t' g" if g: "g \<in> set (GSIs sch')" for g
  proof (cases "t' = t")
    case True
    with assms(2) sch' bucket_exact_delete [OF d g] ex g show ?thesis by simp
  next
    case False
    then have "bucket_exact ?s' t' g = bucket_exact s t' g"
      using index_exact_schema [OF assms(1), of t] assms(2) by (intro bucket_exact_cong) (simp_all add: other_table)
    with ex g show ?thesis by simp
  qed
  with d show "distinct (map IndexName (GSIs sch')) \<and> (\<forall>g \<in> set (GSIs sch'). bucket_exact ?s' t' g)" by simp
qed

lemma items_typed_replace: "items_typed W s \<Longrightarrow> typed_fields W item \<Longrightarrow>
    items_typed W (index t k item sch (set_item t k item (unindex t k old sch s)))"
  by (auto simp: items_typed_def)

lemma items_typed_delete: "items_typed W s \<Longrightarrow> items_typed W (delete_item t k (unindex t k old sch s))"
  by (auto simp: items_typed_def)

section \<open>Every operation keeps the indexes exact\<close>

lemma guarded_Ret:
  assumes "guarded s c k = Ret (s', r)" "P s" "\<And>s'' r'. k s = Ret (s'', r') \<Longrightarrow> P s''"
  shows "P s'"
  using assms by (auto simp: guarded_def split: go_result.splits sum.splits if_splits)

lemma store_inv_view: "same_view s s' \<Longrightarrow> store_inv s' = store_inv s"
  by (simp add: store_inv_def same_view_inv)

lemma store_inv_replace:
  assumes "index_exact s" "items_typed W s" "typed_fields W item" "sch = schema_for s t"
  shows "store_inv (index t k item sch (set_item t k item (unindex t k (item_of s t k) sch s)))"
  unfolding store_inv_def using index_exact_replace [OF assms(1,4)] items_typed_replace [OF assms(2,3)] by blast

lemma store_inv_remove:
  assumes "store_inv s" "sch = schema_for s t"
  shows "store_inv (delete_item t k (unindex t k (item_of s t k) sch s))"
  using assms index_exact_delete [of s sch t k] unfolding store_inv_def by (blast intro: items_typed_delete)

lemma store_inv_put:
  assumes "store_inv s" "items_typed W s" "typed_fields W item" "CondSchema cond = schema_for s t" "PutItem now t k item cond s = Ret (s', r)"
  shows "store_inv s'"
proof -
  obtain s1 ok where w: "try_write now t s = (s1, ok)" by (cases "try_write now t s")
  let ?s2 = "tableMap t s1"
  have v: "same_view s ?s2" "same_view s s1" using same_view_try_write [OF w] same_view_tableMap by (blast intro: same_view_trans)+
  have inv: "store_inv s1" "store_inv ?s2" "items_typed W ?s2" "CondSchema cond = schema_for ?s2 t"
    using assms(1,2,4) v by (simp_all add: store_inv_view same_view_inv)
  show ?thesis
  proof (cases ok)
    case False
    with assms(5) w inv(1) show ?thesis by (simp add: PutItem_def)
  next
    case True
    with assms(5) w have "guarded ?s2 (check_condition ?s2 (item_of ?s2 t k) (CondExpr cond) (CondNames cond) (CondValues cond))
        (\<lambda>s. Ret (index t k item (CondSchema cond) (set_item t k item (unindex t k (item_of ?s2 t k) (CondSchema cond) s)),
          Inr (return_old cond (item_of ?s2 t k)))) = Ret (s', r)" by (simp add: PutItem_def Let_def)
    then show ?thesis
    proof (rule guarded_Ret)
      show "store_inv s''" if "Ret (index t k item (CondSchema cond) (set_item t k item (unindex t k (item_of ?s2 t k) (CondSchema cond) ?s2)),
          Inr (return_old cond (item_of ?s2 t k))) = Ret (s'', r')" for s'' r'
        using that store_inv_replace [OF _ inv(3) assms(3) inv(4)] inv(2) by (auto simp: store_inv_def)
    qed (rule inv(2))
  qed
qed

lemma store_inv_delete:
  assumes "store_inv s" "CondSchema cond = schema_for s t" "DeleteItem now t k cond s = Ret (s', r)"
  shows "store_inv s'"
proof -
  obtain s1 ok where w: "try_write now t s = (s1, ok)" by (cases "try_write now t s")
  have inv: "store_inv s1" "CondSchema cond = schema_for s1 t"
    using assms(1,2) same_view_try_write [OF w] by (simp_all add: store_inv_view same_view_inv)
  show ?thesis
  proof (cases ok)
    case False
    with assms(3) w inv(1) show ?thesis by (simp add: DeleteItem_def)
  next
    case True
    with assms(3) w have "guarded s1 (check_condition s1 (item_of s1 t k) (CondExpr cond) (CondNames cond) (CondValues cond))
        (\<lambda>s. Ret (delete_item t k (unindex t k (item_of s1 t k) (CondSchema cond) s), Inr (return_old cond (item_of s1 t k)))) = Ret (s', r)"
      by (simp add: DeleteItem_def Let_def)
    then show ?thesis
    proof (rule guarded_Ret)
      show "store_inv s''" if "Ret (delete_item t k (unindex t k (item_of s1 t k) (CondSchema cond) s1), Inr (return_old cond (item_of s1 t k))) =
          Ret (s'', r')" for s'' r'
        using that store_inv_remove [OF inv] by auto
    qed (rule inv(1))
  qed
qed

text \<open>The write of an update expression, shared by single updates and transactions.\<close>

lemma update_apply:
  assumes "index_exact s" "items_typed W s" "typed_fields W base" "typed_fields W vs" "sch = schema_for s t"
    and "applyUpdateExpression uni (hp s) base expr names vs = Ret (h', r)"
  obtains W' where "W \<subseteq> W'" "index_exact (s\<lparr>hp := h'\<rparr>)" "items_typed W' (s\<lparr>hp := h'\<rparr>)"
    and "\<And>u k. r = Inr u \<Longrightarrow> let s' = index t k u sch (set_item t k u (unindex t k (item_of s t k) sch (s\<lparr>hp := h'\<rparr>)))
      in index_exact s' \<and> items_typed W' s'"
proof -
  have "types_kept W (hp s) (Ret (h', r))"
    using types_kept_update [of W "hp s" base vs uni expr names] assms(2-4,6) by (auto simp: items_typed_def)
  then obtain W' where W': "grows W (hp s) W' h'" "\<And>u. r = Inr u \<Longrightarrow> typed_fields W' u" by (cases r) auto
  note inv = index_exact_heap [OF assms(1,2) W'(1)]
  have it: "item_of (s\<lparr>hp := h'\<rparr>) t k = item_of s t k" for k by (simp add: item_of_def table_of_def)
  have "sch = schema_for (s\<lparr>hp := h'\<rparr>) t" using assms(5) by (simp add: schema_for_def)
  from index_exact_replace [OF inv(1) this, unfolded it] items_typed_replace [OF inv(2)] W' inv
  show thesis by (intro that [of W']) (auto simp: Let_def dest: grows_typed)
qed

lemma store_inv_apply:
  assumes "index_exact s" "items_typed W s" "typed_fields W base" "typed_fields W vs" "sch = schema_for s t"
    and "applyUpdateExpression uni (hp s) base expr names vs = Ret (h', r)"
  shows "store_inv (s\<lparr>hp := h'\<rparr>)"
    and "r = Inr u \<Longrightarrow> store_inv (index t k u sch (set_item t k u (unindex t k (item_of s t k) sch (s\<lparr>hp := h'\<rparr>))))"
  by (rule update_apply [OF assms], auto simp: store_inv_def Let_def)+

lemma typed_default: "items_typed W s \<Longrightarrow> typed_fields W item \<Longrightarrow> typed_fields W (the_default item (item_of s t k))"
  by (cases "item_of s t k") (auto simp: items_typed_def)

lemma typed_merge: "typed_fields W m \<Longrightarrow> typed_fields W m' \<Longrightarrow> typed_fields W (m ++\<^sub>f m')"
  by (auto simp: typed_fields_def fld_def)

lemma store_inv_update:
  assumes "store_inv s" "items_typed W s" "typed_fields W item" "typed_fields W (UpdValues spec)" "UpdSchema spec = schema_for s t"
    and "UpdateItem uni now t k item spec s = Ret (s', r)"
  shows "store_inv s'"
proof -
  obtain s1 ok where w: "try_write now t s = (s1, ok)" by (cases "try_write now t s")
  let ?s2 = "tableMap t s1"
  have v: "same_view s ?s2" "same_view s s1" using same_view_try_write [OF w] same_view_tableMap by (blast intro: same_view_trans)+
  have inv: "store_inv s1" "store_inv ?s2" "items_typed W ?s2" "UpdSchema spec = schema_for ?s2 t"
    using assms(1,2,5) v by (simp_all add: store_inv_view same_view_inv)
  then have ex: "index_exact ?s2" by (simp add: store_inv_def)
  let ?old = "item_of ?s2 t k"
  let ?base = "the_default item ?old"
  have base: "typed_fields W ?base" using inv(3) assms(3) by (rule typed_default)
  let ?k = "\<lambda>s. finish_update t k ?old (UpdSchema spec)
      (if UpdExpr spec \<noteq> [] then applyUpdateExpression uni (hp s) ?base (UpdExpr spec) (UpdNames spec) (UpdValues spec) else Ret (hp s, Inr (?base ++\<^sub>f item))) s"
  have step: "store_inv s''" if kr: "?k ?s2 = Ret (s'', r')" for s'' r'
  proof (cases "UpdExpr spec = []")
    case True
    with kr have "s'' = index t k (?base ++\<^sub>f item) (UpdSchema spec) (set_item t k (?base ++\<^sub>f item) (unindex t k ?old (UpdSchema spec) ?s2))"
      by (simp add: finish_update_def)
    with store_inv_replace [OF ex inv(3) typed_merge [OF base assms(3)] inv(4)] show ?thesis by simp
  next
    case False
    with kr obtain h x where a: "applyUpdateExpression uni (hp ?s2) ?base (UpdExpr spec) (UpdNames spec) (UpdValues spec) = Ret (h, x)"
      by (auto simp: finish_update_def split: go_result.splits)
    note ap = store_inv_apply [OF ex inv(3) base assms(4) inv(4) a]
    show ?thesis
    proof (cases x)
      case (Inl e)
      with kr False a ap(1) show ?thesis by (auto simp: finish_update_def)
    next
      case (Inr u)
      with kr False a ap(2) [OF Inr, of k] show ?thesis by (auto simp: finish_update_def)
    qed
  qed
  show ?thesis
  proof (cases ok)
    case False
    with assms(6) w inv(1) show ?thesis by (simp add: UpdateItem_def)
  next
    case True
    with assms(6) w have "guarded ?s2 (check_condition ?s2 ?old (UpdCond spec) (UpdNames spec) (UpdValues spec)) ?k = Ret (s', r)"
      by (simp add: UpdateItem_def Let_def)
    then show ?thesis using inv(2) step by (rule guarded_Ret)
  qed
qed

lemma store_inv_batch_one:
  assumes "store_inv s" "items_typed W s" "typed_write W s req"
  shows "store_inv (batch_write_one req s) \<and> items_typed W (batch_write_one req s) \<and> schemas (batch_write_one req s) = schemas s"
proof -
  let ?s = "tableMap (BTable req) s"
  have inv: "store_inv ?s" "items_typed W ?s" "schema_for ?s t = schema_for s t" "schemas ?s = schemas s" for t
    using assms(1,2) same_view_tableMap [of s "BTable req"] by (simp_all add: store_inv_view same_view_inv) (simp add: same_view_def)
  show ?thesis
  proof (cases "BPutItem req")
    case (Some item)
    with assms(3) have "typed_fields W item" "BSchema req = schema_for ?s (BTable req)" by (auto simp: typed_write_def inv(3))
    with Some inv store_inv_replace [OF _ inv(2) this] show ?thesis
      by (auto simp: batch_write_one_def Let_def store_inv_def intro: items_typed_replace)
  next
    case None
    have "BSchema req = schema_for ?s (BTable req)" using assms(3) by (simp add: typed_write_def inv(3))
    with None inv store_inv_remove [OF inv(1) this] show ?thesis
      by (auto simp: batch_write_one_def Let_def intro: items_typed_delete split: option.splits)
  qed
qed

lemma store_inv_batch:
  "store_inv s \<Longrightarrow> items_typed W s \<Longrightarrow> list_all (typed_write W s) reqs \<Longrightarrow> BatchWriteItems now reqs s = (s', u) \<Longrightarrow> store_inv s'"
proof (induction reqs arbitrary: s u)
  case (Cons req reqs)
  obtain s1 ok where w: "try_write now (BTable req) s = (s1, ok)" by (cases "try_write now (BTable req) s")
  have v: "same_view s s1" by (rule same_view_try_write [OF w])
  have "typed_write W s1 = typed_write W s" using v by (simp add: typed_write_def same_view_inv fun_eq_iff)
  then have inv: "store_inv s1" "items_typed W s1" "list_all (typed_write W s1) (req # reqs)"
    using Cons.prems(1-3) v by (simp_all add: store_inv_view same_view_inv)
  show ?case
  proof (cases ok)
    case True
    let ?s2 = "batch_write_one req s1"
    have "store_inv ?s2 \<and> items_typed W ?s2 \<and> schemas ?s2 = schemas s1" using inv by (intro store_inv_batch_one) auto
    moreover from this have "typed_write W ?s2 = typed_write W s1" by (simp add: typed_write_def schema_for_def fun_eq_iff)
    ultimately show ?thesis using True w Cons.prems(4) inv(3) by (intro Cons.IH [of ?s2]) auto
  next
    case False
    with w Cons.prems(4) obtain u' where "BatchWriteItems now reqs s1 = (s', u')" by (auto split: prod.splits)
    with inv show ?thesis by (intro Cons.IH [of s1]) auto
  qed
qed simp

subsection \<open>Transactions\<close>

lemma check_ops_view: "check_ops ops s = Ret (s', r) \<Longrightarrow> same_view s s'"
proof (induction ops arbitrary: s r)
  case (Cons op ops)
  have tm: "same_view s1 s'" if "same_view s s1" "same_view (tableMap t s1) s'" for s1 t
    using that same_view_tableMap by (blast intro: same_view_trans)
  have ih: "same_view s1 s'" if "(case check_ops ops s1 of Ret (s, Inr rs) \<Rightarrow> Ret (s, Inr (x # rs)) | r \<Rightarrow> r) = Ret (s', r)" for s1 x
    using that Cons.IH by (auto split: go_result.splits prod.splits sum.splits)
  show ?case
  proof (cases "CondExpr (OpCond op) = [] \<and> OpType op \<noteq> ''ConditionCheck''")
    case True
    with Cons.prems ih show ?thesis by simp
  next
    case False
    let ?s = "tableMap (OpTable op) s"
    have "same_view ?s s'"
    proof (cases "CondExpr (OpCond op) = []")
      case True
      with False Cons.prems show ?thesis by (intro ih) (simp add: Let_def)
    next
      case ne: False
      with Cons.prems show ?thesis by (auto simp: Let_def split: go_result.splits sum.splits intro: ih)
    qed
    with same_view_tableMap show ?thesis by (blast intro: same_view_trans)
  qed
qed simp

lemma set_item_set_bucket: "set_item t k x (set_bucket t' i v hs s) = set_bucket t' i v hs (set_item t k x s)"
  by (simp add: set_item_def set_bucket_def table_of_def Let_def)

lemma set_item_add_entry: "set_item t k x (add_entry t' k' y g s) = add_entry t' k' y g (set_item t k x s)"
  by (auto simp: add_entry_def set_item_set_bucket split: option.splits)

lemma set_item_index: "set_item t k x (index t' k' y sch s) = index t' k' y sch (set_item t k x s)"
proof (cases sch)
  case (Some c)
  have f: "set_item t k x (fold (add_entry t' k' y) gs s) = fold (add_entry t' k' y) gs (set_item t k x s)" for gs s
    by (induction gs arbitrary: s) (simp_all add: set_item_add_entry)
  have "set_item t k x (s\<lparr>gsiIdx := g\<rparr>) = (set_item t k x s)\<lparr>gsiIdx := g\<rparr>" for g by (simp add: set_item_def table_of_def)
  with Some f show ?thesis by (auto simp: index_def addGSIEntries_def Let_def)
qed (simp add: index_def)

lemma apply_op_inv:
  assumes "index_exact s" "items_typed W s" "typed_op W s op" "apply_op uni op s = Ret (s', r)"
  obtains W' where "W \<subseteq> W'" "index_exact s'" "items_typed W' s'" "schemas s' = schemas s"
proof -
  let ?s = "tableMap (OpTable op) s" and ?t = "OpTable op" and ?k = "OpPKHash op"
  have inv: "index_exact ?s" "items_typed W ?s" "schemas ?s = schemas s" "op_schema op = schema_for ?s ?t"
    using assms(1-3) same_view_tableMap [of s ?t] by (simp_all add: same_view_inv typed_op_def) (simp add: same_view_def)
  show thesis
  proof (cases "OpType op = ''Update''")
    case False
    have "index_exact s' \<and> items_typed W s' \<and> schemas s' = schemas s"
    proof (cases "OpType op = ''Put''")
      case True
      with False inv assms(3,4) index_exact_replace [OF inv(1,4)] show ?thesis
        by (auto simp: apply_op_def Let_def op_schema_def typed_op_def intro: items_typed_replace)
    next
      case nput: False
      with False inv assms(4) index_exact_delete [OF inv(1,4)] show ?thesis
        by (auto simp: apply_op_def Let_def op_schema_def intro: items_typed_delete split: if_splits)
    qed
    with that show thesis by blast
  next
    case True
    let ?base = "the_default (OpKey op) (item_of ?s ?t ?k)"
    have base: "typed_fields W ?base" using inv(2) assms(3) by (intro typed_default) (auto simp: typed_op_def)
    have vs: "typed_fields W (UpdValues (OpUpdate op))" using assms(3) by (simp add: typed_op_def)
    from True assms(4) obtain h x where a: "applyUpdateExpression uni (hp ?s) ?base (UpdExpr (OpUpdate op)) (UpdNames (OpUpdate op)) (UpdValues (OpUpdate op)) = Ret (h, x)"
      by (auto simp: apply_op_def Let_def split: go_result.splits)
    from update_apply [OF inv(1,2) base vs inv(4) a] obtain W' where W': "W \<subseteq> W'" "index_exact (?s\<lparr>hp := h\<rparr>)" "items_typed W' (?s\<lparr>hp := h\<rparr>)"
      "\<And>u k. x = Inr u \<Longrightarrow> let s' = index ?t k u (op_schema op) (set_item ?t k u (unindex ?t k (item_of ?s ?t k) (op_schema op) (?s\<lparr>hp := h\<rparr>)))
        in index_exact s' \<and> items_typed W' s'" by metis
    have "index_exact s' \<and> items_typed W' s' \<and> schemas s' = schemas s"
    proof (cases x)
      case (Inl e)
      with True a W'(2,3) assms(4) inv(3) show ?thesis by (auto simp: apply_op_def Let_def)
    next
      case (Inr u)
      with True a W'(4) [OF Inr, of ?k] assms(4) inv(3) show ?thesis by (auto simp: apply_op_def Let_def set_item_index op_schema_def)
    qed
    with that W'(1) show thesis by blast
  qed
qed

lemma apply_ops_inv:
  "index_exact s \<Longrightarrow> items_typed W s \<Longrightarrow> list_all (typed_op W s) ops \<Longrightarrow> apply_ops uni ops s = Ret (s', r) \<Longrightarrow> store_inv s'"
proof (induction ops arbitrary: s W)
  case (Cons op ops)
  then obtain s1 x where a: "apply_op uni op s = Ret (s1, x)" by (auto split: go_result.splits)
  from Cons.prems have "typed_op W s op" by simp
  from apply_op_inv [OF Cons.prems(1,2) this a] obtain W' where W': "W \<subseteq> W'" "index_exact s1" "items_typed W' s1" "schemas s1 = schemas s" .
  show ?case
  proof (cases x)
    case (Inl e)
    with a Cons.prems(4) W'(2,3) show ?thesis by (auto simp: store_inv_def)
  next
    case (Inr y)
    have "typed_op W' s1 p" if "typed_op W s p" for p
      using that W'(1,4) by (auto simp: typed_op_def schema_for_def intro: typed_fields_mono)
    with Cons.prems(3) have "list_all (typed_op W' s1) ops" by (auto simp: list_all_iff)
    with Cons.IH [OF W'(2,3)] Cons.prems(4) a Inr show ?thesis by auto
  qed
qed (auto simp: store_inv_def)

lemma store_inv_transact:
  assumes "store_inv s" "items_typed W s" "list_all (typed_op W s) ops" "TransactWriteItems uni ops s = Ret (s', r)"
  shows "store_inv s'"
proof -
  from assms(4) obtain s1 x where c: "check_ops ops s = Ret (s1, x)" by (auto simp: TransactWriteItems_def split: go_result.splits)
  note v = check_ops_view [OF c]
  have inv: "store_inv s1" "items_typed W s1" using assms(1,2) v by (simp_all add: store_inv_view same_view_inv)
  have "typed_op W s1 = typed_op W s" using v by (simp add: typed_op_def same_view_inv fun_eq_iff)
  with assms(3) have ops: "list_all (typed_op W s1) ops" by simp
  show ?thesis
  proof (cases "s' = s1")
    case False
    with assms(4) c obtain y where "apply_ops uni ops s1 = Ret (s', y)"
      by (auto simp: TransactWriteItems_def split: go_result.splits sum.splits prod.splits if_splits)
    with apply_ops_inv [OF _ inv(2) ops] inv(1) show ?thesis by (auto simp: store_inv_def)
  qed (use inv(1) in simp)
qed

subsection \<open>Tables\<close>

lemma store_inv_create:
  assumes "store_inv s" "table_of s (TableName sch) = fmempty" "distinct (map IndexName (GSIs sch))"
  shows "store_inv (CreateTableSchema now sch s)"
proof -
  let ?t = "TableName sch" and ?s = "CreateTableSchema now sch s"
  have hp: "hp ?s = hp s" by (simp add: CreateTableSchema_def tableMap_def Let_def split: option.splits)
  have sch: "schemas ?s = fmupd ?t sch (schemas s)" by (simp add: CreateTableSchema_def tableMap_def Let_def split: option.splits)
  have it: "item_of ?s t k = item_of s t k" for t k
    by (auto simp: CreateTableSchema_def tableMap_def item_of_def table_of_def Let_def split: option.splits)
  have empty: "fmlookup (fold (\<lambda>gsi g. fmupd (IndexName gsi) fmempty g) gs g) i = (if i \<in> IndexName ` set gs then Some fmempty else fmlookup g i)"
    for gs :: "IndexDef list" and g :: gsi_table and i by (induction gs arbitrary: g) auto
  have new: "bucket_of ?s ?t i v = []" for i v
    by (simp add: CreateTableSchema_def tableMap_def bucket_of_def Let_def empty split: option.splits)
  have old: "bucket_of ?s t i v = bucket_of s t i v" if "t \<noteq> ?t" for t i v
    using that by (simp add: CreateTableSchema_def tableMap_def bucket_of_def Let_def split: option.splits)
  have "item_of s ?t k = None" for k using assms(2) by (simp add: item_of_def)
  then have "bucket_exact ?s ?t g" for g by (simp add: bucket_exact_def new it)
  moreover have "bucket_exact ?s t g = bucket_exact s t g" if "t \<noteq> ?t" for t g
    using that by (intro bucket_exact_cong) (auto simp: old it hp index_value_def)
  ultimately show ?thesis using assms(1,3)
    by (auto simp: store_inv_def index_exact_def items_typed_def sch it hp)
qed

lemma store_inv_drop:
  assumes "store_inv s"
  shows "store_inv (DropTableSchema t s)"
proof -
  let ?s = "DropTableSchema t s"
  have it: "item_of ?s t' k = (if t' = t then None else item_of s t' k)" for t' k by (simp add: DropTableSchema_def item_of_def table_of_def)
  have "bucket_exact ?s t' g = bucket_exact s t' g" if "t' \<noteq> t" for t' g
    using that by (intro bucket_exact_cong) (auto simp: it DropTableSchema_def bucket_of_def index_value_def item_of_def table_of_def)
  moreover have "schemas ?s = fmdrop t (schemas s)" "hp ?s = hp s" by (simp_all add: DropTableSchema_def)
  ultimately show ?thesis using assms by (auto simp: store_inv_def index_exact_def items_typed_def it split: if_splits)
qed

lemma store_inv_reset: "store_inv s \<Longrightarrow> store_inv (Reset s)"
  by (auto simp: store_inv_def index_exact_def items_typed_def Reset_def item_of_def table_of_def)

text \<open>The backfill collects the keys by value, in the order it visits them.\<close>

definition backfill_one :: "store \<Rightarrow> string \<Rightarrow> IndexDef \<Rightarrow> string \<Rightarrow> (string, string list) fmap \<Rightarrow> (string, string list) fmap" where
  "backfill_one s t g k b =
     (case Option.bind (item_of s t k) (\<lambda>item. index_value s item g) of None \<Rightarrow> b | Some val \<Rightarrow> fmupd val (the_default [] (fmlookup b val) @ [k]) b)"

lemma backfill_bucket:
  "the_default [] (fmlookup (fold (backfill_one s t g) ks b) v) =
     the_default [] (fmlookup b v) @ filter (\<lambda>k. \<exists>item. item_of s t k = Some item \<and> index_value s item g = Some v) ks"
  by (induction ks arbitrary: b) (auto simp: backfill_one_def split: option.splits bind_splits)

lemma backfill_fold: "backfill s ks t g = fold (backfill_one s t g) ks fmempty"
  by (simp add: backfill_def backfill_one_def [abs_def])

lemma store_inv_add_gsi:
  assumes "store_inv s" "schema_for s t = Some old" "distinct ks" "set ks = fset (fmdom (table_of s t))"
    and "set (GSIs sch) \<subseteq> insert idx (set (GSIs old))" "distinct (map IndexName (GSIs sch))" "idx \<in> set (GSIs sch)"
  shows "store_inv (AddGSI ks t sch idx s)"
proof -
  let ?s = "AddGSI ks t sch idx s" and ?pre = "s\<lparr>schemas := fmupd t sch (schemas s)\<rparr>"
  have hp: "hp ?s = hp s" "schemas ?s = fmupd t sch (schemas s)" by (simp_all add: AddGSI_def Let_def)
  have it: "item_of ?s t' k = item_of s t' k" "index_value ?s x g = index_value s x g" for t' k x g
    by (simp_all add: AddGSI_def Let_def item_of_def table_of_def index_value_def)
  have b: "bucket_of ?s t' i v = (if t' = t \<and> i = IndexName idx then the_default [] (fmlookup (backfill ?pre ks t idx) v) else bucket_of s t' i v)" for t' i v
  proof -
    have "gsiIdx ?s = fmupd t (fmupd (IndexName idx) (backfill ?pre ks t idx) (the_default fmempty (fmlookup (gsiIdx s) t))) (gsiIdx s)"
      by (simp add: AddGSI_def Let_def)
    then show ?thesis by (cases "fmlookup (gsiIdx s) t") (auto simp: bucket_of_def)
  qed
  have bf: "the_default [] (fmlookup (backfill ?pre ks t idx) v) = filter (\<lambda>k. \<exists>item. item_of s t k = Some item \<and> index_value s item idx = Some v) ks" for v
    using backfill_bucket [of ?pre t idx ks fmempty v] by (simp add: backfill_fold item_of_def table_of_def index_value_def)
  have "k \<in> set ks" if "item_of s t k = Some x" for k x using that assms(4) by (auto simp: item_of_def intro: fmdomI)
  then have "bucket_exact ?s t idx" using assms(3) by (auto simp: bucket_exact_def it b bf)
  moreover have "bucket_exact ?s t g" if "g \<in> set (GSIs sch)" "g \<noteq> idx" for g
  proof -
    have "IndexName g \<noteq> IndexName idx" using index_name_unique [OF assms(6)] that assms(7) by blast
    then have "bucket_exact ?s t g = bucket_exact s t g" by (intro bucket_exact_cong) (simp_all add: it b)
    with that assms(1,2,5) show ?thesis by (auto simp: store_inv_def index_exact_def schema_for_def)
  qed
  moreover have "bucket_exact ?s t' g = bucket_exact s t' g" if "t' \<noteq> t" for t' g
    using that by (intro bucket_exact_cong) (simp_all add: it b)
  ultimately have "index_exact ?s" using assms(1,6) by (auto simp: store_inv_def index_exact_def hp split: if_splits)
  with assms(1) show ?thesis by (auto simp: store_inv_def items_typed_def hp it)
qed

lemma store_inv_delete_gsi:
  assumes "store_inv s" "schema_for s t = Some old" "set (GSIs sch) \<subseteq> {g \<in> set (GSIs old). IndexName g \<noteq> i}" "distinct (map IndexName (GSIs sch))"
  shows "store_inv (DeleteGSI t sch i s)"
proof -
  let ?s = "DeleteGSI t sch i s"
  have hp: "hp ?s = hp s" "schemas ?s = fmupd t sch (schemas s)" by (simp_all add: DeleteGSI_def Let_def split: option.splits)
  have it: "item_of ?s t' k = item_of s t' k" "index_value ?s x g = index_value s x g" for t' k x g
    by (simp_all add: DeleteGSI_def Let_def item_of_def table_of_def index_value_def split: option.splits)
  have "bucket_of ?s t' j v = bucket_of s t' j v" if "t' \<noteq> t \<or> j \<noteq> i" for t' j v
    using that by (auto simp: DeleteGSI_def Let_def bucket_of_def split: option.splits)
  then have "bucket_exact ?s t' g = bucket_exact s t' g" if "t' \<noteq> t \<or> IndexName g \<noteq> i" for t' g
    using that by (intro bucket_exact_cong) (simp_all add: it)
  moreover have "bucket_exact s t g \<and> IndexName g \<noteq> i" if "g \<in> set (GSIs sch)" for g
    using that assms(1-3) by (auto simp: store_inv_def index_exact_def schema_for_def)
  ultimately have "index_exact ?s" using assms(1,4) by (simp add: store_inv_def index_exact_def hp)
  with assms(1) show ?thesis by (auto simp: store_inv_def items_typed_def hp it)
qed

lemmas store_inv_steps = store_inv_put store_inv_delete store_inv_update store_inv_batch store_inv_transact store_inv_create store_inv_drop
  store_inv_reset store_inv_add_gsi store_inv_delete_gsi

lemma reachable_inv: "reachable s \<Longrightarrow> store_inv s"
proof (induction rule: reachable.induct)
  case (start W h)
  then show ?case by (auto simp: store_inv_def index_exact_def items_typed_def NewMemoryDynamoDBItemStore_def item_of_def table_of_def)
next
  case (arrive s W W' h')
  with index_exact_heap [of s W W' h'] show ?case by (auto simp: store_inv_def)
qed (blast intro: store_inv_steps)+

end
