(* ===== verification/Dynamo_Query.thy ===== *)
theory Dynamo_Query
  imports Dynamo_Index Map_Contract
begin

text \<open>
  What the clients of the item store read: the buckets of a secondary index, the items of a query, and the writes of a
  transaction. The theorems are about the states of \<open>Dynamo_Index.reachable\<close>.
\<close>

section \<open>Index buckets\<close>

lemma bucket_exact_reachable:
  assumes "reachable s" "schema_for s table = Some sch" "gsi \<in> set (GSIs sch)"
  shows "bucket_exact s table gsi"
  using reachable_inv [OF assms(1)] assms(2,3) by (auto simp: store_inv_def index_exact_def schema_for_def)

definition idx_gsi :: IndexDef where
  "idx_gsi = \<lparr>IndexName = ''byA'', IxPKAttr = ''a'', IxSKAttr = ''r'', IxPKType = ''S'', IxSKType = ''S'',
     Projection = \<lparr>ProjType = ''ALL'', NonKeyAttrs = []\<rparr>, IsLSI = False\<rparr>"

definition idx_schema :: TableSchema where
  "idx_schema = \<lparr>TableName = ''t'', PKAttr = ''a'', SKAttr = [], PKType = ''S'', SKType = [], GSIs = [idx_gsi], LSIs = [],
     BillingMode = [], WCU = 0, RCU = 0\<rparr>"

definition idx_item :: obj where
  "idx_item = fmap_of_list [(''a'', HMap 0)]"

definition idx_cond :: ConditionSpec where
  "idx_cond = \<lparr>CondExpr = [], CondNames = fmempty, CondValues = fmempty, CondReturn = [], CondSchema = Some idx_schema\<rparr>"

definition idx_created :: store where
  "idx_created = CreateTableSchema 0 idx_schema (NewMemoryDynamoDBItemStore demo_heap)"

definition idx_store :: store where
  "idx_store = \<lparr>hp = demo_heap, schemas = fmap_of_list [(''t'', idx_schema)], tables = fmap_of_list [(''t'', fmap_of_list [(''k'', idx_item)])],
     gsiIdx = fmap_of_list [(''t'', fmap_of_list [(''byA'', fmap_of_list [(''x'', [''k''])])])], throttles = fmempty\<rparr>"

lemma typed_idx: "typed_heap {0} demo_heap" "typed_fields {0} idx_item"
  by (simp_all add: typed_heap_def demo_heap_def typed_attr_def obj_at_def typed_fields_def idx_item_def)

lemma idx_put: "PutItem 0 ''t'' ''k'' idx_item idx_cond idx_created = Ret (idx_store, Inr None)"
  by code_simp

lemma reachable_idx: "reachable idx_store"
proof (rule reachable.put [OF _ _ _ _ idx_put])
  show "reachable idx_created" unfolding idx_created_def
    by (intro reachable.create reachable.start [OF typed_idx(1)])
      (simp_all add: idx_schema_def NewMemoryDynamoDBItemStore_def table_of_def)
  show "items_typed {0} idx_created"
    using typed_idx(1) by (simp add: items_typed_def idx_created_def CreateTableSchema_def NewMemoryDynamoDBItemStore_def item_of_def
        table_of_def tableMap_def Let_def idx_schema_def write_bucket_def)
  show "CondSchema idx_cond = schema_for idx_created ''t''"
    by (simp add: idx_cond_def schema_for_def idx_created_def CreateTableSchema_def tableMap_def Let_def idx_schema_def
        write_bucket_def NewMemoryDynamoDBItemStore_def)
qed (rule typed_idx)



section \<open>Sorting and filtering\<close>

lemma mset_insert_rev: "mset (insert_rev lt x ys) = add_mset x (mset ys)"
  by (induction ys) auto

lemma mset_sort_slice [simp]: "mset (sort_slice lt xs) = mset xs"
proof -
  have "mset (fold (insert_rev lt) xs acc) = mset xs + mset acc" for acc
    by (induction xs arbitrary: acc) (simp_all add: mset_insert_rev)
  then show ?thesis by (simp add: sort_slice_def)
qed

text \<open>Sorting by a key of a linear order.\<close>

lemma insert_rev_sorted:
  fixes key :: "'a \<Rightarrow> 'k :: linorder"
  assumes "\<And>x y. lt x y \<longleftrightarrow> key x < key y"
  shows "sorted_wrt (\<lambda>x y. key y \<le> key x) ys \<Longrightarrow> sorted_wrt (\<lambda>x y. key y \<le> key x) (insert_rev lt x ys)"
proof (induction ys)
  case (Cons y ys)
  have "set (insert_rev lt x ys) = insert x (set ys)" using mset_insert_rev [of lt x ys] by (metis set_mset_add_mset_insert set_mset_mset)
  moreover have "key y \<le> key x" if "\<not> lt x y" using that by (simp add: assms)
  moreover have "key x \<le> key y" if "lt x y" using that by (simp add: assms)
  ultimately show ?case using Cons by (fastforce intro: order_trans)
qed simp

lemma sort_slice_sorted:
  fixes key :: "'a \<Rightarrow> 'k :: linorder"
  assumes "\<And>x y. lt x y \<longleftrightarrow> key x < key y"
  shows "sorted (map key (sort_slice lt xs))"
proof -
  have "sorted_wrt (\<lambda>x y. key y \<le> key x) acc \<Longrightarrow> sorted_wrt (\<lambda>x y. key y \<le> key x) (fold (insert_rev lt) xs acc)" for acc
    by (induction xs arbitrary: acc) (simp_all add: insert_rev_sorted [OF assms])
  from this [of "[]"] show ?thesis by (simp add: sort_slice_def sorted_wrt_map sorted_wrt_rev)
qed

definition holds :: "heap \<Rightarrow> string \<Rightarrow> names \<Rightarrow> vals \<Rightarrow> obj \<Rightarrow> bool" where
  "holds h expr names vs item \<longleftrightarrow> EvalFilter h item expr names vs = Ret (Inr True)"

lemma filter_matching_Ret: "filter_matching h expr names vs items = Ret (Inr matched) \<Longrightarrow> matched = filter (holds h expr names vs) items"
proof (induction items arbitrary: matched)
  case (Cons item items)
  then show ?case by (auto simp: go_bind_def holds_def split: go_result.splits sum.splits if_splits)
qed simp

lemma filtered_page_Ret:
  "filtered_page h page expr names vs limit = Ret (Inr (items, n, lk)) \<Longrightarrow>
     items = filter (holds h expr names vs) page \<and> n = length page \<and> lk = last_key h page limit"
  by (auto simp: filtered_page_def split: go_result.splits sum.splits dest: filter_matching_Ret)

lemma all_items_filter: "filter P (all_items t) = map (\<lambda>k. the (fmlookup t k)) (filter (\<lambda>k. P (the (fmlookup t k))) (sorted_list_of_set (fset (fmdom t))))"
  by (simp add: all_items_def filter_map o_def)

lemma map_filter_lookup: "set ks \<subseteq> fset (fmdom t) \<Longrightarrow> List.map_filter (fmlookup t) ks = map (\<lambda>k. the (fmlookup t k)) ks"
  by (induction ks) (auto simp: map_filter_simps fmlookup_dom_iff)

text \<open>A bucket of an exact index leads to the items with its value.\<close>

lemma bucket_items:
  assumes "bucket_exact s table gsi" "fmlookup (tables s) table = Some t"
  shows "mset (List.map_filter (fmlookup t) (bucket_of s table (IndexName gsi) val)) =
    mset (filter (\<lambda>item. index_value s item gsi = Some val) (all_items t))"
proof -
  let ?b = "bucket_of s table (IndexName gsi) val"
  let ?ks = "filter (\<lambda>k. index_value s (the (fmlookup t k)) gsi = Some val) (sorted_list_of_set (fset (fmdom t)))"
  from assms have d: "distinct ?b" and k: "\<And>k. k \<in> set ?b \<longleftrightarrow> (\<exists>item. fmlookup t k = Some item \<and> index_value s item gsi = Some val)"
    by (auto simp: bucket_exact_def item_of_def table_of_def)
  have "set ?b = set ?ks" by (auto simp: k fmlookup_dom_iff)
  with d have "mset ?b = mset ?ks" by (subst set_eq_iff_mset_eq_distinct [symmetric]) simp_all
  then have "mset (map (\<lambda>k. the (fmlookup t k)) ?b) = mset (map (\<lambda>k. the (fmlookup t k)) ?ks)" by (simp add: mset_map)
  moreover have "set ?b \<subseteq> fset (fmdom t)" by (auto simp: k fmlookup_dom_iff)
  ultimately show ?thesis by (simp add: map_filter_lookup all_items_filter)
qed

definition sort_text :: "heap \<Rightarrow> string \<Rightarrow> obj \<Rightarrow> string" where
  "sort_text h attr item = the_default [] (hAttrVal h (fld item attr))"

definition page_of :: "int \<Rightarrow> 'a list \<Rightarrow> 'a list" where
  "page_of limit xs = (if limit > 0 then take (nat limit) xs else xs)"

lemma paginate_first: "paginateItems h items fmempty limit = page_of limit items"
  by (auto simp: paginateItems_def page_of_def)


definition idx_ref :: IndexKeyRef where
  "idx_ref = \<lparr>RefIndexName = ''byA'', RefPKAttr = ''a'', RefSKAttr = ''r'', RefPKType = ''S'', RefSKType = ''S'', RefIsLSI = False\<rparr>"

definition idx_query :: QuerySpec where
  "idx_query = \<lparr>QIndexSchema = Some idx_ref,
     KeyCond = ''a = :v'', QFilter = [], QNames = fmempty, QValues = fmap_of_list [('':v'', HMap 0)], ScanIndexForward = False, QLimit = 5, QStartKey = fmempty\<rparr>"


section \<open>Transactions\<close>

text \<open>The condition of an operation on the items of a state; without one it holds.\<close>

definition op_holds :: "store \<Rightarrow> TransactWriteOp \<Rightarrow> bool" where
  "op_holds s op \<longleftrightarrow>
     check_condition s (item_of s (OpTable op) (OpPKHash op)) (CondExpr (OpCond op)) (CondNames (OpCond op)) (CondValues (OpCond op)) = Ret (Inr True)"

lemma same_view_holds: "same_view s s' \<Longrightarrow> op_holds s' op = op_holds s op"
  by (simp add: op_holds_def check_condition_def same_view_def)

lemma check_ops_cons:
  assumes "check_ops (op # ops) s = Ret (s', Inr rs)"
  obtains reason rs' s1 where "rs = reason # rs'" "reason = CancelNone \<longleftrightarrow> op_holds s op" "same_view s s1" "check_ops ops s1 = Ret (s', Inr rs')"
proof -
  let ?t = "tableMap (OpTable op) s"
  have view: "same_view s ?t" by (rule same_view_tableMap)
  have tail: thesis if "(case check_ops ops u of Ret (s, Inr rs) \<Rightarrow> Ret (s, Inr (x # rs)) | r \<Rightarrow> r) = Ret (s', Inr rs)" "same_view s u"
      "x = CancelNone \<longleftrightarrow> op_holds s op" for u x
    using that \<open>\<And>reason rs' s1. rs = reason # rs' \<Longrightarrow> (reason = CancelNone) = op_holds s op \<Longrightarrow> same_view s s1 \<Longrightarrow> check_ops ops s1 = Ret (s', Inr rs') \<Longrightarrow> thesis\<close>
    by (auto split: go_result.splits prod.splits sum.splits)
  show thesis
  proof (cases "CondExpr (OpCond op) = []")
    case True
    then have "op_holds s op" by (simp add: op_holds_def check_condition_def)
    with True assms view show thesis by (intro tail [where u = "if OpType op = ''ConditionCheck'' then ?t else s" and x = CancelNone]) (auto simp: Let_def)
  next
    case False
    then obtain ok where ok: "EvalFilter (hp ?t) (the_default fmempty (item_of ?t (OpTable op) (OpPKHash op))) (CondExpr (OpCond op)) (CondNames (OpCond op))
        (CondValues (OpCond op)) = Ret (Inr ok)"
      using assms by (auto simp: Let_def split: go_result.splits sum.splits)
    with False have "op_holds s op = ok" using same_view_holds [OF view, of op] by (auto simp: op_holds_def check_condition_def)
    with False ok assms view show thesis
      by (intro tail [where u = ?t and x = "if ok then CancelNone else CancelConditionalCheckFailed
          (if OpReturn op = ''ALL_OLD'' then item_of ?t (OpTable op) (OpPKHash op) else None)"]) (simp_all add: Let_def)
  qed
qed

lemma check_ops_reasons:
  "check_ops ops s = Ret (s', Inr rs) \<Longrightarrow> list_all2 (\<lambda>r op. r = CancelNone \<longleftrightarrow> op_holds s op) rs ops"
proof (induction ops arbitrary: s rs)
  case (Cons op ops)
  from check_ops_cons [OF Cons.prems] obtain reason rs' s1 where c: "rs = reason # rs'" "reason = CancelNone \<longleftrightarrow> op_holds s op" "same_view s s1"
    "check_ops ops s1 = Ret (s', Inr rs')" .
  from Cons.IH [OF c(4)] c(1,2) same_view_holds [OF c(3)] show ?case by simp
qed simp

text \<open>
  C19: a transaction checks all its conditions before it writes. If it returns reasons, there is one per operation, a reason is
  \<open>None\<close> exactly if the operation's condition holds of the stored items, at least one does not hold, and the items, the maps behind
  them and the indexes are as before; if it commits, every condition held of the items before the first write.
\<close>

theorem transaction_checks_before_writing:
  assumes "TransactWriteItems uni ops s = Ret (s', Inr result)"
  shows "case result of
      None \<Rightarrow> list_all (op_holds s) ops
    | Some reasons \<Rightarrow> list_all2 (\<lambda>r op. r = CancelNone \<longleftrightarrow> op_holds s op) reasons ops \<and> \<not> list_all (op_holds s) ops \<and> same_view s s'"
proof -
  from assms obtain s1 rs where c: "check_ops ops s = Ret (s1, Inr rs)"
    by (auto simp: TransactWriteItems_def split: go_result.splits sum.splits)
  have r: "list_all2 (\<lambda>r op. r = CancelNone \<longleftrightarrow> op_holds s op) rs ops" by (rule check_ops_reasons [OF c])
  then have "list_ex (\<lambda>r. r \<noteq> CancelNone) rs \<longleftrightarrow> \<not> list_all (op_holds s) ops" by (induction) auto
  with r c check_ops_view [OF c] assms show ?thesis
    by (auto simp: TransactWriteItems_def split: go_result.splits sum.splits if_splits)
qed

definition idx_op :: "string \<Rightarrow> TransactWriteOp" where
  "idx_op cond = \<lparr>OpType = ''Delete'', OpTable = ''t'', OpPKHash = ''k'', OpItem = fmempty, OpKey = fmempty,
     OpCond = idx_cond\<lparr>CondExpr := cond\<rparr>,
     OpUpdate = \<lparr>UpdExpr = [], UpdCond = [], UpdNames = fmempty, UpdValues = fmempty, UpdSchema = None\<rparr>, OpReturn = []\<rparr>"

theorem transaction_checks_before_writing_witness:
  "op_holds idx_store (idx_op ''attribute_exists(a)'') \<and> \<not> op_holds idx_store (idx_op ''attribute_exists(b)'') \<and>
   TransactWriteItems \<lparr>uLower = id, uUpper = id\<rparr> [idx_op ''attribute_exists(a)'', idx_op ''attribute_exists(b)''] idx_store =
     Ret (idx_store, Inr (Some [CancelNone, CancelConditionalCheckFailed None]))"
proof -
  have run: "TransactWriteItems \<lparr>uLower = id, uUpper = id\<rparr> [idx_op ''attribute_exists(a)'', idx_op ''attribute_exists(b)''] idx_store =
     Ret (idx_store, Inr (Some [CancelNone, CancelConditionalCheckFailed None]))" by code_simp
  with transaction_checks_before_writing [OF run] show ?thesis by simp
qed

section \<open>Batches of writes\<close>

definition read_item :: "store \<Rightarrow> string \<times> string \<Rightarrow> obj option" where
  "read_item s key = GetItem (fst key) (snd key) s"

text \<open>The write of a batch, and the batch requests as operations of a keyed store.\<close>

fun run_item :: "TableSchema option \<Rightarrow> (string \<times> string, obj) store_op \<Rightarrow> store \<Rightarrow> store" where
  "run_item sch (Write key item) s =
     batch_write_one \<lparr>BTable = fst key, BSchema = sch, BPutItem = Some item, BPutHash = snd key, BDeleteKey = None, BDeleteHash = []\<rparr> s"
| "run_item sch (Remove key) s =
     batch_write_one \<lparr>BTable = fst key, BSchema = sch, BPutItem = None, BPutHash = [], BDeleteKey = Some fmempty, BDeleteHash = snd key\<rparr> s"

definition batch_ops :: "BatchWriteRequest \<Rightarrow> (TableSchema option \<times> (string \<times> string, obj) store_op) list" where
  "batch_ops req =
     (case BPutItem req of
        Some item \<Rightarrow> [(BSchema req, Write (BTable req, BPutHash req) item)]
      | None \<Rightarrow> (case BDeleteKey req of Some _ \<Rightarrow> [(BSchema req, Remove (BTable req, BDeleteHash req))] | None \<Rightarrow> []))"

lemma same_view_read: "same_view s s' \<Longrightarrow> read_item s' = read_item s"
  by (auto simp: same_view_def read_item_def GetItem_def)

lemmas read_tableMap = same_view_read [OF same_view_tableMap]

lemma run_item_read:
  "read_item (run_item sch (Write key item) s) = (read_item s)(key \<mapsto> item)"
  "read_item (run_item sch (Remove key) s) = (read_item s)(key := None)"
  using read_tableMap [of "fst key" s]
  by (auto simp: batch_write_one_def read_item_def GetItem_def Let_def fun_eq_iff prod_eq_iff)

declare run_item.simps [simp del]

interpretation items: keyed_store "\<lambda>_. True" read_item run_item
proof
  fix k :: "string \<times> string" and x :: "(string \<times> string, obj) store_op" and sch s
  assume "k \<noteq> op_key x"
  then show "read_item (run_item sch x s) k = read_item s k" by (cases x) (simp_all add: run_item_read)
qed (simp_all add: run_item_read)

lemma batch_one_read: "read_item (batch_write_one req s) = read_item (fold (\<lambda>(a, x). run_item a x) (batch_ops req) s)"
  using read_tableMap [of "BTable req" s]
  by (auto simp: batch_write_one_def batch_ops_def run_item.simps Let_def read_item_def GetItem_def fun_eq_iff split: option.splits)

text \<open>
  C21: a batch of writes refines a map from tables and keys to items. The requests split, in their order, into the ones that are
  returned as unprocessed, which have no effect on any item, and the others, which act on the items one after another as
  updates and deletions of a map.
\<close>

theorem batch_refines_map:
  assumes "BatchWriteItems now reqs s = (s', unprocessed)"
  shows "\<exists>done. reqs \<in> shuffles done unprocessed \<and>
    read_item s' = fold (\<lambda>(a, x). spec_op x) (concat (map batch_ops done)) (read_item s)"
  using assms
proof (induction reqs arbitrary: s unprocessed)
  case (Cons req reqs)
  obtain s1 ok where w: "try_write now (BTable req) s = (s1, ok)" by (cases "try_write now (BTable req) s")
  note r1 = same_view_read [OF same_view_try_write [OF w]]
  show ?case
  proof (cases ok)
    case True
    let ?s = "batch_write_one req s1"
    from True w Cons.prems have "BatchWriteItems now reqs ?s = (s', unprocessed)" by simp
    from Cons.IH [OF this] obtain xs where d: "reqs \<in> shuffles xs unprocessed"
      "read_item s' = fold (\<lambda>(a, x). spec_op x) (concat (map batch_ops xs)) (read_item ?s)" by blast
    have "read_item ?s = fold (\<lambda>(a, x). spec_op x) (batch_ops req) (read_item s)"
      using items.run_refines_map [where ops = "batch_ops req" and s = s1] by (simp add: batch_one_read r1 fun_eq_iff)
    with d show ?thesis by (intro exI [of _ "req # xs"]) (auto intro: Cons_in_shuffles_leftI)
  next
    case False
    with w Cons.prems obtain us where u: "BatchWriteItems now reqs s1 = (s', us)" "unprocessed = req # us" by (auto split: prod.splits)
    from Cons.IH [OF u(1)] u(2) show ?thesis by (auto simp: r1 intro: Cons_in_shuffles_rightI)
  qed
qed simp

theorem batch_refines_map_witness:
  "\<exists>done. [\<lparr>BTable = ''t'', BSchema = None, BPutItem = Some idx_item, BPutHash = ''j'', BDeleteKey = None, BDeleteHash = []\<rparr>] \<in> shuffles done [] \<and>
    read_item (fst (BatchWriteItems 0 [\<lparr>BTable = ''t'', BSchema = None, BPutItem = Some idx_item, BPutHash = ''j'', BDeleteKey = None, BDeleteHash = []\<rparr>] idx_store)) =
      fold (\<lambda>(a, x). spec_op x) (concat (map batch_ops done)) (read_item idx_store)"
proof -
  let ?r = "[\<lparr>BTable = ''t'', BSchema = None, BPutItem = Some idx_item, BPutHash = ''j'', BDeleteKey = None, BDeleteHash = []\<rparr>]"
  have "snd (BatchWriteItems 0 ?r idx_store) = []" by (simp add: try_write_def idx_store_def)
  then have run: "BatchWriteItems 0 ?r idx_store = (fst (BatchWriteItems 0 ?r idx_store), [])" by (metis prod.collapse)
  show ?thesis by (rule batch_refines_map [OF run])
qed

section \<open>Parallel scans\<close>

lemma page_all: "paginateItems h items fmempty 0 = items"
  by (simp add: paginateItems_def)

lemma scan_items:
  assumes "Scan enc perm table sc s = Ret (Inr (items, n, lk))" "fmlookup (tables s) table = Some t" "SStartKey sc = fmempty" "SLimit sc = 0"
  shows "mset items = filter_mset (holds (hp s) (SFilter sc) (SNames sc) (SValues sc))
    (mset (if TotalSegments sc > 0 then filter (in_segment enc (hp s) (PKAttr (schema_of s table)) sc) (scan_candidates perm table sc t s)
           else scan_candidates perm table sc t s))"
proof -
  let ?c = "if TotalSegments sc > 0 then filter (in_segment enc (hp s) (PKAttr (schema_of s table)) sc) (scan_candidates perm table sc t s)
    else scan_candidates perm table sc t s"
  from assms obtain xs where "sort_by_hash (hp s) ?c = Some xs"
    "filtered_page (hp s) xs (SFilter sc) (SNames sc) (SValues sc) 0 = Ret (Inr (items, n, lk))"
    by (auto simp: Scan_def Let_def page_all split: option.splits)
  moreover from this(1) have "mset xs = mset ?c" unfolding sort_by_hash_def by (metis mset_sort_slice option.distinct(1) option.inject)
  ultimately show ?thesis using filtered_page_Ret by (fastforce simp: mset_filter)
qed

lemma segments_partition:
  fixes f :: "'a \<Rightarrow> int"
  assumes "0 < n"
  shows "(\<Sum>i \<in> {0..<n}. filter_mset (\<lambda>x. f x mod n = i) M) = M"
proof (induction M)
  case (add x M)
  have "filter_mset (\<lambda>y. f y mod n = i) (add_mset x M) = filter_mset (\<lambda>y. f y mod n = i) M + (if i = f x mod n then {#x#} else {#})" for i by simp
  then have "(\<Sum>i \<in> {0..<n}. filter_mset (\<lambda>y. f y mod n = i) (add_mset x M)) = M + (\<Sum>i \<in> {0..<n}. if i = f x mod n then {#x#} else {#})"
    by (simp only: sum.distrib add.IH)
  also have "f x mod n \<in> {0..<n}" using assms by simp
  then have "(\<Sum>i \<in> {0..<n}. if i = f x mod n then {#x#} else {#}) = {#x#}" by (subst sum.delta) simp_all
  finally show ?case by simp
qed simp

text \<open>
  a parallel scan reads every item exactly once. If the scans of all \<open>n\<close> segments return, each with the ordering of its own run,
  the items they return are together the items that an unsegmented scan of the same table or index returns.
\<close>

theorem segments_cover_the_scan:
  assumes "0 < n" "fmlookup (tables s) table = Some t" "SStartKey sc = fmempty" "SLimit sc = 0" "TotalSegments sc = 0"
    and "\<And>i xs. mset (perm i xs) = mset xs" "\<And>xs. mset (perm' xs) = mset xs"
    and "\<And>i. i \<in> {0..<n} \<Longrightarrow> \<exists>c lk. Scan enc (perm i) table (sc\<lparr>Segment := i, TotalSegments := n\<rparr>) s = Ret (Inr (part i, c, lk))"
    and "Scan enc perm' table sc s = Ret (Inr (items, c, lk))"
  shows "(\<Sum>i \<in> {0..<n}. mset (part i)) = mset items"
proof -
  have cand: "mset (scan_candidates (perm i) table (sc\<lparr>Segment := j, TotalSegments := n\<rparr>) t s) = mset (scan_candidates perm' table sc t s)" for i j
    using assms(6,7) by (simp add: scan_candidates_def Let_def split: option.splits)
  let ?f = "\<lambda>item. uint (fnv32a (let pk = PKAttr (schema_of s table) in
      if pk = [] then [] else case fmlookup item pk of None \<Rightarrow> [] | Some v \<Rightarrow> enc (hp s) v))"
  let ?F = "filter_mset (holds (hp s) (SFilter sc) (SNames sc) (SValues sc)) (mset (scan_candidates perm' table sc t s))"
  have "mset (part i) = filter_mset (\<lambda>x. ?f x mod n = i) ?F" if i: "i \<in> {0..<n}" for i
  proof -
    from assms(8) [OF i] obtain c lk where run: "Scan enc (perm i) table (sc\<lparr>Segment := i, TotalSegments := n\<rparr>) s = Ret (Inr (part i, c, lk))" by blast
    have "in_segment enc (hp s) (PKAttr (schema_of s table)) (sc\<lparr>Segment := i, TotalSegments := n\<rparr>) = (\<lambda>x. ?f x mod n = i)"
      by (simp add: in_segment_def Let_def fun_eq_iff)
    with scan_items [OF run assms(2)] assms(1,3,4) cand [of i i] show ?thesis
      by (simp add: mset_filter filter_filter_mset conj_commute)
  qed
  then have "(\<Sum>i \<in> {0..<n}. mset (part i)) = (\<Sum>i \<in> {0..<n}. filter_mset (\<lambda>x. ?f x mod n = i) ?F)" by (rule sum.cong [OF refl])
  also have "\<dots> = ?F" by (rule segments_partition [OF assms(1)])
  also have "?F = mset items" using scan_items [OF assms(9,2,3,4)] assms(5) by simp
  finally show ?thesis .
qed

definition idx_scan :: ScanSpec where
  "idx_scan = \<lparr>SIndexSchema = None, SFilter = [], SNames = fmempty, SValues = fmempty, SLimit = 0, SStartKey = fmempty, Segment = 0, TotalSegments = 0\<rparr>"

theorem segments_cover_the_scan_witness:
  "(\<Sum>i \<in> {0..<2 :: int}. mset (if i = 1 then [idx_item] else [])) = mset [idx_item]"
proof (rule segments_cover_the_scan [where perm = "\<lambda>_. id" and perm' = id and enc = "\<lambda>_ _. []" and sc = idx_scan and s = idx_store and table = "''t''"
      and t = "fmap_of_list [(''k'', idx_item)]" and c = 1 and lk = None])
  have "Scan (\<lambda>_ _. []) id ''t'' (idx_scan\<lparr>Segment := 0, TotalSegments := 2\<rparr>) idx_store = Ret (Inr ([], 0, None))"
    "Scan (\<lambda>_ _. []) id ''t'' (idx_scan\<lparr>Segment := 1, TotalSegments := 2\<rparr>) idx_store = Ret (Inr ([idx_item], 1, None))" by code_simp+
  moreover have "i = 0 \<or> i = 1" if "i \<in> {0..<2}" for i :: int using that by auto
  ultimately show "\<exists>c lk. Scan (\<lambda>_ _. []) id ''t'' (idx_scan\<lparr>Segment := i, TotalSegments := 2\<rparr>) idx_store =
      Ret (Inr (if i = 1 then [idx_item] else [], c, lk))" if "i \<in> {0..<2}" for i :: int using that by fastforce
  show "Scan (\<lambda>_ _. []) id ''t'' idx_scan idx_store = Ret (Inr ([idx_item], 1, None))" by code_simp
qed (simp_all add: idx_scan_def idx_store_def)

end
