(* ===== verification/Go_Float_Facts.thy ===== *)
theory Go_Float_Facts
  imports Go_Float
begin

text \<open>
  Integers in \<open>float64\<close>: the conversion of an integer below \<open>2 ^ 53\<close> is exact, and addition, subtraction and
  comparison of converted integers are those of the integers.
\<close>

section \<open>Rounding depends on the quotient\<close>

lemma bitlen_0 [simp]: "bitlen 0 = 0"
  by (simp add: bitlen.simps)

lemma bitlen_double: "0 < n \<Longrightarrow> bitlen (n * 2 ^ k) = bitlen n + k"
proof (induction k)
  case (Suc k)
  have "n * 2 ^ Suc k div 2 = n * 2 ^ k" by simp
  with Suc show ?case by (subst bitlen.simps) simp
qed simp

lemma bitlen_bounds: "0 < n \<Longrightarrow> 2 ^ (bitlen n - 1) \<le> n \<and> n < 2 ^ bitlen n"
proof (induction n rule: bitlen.induct)
  case (1 n)
  show ?case
  proof (cases "n = 1")
    case False
    with 1 have ih: "2 ^ (bitlen (n div 2) - 1) \<le> n div 2 \<and> n div 2 < 2 ^ bitlen (n div 2)" by auto
    have pos: "0 < bitlen (n div 2)" using False "1.prems" by (subst bitlen.simps) auto
    have "bitlen n = Suc (bitlen (n div 2))" using "1.prems" by (subst bitlen.simps) simp
    moreover have "(2 :: nat) ^ bitlen (n div 2) = 2 * 2 ^ (bitlen (n div 2) - 1)" using pos by (simp flip: power_Suc)
    moreover have "2 * 2 ^ (bitlen (n div 2) - 1) \<le> n" using ih by linarith
    moreover have "n < 2 * (2 :: nat) ^ bitlen (n div 2)" using ih by linarith
    ultimately show ?thesis by simp
  qed (simp add: bitlen.simps)
qed

lemma bitlen_pos: "0 < n \<Longrightarrow> 0 < bitlen n"
  by (subst bitlen.simps) simp

lemma bitlen_le: "n < 2 ^ k \<Longrightarrow> bitlen n \<le> k"
proof (cases "n = 0")
  case False
  assume lt: "n < 2 ^ k"
  from False have "2 ^ (bitlen n - 1) \<le> n" using bitlen_bounds by blast
  then have "(2 :: nat) ^ (bitlen n - 1) < 2 ^ k" using lt by (rule le_less_trans)
  then have "bitlen n - 1 < k" by (rule power_less_imp_less_exp [rotated]) simp
  then show ?thesis by simp
qed simp

lemma half_even_scale: "0 < c \<Longrightarrow> half_even (a * c) (b * c) = half_even a b"
proof -
  assume c: "0 < c"
  have "a * c mod (b * c) = (a mod b) * c" by (rule mod_mult_mult2)
  then show ?thesis using c by (simp add: half_even_def Let_def)
qed

lemma half_even_1 [simp]: "half_even a 1 = a" "half_even a (Suc 0) = a"
  by (simp_all add: half_even_def)

lemma scale_mult: "scale (p * c) (d * c) e = (fst (scale p d e) * c, snd (scale p d e) * c)"
  by (simp add: scale_def)

lemma exponent_of_pow2: "0 < p \<Longrightarrow> 0 < d \<Longrightarrow> exponent_of (p * 2 ^ k) (d * 2 ^ k) = exponent_of p d"
  by (simp add: exponent_of_def bitlen_double scale_mult Let_def case_prod_beta)

lemma round_frac_pow2: "0 < d \<Longrightarrow> round_frac s (p * 2 ^ k) (d * 2 ^ k) = round_frac s p d"
  by (simp add: round_frac_def exponent_of_pow2 scale_mult half_even_scale case_prod_beta Let_def)

lemma round_bin_pow2: "f \<le> 0 \<Longrightarrow> round_bin s (n * 2 ^ nat (- f)) f = round_frac s n 1"
  using round_frac_pow2 [of 1 s n "nat (- f)"] by (auto simp: round_bin_def)

section \<open>Converted integers\<close>

lemma round_nat:
  assumes "0 < n" "n < 2 ^ 53"
  shows "round_frac s n 1 = FFin s (n * 2 ^ (53 - bitlen n)) (int (bitlen n) - 53)"
proof -
  let ?b = "bitlen n"
  have b: "2 ^ (?b - 1) \<le> n" "n < 2 ^ ?b" "0 < ?b" "?b \<le> 53" using assms bitlen_bounds [of n] bitlen_pos bitlen_le by auto
  have one: "bitlen 1 = 1" by (simp add: bitlen.simps)
  have e: "max (-1074) (int ?b - int (bitlen 1) - 53) = int ?b - 54" using b(3) by (simp only: one)
  have "2 ^ 53 = (2 :: nat) ^ (?b - 1) * 2 ^ (54 - ?b)" using b(3,4) by (simp flip: power_add)
  also have "\<dots> \<le> n * 2 ^ (54 - ?b)" using b(1) by simp
  finally have big: "\<not> n * 2 ^ (54 - ?b) < 2 ^ 53" by simp
  have n1: "nat (54 - int ?b) = 54 - ?b" "nat (53 - int ?b) = 53 - ?b" by auto
  have "exponent_of n 1 = int ?b - 53" using big b(4) by (simp add: exponent_of_def e scale_def n1 Let_def del: One_nat_def)
  moreover have "scale n 1 (int ?b - 53) = (n * 2 ^ (53 - ?b), 1)" using b(4) by (auto simp: scale_def n1)
  moreover have "n * 2 ^ (53 - ?b) < 2 ^ ?b * 2 ^ (53 - ?b)" using b(2) by simp
  then have "n * 2 ^ (53 - ?b) < 2 ^ 53" using b(4) by (simp flip: power_add)
  ultimately show ?thesis using assms(1) b(4) by (simp add: round_frac_def pack_def Let_def)
qed

definition exact_int :: "int \<Rightarrow> bool" where
  "exact_int n \<longleftrightarrow> \<bar>n\<bar> < 2 ^ 53"

text \<open>A converted integer as a multiple of a smaller power of two.\<close>

lemma float_of_int_units:
  assumes "exact_int n"
  obtains s m e where "float_of_int n = FFin s m e" "e \<le> 0" "\<And>f. f \<le> e \<Longrightarrow> units s m e f = n * 2 ^ nat (- f)" "s \<longleftrightarrow> n < 0" "m = 0 \<longleftrightarrow> n = 0"
proof (cases "n = 0")
  case True
  then show thesis by (intro that [of False 0 0]) (simp_all add: float_of_int_def round_frac_def units_def)
next
  case False
  let ?n = "nat \<bar>n\<bar>" and ?b = "bitlen (nat \<bar>n\<bar>)"
  have n: "0 < ?n" "?n < 2 ^ 53" using False assms by (auto simp: exact_int_def nat_less_iff)
  have le: "?b \<le> 53" using n(2) by (rule bitlen_le)
  have "units (n < 0) (?n * 2 ^ (53 - ?b)) (int ?b - 53) f = n * 2 ^ nat (- f)" if "f \<le> int ?b - 53" for f
  proof -
    have "(2 :: int) ^ (53 - ?b) * 2 ^ nat (int ?b - 53 - f) = 2 ^ nat (- f)" 
    proof -
      have "53 - ?b + nat (int ?b - 53 - f) = nat (- f)" using that le by (simp add: nat_eq_iff2)
      then show ?thesis by (simp only: power_add [symmetric])
    qed
    then show ?thesis by (auto simp: units_def mult.assoc)
  qed
  with round_nat [OF n, of "n < 0"] le n(1) False show thesis by (intro that) (auto simp: float_of_int_def)
qed

lemma fadd_int:
  assumes "exact_int a" "exact_int b"
  shows "fadd (float_of_int a) (float_of_int b) = float_of_int (a + b)"
proof -
  from float_of_int_units [OF assms(1)] obtain s m e where x: "float_of_int a = FFin s m e" "e \<le> 0" "\<And>f. f \<le> e \<Longrightarrow> units s m e f = a * 2 ^ nat (- f)"
    "s \<longleftrightarrow> a < 0" "m = 0 \<longleftrightarrow> a = 0" by metis
  from float_of_int_units [OF assms(2)] obtain s' m' e' where y: "float_of_int b = FFin s' m' e'" "e' \<le> 0" "\<And>f. f \<le> e' \<Longrightarrow> units s' m' e' f = b * 2 ^ nat (- f)"
    "s' \<longleftrightarrow> b < 0" "m' = 0 \<longleftrightarrow> b = 0" by metis
  let ?f = "min e e'"
  have u: "units s m e ?f + units s' m' e' ?f = (a + b) * 2 ^ nat (- ?f)" using x(3) [of ?f] y(3) [of ?f] by (simp add: distrib_right)
  have "nat \<bar>(a + b) * 2 ^ nat (- ?f)\<bar> = nat \<bar>a + b\<bar> * 2 ^ nat (- ?f)" by (simp add: abs_mult nat_mult_distrib nat_power_eq)
  moreover have "(a + b) * 2 ^ nat (- ?f) < 0 \<longleftrightarrow> a + b < 0" by (simp add: mult_less_0_iff)
  moreover have "?f \<le> 0" using x(2) by simp
  ultimately have r: "round_bin ((a + b) * 2 ^ nat (- ?f) < 0) (nat \<bar>(a + b) * 2 ^ nat (- ?f)\<bar>) ?f = float_of_int (a + b)"
    using round_bin_pow2 [of ?f "a + b < 0" "nat \<bar>a + b\<bar>"] by (simp only: float_of_int_def)
  show ?thesis
  proof (cases "a + b = 0")
    case True
    then have "\<not> (m = 0 \<and> m' = 0 \<and> s \<and> s')" using x(4,5) by auto
    then have "fadd (FFin s m e) (FFin s' m' e') = FFin False 0 0" using True u by (simp only: fadd.simps Let_def) simp
    with True show ?thesis by (simp only: x(1) y(1)) (simp add: float_of_int_def round_frac_def)
  next
    case False
    with r u show ?thesis by (simp add: x(1) y(1) Let_def)
  qed
qed

lemma fneg_int: "n \<noteq> 0 \<Longrightarrow> exact_int n \<Longrightarrow> fneg (float_of_int n) = float_of_int (- n)"
  using round_nat [of "nat \<bar>n\<bar>"] by (auto simp: float_of_int_def fneg_def exact_int_def nat_less_iff)

lemma fsub_int:
  assumes "exact_int a" "exact_int b" "b \<noteq> 0"
  shows "fsub (float_of_int a) (float_of_int b) = float_of_int (a - b)"
  using fadd_int [of a "- b"] assms by (simp add: fsub_def fneg_int) (simp add: exact_int_def)

lemma fless_int:
  assumes "exact_int a" "exact_int b"
  shows "fless (float_of_int a) (float_of_int b) \<longleftrightarrow> a < b"
proof -
  from float_of_int_units [OF assms(1)] obtain s m e where x: "float_of_int a = FFin s m e" "\<And>f. f \<le> e \<Longrightarrow> units s m e f = a * 2 ^ nat (- f)" by metis
  from float_of_int_units [OF assms(2)] obtain s' m' e' where y: "float_of_int b = FFin s' m' e'" "\<And>f. f \<le> e' \<Longrightarrow> units s' m' e' f = b * 2 ^ nat (- f)" by metis
  show ?thesis using x(2) [of "min e e'"] y(2) [of "min e e'"] by (simp add: x(1) y(1))
qed

lemma float_of_int_inj: "exact_int a \<Longrightarrow> exact_int b \<Longrightarrow> float_of_int a = float_of_int b \<longleftrightarrow> a = b"
  by (metis fless_int less_irrefl linorder_neqE_linordered_idom)

lemma fmul_int:
  assumes "exact_int a" "exact_int b"
  shows "fmul (float_of_int a) (float_of_int b) = round_frac ((a < 0) \<noteq> (b < 0)) (nat \<bar>a * b\<bar>) 1"
proof (cases "a = 0 \<or> b = 0")
  case True
  from float_of_int_units [OF assms(1)] obtain s m e where x: "float_of_int a = FFin s m e" "s \<longleftrightarrow> a < 0" "m = 0 \<longleftrightarrow> a = 0" by metis
  from float_of_int_units [OF assms(2)] obtain s' m' e' where y: "float_of_int b = FFin s' m' e'" "s' \<longleftrightarrow> b < 0" "m' = 0 \<longleftrightarrow> b = 0" by metis
  from True x(3) y(3) have "m * m' = 0" "a * b = 0" by auto
  then show ?thesis unfolding x(1) y(1) fmul.simps using x(2) y(2) by (simp add: round_bin_def round_frac_def)
next
  case False
  let ?m = "nat \<bar>a\<bar>" and ?n = "nat \<bar>b\<bar>"
  have pos: "0 < ?m" "?m < 2 ^ 53" "0 < ?n" "?n < 2 ^ 53" using False assms by (auto simp: exact_int_def nat_less_iff)
  have le: "bitlen ?m \<le> 53" "bitlen ?n \<le> 53" using pos by (auto intro: bitlen_le)
  let ?f = "int (bitlen ?m) - 53 + (int (bitlen ?n) - 53)"
  have "nat (- ?f) = (53 - bitlen ?m) + (53 - bitlen ?n)" using le by linarith
  then have p: "?m * 2 ^ (53 - bitlen ?m) * (?n * 2 ^ (53 - bitlen ?n)) = ?m * ?n * 2 ^ nat (- ?f)" by (simp only: power_add) simp
  have "fmul (float_of_int a) (float_of_int b) = round_bin ((a < 0) \<noteq> (b < 0)) (?m * ?n * 2 ^ nat (- ?f)) ?f"
    unfolding float_of_int_def round_nat [OF pos(1,2)] round_nat [OF pos(3,4)] fmul.simps p by (rule refl)
  also have "\<dots> = round_frac ((a < 0) \<noteq> (b < 0)) (?m * ?n) 1" using le by (intro round_bin_pow2) simp
  finally show ?thesis by (simp add: abs_mult nat_mult_distrib)
qed

lemma fmul_nonneg: "exact_int a \<Longrightarrow> exact_int b \<Longrightarrow> 0 \<le> a \<Longrightarrow> 0 \<le> b \<Longrightarrow> fmul (float_of_int a) (float_of_int b) = float_of_int (a * b)"
  using mult_nonneg_nonneg [of a b] by (subst fmul_int) (simp_all add: float_of_int_def not_less [THEN iffD2])

end
