(* ===== verification/Dynamo_Throttle.thy ===== *)
theory Dynamo_Throttle
  imports Dynamo_Query Go_Float_Facts
begin

text \<open>
  The write throttle of the item store: on integer capacities and whole seconds the token bucket, which counts in
  \<open>float64\<close>, is the token bucket on integers.
\<close>

definition int_bucket :: "int \<Rightarrow> int \<Rightarrow> int \<Rightarrow> time \<Rightarrow> tokenBucket" where
  "int_bucket cap level rate t0 = \<lparr>capacity = cap, tokens = float_of_int level, refillRate = float_of_int rate, last_refill = t0\<rparr>"

text \<open>The integer bucket after \<open>k\<close> seconds.\<close>

definition spec_level :: "int \<Rightarrow> int \<Rightarrow> int \<Rightarrow> int \<Rightarrow> int" where
  "spec_level cap level rate k = min cap (level + k * rate)"

lemma exact_int_mono: "exact_int b \<Longrightarrow> 0 \<le> a \<Longrightarrow> a \<le> b \<Longrightarrow> exact_int a"
  by (simp add: exact_int_def)

lemma Seconds_whole:
  assumes "0 \<le> k" "exact_int k"
  shows "Seconds (k * Second) = float_of_int k"
proof -
  have "0 < Second" by (simp add: Second_def)
  then have "\<bar>k * Second\<bar> div Second = k" "\<bar>k * Second\<bar> mod Second = 0" "k = 0 \<or> sgn (k * Second) = 1" using assms(1) by (auto simp: abs_mult sgn_mult sgn_if)
  then have "Seconds (k * Second) = fadd (float_of_int k) (float_of_int 0)"
    by (auto simp: Seconds_def Let_def float_of_int_def round_frac_def)
  then show ?thesis using fadd_int [OF assms(2), of 0] by (simp add: exact_int_def)
qed

lemma TryConsume_int:
  assumes "0 \<le> level" "level \<le> cap" "0 \<le> k" "0 \<le> rate" "0 < n" "exact_int k" "exact_int rate" "exact_int cap" "exact_int n"
    and "exact_int (level + k * rate)" "k * Second < 2 ^ 63"
  shows "TryConsume (t0 + k * Second) n (int_bucket cap level rate t0) =
    (if spec_level cap level rate k < n then (int_bucket cap (spec_level cap level rate k) rate (t0 + k * Second), False)
     else (int_bucket cap (spec_level cap level rate k - n) rate (t0 + k * Second), True))"
proof -
  have sub: "time_Sub (t0 + k * Second) t0 = k * Second" using assms(3,11) by (simp add: time_Sub_def Second_def)
  have kr: "0 \<le> k * rate" "exact_int (k * rate)" "exact_int level" using assms by (auto intro: exact_int_mono)
  have "fmul (Seconds (time_Sub (t0 + k * Second) t0)) (float_of_int rate) = float_of_int (k * rate)"
    using assms by (simp add: sub Seconds_whole fmul_nonneg)
  then have fill: "fadd (float_of_int level) (fmul (Seconds (time_Sub (t0 + k * Second) t0)) (float_of_int rate)) = float_of_int (level + k * rate)"
    using kr fadd_int by simp
  have clip: "(if fless (float_of_int cap) (float_of_int (level + k * rate)) then float_of_int cap else float_of_int (level + k * rate)) =
      float_of_int (spec_level cap level rate k)"
    using assms by (auto simp: fless_int spec_level_def)
  have lev: "exact_int (spec_level cap level rate k)" using assms kr(1) by (auto simp: spec_level_def min_def intro: exact_int_mono)
  show ?thesis using assms lev
    by (simp add: TryConsume_def int_bucket_def Let_def fill clip fless_int fsub_int del: One_nat_def)
      (auto simp: spec_level_def min_def)
qed

text \<open>Requests at one instant, and what the batch reports.\<close>

lemma batch_write_one_throttles: "throttles (batch_write_one req s) = throttles s"
proof -
  have "throttles (index t k x sch s') = throttles s'" "throttles (unindex t k y sch s') = throttles s'" for t k x y sch s'
    using index_items [of s' t k x sch] unindex_items [of s' t k y sch] by (simp_all add: same_items_def)
  then show ?thesis by (auto simp: batch_write_one_def Let_def set_item_def delete_item_def tableMap_def split: option.splits)
qed

lemma batch_burst:
  assumes "0 \<le> rate" "exact_int rate" "exact_int cap"
  shows "fmlookup (throttles s) t = Some (int_bucket cap level rate now) \<Longrightarrow> 0 \<le> level \<Longrightarrow> level \<le> cap \<Longrightarrow> \<forall>req \<in> set reqs. BTable req = t \<Longrightarrow>
    snd (BatchWriteItems now reqs s) = drop (nat level) reqs"
proof (induction reqs arbitrary: s level)
  case (Cons req reqs)
  have "exact_int level" using Cons.prems(2,3) assms(3) by (rule exact_int_mono [rotated])
  with Cons.prems(2,3) assms have tc: "TryConsume now 1 (int_bucket cap level rate now) =
      (if level < 1 then (int_bucket cap level rate now, False) else (int_bucket cap (level - 1) rate now, True))"
    using TryConsume_int [of level cap 0 rate 1 now] by (simp add: spec_level_def exact_int_def min_def)
  show ?case
  proof (cases "level < 1")
    case True
    let ?s = "s\<lparr>throttles := fmupd t (int_bucket cap level rate now) (throttles s)\<rparr>"
    have w: "try_write now (BTable req) s = (?s, False)" using True tc Cons.prems(1,4) by (simp add: try_write_def)
    have "snd (BatchWriteItems now reqs ?s) = drop (nat level) reqs" using Cons.prems by (intro Cons.IH) simp_all
    with True Cons.prems(2) w show ?thesis by (auto split: prod.splits)
  next
    case False
    let ?s = "s\<lparr>throttles := fmupd t (int_bucket cap (level - 1) rate now) (throttles s)\<rparr>"
    have w: "try_write now (BTable req) s = (?s, True)" using False tc Cons.prems(1,4) by (simp add: try_write_def)
    have "snd (BatchWriteItems now reqs (batch_write_one req ?s)) = drop (nat (level - 1)) reqs"
      using False Cons.prems by (intro Cons.IH) (simp_all add: batch_write_one_throttles)
    moreover have "nat level = Suc (nat (level - 1))" using False by simp
    ultimately show ?thesis using w by simp
  qed
qed simp



end
