(* ===== verification/Go_Number_Text.thy ===== *)
theory Go_Number_Text
  imports Go_Float_Facts
begin

text \<open>
  Integers as text: the scanning verb \<open>%f\<close> reads the decimal digits of an integer below \<open>2 ^ 53\<close> exactly, and the verb
  \<open>%g\<close> writes the digits of an integer below a million.
\<close>

section \<open>Reading\<close>

definition digits :: "string \<Rightarrow> bool" where
  "digits s \<longleftrightarrow> list_all is_digit s"

lemma digits_Cons [simp]: "digits (c # s) \<longleftrightarrow> is_digit c \<and> digits s" "digits []"
  by (simp_all add: digits_def)

lemma digits_dec [simp]: "digits (dec_of_nat n)"
  by (simp add: digits_def)

lemma digit_cases: "is_digit c \<Longrightarrow> c \<in> set decimal_digits"
proof -
  assume "is_digit c"
  then have "48 \<le> (of_char c :: nat) \<and> (of_char c :: nat) \<le> 57" by (simp add: is_digit_iff)
  then have "(of_char c :: nat) = 48 \<or> (of_char c :: nat) = 49 \<or> (of_char c :: nat) = 50 \<or> (of_char c :: nat) = 51 \<or> (of_char c :: nat) = 52 \<or>
    (of_char c :: nat) = 53 \<or> (of_char c :: nat) = 54 \<or> (of_char c :: nat) = 55 \<or> (of_char c :: nat) = 56 \<or> (of_char c :: nat) = 57" by presburger
  then have "(of_char c :: nat) \<in> set (map of_char decimal_digits)" by (auto simp: decimal_digits_def)
  then show ?thesis by auto
qed

lemma not_digit [simp]: "\<not> is_digit CHR ''n''" "\<not> is_digit CHR ''N''" "\<not> is_digit CHR ''i''" "\<not> is_digit CHR ''I''" "\<not> is_digit CHR ''x''"
  "\<not> is_digit CHR ''X''" "\<not> is_digit CHR ''p''" "\<not> is_digit CHR ''.''" "\<not> is_digit CHR ''_''" "\<not> is_digit CHR ''+''" "\<not> is_digit CHR ''-''"
  "\<not> is_digit CHR 0x0A" "\<not> is_digit CHR 0x0D"
  by (simp_all add: is_digit_iff)

lemma accept_all_digits: "digits s \<Longrightarrow> accept_all (decimal_digits @ t) s = (s, [])"
  by (auto simp: accept_all_def digits_def list_all_iff dest: digit_cases)

lemma accept_no: "digits s \<Longrightarrow> list_all (\<lambda>c. \<not> is_digit c) ok \<Longrightarrow> accept ok s = ([], s)"
  by (cases s) (auto simp: accept_def list_all_iff)

lemma accept_word_no: "digits s \<Longrightarrow> list_all (\<lambda>c. \<not> is_digit c) ok \<Longrightarrow> accept_word (ok # oks) s = ([], False, s)"
  by (simp add: accept_no)

lemma accept_hex_prefix:
  "digits s \<Longrightarrow> \<exists>t r. accept_word [''0'', ''xX''] s = (t, False, r) \<and> s = t @ r \<and> digits r"
proof (cases s)
  case (Cons c r)
  moreover assume "digits s"
  moreover have "accept ''xX'' r = ([], r)" using calculation by (intro accept_no) simp_all
  ultimately show ?thesis by (cases "c = CHR ''0''") (simp_all add: accept_def)
qed (simp add: accept_def)

lemma floatToken_unsigned:
  assumes "digits s"
  shows "floatToken s = s" "floatToken (CHR ''-'' # s) = CHR ''-'' # s"
proof -
  from accept_hex_prefix [OF assms] obtain t r where tr: "accept_word [''0'', ''xX''] s = (t, False, r)" "s = t @ r" "digits r" by blast
  note no = accept_word_no [OF assms] accept_all_digits [OF tr(3)]
  have nil: "accept ok [] = ([], [])" for ok by (simp add: accept_def)
  have "accept_word [''nN'', ''aA'', ''nN''] (CHR ''-'' # s) = ([], False, CHR ''-'' # s)" "accept ''+-'' (CHR ''-'' # s) = (''-'', s)"
    by (simp_all add: accept_def)
  moreover have "accept_word [''nN'', ''aA'', ''nN''] s = ([], False, s)" "accept_word [''iI'', ''nN'', ''fF''] s = ([], False, s)" "accept ''+-'' s = ([], s)"
    using no(1) accept_no [OF assms] by simp_all
  ultimately show "floatToken s = s" "floatToken (CHR ''-'' # s) = CHR ''-'' # s"
    unfolding floatToken_def by (simp_all add: tr(1) no nil Let_def tr(2) [symmetric] del: accept_word.simps)
qed

lemma mantissa_digits: "digits s \<Longrightarrow> mantissa 10 v k False saw s = (dec_val v s, k, saw \<or> s \<noteq> [], [])"
  by (induction s arbitrary: v saw) (auto simp: hex_val_def)

lemma IndexByte_digits: "digits s \<Longrightarrow> \<not> is_digit c \<Longrightarrow> IndexByte s c = None"
  by (induction s) auto

lemma lower_digit: "is_digit c \<Longrightarrow> lower_char c = c"
  by (auto simp: is_digit_iff lower_char_def is_upper_def less_eq_char_def byte_def)

lemma ParseFloat_digits:
  assumes "digits s" "s \<noteq> []" "dec_val 0 s < 2 ^ 53"
  shows "ParseFloat s = Some (round_frac False (dec_val 0 s) 1)" "ParseFloat (CHR ''-'' # s) = Some (round_frac True (dec_val 0 s) 1)"
proof -
  obtain c cs where s: "s = c # cs" "is_digit c" "digits cs" using assms(1,2) by (cases s) auto
  have sign: "split_sign s = (False, s)" "split_sign (CHR ''-'' # s) = (True, s)" using s by (auto simp: split_sign_def)
  have low: "map lower_char s = s" using assms(1) by (induction s) (auto simp: lower_digit)
  have words: "s \<noteq> ''inf''" "s \<noteq> ''infinity''" "s \<noteq> ''nan''" "CHR ''_'' \<notin> set s" using assms(1) by (auto simp: digits_def list_all_iff)
  have hex: "\<not> (length s > 2 \<and> hd s = CHR ''0'' \<and> lower_char (s ! 1) = CHR ''x'')"
    using s by (cases cs) (auto simp: lower_digit)
  have dash: "lower_char CHR ''-'' = CHR ''-''" by (simp add: lower_char_def is_upper_def byte_def)
  have r: "round_frac b (dec_val 0 s) 1 \<noteq> FInf b'" for b b' using round_nat [of "dec_val 0 s" b] assms(3) by (cases "dec_val 0 s = 0") (auto simp: round_frac_def)
  then have "in_range (round_dec b (dec_val 0 s) (- int 0)) = Some (round_frac b (dec_val 0 s) 1)" for b
    by (auto simp: in_range_def round_dec_def split: float64.splits)
  with words show "ParseFloat s = Some (round_frac False (dec_val 0 s) 1)" "ParseFloat (CHR ''-'' # s) = Some (round_frac True (dec_val 0 s) 1)"
    using assms(2) unfolding ParseFloat_def sign Let_def prod.case low eq_False [THEN iffD2, OF hex] if_False
    by (simp_all add: mantissa_digits [OF assms(1)] dash low)
qed

lemma skip_plain: "plain_byte c \<Longrightarrow> c \<noteq> CHR 0x0A \<Longrightarrow> c \<noteq> CHR 0x0D \<Longrightarrow> skip_space (c # s) = Some (c # s)"
  by (subst skip_space.simps) (simp add: white_len_plain)

lemma plain_digit: "is_digit c \<Longrightarrow> plain_byte c"
  by (auto simp: is_digit_iff plain_byte_def byte_def)

lemma Sscanf_Itoa:
  assumes "exact_int n"
  shows "Sscanf_f (Itoa n) = Some (float_of_int n)"
proof -
  let ?d = "dec_of_nat (nat \<bar>n\<bar>)"
  obtain c cs where d: "?d = c # cs" "is_digit c" using digits_dec [of "nat \<bar>n\<bar>"] by (cases ?d) auto
  have lt: "dec_val 0 ?d < 2 ^ 53" using assms by (simp add: dec_val_dec_of_nat exact_int_def nat_less_iff)
  have v: "dec_val 0 ?d = nat \<bar>n\<bar>" by (rule dec_val_dec_of_nat)
  note pf = ParseFloat_digits [OF digits_dec _ lt, unfolded v] and ft = floatToken_unsigned [OF digits_dec [of "nat \<bar>n\<bar>"]]
  have p: "IndexByte ?d CHR ''p'' = None" "IndexByte (CHR ''-'' # ?d) CHR ''p'' = None" by (simp_all add: IndexByte_digits)
  show ?thesis
  proof (cases "n < 0")
    case True
    have "skip_space (CHR ''-'' # ?d) = Some (CHR ''-'' # ?d)" by (rule skip_plain) (simp_all add: plain_byte_def byte_def)
    with True p(2) pf(2) ft(2) show ?thesis by (simp add: Sscanf_f_def Itoa_def convertFloat_def float_of_int_def)
  next
    case False
    have "skip_space ?d = Some ?d" unfolding d(1) using d(2) by (intro skip_plain) (auto simp: plain_digit)
    with False p(1) pf(1) ft(1) show ?thesis by (simp add: Sscanf_f_def Itoa_def convertFloat_def float_of_int_def)
  qed
qed

section \<open>Writing\<close>

lemma round_frac_inj:
  assumes "a < 2 ^ 53" "b < 2 ^ 53"
  shows "round_frac s a 1 = round_frac s b 1 \<longleftrightarrow> a = b"
proof (cases "a = 0 \<or> b = 0")
  case True
  with round_nat [of a s] round_nat [of b s] assms show ?thesis by (cases "a = 0"; cases "b = 0") (simp_all add: round_frac_def [of s 0])
next
  case False
  then show ?thesis using round_nat [of a s] round_nat [of b s] assms by auto
qed

lemma dec_of_nat_rec: "10 \<le> n \<Longrightarrow> dec_of_nat n = dec_of_nat (n div 10) @ [digit_char (n mod 10)]"
  by (simp add: dec_of_nat_def digits_base.simps [of 10 n])

lemma dec_of_nat_pow10: "0 < q \<Longrightarrow> dec_of_nat (q * 10 ^ y) = dec_of_nat q @ replicate y CHR ''0''"
proof (induction y)
  case (Suc y)
  have "dec_of_nat (q * 10 ^ Suc y) = dec_of_nat (q * 10 ^ y) @ [digit_char 0]"
    using Suc.prems by (subst dec_of_nat_rec) (simp_all add: Suc_leI)
  with Suc show ?case by (simp add: digit_char_0 replicate_append_same)
qed simp

lemma dec_length: "n < 10 ^ k \<Longrightarrow> 0 < k \<Longrightarrow> length (dec_of_nat n) \<le> k"
proof (induction k arbitrary: n)
  case (Suc k)
  show ?case
  proof (cases "n < 10")
    case False
    with Suc.prems have "n div 10 < 10 ^ k" "0 < k" by (auto simp: less_mult_imp_div_less intro: gr0I)
    with Suc.IH False show ?thesis by (simp add: dec_of_nat_rec)
  qed (simp add: dec_of_nat_def digits_base.simps)
qed simp

lemma dec_length_iff: "0 < k \<Longrightarrow> length (dec_of_nat n) \<le> k \<longleftrightarrow> n < 10 ^ k"
proof -
  assume k: "0 < k"
  have "n < 10 ^ length (dec_of_nat n)"
  proof (induction n rule: less_induct)
    case (less n)
    show ?case
    proof (cases "n < 10")
      case False
      then have "n div 10 < 10 ^ length (dec_of_nat (n div 10))" by (intro less) simp
      with False show ?thesis by (simp add: dec_of_nat_rec)
    qed (simp add: dec_of_nat_def digits_base.simps)
  qed
  moreover have "(10 :: nat) ^ length (dec_of_nat n) \<le> 10 ^ k" if "length (dec_of_nat n) \<le> k" using that by (intro power_increasing) auto
  ultimately show ?thesis using dec_length [OF _ k] by (meson less_le_trans)
qed

lemma strip_zeros_pad: "\<exists>z. w = strip_zeros w @ replicate z CHR ''0''"
proof (induction w rule: strip_zeros.induct)
  case (1 w)
  show ?case
  proof (cases "w \<noteq> [] \<and> last w = CHR ''0''")
    case True
    with 1 obtain z where "butlast w = strip_zeros (butlast w) @ replicate z CHR ''0''" by blast
    moreover have "w = butlast w @ [CHR ''0'']" using True append_butlast_last_id [of w] by simp
    ultimately have "w = strip_zeros (butlast w) @ replicate (Suc z) CHR ''0''" by (metis append.assoc replicate_Suc replicate_append_same)
    moreover have "strip_zeros w = strip_zeros (butlast w)" using True by (subst strip_zeros.simps) simp
    ultimately show ?thesis by metis
  next
    case False
    then have "strip_zeros w = w" by (subst strip_zeros.simps) auto
    then show ?thesis by (metis append.right_neutral replicate_0)
  qed
qed

lemma fmt_f_strip: "0 < length w \<Longrightarrow> fmt_f (strip_zeros w) (int (length w + y)) = w @ replicate y CHR ''0''"
proof -
  assume "0 < length w"
  obtain z where z: "w = strip_zeros w @ replicate z CHR ''0''" using strip_zeros_pad by blast
  then have "length w = length (strip_zeros w) + z" by (metis length_append length_replicate)
  moreover have "0 < int (length w + y)" using \<open>0 < length w\<close> by linarith
  ultimately show ?thesis by (subst (3) z) (simp add: fmt_f_def nat_add_distrib nat_int_add flip: replicate_add)
qed

lemma find_candidate:
  assumes "0 < n" "n < 10 ^ 15" and m: "m = n * 2 ^ (53 - bitlen n)" and e: "e = int (bitlen n) - 53"
  shows "\<exists>q y. shortest s m e = (q, int y) \<and> q * 10 ^ y = n"
proof -
  let ?c = "2 ^ (53 - bitlen n) :: nat" and ?L = "length (dec_of_nat n)"
  have "n < 2 ^ 53" using assms(2) by simp
  then have le: "bitlen n \<le> 53" by (rule bitlen_le)
  have L: "?L \<le> 15" "1 \<le> ?L" using dec_length [OF assms(2)] by (simp_all add: Suc_leI)
  have frac: "frac_of m e = (n * ?c, ?c)" using le by (auto simp: frac_of_def m e nat_diff_distrib)
  then have dp: "dec_exponent (frac_of m e) = int ?L" using assms(1) by (simp add: dec_exponent_def)
  have "FFin s m e = round_frac s n 1" using round_nat [of n s] assms(1) m e \<open>n < 2 ^ 53\<close> by simp
  have cand: "candidate s m e k = (if 10 ^ (?L - k) dvd n then Some (n div 10 ^ (?L - k)) else None)" if "k \<le> ?L" for k
  proof -
    let ?x = "?L - k"
    have x: "int ?L - int k = int ?x" using that by simp
    have small: "(10 :: nat) ^ ?x \<le> 10 ^ 15" using L(1) by (intro power_increasing) auto
    have ok: "round_dec s q (int ?x) = FFin s m e \<longleftrightarrow> q * 10 ^ ?x = n" if "q * 10 ^ ?x \<le> n + 10 ^ 15" for q
      using that assms(2) \<open>FFin s m e = round_frac s n 1\<close> round_frac_inj [of "q * 10 ^ ?x" n s] by (simp add: round_dec_def)
    have q: "n * ?c div (?c * 10 ^ ?x) = n div 10 ^ ?x" by (simp add: mult.commute)
    have le: "(n div 10 ^ ?x) * 10 ^ ?x \<le> n" by (rule div_times_less_eq_dividend)
    moreover have "n < Suc (n div 10 ^ ?x) * 10 ^ ?x" using dividend_less_div_times [of "10 ^ ?x" n] by simp
    moreover have "Suc (n div 10 ^ ?x) * 10 ^ ?x \<le> n + 10 ^ 15" using add_mono [OF le small] by (simp only: mult_Suc add.commute)
    ultimately
    have "round_dec s (n div 10 ^ ?x) (int ?x) = FFin s m e \<longleftrightarrow> 10 ^ ?x dvd n" "\<not> round_dec s (Suc (n div 10 ^ ?x)) (int ?x) = FFin s m e"
      by (auto simp: ok dvd_div_mult_self) (metis dvd_triv_right)
    moreover have t: "ten_scale (frac_of m e) (int ?x) = (n * ?c, ?c * 10 ^ ?x)" by (simp add: frac ten_scale_def)
    ultimately show ?thesis unfolding candidate_def Let_def dp x t prod.case q by auto
  qed
  obtain k where k: "find (\<lambda>k. candidate s m e k \<noteq> None) [1..<18] = Some k" "k \<le> ?L" "candidate s m e k \<noteq> None"
  proof (cases "find (\<lambda>k. candidate s m e k \<noteq> None) [1..<18]")
    case None
    with L have "candidate s m e ?L = None" unfolding find_None_iff by fastforce
    with cand [of ?L] show thesis by simp
  next
    case (Some k)
    then obtain i where i: "i < 17" "k = Suc i" "candidate s m e k \<noteq> None" "\<And>j. j < i \<Longrightarrow> candidate s m e (Suc j) = None"
      by (auto simp: find_Some_iff)
    have "k \<le> ?L"
    proof (rule ccontr)
      assume "\<not> k \<le> ?L"
      with i(2) i(4) [of "?L - 1"] L(2) have "candidate s m e ?L = None" by simp
      with cand [of ?L] show False by simp
    qed
    with Some i(3) that show thesis by blast
  qed
  with cand [OF k(2)] have "10 ^ (?L - k) dvd n" "candidate s m e k = Some (n div 10 ^ (?L - k))" by (auto split: if_splits)
  with k show ?thesis by (intro exI [of _ "n div 10 ^ (?L - k)"] exI [of _ "?L - k"]) (simp add: shortest_def dp Let_def of_nat_diff)
qed

text \<open>The text of an integer: its digits, or the exponent form.\<close>

lemma fmt_g_int:
  assumes "n \<noteq> 0" "\<bar>n\<bar> < 10 ^ 15"
  obtains ds where "fmt_g (float_of_int n) = (if n < 0 then ''-'' else []) @
    (if \<bar>n\<bar> < 10 ^ 6 then dec_of_nat (nat \<bar>n\<bar>) else fmt_e ds (int (length (dec_of_nat (nat \<bar>n\<bar>))) - 1))"
proof -
  let ?n = "nat \<bar>n\<bar>"
  have n: "0 < ?n" "?n < 10 ^ 15" using assms by (simp_all add: nat_less_iff)
  then have n53: "?n < 2 ^ 53" by simp
  from find_candidate [OF n refl refl, of "n < 0"] obtain q y where
    qy: "shortest (n < 0) (?n * 2 ^ (53 - bitlen ?n)) (int (bitlen ?n) - 53) = (q, int y)" "q * 10 ^ y = ?n" by blast
  then have q: "0 < q" using n(1) by (cases q) auto
  have d: "dec_of_nat ?n = dec_of_nat q @ replicate y CHR ''0''" using dec_of_nat_pow10 [OF q, of y] qy(2) by simp
  then have len: "int (length (dec_of_nat ?n)) = int (length (dec_of_nat q)) + int y" by simp
  have "length (dec_of_nat ?n) \<le> 6 \<longleftrightarrow> \<bar>n\<bar> < 10 ^ 6" using dec_length_iff [of 6 ?n] by (simp add: nat_less_iff)
  then have big: "length (dec_of_nat ?n) > 6 \<longleftrightarrow> \<not> \<bar>n\<bar> < 10 ^ 6" by linarith
  have "fmt_g (float_of_int n) = (if n < 0 then ''-'' else []) @
      (if length (dec_of_nat ?n) > 6 then fmt_e (strip_zeros (dec_of_nat q)) (int (length (dec_of_nat ?n)) - 1)
       else fmt_f (strip_zeros (dec_of_nat q)) (int (length (dec_of_nat q) + y)))"
    using n(1) round_nat [OF n(1) n53, of "n < 0"] len by (simp add: float_of_int_def fmt_g_def shortest_digits_def qy(1))
  also have "fmt_f (strip_zeros (dec_of_nat q)) (int (length (dec_of_nat q) + y)) = dec_of_nat ?n" by (subst fmt_f_strip) (simp_all add: d)
  finally show thesis unfolding big by (intro that [of "strip_zeros (dec_of_nat q)"]) (simp only: if_not_P if_P split: if_split, blast)
qed

lemma fmt_g_Itoa:
  assumes "\<bar>n\<bar> < 10 ^ 6"
  shows "fmt_g (float_of_int n) = Itoa n"
proof (cases "n = 0")
  case True
  have "dec_of_nat 0 = ''0''" by (simp add: dec_of_nat_def digits_base.simps digit_char_0)
  with True show ?thesis by (simp add: fmt_g_def float_of_int_def round_frac_def Itoa_def)
next
  case False
  with assms show ?thesis by (auto simp: Itoa_def elim: fmt_g_int [of n])
qed

lemma fmt_g_exponent:
  assumes "10 ^ 6 \<le> \<bar>n\<bar>" "\<bar>n\<bar> < 10 ^ 15"
  shows "CHR ''e'' \<in> set (fmt_g (float_of_int n))"
proof -
  have "n \<noteq> 0" using assms(1) by auto
  from fmt_g_int [OF this assms(2)] obtain ds where "fmt_g (float_of_int n) = (if n < 0 then ''-'' else []) @
    (if \<bar>n\<bar> < 10 ^ 6 then dec_of_nat (nat \<bar>n\<bar>) else fmt_e ds (int (length (dec_of_nat (nat \<bar>n\<bar>))) - 1))" by blast
  with assms(1) show ?thesis by (simp add: fmt_e_def)
qed

end
