(* ===== verification/Dynamo_Effects.thy ===== *)
theory Dynamo_Effects
  imports Dynamo_Query Go_Number_Text
begin

text \<open>
  What update expressions do to items: counters, and the consequences of writing into shared maps.
\<close>

section \<open>Counters\<close>

lemma parse_add: "parseUpdateClauses uni ''ADD #c :n'' = Ret (fmap_of_list [(''ADD'', ''#c :n'')])"
  by code_simp

lemma clause_parts: "splitComma ''#c :n'' = [''#c :n'']" "splitComma [] = []" "path_and_value ''#c :n'' = Some (''#c'', '':n'')"
  "ParsePathParts ''#c'' = [named ''#c'']"
  by code_simp+

lemma resolve_named: "ResolveParts [named ''#c''] names = [named (the_default ''c'' (fmlookup names ''#c''))]"
  by (auto simp: ResolveParts_def HasPrefix_def the_default_def split: option.splits)

lemma hAttr_N: "fld m ''N'' = HStr t \<Longrightarrow> fmlookup m ''N'' \<noteq> None"
  by (cases "fmlookup m ''N''") (simp_all add: fld_def)

lemma numeric_Itoa: "fld (obj_at h w) ''N'' = HStr (Itoa n) \<Longrightarrow> exact_int n \<Longrightarrow> numeric_or_zero h (HMap w) = float_of_int n"
  by (simp add: numeric_or_zero_def ParseNumeric_def Sscanf_Itoa)

text \<open>
  \<open>ADD\<close> counts exactly below a million. An attribute that holds the decimal text of an integer, increased by an integer, holds
  the decimal text of the sum after \<open>ADD\<close>, although the code scans, adds and prints \<open>float64\<close> values; the new
  attribute is a fresh value, and nothing else changes.
\<close>

theorem counter_add_exact:
  assumes "fmlookup names ''#c'' = Some attr" "attr \<noteq> []" "fmlookup item attr = Some (HMap w)" "fld (obj_at h w) ''N'' = HStr (Itoa a)"
    and "fmlookup vs '':n'' = Some (HMap v)" "fld (obj_at h v) ''N'' = HStr (Itoa b)" "\<bar>a\<bar> < 2 ^ 53" "\<bar>b\<bar> < 2 ^ 53" "\<bar>a + b\<bar> < 10 ^ 6"
  shows "applyUpdateExpression uni h item ''ADD #c :n'' names vs =
    Ret (fst (alloc h (fmap_of_list [(''N'', HStr (Itoa (a + b)))])), Inr (fmupd attr (HMap (lim h)) item))"
proof -
  have ex: "exact_int a" "exact_int b" using assms(7-8) by (simp_all add: exact_int_def)
  have num: "number h (float_of_int (a + b)) = (fst (alloc h (fmap_of_list [(''N'', HStr (Itoa (a + b)))])), HMap (lim h))"
    using fmt_g_Itoa [OF assms(9)] by (simp add: number_def alloc_def)
  have add: "applyAddOp h (HMap w) (HMap v) = Some (number h (float_of_int (a + b)))"
    using assms(4,6) ex by (simp add: applyAddOp_def hAttr_N numeric_Itoa fadd_int)
  have parts: "ResolveParts [named ''#c''] names = [named attr]" using assms(1) by (simp add: resolve_named)
  have get: "hResolvePath h item [named attr] = Some (HMap w)" using assms(2,3) by (simp add: hResolvePath_def)
  have set: "hSetPath h' item [named attr] x = Inr (h', fmupd attr x item)" for h' x using assms(2) by (simp add: hSetPath_def)
  have val: "resolveExprValue '':n'' vs = HMap v" using assms(5) by (simp add: resolveExprValue_def HasPrefix_def)
  show ?thesis
    by (simp add: applyUpdateExpression_def parse_add then_update_def clause_parts parts get set val add num)
qed

theorem counter_add_exact_witness:
  "applyUpdateExpression \<lparr>uLower = id, uUpper = id\<rparr> \<lparr>objs = fmap_of_list [(0, fmap_of_list [(''N'', HStr (Itoa 41))])], lim = 1\<rparr>
     (fmap_of_list [(''n'', HMap 0)]) ''ADD #c :n'' (fmap_of_list [(''#c'', ''n'')]) (fmap_of_list [('':n'', HMap 0)]) =
   Ret (fst (alloc \<lparr>objs = fmap_of_list [(0, fmap_of_list [(''N'', HStr (Itoa 41))])], lim = 1\<rparr> (fmap_of_list [(''N'', HStr (Itoa (41 + 41)))])),
     Inr (fmupd ''n'' (HMap 1) (fmap_of_list [(''n'', HMap 0)])))"
  by (subst counter_add_exact [where attr = "''n''" and w = 0 and v = 0 and a = 41 and b = 41]) (simp_all add: obj_at_def)

text \<open>From a million on the text is in exponent form.\<close>

theorem counter_leaves_decimal_form:
  assumes "fld (obj_at h w) ''N'' = HStr (Itoa a)" "fld (obj_at h v) ''N'' = HStr (Itoa b)" "\<bar>a\<bar> < 2 ^ 53" "\<bar>b\<bar> < 2 ^ 53"
    and "10 ^ 6 \<le> \<bar>a + b\<bar>" "\<bar>a + b\<bar> < 10 ^ 15"
  shows "\<exists>h' n. applyAddOp h (HMap w) (HMap v) = Some (h', HMap n) \<and> (\<exists>t. fld (obj_at h' n) ''N'' = HStr t \<and> CHR ''e'' \<in> set t)"
proof -
  have "applyAddOp h (HMap w) (HMap v) = Some (number h (float_of_int (a + b)))"
    using assms(1-4) by (simp add: applyAddOp_def hAttr_N numeric_Itoa fadd_int exact_int_def)
  with fmt_g_exponent [OF assms(5,6)] show ?thesis by (auto simp: number_def alloc_def obj_at_def)
qed

section \<open>Failed updates\<close>

definition failing_update :: string where
  "failing_update = ''SET m.x = :v, q = if_not_exists(a)''"

lemma parse_failing:
  "parseUpdateClauses uni failing_update = Ret (fmap_of_list [(''SET'', ''m.x = :v, q = if_not_exists(a)'')])"
  "splitComma ''m.x = :v, q = if_not_exists(a)'' = [''m.x = :v'', ''q = if_not_exists(a)'']"
  "TrimSpace ''m.x = :v'' = ''m.x = :v''" "TrimSpace ''q = if_not_exists(a)'' = ''q = if_not_exists(a)''"
  "IndexByte ''m.x = :v'' CHR ''='' = Some 4" "IndexByte ''q = if_not_exists(a)'' CHR ''='' = Some 2"
  "TrimSpace (take 4 ''m.x = :v'') = ''m.x''" "TrimSpace (drop (4 + 1) ''m.x = :v'') = '':v''" "TrimSpace '':v'' = '':v''"
  "TrimSpace '' :v'' = '':v''" "TrimSpace ''m.x '' = ''m.x''" "TrimSpace '' if_not_exists(a)'' = ''if_not_exists(a)''"
  "TrimSpace (drop (2 + 1) ''q = if_not_exists(a)'') = ''if_not_exists(a)''"
  "ParsePathParts ''m.x'' = [named ''m'', named ''x'']" "ResolveParts [named ''m'', named ''x''] names = [named ''m'', named ''x'']"
  by code_simp+

lemma eval_ref: "fmlookup vs '':v'' = Some v \<Longrightarrow> evalSetValue uni h item '':v'' names vs = Inr (h, v)"
proof -
  assume v: "fmlookup vs '':v'' = Some v"
  have "ToLower (uLower uni) '':v'' = '':v''" "findTopLevelArithOp '':v'' = None" by code_simp+
  with v show ?thesis
    by (subst evalSetValue.simps) (simp add: parse_failing Let_def HasPrefix_def evalOperandForSet_def resolveExprValue_def)
qed

lemma eval_malformed: "evalSetValue uni h item ''if_not_exists(a)'' names vs = Inl (RequiresExactlyTwo ''if_not_exists'')"
proof -
  have "ToLower (uLower uni) ''if_not_exists(a)'' = ''if_not_exists(a)''" "TrimSpace ''if_not_exists(a)'' = ''if_not_exists(a)''"
    "extractFunctionBody ''if_not_exists(a)'' (length ''if_not_exists'') = Some ''a''" "splitComma ''a'' = [''a'']" by code_simp+
  then show ?thesis by (subst evalSetValue.simps) (simp add: Let_def HasPrefix_def)
qed

text \<open>Setting a nested attribute writes into the map that the item holds.\<close>

lemma set_nested:
  assumes "fmlookup item ''m'' = Some (HMap w)" "fld (obj_at h w) ''M'' = HMap a"
  shows "hSetPath h item [named ''m'', named ''x''] v =
    Inr (fst (alloc (put_obj h a (fmupd ''x'' v (obj_at h a))) (fmap_of_list [(''M'', HMap a)])), fmupd ''m'' (HMap (lim h)) item)"
  using assms by (simp add: hSetPath_def fld_def inner_addr_def alloc_def put_obj_def)

lemma failing_run:
  assumes "fmlookup vs '':v'' = Some v" "v \<noteq> HNil" "fmlookup item ''m'' = Some (HMap w)" "fld (obj_at h w) ''M'' = HMap a"
  shows "applyUpdateExpression uni h item failing_update names vs =
    Ret (fst (alloc (put_obj h a (fmupd ''x'' v (obj_at h a))) (fmap_of_list [(''M'', HMap a)])), Inl (RequiresExactlyTwo ''if_not_exists''))"
  using assms by (simp add: applyUpdateExpression_def parse_failing then_update_def clause_parts eval_ref eval_malformed set_nested Let_def)

lemma item_of_heap: "item_of (s\<lparr>hp := h\<rparr>) t k = item_of s t k"
  by (simp add: item_of_def table_of_def)

lemma free_write: "fmlookup (throttles s) t = None \<Longrightarrow> try_write now t s = (s, True)"
  by (simp add: try_write_def)

lemma no_condition: "guarded s (check_condition s old [] names vs) k = k s"
  by (simp add: guarded_def check_condition_def)

text \<open>
  C40: a failed update is not rolled back. An \<open>UpdateItem\<close> whose first assignment sets an attribute inside a stored map and whose second
  assignment is malformed returns an error, and the stored item nevertheless shows the first assignment: \<open>SetPath\<close> wrote
  into the map that the stored item holds.
\<close>

theorem failed_update_is_visible:
  assumes "fmlookup (throttles s) t = None" "UpdCond spec = []" "UpdExpr spec = failing_update" "fmlookup (UpdValues spec) '':v'' = Some v" "v \<noteq> HNil"
    and "GetItem t k s = Some item" "fmlookup item ''m'' = Some (HMap w)" "fld (obj_at (hp s) w) ''M'' = HMap a" "w < lim (hp s)" "a < lim (hp s)"
  shows "\<exists>s'. UpdateItem uni now t k key spec s = Ret (s', Inl (ExpressionFailed (RequiresExactlyTwo ''if_not_exists''))) \<and>
    GetItem t k s' = Some item \<and> hResolvePath (hp s') item [named ''m'', named ''x''] = Some v"
proof -
  let ?s = "tableMap t s"
  let ?h = "fst (alloc (put_obj (hp s) a (fmupd ''x'' v (obj_at (hp s) a))) (fmap_of_list [(''M'', HMap a)]))"
  have view: "hp ?s = hp s" "item_of ?s t k = Some item" using same_view_tableMap [of s t] assms(6) by (simp_all add: same_view_def GetItem_def)
  have ne: "failing_update \<noteq> []" by (simp add: failing_update_def)
  have run: "UpdateItem uni now t k key spec s = Ret (?s\<lparr>hp := ?h\<rparr>, Inl (ExpressionFailed (RequiresExactlyTwo ''if_not_exists'')))"
    using assms(1-5) ne failing_run [OF assms(4,5,7,8)]
    by (simp add: UpdateItem_def free_write no_condition view finish_update_def Let_def)
  have "obj_at ?h w = (if w = a then fmupd ''x'' v (obj_at (hp s) a) else obj_at (hp s) w)" "obj_at ?h a = fmupd ''x'' v (obj_at (hp s) a)"
    using assms(9,10) by simp_all
  then have "hResolvePath ?h item [named ''m'', named ''x''] = Some v" using assms(7,8)
    by (cases "w = a") (simp_all add: hResolvePath_def inner_addr_def)
  with run view(2) show ?thesis by (intro exI [of _ "?s\<lparr>hp := ?h\<rparr>"]) (simp add: GetItem_def item_of_heap)
qed

theorem failed_update_is_visible_witness:
  "\<exists>s'. UpdateItem \<lparr>uLower = id, uUpper = id\<rparr> 0 ''t'' ''k'' fmempty
      \<lparr>UpdExpr = failing_update, UpdCond = [], UpdNames = fmempty, UpdValues = fmap_of_list [('':v'', HMap 2)], UpdSchema = None\<rparr>
      (idx_store\<lparr>hp := \<lparr>objs = fmap_of_list [(0, fmap_of_list [(''M'', HMap 1)]), (1, fmempty), (2, fmap_of_list [(''S'', HStr ''y'')])], lim = 3\<rparr>,
        tables := fmap_of_list [(''t'', fmap_of_list [(''k'', fmap_of_list [(''m'', HMap 0)])])]\<rparr>) =
      Ret (s', Inl (ExpressionFailed (RequiresExactlyTwo ''if_not_exists''))) \<and>
    GetItem ''t'' ''k'' s' = Some (fmap_of_list [(''m'', HMap 0)]) \<and>
    hResolvePath (hp s') (fmap_of_list [(''m'', HMap 0)]) [named ''m'', named ''x''] = Some (HMap 2)"
  by (rule failed_update_is_visible [where w = 0 and a = 1]) (simp_all add: idx_store_def GetItem_def item_of_def table_of_def obj_at_def)

section \<open>Maps that contain themselves\<close>

definition self_update :: string where
  "self_update = ''SET m.x = m''"

lemma parse_self:
  "parseUpdateClauses uni self_update = Ret (fmap_of_list [(''SET'', ''m.x = m'')])" "splitComma ''m.x = m'' = [''m.x = m'']"
  "TrimSpace ''m.x = m'' = ''m.x = m''" "IndexByte ''m.x = m'' CHR ''='' = Some 4" "TrimSpace '' m'' = ''m''" "TrimSpace ''m'' = ''m''"
  "ParsePathParts ''m'' = [named ''m'']" "ResolveParts [named ''m''] names = [named ''m'']" "findTopLevelArithOp ''m'' = None"
  "ToLower (uLower uni) ''m'' = ''m''"
  by code_simp+

lemma eval_self: "fmlookup item ''m'' = Some v \<Longrightarrow> evalSetValue uni h item ''m'' names vs = Inr (h, v)"
  by (subst evalSetValue.simps) (simp add: parse_self Let_def HasPrefix_def evalOperandForSet_def hResolvePath_def)

lemma self_run:
  assumes "fmlookup item ''m'' = Some (HMap w)" "fld (obj_at h w) ''M'' = HMap a"
  shows "applyUpdateExpression uni h item self_update names vs =
    Ret (fst (alloc (put_obj h a (fmupd ''x'' (HMap w) (obj_at h a))) (fmap_of_list [(''M'', HMap a)])), Inr (fmupd ''m'' (HMap (lim h)) item))"
  using assms
  by (simp add: applyUpdateExpression_def parse_self then_update_def clause_parts eval_self parse_failing set_nested Let_def)

text \<open>Two maps that hold one another are never printed.\<close>

lemma cycle_not_printed:
  assumes "fld (obj_at h a) ''x'' = HMap w" "fld (obj_at h w) ''M'' = HMap a"
  shows "sprint h n (HMap a) = None \<and> sprint h n (HMap w) = None"
proof (induction n)
  case (Suc n)
  have "''x'' |\<in>| fmdom (obj_at h a)" using assms(1) by (cases "fmlookup (obj_at h a) ''x''") (auto simp: fld_def intro: fmdomI)
  moreover have "''M'' |\<in>| fmdom (obj_at h w)" using assms(2) by (cases "fmlookup (obj_at h w) ''M''") (auto simp: fld_def intro: fmdomI)
  ultimately show ?case using Suc assms unfolding sprint_HMap_None by metis
qed simp

lemma unprinted_item: "fmlookup item k = Some v \<Longrightarrow> Sprint_v h v = None \<Longrightarrow> itemPKHash h item = None"
  by (auto simp: itemPKHash_def print_field_def fld_def image_iff intro!: bexI [of _ k] fmdomI)

lemma item_listed: "fmlookup (tables s) t = Some tab \<Longrightarrow> GetItem t k s = Some item \<Longrightarrow> item \<in> set (all_items tab)"
  by (auto simp: all_items_def GetItem_def item_of_def table_of_def image_iff intro!: bexI [of _ k] fmdomI)

lemma two_items:
  assumes "fmlookup (tables s) t = Some tab" "GetItem t k s \<noteq> None" "GetItem t j s \<noteq> None" "j \<noteq> k"
  shows "length (all_items tab) > 1"
proof -
  have "{j, k} \<subseteq> fset (fmdom tab)" using assms by (auto simp: GetItem_def item_of_def table_of_def intro: fmdomI)
  then have "card {j, k} \<le> card (fset (fmdom tab))" by (intro card_mono) auto
  with assms(4) show ?thesis by (simp add: all_items_def)
qed

lemma scan_never_returns:
  assumes "fmlookup (tables s) t = Some tab" "item \<in> set (all_items tab)" "itemPKHash (hp s) item = None" "length (all_items tab) > 1"
    and "SIndexSchema sc = None" "TotalSegments sc = 0" "mset (perm (all_items tab)) = mset (all_items tab)"
  shows "Scan enc perm t sc s = Panic"
proof -
  have "item \<in> set (perm (all_items tab))" "length (perm (all_items tab)) > 1"
    using assms(2,4,7) by (metis set_mset_mset, metis size_mset)
  then have "sort_by_hash (hp s) (perm (all_items tab)) = None" using assms(3) by (force simp: sort_by_hash_def)
  with assms(1,5,6) show ?thesis by (simp add: Scan_def scan_candidates_def)
qed

text \<open>
  an update can store a map that contains itself, and then scans never return. \<open>SET m.x = m\<close> on an item whose attribute
  \<open>m\<close> is a map succeeds; the stored item is no longer printable, with any amount of recursion, and a scan of the table, which sorts the
  items by their printed text, runs out of stack as soon as the table has a second item.
\<close>

theorem self_assignment_stops_scans:
  assumes "fmlookup (throttles s) t = None" "UpdCond spec = []" "UpdExpr spec = self_update"
    and "GetItem t k s = Some item" "fmlookup item ''m'' = Some (HMap w)" "fld (obj_at (hp s) w) ''M'' = HMap a" "w < lim (hp s)" "a < lim (hp s)"
  shows "\<exists>s' item'. UpdateItem uni now t k key spec s = Ret (s', Inr item') \<and> GetItem t k s' = Some item' \<and>
    (\<forall>n. sprint (hp s') n (fld item' ''m'') = None) \<and>
    (\<forall>j enc perm sc. j \<noteq> k \<and> GetItem t j s \<noteq> None \<and> (\<forall>xs. mset (perm xs) = mset xs) \<and> SIndexSchema sc = None \<and> TotalSegments sc = 0 \<longrightarrow>
       Scan enc perm t sc s' = Panic)"
proof -
  let ?s = "tableMap t s"
  let ?h = "fst (alloc (put_obj (hp s) a (fmupd ''x'' (HMap w) (obj_at (hp s) a))) (fmap_of_list [(''M'', HMap a)]))"
  let ?item = "fmupd ''m'' (HMap (lim (hp s))) item"
  let ?s' = "index t k ?item (UpdSchema spec) (set_item t k ?item (unindex t k (Some item) (UpdSchema spec) (?s\<lparr>hp := ?h\<rparr>)))"
  have view: "hp ?s = hp s" "item_of ?s t j = item_of s t j" for j using same_view_tableMap [of s t] by (simp_all add: same_view_def)
  have run: "UpdateItem uni now t k key spec s = Ret (?s', Inr ?item)"
    using assms(1-4) self_run [OF assms(5,6)]
    by (simp add: UpdateItem_def free_write no_condition view finish_update_def Let_def GetItem_def) (simp add: self_update_def)
  have get: "GetItem t j ?s' = (if j = k then Some ?item else GetItem t j s)" for j
    using view(2) [of j] by (simp add: GetItem_def item_of_heap)
  have hp: "hp ?s' = ?h" by simp
  have "fld (obj_at ?h a) ''x'' = HMap w" "fld (obj_at ?h w) ''M'' = HMap a" using assms(6-8) by auto
  note cyc = cycle_not_printed [OF this]
  have none: "sprint ?h n (HMap (lim (hp s))) = None" for n
  proof (cases n)
    case (Suc i)
    have "''M'' |\<in>| fmdom (obj_at ?h (lim (hp s)))" "fld (obj_at ?h (lim (hp s))) ''M'' = HMap a" by simp_all
    with cyc Suc show ?thesis unfolding Suc sprint_HMap_None by metis
  qed simp
  then have "Sprint_v ?h (HMap (lim (hp s))) = None" unfolding Sprint_v_def by blast
  then have hash: "itemPKHash (hp ?s') ?item = None" unfolding hp by (intro unprinted_item [of ?item "''m''" "HMap (lim (hp s))"]) simp
  have "Scan enc perm t sc ?s' = Panic"
    if j: "j \<noteq> k" "GetItem t j s \<noteq> None" "\<forall>xs. mset (perm xs) = mset xs" "SIndexSchema sc = None" "TotalSegments sc = 0" for j enc perm sc
  proof -
    have two: "GetItem t k ?s' = Some ?item" "GetItem t k ?s' \<noteq> None" "GetItem t j ?s' \<noteq> None" using j(1,2) unfolding get by simp_all
    then obtain tab where tab: "fmlookup (tables ?s') t = Some tab" by (auto simp: GetItem_def item_of_def table_of_def the_default_def split: option.splits)
    show ?thesis
      using scan_never_returns [OF tab item_listed [OF tab two(1)] hash two_items [OF tab two(2,3) j(1)] j(4,5)] j(3) by blast
  qed
  with run get [of k] none show ?thesis
    by (intro exI [of _ ?s'] exI [of _ ?item] conjI) (simp_all only: hp fld_simps if_True refl simp_thms, blast+)
qed

theorem self_assignment_stops_scans_witness:
  "\<exists>s' item'. UpdateItem \<lparr>uLower = id, uUpper = id\<rparr> 0 ''t'' ''k'' fmempty
      \<lparr>UpdExpr = self_update, UpdCond = [], UpdNames = fmempty, UpdValues = fmempty, UpdSchema = None\<rparr>
      (idx_store\<lparr>hp := \<lparr>objs = fmap_of_list [(0, fmap_of_list [(''M'', HMap 1)]), (1, fmempty)], lim = 2\<rparr>,
        tables := fmap_of_list [(''t'', fmap_of_list [(''k'', fmap_of_list [(''m'', HMap 0)]), (''j'', fmempty)])]\<rparr>) = Ret (s', Inr item') \<and>
    Scan (\<lambda>_ _. []) id ''t'' idx_scan s' = Panic"
proof -
  let ?s = "idx_store\<lparr>hp := \<lparr>objs = fmap_of_list [(0, fmap_of_list [(''M'', HMap 1)]), (1, fmempty)], lim = 2\<rparr>,
    tables := fmap_of_list [(''t'', fmap_of_list [(''k'', fmap_of_list [(''m'', HMap 0)]), (''j'', fmempty)])]\<rparr>"
  let ?spec = "\<lparr>UpdExpr = self_update, UpdCond = [], UpdNames = fmempty, UpdValues = fmempty, UpdSchema = None\<rparr>"
  have j: "''j'' \<noteq> ''k'' \<and> GetItem ''t'' ''j'' ?s \<noteq> None \<and> (\<forall>xs :: obj list. mset (id xs) = mset xs) \<and> SIndexSchema idx_scan = None \<and> TotalSegments idx_scan = 0"
    by (simp add: GetItem_def item_of_def table_of_def idx_scan_def)
  have "\<exists>s' item'. UpdateItem \<lparr>uLower = id, uUpper = id\<rparr> 0 ''t'' ''k'' fmempty ?spec ?s = Ret (s', Inr item') \<and> GetItem ''t'' ''k'' s' = Some item' \<and>
    (\<forall>n. sprint (hp s') n (fld item' ''m'') = None) \<and>
    (\<forall>j enc perm sc. j \<noteq> ''k'' \<and> GetItem ''t'' j ?s \<noteq> None \<and> (\<forall>xs. mset (perm xs) = mset xs) \<and> SIndexSchema sc = None \<and> TotalSegments sc = 0 \<longrightarrow>
       Scan enc perm ''t'' sc s' = Panic)"
    by (rule self_assignment_stops_scans [where w = 0 and a = 1 and item = "fmap_of_list [(''m'', HMap 0)]"])
      (simp_all add: idx_store_def GetItem_def item_of_def table_of_def obj_at_def)
  then obtain s' item' where "UpdateItem \<lparr>uLower = id, uUpper = id\<rparr> 0 ''t'' ''k'' fmempty ?spec ?s = Ret (s', Inr item')"
    "\<forall>j enc perm sc. j \<noteq> ''k'' \<and> GetItem ''t'' j ?s \<noteq> None \<and> (\<forall>xs. mset (perm xs) = mset xs) \<and> SIndexSchema sc = None \<and> TotalSegments sc = 0 \<longrightarrow>
       Scan enc perm ''t'' sc s' = Panic" by (elim exE conjE)
  from this(1) this(2) [rule_format, OF j] show ?thesis by (intro exI conjI)
qed

section \<open>Transactions that fail in their second phase\<close>

text \<open>
  a transaction is not atomic. A transaction of a put and an update whose expression is malformed returns the expression's error, and the put
  stays written: the second phase applies the operations one by one and does not undo them.
\<close>

theorem failed_transaction_keeps_writes:
  assumes "OpType put = ''Put''" "CondExpr (OpCond put) = []"
    and "OpType upd = ''Update''" "CondExpr (OpCond upd) = []" "UpdExpr (OpUpdate upd) = ''SET q = if_not_exists(a)''"
  shows "\<exists>s'. TransactWriteItems uni [put, upd] s = Ret (s', Inl (RequiresExactlyTwo ''if_not_exists'')) \<and>
    GetItem (OpTable put) (OpPKHash put) s' = Some (OpItem put)"
proof -
  have parse: "parseUpdateClauses uni ''SET q = if_not_exists(a)'' = Ret (fmap_of_list [(''SET'', ''q = if_not_exists(a)'')])"
    "splitComma ''q = if_not_exists(a)'' = [''q = if_not_exists(a)'']" by code_simp+
  have fail: "applyUpdateExpression uni h item ''SET q = if_not_exists(a)'' names vs = Ret (h, Inl (RequiresExactlyTwo ''if_not_exists''))" for h item names vs
    by (simp add: applyUpdateExpression_def parse then_update_def parse_failing eval_malformed Let_def)
  let ?t = "OpTable put" and ?k = "OpPKHash put" and ?sch = "CondSchema (OpCond put)"
  let ?s0 = "tableMap ?t s"
  let ?s1 = "index ?t ?k (OpItem put) ?sch (set_item ?t ?k (OpItem put) (unindex ?t ?k (item_of ?s0 ?t ?k) ?sch ?s0))"
  let ?s2 = "tableMap (OpTable upd) ?s1"
  have "apply_op uni put s = Ret (?s1, Inr ())" using assms(1) by (simp add: apply_op_def Let_def)
  moreover have "apply_op uni upd ?s1 = Ret (?s2\<lparr>hp := hp ?s2\<rparr>, Inl (RequiresExactlyTwo ''if_not_exists''))"
    using assms(3,5) by (simp add: apply_op_def Let_def fail)
  ultimately have "TransactWriteItems uni [put, upd] s = Ret (?s2\<lparr>hp := hp ?s2\<rparr>, Inl (RequiresExactlyTwo ''if_not_exists''))"
    using assms(1-4) by (simp add: TransactWriteItems_def)
  moreover have "item_of ?s2 ?t ?k = Some (OpItem put)" using same_view_tableMap [of ?s1 "OpTable upd"] by (simp add: same_view_def)
  ultimately show ?thesis by (auto simp: GetItem_def)
qed

theorem failed_transaction_keeps_writes_witness:
  "\<exists>s'. TransactWriteItems \<lparr>uLower = id, uUpper = id\<rparr>
      [(idx_op [])\<lparr>OpType := ''Put'', OpPKHash := ''new'', OpItem := idx_item\<rparr>,
       (idx_op [])\<lparr>OpType := ''Update'', OpUpdate := \<lparr>UpdExpr = ''SET q = if_not_exists(a)'', UpdCond = [], UpdNames = fmempty, UpdValues = fmempty, UpdSchema = None\<rparr>\<rparr>]
      idx_store = Ret (s', Inl (RequiresExactlyTwo ''if_not_exists'')) \<and> GetItem ''t'' ''new'' s' = Some idx_item"
  using failed_transaction_keeps_writes [of "(idx_op [])\<lparr>OpType := ''Put'', OpPKHash := ''new'', OpItem := idx_item\<rparr>"
      "(idx_op [])\<lparr>OpType := ''Update'', OpUpdate := \<lparr>UpdExpr = ''SET q = if_not_exists(a)'', UpdCond = [], UpdNames = fmempty, UpdValues = fmempty, UpdSchema = None\<rparr>\<rparr>"]
  by (simp add: idx_op_def)

section \<open>Keys, comparisons and directions\<close>

text \<open>The direction of a query is ignored.\<close>

theorem query_ignores_direction: "Query uni perm t (q\<lparr>ScanIndexForward := b\<rparr>) s = Query uni perm t q s"
proof -
  have sel: "QIndexSchema (q\<lparr>ScanIndexForward := b\<rparr>) = QIndexSchema q" "KeyCond (q\<lparr>ScanIndexForward := b\<rparr>) = KeyCond q"
    "QFilter (q\<lparr>ScanIndexForward := b\<rparr>) = QFilter q" "QNames (q\<lparr>ScanIndexForward := b\<rparr>) = QNames q"
    "QValues (q\<lparr>ScanIndexForward := b\<rparr>) = QValues q" "QLimit (q\<lparr>ScanIndexForward := b\<rparr>) = QLimit q"
    "QStartKey (q\<lparr>ScanIndexForward := b\<rparr>) = QStartKey q" "sort_forward (q\<lparr>ScanIndexForward := b\<rparr>) = sort_forward q"
    by (simp_all add: sort_forward_def)
  show ?thesis unfolding Query_def query_candidates_def query_sort_def sel by (rule refl)
qed

text \<open>A range condition on the partition key passes the validation.\<close>

theorem partition_range_accepted: "ValidateKeyConditionExpression uni ''pk <= :v'' ''pk'' [] fmempty = Ret (Inr ())"
  by code_simp

text \<open>Any two values that are neither strings, numbers, binary nor boolean are equal.\<close>

theorem documents_compare_equal:
  assumes "v \<noteq> HNil" "w \<noteq> HNil" "hAttrVal h v = None" "hAttrVal h w = None" "attr_bool h v = None"
  shows "compareValues h v w CEq"
proof -
  have "ParseNumeric h v = None"
    using assms(3) by (auto simp: hAttrVal_def ParseNumeric_def split: option.splits if_splits)
  with assms show ?thesis by (simp add: compareValues_def cmp_string_def)
qed

text \<open>
  The batch reads of an item whose range attribute sorts before its partition attribute: the item is stored under the key
  schema's order and looked up under the order of the names.
\<close>

definition swapped_heap :: heap where
  "swapped_heap = \<lparr>objs = fmap_of_list [(0, fmap_of_list [(''S'', HStr ''1'')])], lim = 1\<rparr>"

definition swapped_key :: obj where
  "swapped_key = fmap_of_list [(''id'', HMap 0), (''at'', HMap 0)]"

theorem batch_get_misses_stored_item:
  "computePKHash swapped_heap swapped_key [''id'', ''at''] = Some ''id=map[S:1]|at=map[S:1]'' \<and>
   (\<exists>s. PutItem 0 ''t'' ''id=map[S:1]|at=map[S:1]'' swapped_key (idx_cond\<lparr>CondSchema := None\<rparr>) (NewMemoryDynamoDBItemStore swapped_heap) = Ret (s, Inr None) \<and>
      GetItem ''t'' ''id=map[S:1]|at=map[S:1]'' s = Some swapped_key \<and> BatchGetItems [(''t'', [swapped_key])] s fmempty = Some fmempty)"
proof -
  let ?s = "set_item ''t'' ''id=map[S:1]|at=map[S:1]'' swapped_key (tableMap ''t'' (NewMemoryDynamoDBItemStore swapped_heap))"
  have "PutItem 0 ''t'' ''id=map[S:1]|at=map[S:1]'' swapped_key (idx_cond\<lparr>CondSchema := None\<rparr>) (NewMemoryDynamoDBItemStore swapped_heap) = Ret (?s, Inr None)"
    "BatchGetItems [(''t'', [swapped_key])] ?s fmempty = Some fmempty"
    "computePKHash swapped_heap swapped_key [''id'', ''at''] = Some ''id=map[S:1]|at=map[S:1]''"
    "GetItem ''t'' ''id=map[S:1]|at=map[S:1]'' ?s = Some swapped_key" by code_simp+
  then show ?thesis by blast
qed

end
