(* ===== verification/Store_Bundle.thy ===== *)
theory Store_Bundle
  imports Go_Prelude
begin

text \<open>
  \<open>internal/aws/store/bundle\<close>: the wrappers that keep one store per account and region, per account, or one for all.

  A store is a pointer, so a bundle is a map from keys to addresses together with the memory of the stores that
  were built. \<open>Get\<close> looks a store up under the read lock, builds one outside the locks and installs it under the
  write lock unless another goroutine was faster. Each of these three parts is one step of a goroutine;
  the steps of several goroutines interleave. The laws of a store type are the locale \<open>vivified\<close>, under which a
  bundle is proved to behave as a function from keys to stores.
\<close>

section \<open>Scopes\<close>

datatype scope_error = InvalidAccount string | EmptyRegion

definition twelveDigit :: "string \<Rightarrow> bool" where
  "twelveDigit s \<longleftrightarrow> length s = 12 \<and> list_all is_digit s"

definition validateAccount :: "string \<Rightarrow> scope_error option" where
  "validateAccount account = (if \<not> twelveDigit account then Some (InvalidAccount account) else None)"

type_synonym localKey = "string \<times> string"

definition validateAccountRegion :: "localKey \<Rightarrow> scope_error option" where
  "validateAccountRegion k =
     (if \<not> twelveDigit (fst k) then Some (InvalidAccount (fst k)) else if snd k = [] then Some EmptyRegion else None)"

definition splitScope :: "string \<Rightarrow> (string \<times> string) option" where
  "splitScope s = (if CHR '':'' \<in> set s then Some (takeWhile (\<lambda>c. c \<noteq> CHR '':'') s, tl (dropWhile (\<lambda>c. c \<noteq> CHR '':'') s)) else None)"

section \<open>Bundles\<close>

text \<open>The fields of \<open>LocalBundle\<close> and \<open>CrossRegionBundle\<close>, which differ in their keys, and the memory of the stores.\<close>

record ('k, 't) Bundle =
  stores :: "('k, nat) fmap"
  construct :: "'k \<Rightarrow> 't"
  validate :: "('k \<Rightarrow> scope_error option) option"
  cells :: "(nat, 't) fmap"
  fresh :: nat

definition NewBundle :: "('k \<Rightarrow> 't) \<Rightarrow> ('k \<Rightarrow> scope_error option) option \<Rightarrow> ('k, 't) Bundle" where
  "NewBundle c v = \<lparr>stores = fmempty, construct = c, validate = v, cells = fmempty, fresh = 0\<rparr>"

definition refused :: "'k \<Rightarrow> ('k, 't) Bundle \<Rightarrow> scope_error option" where
  "refused k b = (case validate b of None \<Rightarrow> None | Some v \<Rightarrow> v k)"

definition build :: "'k \<Rightarrow> ('k, 't) Bundle \<Rightarrow> ('k, 't) Bundle \<times> nat" where
  "build k b = (b\<lparr>cells := fmupd (fresh b) (construct b k) (cells b), fresh := Suc (fresh b)\<rparr>, fresh b)"

definition install :: "'k \<Rightarrow> nat \<Rightarrow> ('k, 't) Bundle \<Rightarrow> ('k, 't) Bundle \<times> nat" where
  "install k p b =
     (case fmlookup (stores b) k of Some existing \<Rightarrow> (b, existing) | None \<Rightarrow> (b\<lparr>stores := fmupd k p (stores b)\<rparr>, p))"

definition bundle_Get :: "'k \<Rightarrow> ('k, 't) Bundle \<Rightarrow> scope_error + ('k, 't) Bundle \<times> nat" where
  "bundle_Get k b =
     (case refused k b of
        Some e \<Rightarrow> Inl e
      | None \<Rightarrow> Inr (case fmlookup (stores b) k of Some p \<Rightarrow> (b, p) | None \<Rightarrow> (case build k b of (b, p) \<Rightarrow> install k p b)))"

text \<open>
  Resetting the stores of the keys that \<open>P\<close> selects, in place. \<open>r\<close> is the \<open>Reset\<close> method where the store type
  has one. Every store is reset by itself, so that the order of the iteration is not visible.
\<close>

definition reset_where :: "('t \<Rightarrow> 't) option \<Rightarrow> ('k \<Rightarrow> bool) \<Rightarrow> ('k, 't) Bundle \<Rightarrow> ('k, 't) Bundle" where
  "reset_where r P b =
     (case r of
        None \<Rightarrow> b
      | Some f \<Rightarrow> b\<lparr>cells := fmmap_keys (\<lambda>p t. if fBex (fmdom (stores b)) (\<lambda>k. P k \<and> fmlookup (stores b) k = Some p) then f t else t) (cells b)\<rparr>)"

definition bundle_Reset :: "('t \<Rightarrow> 't) option \<Rightarrow> ('k, 't) Bundle \<Rightarrow> ('k, 't) Bundle" where
  "bundle_Reset r b = reset_where r (\<lambda>_. True) b"

definition ResetAndDiscard :: "('t \<Rightarrow> 't) option \<Rightarrow> ('k, 't) Bundle \<Rightarrow> ('k, 't) Bundle" where
  "ResetAndDiscard r b = (bundle_Reset r b)\<lparr>stores := fmempty\<rparr>"

definition bundle_ResetScope :: "('t \<Rightarrow> 't) option \<Rightarrow> 'k \<Rightarrow> ('k, 't) Bundle \<Rightarrow> ('k, 't) Bundle" where
  "bundle_ResetScope r k b = reset_where r (\<lambda>k'. k' = k) b"

definition bundle_ResetAccount :: "('t \<Rightarrow> 't) option \<Rightarrow> string \<Rightarrow> (localKey, 't) Bundle \<Rightarrow> (localKey, 't) Bundle" where
  "bundle_ResetAccount r account b = reset_where r (\<lambda>k. fst k = account) b"

section \<open>The constructors of the two kinds\<close>

definition NewLocal :: "(string \<Rightarrow> string \<Rightarrow> 't) \<Rightarrow> bool \<Rightarrow> (localKey, 't) Bundle" where
  "NewLocal c withValidate = NewBundle (\<lambda>k. c (fst k) (snd k)) (if withValidate then Some validateAccountRegion else None)"

definition NewCrossRegion :: "(string \<Rightarrow> 't) \<Rightarrow> bool \<Rightarrow> (string, 't) Bundle" where
  "NewCrossRegion c withValidate = NewBundle c (if withValidate then Some validateAccount else None)"

section \<open>One store for all accounts\<close>

text \<open>\<open>CrossAccountBundle\<close> runs every operation under its mutex; \<open>ca_store\<close> is \<open>None\<close> for \<open>nil\<close>.\<close>

record 't CrossAccountBundle =
  ca_store :: "'t option"
  ca_ready :: bool

definition CrossAccount_Get :: "'t \<Rightarrow> 't CrossAccountBundle \<Rightarrow> 't CrossAccountBundle \<times> 't option" where
  "CrossAccount_Get new b = (let b' = (if \<not> ca_ready b then b\<lparr>ca_store := Some new, ca_ready := True\<rparr> else b) in (b', ca_store b'))"

definition CrossAccount_Reset :: "('t \<Rightarrow> 't) option \<Rightarrow> 't CrossAccountBundle \<Rightarrow> 't CrossAccountBundle" where
  "CrossAccount_Reset r b = (case r of None \<Rightarrow> b | Some f \<Rightarrow> b\<lparr>ca_store := map_option f (ca_store b)\<rparr>)"

section \<open>Operations on the store of a scope\<close>

text \<open>
  A bundled store passes each operation to the store of its scope. \<open>view\<close> is the store that an operation
  on a scope meets: the one installed, or a new one.
\<close>

definition view :: "('k, 't) Bundle \<Rightarrow> 'k \<Rightarrow> 't" where
  "view b k = (case fmlookup (stores b) k of None \<Rightarrow> construct b k | Some p \<Rightarrow> the_default (construct b k) (fmlookup (cells b) p))"

definition at_scope :: "'k \<Rightarrow> ('t \<Rightarrow> ('t \<times> 'r) go_result) \<Rightarrow> ('k, 't) Bundle \<Rightarrow> (('k, 't) Bundle \<times> (scope_error + 'r)) go_result" where
  "at_scope k f b =
     (case bundle_Get k b of
        Inl e \<Rightarrow> Ret (b, Inl e)
      | Inr (b, p) \<Rightarrow>
          (case f (view b k) of
             Panic \<Rightarrow> Panic
           | Ret (t, r) \<Rightarrow> Ret (b\<lparr>cells := fmupd p t (cells b)\<rparr>, Inr r)))"

text \<open>
  A client's calls as values of type \<open>'c\<close>: a sequence of calls on one store, and a sequence of calls on the stores of
  several scopes.
\<close>

fun run_one :: "('c \<Rightarrow> 't \<Rightarrow> ('t \<times> 'r) go_result) \<Rightarrow> 'c list \<Rightarrow> 't \<Rightarrow> ('t \<times> 'r list) go_result" where
  "run_one serve [] t = Ret (t, [])"
| "run_one serve (c # cs) t =
     (case serve c t of
        Panic \<Rightarrow> Panic
      | Ret (t, r) \<Rightarrow> (case run_one serve cs t of Panic \<Rightarrow> Panic | Ret (t, rs) \<Rightarrow> Ret (t, r # rs)))"

fun run_calls :: "('k \<Rightarrow> 'c \<Rightarrow> 's \<Rightarrow> ('s \<times> 'r) go_result) \<Rightarrow> ('k \<times> 'c) list \<Rightarrow> 's \<Rightarrow> ('s \<times> ('k \<times> 'r) list) go_result" where
  "run_calls call [] b = Ret (b, [])"
| "run_calls call ((k, c) # cs) b =
     (case call k c b of
        Panic \<Rightarrow> Panic
      | Ret (b, r) \<Rightarrow> (case run_calls call cs b of Panic \<Rightarrow> Panic | Ret (b, rs) \<Rightarrow> Ret (b, (k, r) # rs)))"

definition at_key :: "'k \<Rightarrow> ('k \<times> 'x) list \<Rightarrow> 'x list" where
  "at_key k xs = map snd (filter (\<lambda>x. fst x = k) xs)"

text \<open>\<open>Iter\<close> visits the scopes in the order \<open>ks\<close> of the map's iteration.\<close>

definition Iter :: "'k list \<Rightarrow> ('k, 't) Bundle \<Rightarrow> ('k \<times> 't) list" where
  "Iter ks b = map (\<lambda>k. (k, view b k)) ks"

definition iteration :: "('k, 't) Bundle \<Rightarrow> 'k list \<Rightarrow> bool" where
  "iteration b ks \<longleftrightarrow> distinct ks \<and> set ks = fset (fmdom (stores b))"

text \<open>The documents of the scopes, up to the first that cannot be written, and reading them back.\<close>

fun snapshot_scopes :: "('t \<Rightarrow> 'e + 'd) \<Rightarrow> ('k \<times> 't) list \<Rightarrow> 'e + ('k \<times> 'd) list" where
  "snapshot_scopes snap [] = Inr []"
| "snapshot_scopes snap ((k, t) # kts) =
     (case snap t of
        Inl e \<Rightarrow> Inl e
      | Inr d \<Rightarrow> (case snapshot_scopes snap kts of Inl e \<Rightarrow> Inl e | Inr ds \<Rightarrow> Inr ((k, d) # ds)))"

fun restore_scopes :: "('d \<Rightarrow> 't \<Rightarrow> 'e + 't) \<Rightarrow> ('k \<times> 'd) list \<Rightarrow> ('k, 't) Bundle \<Rightarrow> ('k, 't) Bundle \<times> (scope_error + 'e) option" where
  "restore_scopes restore [] b = (b, None)"
| "restore_scopes restore ((k, d) # ds) b =
     (case bundle_Get k b of
        Inl e \<Rightarrow> (b, Some (Inl e))
      | Inr (b, p) \<Rightarrow>
          (case restore d (view b k) of
             Inl e \<Rightarrow> (b, Some (Inr e))
           | Inr t \<Rightarrow> restore_scopes restore ds (b\<lparr>cells := fmupd p t (cells b)\<rparr>)))"

section \<open>Goroutines\<close>

text \<open>Where a goroutine stands in its call of \<open>Get\<close>; \<open>Got\<close> holds the store that the call returned.\<close>

datatype 'k pc = Idle | Refused scope_error | Calling 'k | Missed 'k | Built 'k nat | Got 'k nat

text \<open>What clients do to stores: an operation on the store of a key, and resets.\<close>

datatype ('k, 't) event = Operate 'k "'t \<Rightarrow> 't" | Wipe "'k \<Rightarrow> bool"

record ('k, 't) world =
  bun :: "('k, 't) Bundle"
  pcs :: "nat \<Rightarrow> 'k pc"
  trace :: "('k, 't) event list"

definition at_rest :: "'k pc \<Rightarrow> bool" where
  "at_rest c \<longleftrightarrow> (case c of Idle \<Rightarrow> True | Refused _ \<Rightarrow> True | Got _ _ \<Rightarrow> True | _ \<Rightarrow> False)"

definition goes :: "nat \<Rightarrow> 'k pc \<Rightarrow> ('k, 't) world \<Rightarrow> ('k, 't) world" where
  "goes i c w = w\<lparr>pcs := (pcs w)(i := c)\<rparr>"

inductive step :: "('t \<Rightarrow> 't) option \<Rightarrow> ('k, 't) world \<Rightarrow> ('k, 't) world \<Rightarrow> bool" for r where
  refuse: "at_rest (pcs w i) \<Longrightarrow> refused k (bun w) = Some e \<Longrightarrow> step r w (goes i (Refused e) w)"
| call: "at_rest (pcs w i) \<Longrightarrow> refused k (bun w) = None \<Longrightarrow> step r w (goes i (Calling k) w)"
| hit: "pcs w i = Calling k \<Longrightarrow> fmlookup (stores (bun w)) k = Some p \<Longrightarrow> step r w (goes i (Got k p) w)"
| miss: "pcs w i = Calling k \<Longrightarrow> fmlookup (stores (bun w)) k = None \<Longrightarrow> step r w (goes i (Missed k) w)"
| build: "pcs w i = Missed k \<Longrightarrow> build k (bun w) = (b, p) \<Longrightarrow> step r w (goes i (Built k p) (w\<lparr>bun := b\<rparr>))"
| install: "pcs w i = Built k p \<Longrightarrow> install k p (bun w) = (b, q) \<Longrightarrow> step r w (goes i (Got k q) (w\<lparr>bun := b\<rparr>))"
| operate: "pcs w i = Got k p \<Longrightarrow> fmlookup (cells (bun w)) p = Some t \<Longrightarrow>
    step r w (w\<lparr>bun := (bun w)\<lparr>cells := fmupd p (f t) (cells (bun w))\<rparr>, trace := trace w @ [Operate k f]\<rparr>)"
| wipe: "step r w (w\<lparr>bun := reset_where r P (bun w), trace := trace w @ [Wipe P]\<rparr>)"

inductive reach :: "('t \<Rightarrow> 't) option \<Rightarrow> ('k, 't) Bundle \<Rightarrow> ('k, 't) world \<Rightarrow> bool" for r b where
  start: "reach r b \<lparr>bun = b, pcs = (\<lambda>_. Idle), trace = []\<rparr>"
| more: "reach r b w \<Longrightarrow> step r w w' \<Longrightarrow> reach r b w'"

section \<open>The specification: a function from keys to stores\<close>

fun effect :: "('t \<Rightarrow> 't) option \<Rightarrow> ('k, 't) event \<Rightarrow> ('k \<Rightarrow> 't) \<Rightarrow> 'k \<Rightarrow> 't" where
  "effect r (Operate k f) s = s(k := f (s k))"
| "effect r (Wipe P) s = (\<lambda>k. if P k then the_default id r (s k) else s k)"

text \<open>
  What every interleaving keeps: an address belongs to one key, a goroutine holds the installed store of
  its key, and a store that is built and not yet installed is new and known to one goroutine.
\<close>

definition good_bundle :: "('k \<Rightarrow> 't) \<Rightarrow> ('k, 't) Bundle \<Rightarrow> bool" where
  "good_bundle new b \<longleftrightarrow> construct b = new \<and>
     (\<forall>k k' p. fmlookup (stores b) k = Some p \<longrightarrow> fmlookup (stores b) k' = Some p \<longrightarrow> k = k') \<and>
     (\<forall>k p. fmlookup (stores b) k = Some p \<longrightarrow> fmlookup (cells b) p \<noteq> None) \<and>
     (\<forall>p. fmlookup (cells b) p \<noteq> None \<longrightarrow> p < fresh b)"

definition own :: "('k \<Rightarrow> 't) \<Rightarrow> ('k, 't) Bundle \<Rightarrow> (nat \<Rightarrow> 'k pc) \<Rightarrow> nat \<Rightarrow> bool" where
  "own new b c i \<longleftrightarrow>
     (case c i of
        Got k p \<Rightarrow> fmlookup (stores b) k = Some p
      | Built k p \<Rightarrow> fmlookup (cells b) p = Some (new k) \<and> p |\<notin>| fmran (stores b) \<and> (\<forall>j k'. j \<noteq> i \<longrightarrow> c j \<noteq> Built k' p)
      | _ \<Rightarrow> True)"

section \<open>The laws of a store type\<close>

text \<open>A new store is empty: resetting it changes nothing.\<close>

locale vivified =
  fixes new :: "'k \<Rightarrow> 't" and reset :: "'t \<Rightarrow> 't"
  assumes reset_new: "reset (new k) = new k"
begin

definition good_world :: "('k, 't) world \<Rightarrow> bool" where
  "good_world w \<longleftrightarrow> good_bundle new (bun w) \<and> (\<forall>i. own new (bun w) (pcs w) i) \<and>
     view (bun w) = fold (effect (Some reset)) (trace w) new"

lemma good_new: "good_bundle new (NewBundle new v)"
  by (simp add: good_bundle_def NewBundle_def)

lemma validate_new [simp]: "validate (NewBundle new v) = v"
  by (simp add: NewBundle_def)

lemma view_new: "view (NewBundle new v) = new"
  by (simp add: view_def NewBundle_def fun_eq_iff)

lemma good_inj: "good_bundle new b \<Longrightarrow> fmlookup (stores b) k = Some p \<Longrightarrow> fmlookup (stores b) k' = Some p \<longleftrightarrow> k' = k"
  by (auto simp: good_bundle_def)

lemma good_cell: "good_bundle new b \<Longrightarrow> fmlookup (stores b) k = Some p \<Longrightarrow> \<exists>t. fmlookup (cells b) p = Some t \<and> view b k = t"
proof -
  assume "good_bundle new b" and s: "fmlookup (stores b) k = Some p"
  then have "fmlookup (cells b) p \<noteq> None" unfolding good_bundle_def by blast
  with s show ?thesis by (auto simp: view_def)
qed

lemma view_frame: "construct b' = construct b \<Longrightarrow> stores b' = stores b \<Longrightarrow>
   (\<And>p. fmlookup (stores b) k = Some p \<Longrightarrow> fmlookup (cells b') p = fmlookup (cells b) p) \<Longrightarrow> view b' k = view b k"
  by (simp add: view_def split: option.splits)

lemma good_build:
  assumes "good_bundle new b" "build k b = (b', p)"
  shows "good_bundle new b'" "view b' = view b" "stores b' = stores b" "fmlookup (cells b) p = None" "p |\<notin>| fmran (stores b)"
    "cells b' = fmupd p (new k) (cells b)"
proof -
  have b': "b' = b\<lparr>cells := fmupd (fresh b) (new k) (cells b), fresh := Suc (fresh b)\<rparr>" and p: "p = fresh b"
    using assms by (auto simp: build_def good_bundle_def)
  show 4: "fmlookup (cells b) p = None" using assms(1) p by (auto simp: good_bundle_def)
  show 5: "p |\<notin>| fmran (stores b)" using good_cell [OF assms(1), of _ p] 4 by (auto simp: fmlookup_ran_iff)
  show "view b' = view b" by (rule ext, rule view_frame) (use 5 p in \<open>auto simp: b' fmlookup_ran_iff\<close>)
  show "good_bundle new b'" using assms(1) by (auto simp: good_bundle_def b' intro: less_SucI)
qed (use assms in \<open>auto simp: build_def good_bundle_def\<close>)

lemma good_install:
  assumes "good_bundle new b" "fmlookup (cells b) p = Some (new k)" "p |\<notin>| fmran (stores b)" "install k p b = (b', q)"
  shows "good_bundle new b'" "view b' = view b" "fmlookup (stores b') k = Some q" "cells b' = cells b"
    "stores b' = stores b \<or> q = p \<and> fmlookup (stores b) k = None \<and> stores b' = fmupd k p (stores b)"
proof -
  have c: "b' = b \<and> fmlookup (stores b) k = Some q \<or> b' = b\<lparr>stores := fmupd k p (stores b)\<rparr> \<and> q = p \<and> fmlookup (stores b) k = None"
    using assms(4) by (auto simp: install_def split: option.splits)
  have p: "fmlookup (stores b) k' \<noteq> Some p" for k' using assms(3) by (auto simp: fmlookup_ran_iff)
  show "good_bundle new b'" using c assms(1,2) p by (auto simp: good_bundle_def split: if_splits)
  have "view b' k' = view b k'" if "b' = b\<lparr>stores := fmupd k p (stores b)\<rparr>" "fmlookup (stores b) k = None" for k'
    using that assms(1,2) by (cases "k' = k") (simp_all add: view_def good_bundle_def split: option.split)
  with c show "view b' = view b" by auto
qed (use assms in \<open>auto simp: install_def split: option.splits\<close>)

lemma good_operate:
  assumes "good_bundle new b" "fmlookup (stores b) k = Some p"
  shows "good_bundle new (b\<lparr>cells := fmupd p t (cells b)\<rparr>)" "view (b\<lparr>cells := fmupd p t (cells b)\<rparr>) = (view b)(k := t)"
proof -
  show "good_bundle new (b\<lparr>cells := fmupd p t (cells b)\<rparr>)" using assms by (auto simp: good_bundle_def)
  have "view (b\<lparr>cells := fmupd p t (cells b)\<rparr>) k' = view b k'" if "k' \<noteq> k" for k'
    by (rule view_frame) (use that good_inj [OF assms] in auto)
  then show "view (b\<lparr>cells := fmupd p t (cells b)\<rparr>) = (view b)(k := t)" using assms by (auto simp: fun_eq_iff view_def)
qed

lemma good_reset:
  assumes "good_bundle new b"
  shows "good_bundle new (reset_where (Some reset) P b)" "view (reset_where (Some reset) P b) = effect (Some reset) (Wipe P) (view b)"
proof -
  show "good_bundle new (reset_where (Some reset) P b)" using assms by (auto simp: good_bundle_def reset_where_def)
  have "view (reset_where (Some reset) P b) k = effect (Some reset) (Wipe P) (view b) k" for k
  proof (cases "fmlookup (stores b) k")
    case None
    with assms show ?thesis by (auto simp: view_def reset_where_def good_bundle_def reset_new)
  next
    case (Some p)
    have sel: "fBex (fmdom (stores b)) (\<lambda>k. P k \<and> fmlookup (stores b) k = Some p) \<longleftrightarrow> P k"
      using Some good_inj [OF assms Some] by (auto simp: fmlookup_dom_iff)
    from good_cell [OF assms Some] obtain t where "fmlookup (cells b) p = Some t" "view b k = t" by blast
    with Some sel show ?thesis by (simp add: view_def reset_where_def)
  qed
  then show "view (reset_where (Some reset) P b) = effect (Some reset) (Wipe P) (view b)" by (rule ext)
qed

text \<open>A goroutine that goes to another place, and builds nothing.\<close>

lemma good_goes:
  assumes "good_world w" "\<And>k p. c \<noteq> Built k p" "\<And>k p. c = Got k p \<Longrightarrow> fmlookup (stores (bun w)) k = Some p"
  shows "good_world (goes i c w)"
proof -
  from assms(1) have o: "own new (bun w) (pcs w) j" for j by (simp add: good_world_def)
  have "own new (bun w) (pcs (goes i c w)) j" for j
    using o [of j] assms(2,3) by (auto simp: own_def goes_def split: pc.splits)
  with assms(1) show ?thesis by (simp add: good_world_def goes_def)
qed

lemma good_step: "step (Some reset) w w' \<Longrightarrow> good_world w \<Longrightarrow> good_world w'"
proof (induction rule: step.induct)
  case (build w i k b p)
  then have g: "good_bundle new (bun w)" and o: "\<And>j. own new (bun w) (pcs w) j" by (auto simp: good_world_def)
  note gb = good_build [OF g build.hyps(2)]
  have fresh: "pcs w j \<noteq> Built k' p" for j k' using o [of j] gb(4) by (auto simp: own_def)
  have "own new b (pcs (goes i (Built k p) w)) j" for j
  proof (cases "j = i")
    case False
    with o [of j] fresh gb(4,5) show ?thesis by (auto simp: own_def goes_def gb(3,6) split: pc.splits)
  qed (use fresh gb(5) in \<open>simp add: own_def goes_def gb(3,6)\<close>)
  with gb build.prems show ?case by (simp add: good_world_def goes_def)
next
  case (install w i k p b q)
  then have g: "good_bundle new (bun w)" and o: "\<And>j. own new (bun w) (pcs w) j" by (auto simp: good_world_def)
  from o [of i] install.hyps(1) have p: "fmlookup (cells (bun w)) p = Some (new k)" "p |\<notin>| fmran (stores (bun w))"
    "\<And>j. j \<noteq> i \<Longrightarrow> \<forall>k'. pcs w j \<noteq> Built k' p" by (auto simp: own_def)
  note gi = good_install [OF g p(1,2) install.hyps(2)]
  have "own new b (pcs (goes i (Got k q) w)) j" for j
  proof (cases "j = i")
    case False
    with o [of j] gi(3-5) p(3) [OF False] show ?thesis
      by (auto simp: own_def goes_def fmlookup_ran_iff split: pc.splits if_splits)
  qed (use gi(3) in \<open>simp add: own_def goes_def\<close>)
  with gi install.prems show ?case by (simp add: good_world_def goes_def)
next
  case (operate w i k p t f)
  then have g: "good_bundle new (bun w)" and o: "\<And>j. own new (bun w) (pcs w) j" by (auto simp: good_world_def)
  from o [of i] operate.hyps(1) have s: "fmlookup (stores (bun w)) k = Some p" by (simp add: own_def)
  have "own new ((bun w)\<lparr>cells := fmupd p (f t) (cells (bun w))\<rparr>) (pcs w) j" for j
    using o [of j] s by (auto simp: own_def fmlookup_ran_iff split: pc.splits)
  moreover have "view (bun w) k = t" using good_cell [OF g s] operate.hyps(2) by auto
  ultimately show ?case using operate.prems good_operate [OF g s, of "f t"] by (simp add: good_world_def)
next
  case (wipe w P)
  then have g: "good_bundle new (bun w)" and o: "\<And>j. own new (bun w) (pcs w) j" by (auto simp: good_world_def)
  have "own new (reset_where (Some reset) P (bun w)) (pcs w) j" for j
    using o [of j] by (auto simp: own_def reset_where_def fmlookup_ran_iff fmlookup_dom_iff split: pc.splits)
  with wipe good_reset [OF g, of P] show ?case by (simp add: good_world_def)
qed (auto intro: good_goes)

lemma reach_good: "reach (Some reset) (NewBundle new v) w \<Longrightarrow> good_world w"
proof (induction rule: reach.induct)
  case start
  show ?case by (simp add: good_world_def good_new view_new own_def)
qed (rule good_step)

lemma reach_validate: "reach r b w \<Longrightarrow> validate (bun w) = validate b"
proof (induction rule: reach.induct)
  case (more w w')
  from more.hyps(2) have "validate (bun w') = validate (bun w)"
    by cases (auto simp: goes_def build_def install_def reset_where_def split: option.splits)
  with more.IH show ?case by simp
qed simp

lemma reach_ready: "reach (Some reset) (NewBundle new None) w \<Longrightarrow> good_bundle new (bun w) \<and> validate (bun w) = None"
  using reach_good reach_validate by (fastforce simp: good_world_def NewBundle_def)

text \<open>
  Every interleaving of calls, operations and resets: two results are the same store exactly when they are for the
  same key, and the stores hold the effects of the operations on their keys, in the order in which they ran.
\<close>

lemma one_store_per_key:
  assumes "reach (Some reset) (NewBundle new v) w"
  shows "pcs w i = Got k p \<Longrightarrow> pcs w j = Got k' p' \<Longrightarrow> p = p' \<longleftrightarrow> k = k'"
    and "view (bun w) = fold (effect (Some reset)) (trace w) new"
    and "pcs w i = Got k p \<Longrightarrow> fmlookup (cells (bun w)) p = Some (view (bun w) k)"
proof -
  from reach_good [OF assms] have g: "good_bundle new (bun w)" and o: "\<And>i. own new (bun w) (pcs w) i"
    and v: "view (bun w) = fold (effect (Some reset)) (trace w) new" by (auto simp: good_world_def)
  show "p = p' \<longleftrightarrow> k = k'" if "pcs w i = Got k p" "pcs w j = Got k' p'"
    using o [of i] o [of j] that good_inj [OF g] by (auto simp: own_def)
  show "fmlookup (cells (bun w)) p = Some (view (bun w) k)" if "pcs w i = Got k p"
    using o [of i] that good_cell [OF g] by (auto simp: own_def)
qed (use reach_good [OF assms] in \<open>simp add: good_world_def\<close>)

text \<open>A goroutine alone that asks for the store of a key and runs one operation on it.\<close>

definition solo_end :: "'k \<Rightarrow> ('t \<Rightarrow> 't) \<Rightarrow> ('k, 't) world" where
  "solo_end k f =
     \<lparr>bun = (NewBundle new None)\<lparr>stores := fmupd k 0 fmempty, cells := fmupd 0 (f (new k)) fmempty, fresh := 1\<rparr>,
      pcs = (\<lambda>_. Idle)(0 := Got k 0), trace = [Operate k f]\<rparr>"

lemma solo_reached: "reach r (NewBundle new None) (solo_end k f)"
proof -
  let ?B = "NewBundle new None"
  let ?b1 = "?B\<lparr>cells := fmupd 0 (new k) fmempty, fresh := 1\<rparr>"
  let ?b2 = "?b1\<lparr>stores := fmupd k 0 fmempty\<rparr>"
  let ?w = "\<lambda>b c. \<lparr>bun = b, pcs = (\<lambda>_. Idle)(0 := c), trace = []\<rparr>"
  note defs = NewBundle_def refused_def at_rest_def goes_def build_def install_def
  have "reach r ?B (?w ?B Idle)" using reach.start [of r ?B] by (simp add: fun_upd_def)
  then have "reach r ?B (?w ?B (Calling k))"
    by (rule reach.more) (use step.call [of "?w ?B Idle" 0 k r] in \<open>simp add: defs\<close>)
  then have "reach r ?B (?w ?B (Missed k))"
    by (rule reach.more) (use step.miss [of "?w ?B (Calling k)" 0 k r] in \<open>simp add: defs\<close>)
  then have "reach r ?B (?w ?b1 (Built k 0))"
    by (rule reach.more) (use step.build [of "?w ?B (Missed k)" 0 k ?b1 0 r] in \<open>simp add: defs\<close>)
  then have "reach r ?B (?w ?b2 (Got k 0))"
    by (rule reach.more) (use step.install [of "?w ?b1 (Built k 0)" 0 k 0 ?b2 0 r] in \<open>simp add: defs\<close>)
  then show ?thesis
    by (rule reach.more) (use step.operate [of "?w ?b2 (Got k 0)" 0 k 0 "new k" r f] in \<open>simp add: solo_end_def defs\<close>)
qed

section \<open>One operation after another\<close>

lemma good_get:
  assumes "good_bundle new b" "validate b = None"
  obtains b' p where "bundle_Get k b = Inr (b', p)" "good_bundle new b'" "validate b' = None" "view b' = view b"
    "fmlookup (stores b') k = Some p"
proof (cases "fmlookup (stores b) k")
  case (Some p)
  with assms show ?thesis by (intro that [of b p]) (simp_all add: bundle_Get_def refused_def)
next
  case None
  obtain b1 p where 1: "build k b = (b1, p)" by (cases "build k b")
  note gb = good_build [OF assms(1) 1]
  obtain b2 q where 2: "install k p b1 = (b2, q)" by (cases "install k p b1")
  have "fmlookup (cells b1) p = Some (new k)" "p |\<notin>| fmran (stores b1)" using gb by simp_all
  note gi = good_install [OF gb(1) this 2]
  have "validate b2 = None" using assms(2) 1 2 by (auto simp: build_def install_def split: option.splits)
  with gi gb None assms(2) 1 2 show ?thesis by (intro that [of b2 q]) (simp_all add: bundle_Get_def refused_def)
qed

text \<open>An operation on a scope is the operation on the scope's store, and leaves every other scope as it is.\<close>

lemma at_scope_view:
  assumes "good_bundle new b" "validate b = None"
  shows "f (view b k) = Panic \<Longrightarrow> at_scope k f b = Panic"
    and "f (view b k) = Ret (t, r) \<Longrightarrow>
      \<exists>b'. at_scope k f b = Ret (b', Inr r) \<and> view b' = (view b)(k := t) \<and> good_bundle new b' \<and> validate b' = None"
proof -
  obtain b' p where g: "bundle_Get k b = Inr (b', p)" "good_bundle new b'" "validate b' = None" "view b' = view b"
    "fmlookup (stores b') k = Some p" by (rule good_get [OF assms])
  show "f (view b k) = Panic \<Longrightarrow> at_scope k f b = Panic" by (simp add: at_scope_def g(1,4))
  show "\<exists>b'. at_scope k f b = Ret (b', Inr r) \<and> view b' = (view b)(k := t) \<and> good_bundle new b' \<and> validate b' = None"
    if "f (view b k) = Ret (t, r)"
    using that good_operate [OF g(2,5), of t] g(3) by (simp add: at_scope_def g(1,4))
qed

text \<open>
  A sequence of calls on several scopes answers every scope as if the scope's own calls had run on a store of its own,
  and panics only where one of these runs does.
\<close>

lemma run_calls_view:
  assumes "good_bundle new b" "validate b = None"
  shows "case run_calls (\<lambda>k c. at_scope k (serve c)) cs b of
      Panic \<Rightarrow> \<exists>k. run_one serve (at_key k cs) (view b k) = Panic
    | Ret (b', rs) \<Rightarrow> good_bundle new b' \<and> validate b' = None \<and>
        (\<forall>k. \<exists>ts. run_one serve (at_key k cs) (view b k) = Ret (view b' k, ts) \<and> at_key k rs = map Inr ts)"
  using assms
proof (induction cs arbitrary: b)
  case (Cons kc cs)
  obtain k c where kc: "kc = (k, c)" by (cases kc)
  show ?case
  proof (cases "serve c (view b k)")
    case Panic
    with at_scope_view(1) [OF Cons.prems, of "serve c" k] show ?thesis by (auto simp: kc at_key_def intro!: exI [of _ k])
  next
    case (Ret p)
    then obtain t r where tr: "serve c (view b k) = Ret (t, r)" by (cases p) auto
    from at_scope_view(2) [OF Cons.prems, of "serve c" k, OF tr] obtain b1 where
      b1: "at_scope k (serve c) b = Ret (b1, Inr r)" "view b1 = (view b)(k := t)" "good_bundle new b1" "validate b1 = None" by auto
    note IH = Cons.IH [OF b1(3,4)]
    have one: "run_one serve (at_key k' ((k, c) # cs)) (view b k') =
        (case run_one serve (at_key k' cs) (view b1 k') of Panic \<Rightarrow> Panic
         | Ret (t, rs) \<Rightarrow> Ret (t, if k' = k then r # rs else rs))" for k'
      by (auto simp: at_key_def tr b1(2) split: go_result.splits)
    show ?thesis
    proof (cases "run_calls (\<lambda>k c. at_scope k (serve c)) cs b1")
      case Panic
      with IH obtain k' where "run_one serve (at_key k' cs) (view b1 k') = Panic" by auto
      with one [of k'] Panic b1(1) show ?thesis by (auto simp: kc intro!: exI [of _ k'])
    next
      case (Ret p)
      then obtain b' rs where rs: "run_calls (\<lambda>k c. at_scope k (serve c)) cs b1 = Ret (b', rs)" by (cases p) auto
      with IH have "good_bundle new b'" "validate b' = None"
        and each: "\<And>k. \<exists>ts. run_one serve (at_key k cs) (view b1 k) = Ret (view b' k, ts) \<and> at_key k rs = map Inr ts" by auto
      moreover have "\<exists>ts. run_one serve (at_key k' ((k, c) # cs)) (view b k') = Ret (view b' k', ts) \<and>
          at_key k' ((k, Inr r) # rs) = map Inr ts" for k'
        using each [of k'] one [of k'] by (auto simp: at_key_def)
      ultimately show ?thesis by (simp add: kc b1(1) rs)
    qed
  qed
qed (simp add: at_key_def)

lemma good_discard: "good_bundle new b \<Longrightarrow> good_bundle new (ResetAndDiscard r b) \<and> view (ResetAndDiscard r b) = new"
  by (auto simp: good_bundle_def ResetAndDiscard_def bundle_Reset_def reset_where_def view_def fun_eq_iff split: option.splits)

lemma validate_discard [simp]: "validate (ResetAndDiscard r b) = validate b"
  by (simp add: ResetAndDiscard_def bundle_Reset_def reset_where_def split: option.splits)

lemma restore_scopes_view:
  assumes "good_bundle new b" "validate b = None" "distinct (map fst ds)" "\<forall>(k, d) \<in> set ds. restore d (view b k) = Inr (g k)"
  shows "\<exists>b'. restore_scopes restore ds b = (b', None) \<and> good_bundle new b' \<and> validate b' = None \<and>
    view b' = (\<lambda>k. if k \<in> fst ` set ds then g k else view b k)"
  using assms
proof (induction ds arbitrary: b)
  case (Cons kd ds)
  obtain k d where kd: "kd = (k, d)" by (cases kd)
  obtain b1 p where 1: "bundle_Get k b = Inr (b1, p)" "good_bundle new b1" "validate b1 = None" "view b1 = view b"
    "fmlookup (stores b1) k = Some p" by (rule good_get [OF Cons.prems(1,2)])
  let ?b2 = "b1\<lparr>cells := fmupd p (g k) (cells b1)\<rparr>"
  note 2 = good_operate [OF 1(2,5), of "g k"]
  have "\<forall>(k', d) \<in> set ds. restore d (view ?b2 k') = Inr (g k')"
    using Cons.prems(3,4) 2(2) by (force simp: kd 1(4))
  from Cons.IH [OF 2(1) _ _ this] 1(3) Cons.prems(3) kd obtain b' where
    "restore_scopes restore ds ?b2 = (b', None)" "good_bundle new b'" "validate b' = None"
    "view b' = (\<lambda>k. if k \<in> fst ` set ds then g k else view ?b2 k)" by auto
  with Cons.prems(4) 2(2) show ?case by (auto simp: kd 1(1,4) fun_eq_iff)
qed auto

lemma view_beyond: "good_bundle new b \<Longrightarrow> iteration b ks \<Longrightarrow> k \<notin> set ks \<Longrightarrow> view b k = new k"
  by (auto simp: good_bundle_def iteration_def view_def fmlookup_dom_iff split: option.splits)

end

lemma restore_scopes_map: "restore_scopes restore (map (apsnd f) ds) b = restore_scopes (\<lambda>d. restore (f d)) ds b"
  by (induction ds arbitrary: b) (auto split: sum.splits prod.splits)

lemma snapshot_scopes_iff: "snapshot_scopes snap kts = Inr ds \<longleftrightarrow> list_all2 (\<lambda>(k, t) (k', d). k' = k \<and> snap t = Inr d) kts ds"
  by (induction snap kts arbitrary: ds rule: snapshot_scopes.induct) (auto simp: list_all2_Cons1 split: sum.splits)

section \<open>Stores that can be saved\<close>

text \<open>A store is restored from its document to one that is the \<open>same\<close>, whatever store reads the document.\<close>

locale snapshotted = vivified new reset
  for new :: "'k \<Rightarrow> 't" and reset :: "'t \<Rightarrow> 't" +
  fixes snap :: "'t \<Rightarrow> 'e + 'd" and restore :: "'d \<Rightarrow> 't \<Rightarrow> 'f + 't" and same :: "'t \<Rightarrow> 't \<Rightarrow> bool"
  assumes restore_snap: "snap t = Inr d \<Longrightarrow> \<exists>t'. restore d t0 = Inr t' \<and> same t t'"
    and same_new: "same (new k) (new k)"
begin

lemma restore_snapshot_scopes:
  assumes b: "good_bundle new b" "iteration b ks" "snapshot_scopes snap (Iter ks b) = Inr ds"
    and b0: "good_bundle new b0" "validate b0 = None"
  shows "\<exists>b'. restore_scopes restore ds (ResetAndDiscard r b0) = (b', None) \<and> good_bundle new b' \<and> (\<forall>k. same (view b k) (view b' k))"
proof -
  from b(3) have l: "list_all2 (\<lambda>k (k', d). k' = k \<and> snap (view b k) = Inr d) ks ds"
    by (auto simp: snapshot_scopes_iff Iter_def list_all2_map1 split_beta elim!: list.rel_mono_strong)
  then have keys: "map fst ds = ks" by (induction rule: list_all2_induct) auto
  then have dist: "distinct (map fst ds)" using b(2) by (simp add: iteration_def)
  have snaps: "snap (view b k) = Inr d" if "(k, d) \<in> set ds" for k d
    using l that by (induction rule: list_all2_induct) auto
  define g where "g k = projr (restore (the (map_of ds k)) (new k))" for k
  note disc = good_discard [OF b0(1), of r, THEN conjunct1] good_discard [OF b0(1), of r, THEN conjunct2]
  have g: "restore d (new k) = Inr (g k) \<and> same (view b k) (g k)" if "(k, d) \<in> set ds" for k d
    using restore_snap [OF snaps [OF that], of "new k"] dist that by (auto simp: g_def)
  then have "\<forall>(k, d) \<in> set ds. restore d (view (ResetAndDiscard r b0) k) = Inr (g k)" by (auto simp: disc(2))
  from restore_scopes_view [OF disc(1) _ dist this, unfolded disc(2)] b0(2) obtain b' where
    b': "restore_scopes restore ds (ResetAndDiscard r b0) = (b', None)" "good_bundle new b'"
    "view b' = (\<lambda>k. if k \<in> fst ` set ds then g k else new k)" by auto
  have "same (view b k) (view b' k)" for k
  proof (cases "k \<in> fst ` set ds")
    case True
    with g b'(3) show ?thesis by auto
  next
    case False
    then have "view b k = new k" using keys by (intro view_beyond [OF b(1,2)]) auto
    with False b'(3) same_new show ?thesis by simp
  qed
  with b'(1,2) show ?thesis by auto
qed

end

end
