(* ===== verification/Sqs_Scopes.thy ===== *)
theory Sqs_Scopes
  imports Sqs_Store Store_Bundle
begin

text \<open>
  \<open>internal/aws/store/sqs/bundled.go\<close>: one message store per account and region, each method passed to the store of
  its scope. The methods of the interface \<open>SQSMessageStore\<close> are values of a datatype, so that sequences
  of calls can be compared.
\<close>

section \<open>Calls\<close>

text \<open>
  The methods of the interface with their arguments; the hash, the random values and the readings of the clock come first.
\<close>

datatype sqs_call =
    CallSend "string \<Rightarrow> 128 word" nat time time time SQSMessage
  | CallReceive "nat \<Rightarrow> nat" string int time
  | CallDelete string string
  | CallChangeVisibility string string int time
  | CallPurge string
  | CallGetApproximateCounts string time
  | CallPeek string int int
  | CallSetQueueRetention string int

datatype sqs_reply =
    Sent string string
  | Messages "SQSMessage list"
  | Done
  | Failed string
  | Counts nat nat nat
  | Peeked "SQSMessage list" nat

definition answer_error :: "MemoryMessageStore \<Rightarrow> string + MemoryMessageStore \<Rightarrow> (MemoryMessageStore \<times> sqs_reply) go_result" where
  "answer_error s r = Ret (case r of Inl e \<Rightarrow> (s, Failed e) | Inr s' \<Rightarrow> (s', Done))"

fun sqs_serve :: "sqs_call \<Rightarrow> MemoryMessageStore \<Rightarrow> (MemoryMessageStore \<times> sqs_reply) go_result" where
  "sqs_serve (CallSend md5 r now_check now_expiry now_sent msg) s =
     (case Send md5 r now_check now_expiry now_sent msg s of (s, dedupID, sn) \<Rightarrow> Ret (s, Sent dedupID sn))"
| "sqs_serve (CallReceive rnd url maxMessages now) s = (case Receive rnd url maxMessages now s of (s, ms) \<Rightarrow> Ret (s, Messages ms))"
| "sqs_serve (CallDelete url h) s = answer_error s (Delete url h s)"
| "sqs_serve (CallChangeVisibility url h timeoutSec now) s = answer_error s (ChangeVisibility url h timeoutSec now s)"
| "sqs_serve (CallPurge url) s = Ret (Purge url s, Done)"
| "sqs_serve (CallGetApproximateCounts url now) s = (case GetApproximateCounts url now s of (v, n, d) \<Rightarrow> Ret (s, Counts v n d))"
| "sqs_serve (CallPeek url offset limit) s =
     (case Peek url offset limit s of Panic \<Rightarrow> Panic | Ret (ms, n) \<Rightarrow> Ret (s, Peeked ms n))"
| "sqs_serve (CallSetQueueRetention url secs) s = Ret (SetQueueRetention url secs s, Done)"

section \<open>The bundled store\<close>

type_synonym BundledSQSStore = "(localKey, MemoryMessageStore) Bundle"

definition NewBundledSQSStore :: BundledSQSStore where
  "NewBundledSQSStore = NewLocal (\<lambda>_ _. NewMemoryMessageStore) False"

definition bundled_call :: "string \<Rightarrow> string \<Rightarrow> sqs_call \<Rightarrow> BundledSQSStore \<Rightarrow> (BundledSQSStore \<times> (scope_error + sqs_reply)) go_result" where
  "bundled_call account region c b = at_scope (account, region) (sqs_serve c) b"

definition BundledReset :: "BundledSQSStore \<Rightarrow> BundledSQSStore" where
  "BundledReset b = bundle_Reset (Some Reset) b"

definition BundledResetScope :: "string \<Rightarrow> string \<Rightarrow> BundledSQSStore \<Rightarrow> BundledSQSStore" where
  "BundledResetScope account region b = bundle_ResetScope (Some Reset) (account, region) b"

definition BundledResetAccount :: "string \<Rightarrow> BundledSQSStore \<Rightarrow> BundledSQSStore" where
  "BundledResetAccount account b = bundle_ResetAccount (Some Reset) account b"

definition BundledIsEmpty :: "localKey list \<Rightarrow> BundledSQSStore \<Rightarrow> bool" where
  "BundledIsEmpty ks b = list_all (\<lambda>(_, t). IsEmpty t) (Iter ks b)"

text \<open>The document of a scope is decoded when the scope is restored, and may fail then.\<close>

definition BundledSnapshot :: "localKey list \<Rightarrow> BundledSQSStore \<Rightarrow> string + (localKey \<times> sqsMemSnap) list" where
  "BundledSnapshot ks b = snapshot_scopes (\<lambda>t. Inr (Snapshot t)) (Iter ks b)"

definition BundledRestore ::
    "string + (localKey \<times> (string + sqsMemSnap)) list \<Rightarrow> BundledSQSStore \<Rightarrow> BundledSQSStore \<times> (string + scope_error + string) option" where
  "BundledRestore doc b =
     (case doc of
        Inl e \<Rightarrow> (b, Some (Inl e))
      | Inr scopes \<Rightarrow>
          (case restore_scopes Restore scopes (ResetAndDiscard (Some Reset) b) of (b, e) \<Rightarrow> (b, map_option Inr e)))"

section \<open>Scopes do not interfere\<close>

interpretation sqs_scopes: snapshotted "\<lambda>_ :: localKey. NewMemoryMessageStore" Reset "\<lambda>t. Inr (Snapshot t)" "\<lambda>d. Restore (Inr d)" "(=)"
  by unfold_locales (auto simp: NewMemoryMessageStore_def Reset_def restore_Snapshot [simplified])

lemma NewBundledSQSStore_alt: "NewBundledSQSStore = NewBundle (\<lambda>_. NewMemoryMessageStore) None"
  by (simp add: NewBundledSQSStore_def NewLocal_def)


abbreviation sqs_reach :: "(localKey, MemoryMessageStore) world \<Rightarrow> bool" where
  "sqs_reach \<equiv> reach (Some Reset) NewBundledSQSStore"

lemma sqs_ready: "sqs_reach w \<Longrightarrow> good_bundle (\<lambda>_. NewMemoryMessageStore) (bun w) \<and> validate (bun w) = None"
  by (rule sqs_scopes.reach_ready) (simp add: NewBundledSQSStore_alt)

text \<open>
  C11: However goroutines interleave the parts of their calls of \<open>Get\<close>, their operations and resets, two of them hold the
  same message store exactly when they asked for the same account and region, and the store of every scope is the
  result of the operations and resets of that scope, in the order in which they ran: none is lost to a store that was built
  and discarded.
\<close>

theorem concurrent_gets_share_one_store:
  assumes "reach (Some Reset) NewBundledSQSStore w" "pcs w i = Got k p" "pcs w j = Got k' p'"
  shows "(p = p' \<longleftrightarrow> k = k') \<and> fmlookup (cells (bun w)) p = Some (fold (effect (Some Reset)) (trace w) (\<lambda>_. NewMemoryMessageStore) k)"
  using assms sqs_scopes.one_store_per_key [of None w] by (simp add: NewBundledSQSStore_alt)

text \<open>Two goroutines that race for one scope: both miss, both build, and the second is given the store of the first.\<close>

definition race_scope :: localKey where
  "race_scope = (''000000000000'', ''us-east-1'')"

definition race_end :: "(localKey, MemoryMessageStore) world" where
  "race_end =
     \<lparr>bun = NewBundledSQSStore\<lparr>stores := fmupd race_scope 0 fmempty, fresh := 2,
               cells := fmupd 1 NewMemoryMessageStore (fmupd 0 (SetQueueRetention ''q'' 60 NewMemoryMessageStore) fmempty)\<rparr>,
      pcs = (\<lambda>_. Idle)(0 := Got race_scope 0, 1 := Got race_scope 0), trace = [Operate race_scope (SetQueueRetention ''q'' 60)]\<rparr>"

lemma race_reached: "reach (Some Reset) NewBundledSQSStore race_end"
proof -
  let ?r = "Some Reset" and ?k = race_scope and ?b = "NewBundledSQSStore" and ?N = NewMemoryMessageStore
  let ?w = "\<lambda>b p0 p1. \<lparr>bun = b, pcs = (\<lambda>_. Idle)(0 := p0, 1 := p1), trace = []\<rparr>"
  let ?b1 = "?b\<lparr>cells := fmupd 0 ?N fmempty, fresh := 1\<rparr>"
  let ?b2 = "?b\<lparr>cells := fmupd 1 ?N (fmupd 0 ?N fmempty), fresh := 2\<rparr>"
  let ?b3 = "?b2\<lparr>stores := fmupd ?k 0 fmempty\<rparr>"
  note new = NewBundledSQSStore_alt NewBundle_def refused_def at_rest_def goes_def build_def install_def
  have "reach ?r ?b (?w ?b Idle Idle)" using reach.start [of ?r ?b] by (simp add: fun_upd_def)
  then have "reach ?r ?b (?w ?b (Calling ?k) Idle)"
    by (rule reach.more) (use step.call [of "?w ?b Idle Idle" 0 ?k ?r] in \<open>simp add: new fun_upd_twist\<close>)
  then have "reach ?r ?b (?w ?b (Calling ?k) (Calling ?k))"
    by (rule reach.more) (use step.call [of "?w ?b (Calling ?k) Idle" 1 ?k ?r] in \<open>simp add: new\<close>)
  then have "reach ?r ?b (?w ?b (Missed ?k) (Calling ?k))"
    by (rule reach.more) (use step.miss [of "?w ?b (Calling ?k) (Calling ?k)" 0 ?k ?r] in \<open>simp add: new fun_upd_twist\<close>)
  then have "reach ?r ?b (?w ?b (Missed ?k) (Missed ?k))"
    by (rule reach.more) (use step.miss [of "?w ?b (Missed ?k) (Calling ?k)" 1 ?k ?r] in \<open>simp add: new\<close>)
  then have "reach ?r ?b (?w ?b1 (Built ?k 0) (Missed ?k))"
    by (rule reach.more) (use step.build [of "?w ?b (Missed ?k) (Missed ?k)" 0 ?k ?b1 0 ?r] in \<open>simp add: new fun_upd_twist\<close>)
  then have "reach ?r ?b (?w ?b2 (Built ?k 0) (Built ?k 1))"
    by (rule reach.more) (use step.build [of "?w ?b1 (Built ?k 0) (Missed ?k)" 1 ?k ?b2 1 ?r] in \<open>simp add: new\<close>)
  then have "reach ?r ?b (?w ?b3 (Got ?k 0) (Built ?k 1))"
    by (rule reach.more) (use step.install [of "?w ?b2 (Built ?k 0) (Built ?k 1)" 0 ?k 0 ?b3 0 ?r] in \<open>simp add: new fun_upd_twist\<close>)
  then have "reach ?r ?b (?w ?b3 (Got ?k 0) (Got ?k 0))"
    by (rule reach.more) (use step.install [of "?w ?b3 (Got ?k 0) (Built ?k 1)" 1 ?k 1 ?b3 0 ?r] in \<open>simp add: new\<close>)
  then show ?thesis
    by (rule reach.more) (use step.operate [of "?w ?b3 (Got ?k 0) (Got ?k 0)" 0 ?k 0 ?N ?r "SetQueueRetention ''q'' 60"] in
      \<open>simp add: race_end_def new fmupd_reorder_neq\<close>)
qed

theorem concurrent_gets_share_one_store_witness:
  "(0 = (0 :: nat) \<longleftrightarrow> race_scope = race_scope) \<and>
   fmlookup (cells (bun race_end)) 0 = Some (SetQueueRetention ''q'' 60 NewMemoryMessageStore)"
  using concurrent_gets_share_one_store [OF race_reached, of 0 race_scope 0 1 race_scope 0] by (simp add: race_end_def)

lemma bundled_call_at_scope: "(\<lambda>k. bundled_call (fst k) (snd k)) = (\<lambda>k c. at_scope k (sqs_serve c))"
  by (simp add: fun_eq_iff bundled_call_def)

text \<open>
  C12: Any sequence of calls on several accounts and regions answers each scope exactly as if its own calls had run on a message
  store of its own, whatever the other scopes do, and leaves that store; it panics only where such a run does.
\<close>

theorem scopes_are_separate_stores:
  "case run_calls (\<lambda>k. bundled_call (fst k) (snd k)) cs NewBundledSQSStore of
      Panic \<Rightarrow> \<exists>k. run_one sqs_serve (at_key k cs) NewMemoryMessageStore = Panic
    | Ret (b, rs) \<Rightarrow> \<forall>k. \<exists>ts. run_one sqs_serve (at_key k cs) NewMemoryMessageStore = Ret (view b k, ts) \<and> at_key k rs = map Inr ts"
  using sqs_scopes.run_calls_view [OF sqs_scopes.good_new [of None], of sqs_serve cs]
  by (simp add: NewBundledSQSStore_alt sqs_scopes.view_new bundled_call_at_scope split: go_result.splits prod.splits)

lemma snapshot_Inr: "snapshot_scopes (\<lambda>t. Inr (g t)) kts = Inl e \<longleftrightarrow> False"
  by (induction kts) (auto split: sum.splits)

text \<open>
  The snapshot of the message stores of all scopes, written in any order of the iteration and restored into any bundled store,
  gives every scope its store back, and the scopes that were not saved are new again.
\<close>

theorem bundled_snapshot_round_trip:
  assumes "reach (Some Reset) NewBundledSQSStore w" "reach (Some Reset) NewBundledSQSStore w0" "iteration (bun w) ks"
  shows "\<exists>ds b'. BundledSnapshot ks (bun w) = Inr ds \<and>
    BundledRestore (Inr (map (apsnd Inr) ds)) (bun w0) = (b', None) \<and> view b' = view (bun w)"
proof -
  obtain ds where ds: "BundledSnapshot ks (bun w) = Inr ds"
    by (cases "BundledSnapshot ks (bun w)") (auto simp: BundledSnapshot_def snapshot_Inr)
  from sqs_scopes.restore_snapshot_scopes [of "bun w" ks ds "bun w0" "Some Reset"] sqs_ready [OF assms(1)] sqs_ready [OF assms(2)] assms(3) ds
  obtain b' where "restore_scopes (\<lambda>d. Restore (Inr d)) ds (ResetAndDiscard (Some Reset) (bun w0)) = (b', None)" "\<forall>k. view (bun w) k = view b' k"
    by (auto simp: BundledSnapshot_def)
  with ds show ?thesis by (auto simp: BundledRestore_def restore_scopes_map)
qed


theorem bundled_snapshot_round_trip_witness:
  "\<exists>ds b'. BundledSnapshot [race_scope] (bun race_end) = Inr ds \<and>
    BundledRestore (Inr (map (apsnd Inr) ds)) NewBundledSQSStore = (b', None) \<and> view b' = view (bun race_end)"
  using bundled_snapshot_round_trip [OF race_reached reach.start, of "[race_scope]"] by (simp add: race_end_def iteration_def)

text \<open>
  A restore whose document cannot be decoded in some scope does not leave the stores as they were: with the first scope
  undecodable it returns the error and every scope of the store is new, although the interface of snapshots promises
  that a restore replaces the contents atomically.
\<close>

theorem failed_restore_loses_every_scope:
  assumes "reach (Some Reset) NewBundledSQSStore w"
  shows "\<exists>b'. BundledRestore (Inr ((k, Inl e) # scopes)) (bun w) = (b', Some (Inr (Inr e))) \<and> view b' = (\<lambda>_. NewMemoryMessageStore)"
proof -
  note disc = sqs_scopes.good_discard [of "bun w" "Some Reset"] sqs_ready [OF assms]
  from disc obtain b' p where "bundle_Get k (ResetAndDiscard (Some Reset) (bun w)) = Inr (b', p)"
    "view b' = view (ResetAndDiscard (Some Reset) (bun w))"
    using sqs_scopes.good_get [of "ResetAndDiscard (Some Reset) (bun w)" k] by (metis sqs_scopes.validate_discard)
  with disc show ?thesis by (simp add: BundledRestore_def Restore_def)
qed

theorem failed_restore_loses_every_scope_witness:
  "\<exists>b'. BundledRestore (Inr [(race_scope, Inl ''unexpected end of JSON input'')]) (bun race_end) =
      (b', Some (Inr (Inr ''unexpected end of JSON input''))) \<and> view b' = (\<lambda>_. NewMemoryMessageStore)"
  by (rule failed_restore_loses_every_scope [OF race_reached])

text \<open>The order of the iteration shows in the document, although the interface asks for deterministic documents.\<close>

theorem snapshot_depends_on_iteration:
  assumes "reach (Some Reset) NewBundledSQSStore w" "iteration (bun w) ks" "iteration (bun w) ks'" "ks \<noteq> ks'"
  shows "BundledSnapshot ks (bun w) \<noteq> BundledSnapshot ks' (bun w)"
proof
  assume eq: "BundledSnapshot ks (bun w) = BundledSnapshot ks' (bun w)"
  obtain ds where ds: "BundledSnapshot ks (bun w) = Inr ds"
    by (cases "BundledSnapshot ks (bun w)") (auto simp: BundledSnapshot_def snapshot_Inr)
  have "map fst ds = qs" if "BundledSnapshot qs (bun w) = Inr ds" for qs
  proof -
    from that have "list_all2 (\<lambda>k d. fst d = k) qs ds"
      by (auto simp: BundledSnapshot_def snapshot_scopes_iff Iter_def list_all2_map1 elim!: list.rel_mono_strong)
    then show ?thesis by (induction rule: list_all2_induct) auto
  qed
  from this [OF ds] this [OF ds [unfolded eq]] assms(4) show False by simp
qed

end
