(* ===== verification/Dynamo_Snapshot.thy ===== *)
theory Dynamo_Snapshot
  imports Dynamo_Store
begin

text \<open>
  \<open>Snapshot\<close> and \<open>Restore\<close> of the item store (\<open>internal/aws/store/dynamodb/memory.go\<close>): the JSON documents of the
  items as trees. Encoding gives every object its keys in order and fails on a map that contains itself; decoding
  makes a fresh map for every object, so that maps that were shared are separate afterwards. Strings are valid UTF-8, as those of
  JSON requests are, and a document is one that the decoder accepts.
\<close>

section \<open>Encoding values\<close>

function encode :: "heap \<Rightarrow> nat \<Rightarrow> hval \<Rightarrow> json option" where
  "encode h n HNil = Some JNull"
| "encode h n (HStr s) = Some (JStr s)"
| "encode h n (HBool b) = Some (JBool b)"
| "encode h n (HNum x) = (case x of FFin s m e \<Rightarrow> Some (JNum x) | _ \<Rightarrow> None)"
| "encode h n (HArr l) = map_option JArr (those (map (\<lambda>v. encode h n v) l))"
| "encode h n (HMap a) =
     (case n of
        0 \<Rightarrow> None
      | Suc n \<Rightarrow>
          map_option JObj (those (map (\<lambda>k. map_option (Pair k) (encode h n (fld (obj_at h a) k))) (sorted_keys (obj_at h a)))))"
  by pat_completeness auto
termination by (relation "measures [\<lambda>(h, n, v). n, \<lambda>(h, n, v). size v]") (auto simp: size_list_estimation' less_Suc_eq_le)

type_synonym fields = "(string \<times> json) list"

definition encode_item :: "heap \<Rightarrow> obj \<Rightarrow> fields option" where
  "encode_item h item = those (map (\<lambda>k. map_option (Pair k) (encode h (Suc (lim h)) (fld item k))) (sorted_keys item))"

section \<open>Snapshots\<close>

record dynamoMemSnap =
  snap_Schemas :: "(string, TableSchema) fmap option"
  snap_Tables :: "(string, (string, fields) fmap) fmap option"
  snap_GsiIdx :: "(string, gsi_table) fmap option"

definition Snapshot :: "store \<Rightarrow> string + dynamoMemSnap" where
  "Snapshot s =
     (if fmpred (\<lambda>_ t. fmpred (\<lambda>_ item. encode_item (hp s) item \<noteq> None) t) (tables s) then
        Inr \<lparr>snap_Schemas = Some (schemas s),
             snap_Tables = Some (fmmap (\<lambda>t. fmmap (\<lambda>item. the (encode_item (hp s) item)) t) (tables s)),
             snap_GsiIdx = Some (gsiIdx s)\<rparr>
      else Inl ''json: unsupported value'')"

text \<open>Decoding the rows of a table, and the tables, one after another.\<close>

fun decode_rows :: "(string \<times> fields) list \<Rightarrow> heap \<Rightarrow> heap \<times> table" where
  "decode_rows [] h = (h, fmempty)"
| "decode_rows ((k, fs) # rows) h =
     (case decode_fields fs h of (h, item) \<Rightarrow> case decode_rows rows h of (h, t) \<Rightarrow> (h, fmupd k item t))"

definition entries_of :: "('k :: linorder, 'v) fmap \<Rightarrow> ('k \<times> 'v) list" where
  "entries_of f = map (\<lambda>k. (k, the (fmlookup f k))) (sorted_list_of_set (fset (fmdom f)))"

fun decode_tables :: "(string \<times> (string, fields) fmap) list \<Rightarrow> heap \<Rightarrow> heap \<times> (string, table) fmap" where
  "decode_tables [] h = (h, fmempty)"
| "decode_tables ((t, rows) # ts) h =
     (case decode_rows (entries_of rows) h of (h, tab) \<Rightarrow> case decode_tables ts h of (h, tabs) \<Rightarrow> (h, fmupd t tab tabs))"

definition rebuild_throttles :: "time \<Rightarrow> TableSchema list \<Rightarrow> (string, tokenBucket) fmap" where
  "rebuild_throttles now schs =
     fold (\<lambda>sch ths. case write_bucket now sch of None \<Rightarrow> ths | Some b \<Rightarrow> fmupd (TableName sch) b ths) schs fmempty"

text \<open>\<open>Restore\<close> of a decoded document; \<open>perm\<close> is the order in which the schemas are visited.\<close>

definition Restore :: "(TableSchema list \<Rightarrow> TableSchema list) \<Rightarrow> time \<Rightarrow> string + dynamoMemSnap \<Rightarrow> store \<Rightarrow> string + store" where
  "Restore perm now doc s =
     (case doc of
        Inl e \<Rightarrow> Inl e
      | Inr snap \<Rightarrow>
          let schs = the_default fmempty (snap_Schemas snap)
          in case decode_tables (entries_of (the_default fmempty (snap_Tables snap))) (hp s) of
               (h, tabs) \<Rightarrow>
                 Inr (s\<lparr>hp := h, schemas := schs, tables := tabs, gsiIdx := the_default fmempty (snap_GsiIdx snap),
                        throttles := rebuild_throttles now (perm (map snd (entries_of schs)))\<rparr>))"

section \<open>What a decoded value represents\<close>

definition extends :: "heap \<Rightarrow> heap \<Rightarrow> bool" where
  "extends h h' \<longleftrightarrow> lim h \<le> lim h' \<and> (\<forall>a < lim h. obj_at h' a = obj_at h a)"

lemma extends_trans: "extends h h1 \<Longrightarrow> extends h1 h2 \<Longrightarrow> extends h h2"
  by (simp add: extends_def)

lemma extends_refl [simp]: "extends h h"
  by (simp add: extends_def)

fun canonical :: "json \<Rightarrow> bool" where
  "canonical (JNum x) = (case x of FFin s m e \<Rightarrow> True | _ \<Rightarrow> False)"
| "canonical (JObj fs) = (sorted_wrt (<) (map fst fs) \<and> (\<forall>f \<in> set fs. canonical (snd f)))"
| "canonical (JArr js) = (\<forall>j \<in> set js. canonical j)"
| "canonical _ = True"

fun depth :: "json \<Rightarrow> nat" where
  "depth (JObj fs) = Suc (Max (insert 0 (set (map (\<lambda>f. depth (snd f)) fs))))"
| "depth (JArr js) = Max (insert 0 (set (map depth js)))"
| "depth _ = 0"

fun rep :: "heap \<Rightarrow> json \<Rightarrow> hval \<Rightarrow> bool" where
  "rep h JNull v = (v = HNil)"
| "rep h (JStr s) v = (v = HStr s)"
| "rep h (JBool b) v = (v = HBool b)"
| "rep h (JNum x) v = (v = HNum x)"
| "rep h (JArr js) v = (\<exists>vs. v = HArr vs \<and> list_all2 (\<lambda>j v. rep h j v) js vs)"
| "rep h (JObj fs) v =
     (\<exists>a. v = HMap a \<and> a < lim h \<and> map fst fs = sorted_keys (obj_at h a) \<and> (\<forall>f \<in> set fs. rep h (snd f) (fld (obj_at h a) (fst f))))"

lemma rep_extends: "rep h j v \<Longrightarrow> extends h h' \<Longrightarrow> rep h' j v"
proof (induction h j v rule: rep.induct)
  case (5 h js v)
  then show ?case by (fastforce elim!: list.rel_mono_strong)
next
  case (6 h fs v)
  then show ?case by (fastforce simp: extends_def)
qed simp_all

lemma those_Some: "those xs = Some ys \<longleftrightarrow> xs = map Some ys"
proof (induction xs arbitrary: ys)
  case (Cons x xs)
  then show ?case by (cases x; cases ys) (auto split: option.splits)
qed auto

lemma depth_le: "f \<in> set fs \<Longrightarrow> depth (snd f) < depth (JObj fs)" "j \<in> set js \<Longrightarrow> depth j \<le> depth (JArr js)"
  by (auto simp: less_Suc_eq_le intro!: Max_ge)

lemma rep_encode: "rep h j v \<Longrightarrow> canonical j \<Longrightarrow> depth j \<le> n \<Longrightarrow> encode h n v = Some j"
proof (induction h j v arbitrary: n rule: rep.induct)
  case (5 h js v)
  then obtain vs where vs: "v = HArr vs" "list_all2 (rep h) js vs" by auto
  have "encode h n w = Some j" if "j \<in> set js" "w \<in> set vs" "rep h j w" for j w
    using that "5.IH" [OF that(1,2)] "5.prems"(2,3) depth_le(2) [of j js] by (auto intro: order_trans)
  with vs(2) have "map (encode h n) vs = map Some js" by (auto simp: list_all2_conv_all_nth intro!: nth_equalityI)
  with vs(1) show ?case by (simp add: those_Some)
next
  case (6 h fs v)
  then obtain a where a: "v = HMap a" "map fst fs = sorted_keys (obj_at h a)" "\<forall>f \<in> set fs. rep h (snd f) (fld (obj_at h a) (fst f))" by auto
  obtain n' where n': "n = Suc n'" using "6.prems"(3) by (cases n) auto
  have "encode h n' (fld (obj_at h a) (fst f)) = Some (snd f)" if "f \<in> set fs" for f
  proof (rule "6.IH" [OF that])
    show "depth (snd f) \<le> n'" using depth_le(1) [OF that] "6.prems"(3) n' by linarith
  qed (use that a(3) "6.prems"(2) in auto)
  then have "map (\<lambda>k. map_option (Pair k) (encode h n' (fld (obj_at h a) k))) (map fst fs) = map Some fs" by (simp add: o_def)
  with a(1,2) n' show ?case by (simp add: those_Some)
qed (auto split: float64.splits)

lemma strict_sorted_keys: "sorted_wrt (<) (sorted_keys m)"
  using strict_sorted_list_of_set by (simp add: sorted_keys_def)

lemma encode_canonical: "encode h n v = Some j \<Longrightarrow> canonical j \<and> depth j \<le> n"
proof (induction h n v arbitrary: j rule: encode.induct)
  case (4 h n x)
  then show ?case by (auto split: float64.splits)
next
  case (5 h n l)
  then obtain js where js: "j = JArr js" "map (encode h n) l = map Some js" by (auto simp: those_Some)
  have "canonical i \<and> depth i \<le> n" if "i \<in> set js" for i
  proof -
    from that js(2) obtain v where "v \<in> set l" "encode h n v = Some i" by (metis (no_types, lifting) image_eqI in_set_conv_nth length_map nth_map set_map imageE image_iff)
    then show ?thesis by (rule "5.IH")
  qed
  with js(1) show ?case by (auto simp: Max_le_iff)
next
  case (6 h n a)
  then obtain n' fs where fs: "n = Suc n'" "j = JObj fs"
    "map (\<lambda>k. map_option (Pair k) (encode h n' (fld (obj_at h a) k))) (sorted_keys (obj_at h a)) = map Some fs"
    by (auto simp: those_Some split: nat.splits)
  let ?ks = "sorted_keys (obj_at h a)"
  have len: "length fs = length ?ks" using fs(3) by (metis length_map)
  have nth: "encode h n' (fld (obj_at h a) (?ks ! i)) = Some (snd (fs ! i)) \<and> fst (fs ! i) = ?ks ! i" if "i < length ?ks" for i
    using arg_cong [OF fs(3), of "\<lambda>l. l ! i"] that len by (auto simp: prod_eq_iff)
  have "map fst fs = ?ks" using nth len by (intro nth_equalityI) simp_all
  moreover have "canonical (snd f) \<and> depth (snd f) \<le> n'" if f: "f \<in> set fs" for f
  proof -
    from f obtain i where i: "i < length ?ks" "f = fs ! i" by (metis in_set_conv_nth len)
    from "6.IH" [OF fs(1) nth_mem [OF i(1)]] nth [OF i(1)] i(2) show ?thesis by simp
  qed
  ultimately show ?case using fs(1,2) strict_sorted_keys [of "obj_at h a"] by (auto simp: Max_le_iff)
qed auto

lemma extends_alloc: "extends h (fst (alloc h m))"
  by (simp add: extends_def)

text \<open>The fields of a decoded object with its keys in strict order.\<close>

definition rep_fields :: "heap \<Rightarrow> fields \<Rightarrow> obj \<Rightarrow> bool" where
  "rep_fields h fs m \<longleftrightarrow> fset (fmdom m) = fst ` set fs \<and> (\<forall>f \<in> set fs. rep h (snd f) (fld m (fst f)))"

lemma rep_fields_extends: "rep_fields h fs m \<Longrightarrow> extends h h' \<Longrightarrow> rep_fields h' fs m"
  by (auto simp: rep_fields_def intro: rep_extends)

lemma sorted_keys_fields: "sorted_wrt (<) (map fst fs) \<Longrightarrow> rep_fields h fs m \<Longrightarrow> sorted_keys m = map fst fs"
  unfolding sorted_keys_def rep_fields_def by (metis finite_set set_map sorted_list_of_set.idem_if_sorted_distinct strict_sorted_iff)

definition decodes :: "json \<Rightarrow> bool" where
  "decodes j \<longleftrightarrow> (\<forall>h h' v. canonical j \<longrightarrow> decode j h = (h', v) \<longrightarrow> rep h' j v \<and> extends h h' \<and> lim h + depth j \<le> lim h')"

lemma decode_list_rep:
  "\<forall>j \<in> set js. decodes j \<and> canonical j \<Longrightarrow> decode_list js h = (h', vs) \<Longrightarrow>
     list_all2 (rep h') js vs \<and> extends h h' \<and> (\<forall>j \<in> set js. lim h + depth j \<le> lim h')"
proof (induction js arbitrary: h vs)
  case (Cons j js)
  obtain h1 v where 1: "decode j h = (h1, v)" by (cases "decode j h")
  obtain ws where 2: "decode_list js h1 = (h', ws)" "vs = v # ws" using Cons.prems(2) 1 by (auto split: prod.splits)
  from Cons.prems(1) 1 have a: "rep h1 j v" "extends h h1" "lim h + depth j \<le> lim h1" by (auto simp: decodes_def)
  from Cons.IH [OF _ 2(1)] Cons.prems(1) have b: "list_all2 (rep h') js ws" "extends h1 h'" "\<forall>j \<in> set js. lim h1 + depth j \<le> lim h'" by auto
  from rep_extends [OF a(1) b(2)] extends_trans [OF a(2) b(2)] a b 2(2) show ?case by (force simp: extends_def)
qed simp

lemma decode_fields_rep:
  "\<forall>f \<in> set fs. decodes (snd f) \<and> canonical (snd f) \<Longrightarrow> distinct (map fst fs) \<Longrightarrow> decode_fields fs h = (h', m) \<Longrightarrow>
     rep_fields h' fs m \<and> extends h h' \<and> (\<forall>f \<in> set fs. lim h + depth (snd f) \<le> lim h')"
proof (induction fs arbitrary: h m)
  case (Cons f fs)
  obtain k j where f: "f = (k, j)" by (cases f)
  obtain h1 v where 1: "decode j h = (h1, v)" by (cases "decode j h")
  obtain m' where 2: "decode_fields fs h1 = (h', m')" "m = (if k |\<in>| fmdom m' then m' else fmupd k v m')"
    using Cons.prems(3) 1 f by (auto split: prod.splits)
  from Cons.prems(1) 1 f have a: "rep h1 j v" "extends h h1" "lim h + depth j \<le> lim h1" by (auto simp: decodes_def)
  from Cons.IH [OF _ _ 2(1)] Cons.prems(1,2) have b: "rep_fields h' fs m'" "extends h1 h'" "\<forall>f \<in> set fs. lim h1 + depth (snd f) \<le> lim h'" by auto
  have k: "k \<notin> fst ` set fs" using Cons.prems(2) f by simp
  with b(1) have "k |\<notin>| fmdom m'" by (auto simp: rep_fields_def)
  with 2(2) have m: "m = fmupd k v m'" by simp
  have "rep_fields h' (f # fs) m" using b(1) k rep_extends [OF a(1) b(2)] by (auto simp: rep_fields_def m f)
  with extends_trans [OF a(2) b(2)] a(3) b f show ?case by (force simp: extends_def)
qed (simp add: rep_fields_def)

lemma Max_shift: "(\<forall>x \<in> set xs. a + f x \<le> (b :: nat)) \<Longrightarrow> a \<le> b \<Longrightarrow> a + Max (insert 0 (f ` set xs)) \<le> b"
proof -
  assume "\<forall>x \<in> set xs. a + f x \<le> b" "a \<le> b"
  then have "Max (insert 0 (f ` set xs)) \<le> b - a" by (auto simp: Max_le_iff)
  with \<open>a \<le> b\<close> show ?thesis by linarith
qed

lemma decodes_all: "decodes j"
proof (induction j)
  case (JObj fs)
  show ?case unfolding decodes_def
  proof (intro allI impI)
    fix h h' v assume c: "canonical (JObj fs)" and d: "decode (JObj fs) h = (h', v)"
    obtain h1 m where 1: "decode_fields fs h = (h1, m)" by (cases "decode_fields fs h")
    have srt: "sorted_wrt (<) (map fst fs)" using c by simp
    have "\<forall>f \<in> set fs. decodes (snd f) \<and> canonical (snd f)" using JObj c by (auto simp: snds.simps)
    from decode_fields_rep [OF this _ 1] srt have r: "rep_fields h1 fs m" "extends h h1" "\<forall>f \<in> set fs. lim h + depth (snd f) \<le> lim h1"
      by (auto simp: strict_sorted_iff)
    have h': "h' = fst (alloc h1 m)" "v = HMap (lim h1)" using d 1 by (simp_all add: alloc_def)
    have "rep_fields h' fs m" unfolding h'(1) by (rule rep_fields_extends [OF r(1) extends_alloc])
    then have "rep h' (JObj fs) v" using sorted_keys_fields [OF srt r(1)] by (simp add: h' rep_fields_def)
    moreover have "extends h h'" unfolding h'(1) by (rule extends_trans [OF r(2) extends_alloc])
    moreover have "lim h + depth (JObj fs) \<le> lim h'" using Max_shift [OF r(3)] r(2) by (simp add: h' extends_def)
    ultimately show "rep h' (JObj fs) v \<and> extends h h' \<and> lim h + depth (JObj fs) \<le> lim h'" by blast
  qed
next
  case (JArr js)
  show ?case unfolding decodes_def
  proof (intro allI impI)
    fix h h' v assume c: "canonical (JArr js)" and d: "decode (JArr js) h = (h', v)"
    obtain vs where 1: "decode_list js h = (h', vs)" "v = HArr vs" using d by (auto split: prod.splits)
    from decode_list_rep [OF _ 1(1)] JArr c
    have r: "list_all2 (rep h') js vs" "extends h h'" "\<forall>j \<in> set js. lim h + depth j \<le> lim h'" by auto
    then show "rep h' (JArr js) v \<and> extends h h' \<and> lim h + depth (JArr js) \<le> lim h'"
      using Max_shift [OF r(3)] by (simp add: 1(2) extends_def)
  qed
qed (auto simp: decodes_def)


section \<open>Restoring what was saved\<close>

text \<open>Fields as \<open>encode_item\<close> gives them.\<close>

definition canonical_fields :: "fields \<Rightarrow> bool" where
  "canonical_fields fs \<longleftrightarrow> canonical (JObj fs)"

lemma encode_item_canonical: "encode_item h item = Some fs \<Longrightarrow> canonical_fields fs"
proof -
  assume "encode_item h item = Some fs"
  then have "those (map (\<lambda>k. map_option (Pair k) (encode h (Suc (lim h)) (fld item k))) (sorted_keys item)) = Some fs"
    by (simp add: encode_item_def)
  then have m: "map (\<lambda>k. map_option (Pair k) (encode h (Suc (lim h)) (fld item k))) (sorted_keys item) = map Some fs"
    by (simp add: those_Some)
  then have len: "length fs = length (sorted_keys item)" by (metis length_map)
  have nth: "encode h (Suc (lim h)) (fld item (sorted_keys item ! i)) = Some (snd (fs ! i)) \<and> fst (fs ! i) = sorted_keys item ! i"
    if "i < length fs" for i
    using arg_cong [OF m, of "\<lambda>l. l ! i"] that len by (auto simp: prod_eq_iff)
  then have "map fst fs = sorted_keys item" using len by (intro nth_equalityI) simp_all
  moreover have "canonical (snd f)" if "f \<in> set fs" for f
    using that nth encode_canonical by (metis in_set_conv_nth)
  ultimately show ?thesis using strict_sorted_keys [of item] by (simp add: canonical_fields_def)
qed

text \<open>An item restored from its fields encodes to them again, also after further maps are made.\<close>

definition holds_fields :: "heap \<Rightarrow> fields \<Rightarrow> obj \<Rightarrow> bool" where
  "holds_fields h fs item \<longleftrightarrow> rep_fields h fs item \<and> (\<forall>f \<in> set fs. depth (snd f) \<le> lim h)"

lemma holds_fields_extends: "holds_fields h fs item \<Longrightarrow> extends h h' \<Longrightarrow> holds_fields h' fs item"
  by (auto simp: holds_fields_def extends_def intro: rep_fields_extends [unfolded extends_def] order_trans)

lemma holds_fields_encode: "canonical_fields fs \<Longrightarrow> holds_fields h fs item \<Longrightarrow> encode_item h item = Some fs"
proof -
  assume c: "canonical_fields fs" and r: "holds_fields h fs item"
  then have ks: "sorted_keys item = map fst fs" by (intro sorted_keys_fields) (auto simp: canonical_fields_def holds_fields_def)
  have "encode h (Suc (lim h)) (fld item (fst f)) = Some (snd f)" if "f \<in> set fs" for f
    using that c r by (intro rep_encode) (auto simp: canonical_fields_def holds_fields_def rep_fields_def)
  then show ?thesis by (simp add: encode_item_def ks those_Some o_def)
qed

lemma decode_item_holds: "canonical_fields fs \<Longrightarrow> decode_fields fs h = (h', item) \<Longrightarrow> holds_fields h' fs item \<and> extends h h'"
proof -
  assume c: "canonical_fields fs" and d: "decode_fields fs h = (h', item)"
  from decode_fields_rep [OF _ _ d] c decodes_all show ?thesis
    by (auto simp: canonical_fields_def holds_fields_def strict_sorted_iff intro: add_leD2)
qed

lemma entries_of_set: "set (entries_of f) = {(k, v). fmlookup f k = Some v}"
  by (auto simp: entries_of_def image_iff fmlookup_dom_iff)

lemma entries_of_dom: "fst ` set (entries_of f) = fset (fmdom f)"
  by (simp add: entries_of_def image_image)

lemma entries_of_distinct: "distinct (map fst (entries_of f))"
  by (simp add: entries_of_def o_def)

lemma decode_rows_holds:
  "distinct (map fst rows) \<Longrightarrow> \<forall>(k, fs) \<in> set rows. canonical_fields fs \<Longrightarrow> decode_rows rows h = (h', t) \<Longrightarrow>
     extends h h' \<and> fset (fmdom t) = fst ` set rows \<and> (\<forall>(k, fs) \<in> set rows. holds_fields h' fs (the (fmlookup t k)))"
proof (induction rows arbitrary: h t)
  case (Cons r rows)
  obtain k fs where r: "r = (k, fs)" by (cases r)
  obtain h1 item where 1: "decode_fields fs h = (h1, item)" by (cases "decode_fields fs h")
  obtain t' where 2: "decode_rows rows h1 = (h', t')" "t = fmupd k item t'"
    using Cons.prems(3) 1 r by (auto split: prod.splits)
  from decode_item_holds [OF _ 1] Cons.prems(2) r have a: "holds_fields h1 fs item" "extends h h1" by auto
  from Cons.IH [OF _ _ 2(1)] Cons.prems(1,2)
  have b: "extends h1 h'" "fset (fmdom t') = fst ` set rows" "\<forall>(k, fs) \<in> set rows. holds_fields h' fs (the (fmlookup t' k))" by auto
  have k: "k \<noteq> fst r'" if "r' \<in> set rows" for r' using Cons.prems(1) r that by auto
  from holds_fields_extends [OF a(1) b(1)] extends_trans [OF a(2) b(1)] b(2,3) k show ?case
    by (auto simp: 2(2) r)
qed simp

lemma decode_tables_holds:
  "distinct (map fst ts) \<Longrightarrow> \<forall>(n, rows) \<in> set ts. fmpred (\<lambda>_ fs. canonical_fields fs) rows \<Longrightarrow> decode_tables ts h = (h', tabs) \<Longrightarrow>
     extends h h' \<and> fset (fmdom tabs) = fst ` set ts \<and>
     (\<forall>(n, rows) \<in> set ts. \<exists>t. fmlookup tabs n = Some t \<and> fmdom t = fmdom rows \<and>
        (\<forall>k fs. fmlookup rows k = Some fs \<longrightarrow> holds_fields h' fs (the (fmlookup t k))))"
proof (induction ts arbitrary: h tabs)
  case (Cons r ts)
  obtain n rows where r: "r = (n, rows)" by (cases r)
  obtain h1 t where 1: "decode_rows (entries_of rows) h = (h1, t)" by (cases "decode_rows (entries_of rows) h")
  obtain tabs' where 2: "decode_tables ts h1 = (h', tabs')" "tabs = fmupd n t tabs'"
    using Cons.prems(3) 1 r by (auto split: prod.splits)
  have "\<forall>(k, fs) \<in> set (entries_of rows). canonical_fields fs" using Cons.prems(2) r by (auto simp: entries_of_set fmpred_iff)
  from decode_rows_holds [OF entries_of_distinct this 1]
  have a: "extends h h1" "fset (fmdom t) = fst ` set (entries_of rows)"
    "\<And>k fs. fmlookup rows k = Some fs \<Longrightarrow> holds_fields h1 fs (the (fmlookup t k))" by (auto simp: entries_of_set)
  have dom: "fmdom t = fmdom rows" using a(2) by (simp add: entries_of_dom fset_inject)
  from Cons.IH [OF _ _ 2(1)] Cons.prems(1,2)
  have b: "extends h1 h'" "fset (fmdom tabs') = fst ` set ts"
    "\<forall>(n, rows) \<in> set ts. \<exists>t. fmlookup tabs' n = Some t \<and> fmdom t = fmdom rows \<and>
        (\<forall>k fs. fmlookup rows k = Some fs \<longrightarrow> holds_fields h' fs (the (fmlookup t k)))" by auto
  have n: "n \<noteq> fst r'" if "r' \<in> set ts" for r' using Cons.prems(1) r that by auto
  have "\<forall>(n, rows) \<in> set ts. \<exists>t. fmlookup tabs n = Some t \<and> fmdom t = fmdom rows \<and>
        (\<forall>k fs. fmlookup rows k = Some fs \<longrightarrow> holds_fields h' fs (the (fmlookup t k)))"
    using b(3) n unfolding 2(2) by fastforce
  moreover have "\<forall>k fs. fmlookup rows k = Some fs \<longrightarrow> holds_fields h' fs (the (fmlookup t k))"
    using a(3) b(1) holds_fields_extends by blast
  ultimately show ?case using extends_trans [OF a(1) b(1)] b(2) dom by (simp add: 2(2) r)
qed simp

lemma restored_table_encodes:
  assumes dom: "fmdom t = fmdom rows" and "fmpred (\<lambda>_ fs. canonical_fields fs) rows"
    and "\<And>k fs. fmlookup rows k = Some fs \<Longrightarrow> holds_fields h fs (the (fmlookup t k))"
  shows "fmpred (\<lambda>_ item. encode_item h item \<noteq> None) t \<and> fmmap (\<lambda>item. the (encode_item h item)) t = rows"
proof -
  have e: "encode_item h item = Some fs" if "fmlookup t k = Some item" "fmlookup rows k = Some fs" for k item fs
    using that assms(2) assms(3) [OF that(2)] by (intro holds_fields_encode) (auto simp: fmpred_iff)
  have d: "fmlookup t k = None \<longleftrightarrow> fmlookup rows k = None" for k using dom by (metis fmdom_notD fmdom_notI)
  have "map_option (\<lambda>item. the (encode_item h item)) (fmlookup t k) = fmlookup rows k" for k
    using e d [of k] by (cases "fmlookup t k"; cases "fmlookup rows k") auto
  then have "fmmap (\<lambda>item. the (encode_item h item)) t = rows" by (intro fmap_ext) simp
  moreover have "fmpred (\<lambda>_ item. encode_item h item \<noteq> None) t"
    using e d by (auto simp: fmpred_iff) (metis option.distinct(1) option.exhaust)
  ultimately show ?thesis by simp
qed

lemma snapshot_restored:
  assumes "Snapshot s = Inr snap"
  obtains s' where "Restore perm now (Inr snap) s0 = Inr s'" "Snapshot s' = Inr snap" "schemas s' = schemas s" "gsiIdx s' = gsiIdx s"
proof -
  let ?rows = "fmmap (\<lambda>item. the (encode_item (hp s) item))"
  have ok: "fmpred (\<lambda>_ t. fmpred (\<lambda>_ item. encode_item (hp s) item \<noteq> None) t) (tables s)"
    and snap: "snap = \<lparr>snap_Schemas = Some (schemas s), snap_Tables = Some (fmmap ?rows (tables s)), snap_GsiIdx = Some (gsiIdx s)\<rparr>"
    using assms by (auto simp: Snapshot_def split: if_splits)
  define ts where "ts = fmmap ?rows (tables s)"
  obtain h tabs where d: "decode_tables (entries_of ts) (hp s0) = (h, tabs)" by (cases "decode_tables (entries_of ts) (hp s0)")
  have can: "fmpred (\<lambda>_ fs. canonical_fields fs) rows" if "fmlookup ts n = Some rows" for n rows
    using that ok encode_item_canonical by (fastforce simp: ts_def fmpred_iff)
  then have "\<forall>(n, rows) \<in> set (entries_of ts). fmpred (\<lambda>_ fs. canonical_fields fs) rows" by (auto simp: entries_of_set)
  from decode_tables_holds [OF entries_of_distinct this d]
  have doms: "fset (fmdom tabs) = fst ` set (entries_of ts)"
    and each: "\<And>n rows. fmlookup ts n = Some rows \<Longrightarrow> \<exists>t. fmlookup tabs n = Some t \<and> fmdom t = fmdom rows \<and>
        (\<forall>k fs. fmlookup rows k = Some fs \<longrightarrow> holds_fields h fs (the (fmlookup t k)))" by (auto simp: entries_of_set)
  have dom: "fmlookup tabs n = None \<longleftrightarrow> fmlookup ts n = None" for n
    using doms by (metis entries_of_dom fmdom_notD fmdom_notI fset_inject)
  have tab: "fmpred (\<lambda>_ item. encode_item h item \<noteq> None) t \<and> fmmap (\<lambda>item. the (encode_item h item)) t = rows"
    if "fmlookup ts n = Some rows" "fmlookup tabs n = Some t" for n rows t
    using each [OF that(1)] that restored_table_encodes [OF _ can [OF that(1)], of t h] by auto
  have "fmmap (\<lambda>t. fmmap (\<lambda>item. the (encode_item h item)) t) tabs = ts"
  proof (rule fmap_ext)
    show "fmlookup (fmmap (\<lambda>t. fmmap (\<lambda>item. the (encode_item h item)) t) tabs) n = fmlookup ts n" for n
      using tab [of n] dom [of n] by (cases "fmlookup ts n"; cases "fmlookup tabs n") auto
  qed
  moreover have "fmpred (\<lambda>_ t. fmpred (\<lambda>_ item. encode_item h item \<noteq> None) t) tabs"
  proof (rule fmpredI)
    show "fmpred (\<lambda>_ item. encode_item h item \<noteq> None) t" if "fmlookup tabs n = Some t" for n t
      using tab [of n _ t] dom [of n] that by (cases "fmlookup ts n") auto
  qed
  ultimately show ?thesis
    using that [of "s0\<lparr>hp := h, schemas := schemas s, tables := tabs, gsiIdx := gsiIdx s,
        throttles := rebuild_throttles now (perm (map snd (entries_of (schemas s))))\<rparr>"] d
    by (simp add: Restore_def snap Snapshot_def Let_def flip: ts_def)
qed

end
