(* ===== verification/Dynamo_Scopes.thy ===== *)
theory Dynamo_Scopes
  imports Dynamo_Snapshot Store_Bundle
begin

text \<open>
  \<open>internal/aws/store/dynamodb/bundled.go\<close>: one item store per account and region, each method passed to the store of
  its scope. Every store has its own heap; the maps of a request are made in the heap of the store that serves it, by a
  step of their own.
\<close>

section \<open>Calls\<close>

datatype dynamo_call =
    MakeRequest fields
  | CallPutItem time string string obj ConditionSpec
  | CallGetItem string string
  | CallDeleteItem time string string ConditionSpec
  | CallUpdateItem unicode time string string obj UpdateSpec
  | CallQuery unicode "obj list \<Rightarrow> obj list" string QuerySpec
  | CallScan "heap \<Rightarrow> hval \<Rightarrow> string" "obj list \<Rightarrow> obj list" string ScanSpec
  | CallBatchWriteItems time "BatchWriteRequest list"
  | CallBatchGetItems "(string \<times> obj list) list"
  | CallTransactWriteItems unicode "TransactWriteOp list"
  | CallCreateTableSchema time TableSchema
  | CallDropTableSchema string
  | CallAddGSI "string list" string TableSchema IndexDef
  | CallDeleteGSI string TableSchema string

datatype dynamo_reply =
    Request obj
  | Item "store_error + obj option"
  | Updated "store_error + obj"
  | Page "store_error + obj list \<times> nat \<times> obj option"
  | Unprocessed "BatchWriteRequest list"
  | Items "(string, obj list) fmap"
  | Transacted "expr_error + CancellationReason list option"
  | TableDone

definition answer :: "('a \<Rightarrow> dynamo_reply) \<Rightarrow> (store \<times> 'a) go_result \<Rightarrow> (store \<times> dynamo_reply) go_result" where
  "answer f r = (case r of Panic \<Rightarrow> Panic | Ret (s, a) \<Rightarrow> Ret (s, f a))"

definition answer_read :: "store \<Rightarrow> ('a \<Rightarrow> dynamo_reply) \<Rightarrow> 'a go_result \<Rightarrow> (store \<times> dynamo_reply) go_result" where
  "answer_read s f r = (case r of Panic \<Rightarrow> Panic | Ret a \<Rightarrow> Ret (s, f a))"

fun dynamo_serve :: "dynamo_call \<Rightarrow> store \<Rightarrow> (store \<times> dynamo_reply) go_result" where
  "dynamo_serve (MakeRequest fs) s = (case decode_fields fs (hp s) of (h, item) \<Rightarrow> Ret (s\<lparr>hp := h\<rparr>, Request item))"
| "dynamo_serve (CallPutItem now table pkHash item cond) s = answer Item (PutItem now table pkHash item cond s)"
| "dynamo_serve (CallGetItem table pkHash) s = Ret (s, Item (Inr (GetItem table pkHash s)))"
| "dynamo_serve (CallDeleteItem now table pkHash cond) s = answer Item (DeleteItem now table pkHash cond s)"
| "dynamo_serve (CallUpdateItem uni now table pkHash item spec) s = answer Updated (UpdateItem uni now table pkHash item spec s)"
| "dynamo_serve (CallQuery uni perm table q) s = answer_read s Page (Query uni perm table q s)"
| "dynamo_serve (CallScan enc perm table sc) s = answer_read s Page (Scan enc perm table sc s)"
| "dynamo_serve (CallBatchWriteItems now reqs) s = (case BatchWriteItems now reqs s of (s, us) \<Rightarrow> Ret (s, Unprocessed us))"
| "dynamo_serve (CallBatchGetItems reqs) s =
     (case BatchGetItems reqs s fmempty of None \<Rightarrow> Panic | Some r \<Rightarrow> Ret (s, Items r))"
| "dynamo_serve (CallTransactWriteItems uni ops) s = answer Transacted (TransactWriteItems uni ops s)"
| "dynamo_serve (CallCreateTableSchema now schema) s = Ret (CreateTableSchema now schema s, TableDone)"
| "dynamo_serve (CallDropTableSchema table) s = Ret (DropTableSchema table s, TableDone)"
| "dynamo_serve (CallAddGSI keys table schema idx) s = Ret (AddGSI keys table schema idx s, TableDone)"
| "dynamo_serve (CallDeleteGSI table schema idx) s = Ret (DeleteGSI table schema idx s, TableDone)"

section \<open>The bundled store\<close>

type_synonym BundledDynamoDBItemStore = "(localKey, store) Bundle"

definition new_item_store :: store where
  "new_item_store = NewMemoryDynamoDBItemStore empty_heap"

definition NewBundledDynamoDBItemStore :: BundledDynamoDBItemStore where
  "NewBundledDynamoDBItemStore = NewLocal (\<lambda>_ _. new_item_store) False"

definition bundled_call ::
    "string \<Rightarrow> string \<Rightarrow> dynamo_call \<Rightarrow> BundledDynamoDBItemStore \<Rightarrow> (BundledDynamoDBItemStore \<times> (scope_error + dynamo_reply)) go_result" where
  "bundled_call account region c b = at_scope (account, region) (dynamo_serve c) b"

definition BundledReset :: "BundledDynamoDBItemStore \<Rightarrow> BundledDynamoDBItemStore" where
  "BundledReset b = bundle_Reset (Some Reset) b"

definition BundledIsEmpty :: "localKey list \<Rightarrow> BundledDynamoDBItemStore \<Rightarrow> bool" where
  "BundledIsEmpty ks b = list_all (\<lambda>(_, t). IsEmpty t) (Iter ks b)"

definition BundledSnapshot :: "localKey list \<Rightarrow> BundledDynamoDBItemStore \<Rightarrow> string + (localKey \<times> dynamoMemSnap) list" where
  "BundledSnapshot ks b = snapshot_scopes Snapshot (Iter ks b)"

definition BundledRestore ::
    "(TableSchema list \<Rightarrow> TableSchema list) \<Rightarrow> time \<Rightarrow> string + (localKey \<times> (string + dynamoMemSnap)) list \<Rightarrow> BundledDynamoDBItemStore \<Rightarrow>
     BundledDynamoDBItemStore \<times> (string + scope_error + string) option" where
  "BundledRestore perm now doc b =
     (case doc of
        Inl e \<Rightarrow> (b, Some (Inl e))
      | Inr scopes \<Rightarrow>
          (case restore_scopes (Restore perm now) scopes (ResetAndDiscard (Some Reset) b) of (b, e) \<Rightarrow> (b, map_option Inr e)))"

section \<open>Scopes do not interfere\<close>

interpretation dynamo_scopes: snapshotted "\<lambda>_ :: localKey. new_item_store" Reset Snapshot "\<lambda>d. Restore perm now (Inr d)" "\<lambda>t t'. Snapshot t' = Snapshot t"
  for perm now
proof unfold_locales
  show "Reset new_item_store = new_item_store"
    by (simp add: new_item_store_def NewMemoryDynamoDBItemStore_def Reset_def)
  show "\<exists>t'. Restore perm now (Inr d) t0 = Inr t' \<and> Snapshot t' = Snapshot t" if "Snapshot t = Inr d" for t d t0
    using snapshot_restored [OF that, of perm now t0] that by metis
qed simp

lemma NewBundledDynamoDBItemStore_alt: "NewBundledDynamoDBItemStore = NewBundle (\<lambda>_. new_item_store) None"
  by (simp add: NewBundledDynamoDBItemStore_def NewLocal_def)

lemma dynamo_ready: "reach (Some Reset) NewBundledDynamoDBItemStore w \<Longrightarrow>
   good_bundle (\<lambda>_. new_item_store) (bun w) \<and> validate (bun w) = None"
  by (rule dynamo_scopes.reach_ready) (simp add: NewBundledDynamoDBItemStore_alt)

text \<open>Any sequence of calls on several scopes answers each scope as its own calls on an item store of its own.\<close>

theorem item_scopes_are_separate_stores:
  "case run_calls (\<lambda>k. bundled_call (fst k) (snd k)) cs NewBundledDynamoDBItemStore of
      Panic \<Rightarrow> \<exists>k. run_one dynamo_serve (at_key k cs) new_item_store = Panic
    | Ret (b, rs) \<Rightarrow> \<forall>k. \<exists>ts. run_one dynamo_serve (at_key k cs) new_item_store = Ret (view b k, ts) \<and> at_key k rs = map Inr ts"
proof -
  have "(\<lambda>k. bundled_call (fst k) (snd k)) = (\<lambda>k c. at_scope k (dynamo_serve c))" by (simp add: fun_eq_iff bundled_call_def)
  with dynamo_scopes.run_calls_view [OF dynamo_scopes.good_new [of None], of dynamo_serve cs] show ?thesis
    by (simp add: NewBundledDynamoDBItemStore_alt dynamo_scopes.view_new split: go_result.splits prod.splits)
qed

text \<open>
  C32: When the items of all scopes can be written as JSON, restoring the documents into any bundled store, whatever the order of the
  iterations and the clock, succeeds and gives every scope a store with the same schemas, the same items and the same
  secondary indexes: its snapshot is the one that was saved. Scopes that were not saved are new again.
\<close>

theorem item_stores_round_trip:
  assumes "reach (Some Reset) NewBundledDynamoDBItemStore w" "reach (Some Reset) NewBundledDynamoDBItemStore w0"
    and "iteration (bun w) ks" "BundledSnapshot ks (bun w) = Inr ds"
  shows "\<exists>b'. BundledRestore perm now (Inr (map (apsnd Inr) ds)) (bun w0) = (b', None) \<and>
    (\<forall>k. Snapshot (view b' k) = Snapshot (view (bun w) k))"
proof -
  from dynamo_scopes.restore_snapshot_scopes [of "bun w" ks ds "bun w0" perm now "Some Reset"] dynamo_ready [OF assms(1)]
    dynamo_ready [OF assms(2)] assms(3,4)
  obtain b' where "restore_scopes (\<lambda>d. Restore perm now (Inr d)) ds (ResetAndDiscard (Some Reset) (bun w0)) = (b', None)"
    "\<forall>k. Snapshot (view b' k) = Snapshot (view (bun w) k)" by (auto simp: BundledSnapshot_def)
  then show ?thesis by (simp add: BundledRestore_def restore_scopes_map)
qed


text \<open>A store with an item that has a nested map, and the bundled store that holds it in one scope.\<close>

definition saved_schema :: TableSchema where
  "saved_schema = \<lparr>TableName = ''t'', PKAttr = ''pk'', SKAttr = [], PKType = ''S'', SKType = [], GSIs = [], LSIs = [],
     BillingMode = [], WCU = 0, RCU = 0\<rparr>"

definition save_item :: "store \<Rightarrow> store" where
  "save_item s =
     (case decode_fields [(''m'', JObj [(''x'', JStr ''1'')]), (''pk'', JStr ''a'')] (hp s) of
        (h, item) \<Rightarrow> set_item ''t'' ''a'' item (CreateTableSchema 0 saved_schema (s\<lparr>hp := h\<rparr>)))"


definition saved_scope :: localKey where
  "saved_scope = (''000000000000'', ''us-east-1'')"

definition saved_document :: dynamoMemSnap where
  "saved_document = \<lparr>snap_Schemas = Some (fmap_of_list [(''t'', saved_schema)]),
     snap_Tables = Some (fmap_of_list [(''t'', fmap_of_list [(''a'', [(''m'', JObj [(''x'', JStr ''1'')]), (''pk'', JStr ''a'')])])]),
     snap_GsiIdx = Some (fmap_of_list [(''t'', fmempty)])\<rparr>"

lemma save_item_snapshot: "Snapshot (save_item new_item_store) = Inr saved_document"
  by code_simp

theorem item_stores_round_trip_witness:
  "\<exists>b'. BundledRestore id 0 (Inr [(saved_scope, Inr saved_document)]) NewBundledDynamoDBItemStore = (b', None) \<and>
    Snapshot (view b' saved_scope) = Inr saved_document"
proof -
  let ?w = "dynamo_scopes.solo_end saved_scope save_item"
  have w: "reach (Some Reset) NewBundledDynamoDBItemStore ?w"
    unfolding NewBundledDynamoDBItemStore_alt by (rule dynamo_scopes.solo_reached)
  have v: "view (bun ?w) saved_scope = save_item new_item_store" by (simp add: dynamo_scopes.solo_end_def view_def)
  have i: "iteration (bun ?w) [saved_scope]" by (simp add: iteration_def dynamo_scopes.solo_end_def)
  have "BundledSnapshot [saved_scope] (bun ?w) = Inr [(saved_scope, saved_document)]"
    by (simp add: BundledSnapshot_def Iter_def v save_item_snapshot)
  from item_stores_round_trip [OF w reach.start i this, of id 0] obtain b' where
    b': "BundledRestore id 0 (Inr [(saved_scope, Inr saved_document)]) NewBundledDynamoDBItemStore = (b', None)"
    "\<forall>k. Snapshot (view b' k) = Snapshot (view (bun ?w) k)" by auto
  from b'(2) have "Snapshot (view b' saved_scope) = Inr saved_document" by (simp only: v save_item_snapshot)
  with b'(1) show ?thesis by blast
qed

end
