(* ===== verification/Gcp_Identity.thy ===== *)
theory Gcp_Identity
  imports Go_Strings Go_Base64
begin

text \<open>
  \<open>internal/gcp/identity\<close>: the identity of a request from its bearer token and its path. The payload of a token is JSON,
  whose decoding into the claims is an argument.
\<close>

definition DefaultProjectID :: string where
  "DefaultProjectID = ''jaiscloud-project''"

definition DefaultServiceAccount :: string where
  "DefaultServiceAccount = ''jaiscloud@example.iam.gserviceaccount.com''"

datatype Source = SourceDefault | SourceBearer | SourcePath | SourceBearerAndPath

record Parsed =
  ProjectID :: string
  ServiceAccount :: string
  AccessKey :: string
  Src :: Source

record claims =
  Email :: string
  Subject :: string
  ClaimProjectID :: string

text \<open>The parts of an HTTP request that are read: the path, the query parameter \<open>project\<close> and the header.\<close>

record request =
  Path :: string
  QueryProject :: string
  Authorization :: string

section \<open>Tokens\<close>

definition bearer_prefix :: string where
  "bearer_prefix = ''Bearer ''"

definition BearerToken :: "string \<Rightarrow> string" where
  "BearerToken auth =
     (if length auth < length bearer_prefix \<or> \<not> EqualFold (take (length bearer_prefix) auth) bearer_prefix then []
      else TrimSpace (drop (length bearer_prefix) auth))"

text \<open>The payload of a JSON web token, the second of its parts.\<close>

definition payload :: "string \<Rightarrow> string option" where
  "payload token = (let parts = Split token (CHR ''.'') in if length parts < 2 then None else DecodeString (parts ! 1))"

definition decodeClaims :: "(string \<Rightarrow> claims option) \<Rightarrow> string \<Rightarrow> claims option" where
  "decodeClaims unmarshal token = (case payload token of None \<Rightarrow> None | Some raw \<Rightarrow> unmarshal raw)"

definition ProjectFromToken :: "(string \<Rightarrow> claims option) \<Rightarrow> string \<Rightarrow> string" where
  "ProjectFromToken unmarshal token = (case decodeClaims unmarshal token of None \<Rightarrow> [] | Some c \<Rightarrow> ClaimProjectID c)"

definition ServiceAccountFromToken :: "(string \<Rightarrow> claims option) \<Rightarrow> string \<Rightarrow> string" where
  "ServiceAccountFromToken unmarshal token =
     (case decodeClaims unmarshal token of None \<Rightarrow> [] | Some c \<Rightarrow> if Email c \<noteq> [] then Email c else Subject c)"

section \<open>Paths\<close>

text \<open>
  A match of \<open>/v[0-9]+(?:beta[0-9]*)?/projects/([^/:]+)\<close> at the start of a string. Every part ends where
  the next must begin, so that the expression matches in one way only.
\<close>

definition strip :: "string \<Rightarrow> string \<Rightarrow> string option" where
  "strip p s = (if HasPrefix s p then Some (drop (length p) s) else None)"

definition after_version :: "string \<Rightarrow> string option" where
  "after_version s =
     (case strip ''/v'' s of
        None \<Rightarrow> None
      | Some s \<Rightarrow>
          if takeWhile is_digit s = [] then None
          else let s = dropWhile is_digit s
               in Some (case strip ''beta'' s of None \<Rightarrow> s | Some s \<Rightarrow> dropWhile is_digit s))"

definition project_here :: "string \<Rightarrow> string option" where
  "project_here s =
     (case Option.bind (after_version s) (strip ''/projects/'') of
        None \<Rightarrow> None
      | Some s \<Rightarrow> (case takeWhile (\<lambda>c. c \<noteq> CHR ''/'' \<and> c \<noteq> CHR '':'') s of [] \<Rightarrow> None | p \<Rightarrow> Some p))"

fun ProjectFromPath :: "string \<Rightarrow> string" where
  "ProjectFromPath [] = []"
| "ProjectFromPath (c # s) = (case project_here (c # s) of Some p \<Rightarrow> p | None \<Rightarrow> ProjectFromPath s)"

section \<open>Requests\<close>

definition path_project :: "request \<Rightarrow> string" where
  "path_project r = (if ProjectFromPath (Path r) \<noteq> [] then ProjectFromPath (Path r) else QueryProject r)"

definition FromRequest :: "(string \<Rightarrow> claims option) \<Rightarrow> request \<Rightarrow> Parsed" where
  "FromRequest unmarshal r =
     (let project = path_project r;
          hasPath = project \<noteq> [];
          token = BearerToken (Authorization r);
          hasToken = token \<noteq> [];
          c = (if hasToken then decodeClaims unmarshal token else None);
          sa = (case c of None \<Rightarrow> [] | Some c \<Rightarrow> if Email c \<noteq> [] then Email c else Subject c);
          project = (case c of None \<Rightarrow> project | Some c \<Rightarrow> if project = [] \<and> ClaimProjectID c \<noteq> [] then ClaimProjectID c else project)
      in \<lparr>ProjectID = if project = [] then DefaultProjectID else project,
          ServiceAccount = if sa = [] then DefaultServiceAccount else sa,
          AccessKey = token,
          Src = if hasToken \<and> hasPath then SourceBearerAndPath else if hasToken then SourceBearer
                else if hasPath then SourcePath else SourceDefault\<rparr>)"

section \<open>Web tokens\<close>

text \<open>The text of a token as the emulator signs it.\<close>

lemma EncodeToString_chars: "c \<in> set (EncodeToString s) \<Longrightarrow> plain_byte c \<and> c \<noteq> CHR ''.''"
proof -
  assume "c \<in> set (EncodeToString s)"
  then obtain v where v: "v \<in> set (enc_bytes (map of_char s))" "c = url_char v" by (auto simp: EncodeToString_def)
  have "v < 64" using enc_bytes_bound [of "map of_char s"] v(1) by (auto simp: of_char_bound)
  then have "byte c > 32 \<and> byte c < 128 \<and> byte c \<noteq> 46" by (auto simp: byte_def v(2) of_char_url_char)
  then show ?thesis by (auto simp: plain_byte_def byte_def)
qed

lemma payload_of_token:
  assumes "CHR ''.'' \<notin> set hdr" "CHR ''.'' \<notin> set sig"
  shows "payload (hdr @ ''.'' @ EncodeToString raw @ ''.'' @ sig) = Some raw"
proof -
  have "CHR ''.'' \<notin> set (EncodeToString raw)" using EncodeToString_chars by blast
  with assms Split_Join [of "[hdr, EncodeToString raw, sig]" "CHR ''.''"]
  have "Split (hdr @ ''.'' @ EncodeToString raw @ ''.'' @ sig) (CHR ''.'') = [hdr, EncodeToString raw, sig]" by auto
  then show ?thesis by (simp add: payload_def)
qed

lemma BearerToken_plain: "token \<noteq> [] \<Longrightarrow> plain_byte (hd token) \<Longrightarrow> plain_byte (last token) \<Longrightarrow> BearerToken (''Bearer '' @ token) = token"
  by (simp add: BearerToken_def bearer_prefix_def EqualFold_same TrimSpace_plain)

end
