(* ===== verification/Downscope.thy ===== *)
theory Downscope
  imports Gcp_Identity
begin

text \<open>
  \<open>internal/gcp/downscope\<close>: credential access boundaries. \<open>ParseOptions\<close> reads the boundary of a token exchange, with the
  parser of its availability conditions; \<open>Allowed\<close> decides an operation on Cloud Storage against the boundary in
  the bearer token. Decoding JSON is an argument.
\<close>

section \<open>Data\<close>

definition PermissionLegacyObjectReader :: string where
  "PermissionLegacyObjectReader = ''inRole:roles/storage.legacyObjectReader''"

definition PermissionObjectViewer :: string where
  "PermissionObjectViewer = ''inRole:roles/storage.objectViewer''"

definition PermissionLegacyBucketWriter :: string where
  "PermissionLegacyBucketWriter = ''inRole:roles/storage.legacyBucketWriter''"

definition supportedPermissions :: "string list" where
  "supportedPermissions = [PermissionLegacyObjectReader, PermissionObjectViewer, PermissionLegacyBucketWriter]"

record AvailabilityCondition =
  Expression :: string
  Title :: string
  Description :: string

record Rule =
  AvailableResource :: string
  Bucket :: string
  ObjectPrefix :: string
  Permissions :: "string list"
  Condition :: "AvailabilityCondition option"

datatype Op = ReadObject | List | WriteObject | DeleteObject | BucketAdmin

record ruleDoc =
  docResource :: string
  docPermissions :: "string list"
  docCondition :: "AvailabilityCondition option"

datatype boundary_error =
    OptionsRequired | OptionsInvalid | RulesRequired | TooManyRules
  | UnsupportedResource string | PermissionsRequired | UnsupportedPermission string
  | ExpressionRequired | ExpressionTooLong | UnterminatedLiteral | PrefixesDiffer | ForeignBucket
  | UnsupportedAttribute | UnsupportedExpression | LiteralExpected | UnsupportedEscape | UnterminatedEscape | PrefixRequired

definition maxRules :: nat where
  "maxRules = 10"

definition maxExpressionLength :: nat where
  "maxExpressionLength = 2048"

section \<open>String literals\<close>

definition unescape :: "char \<Rightarrow> char option" where
  "unescape c =
     (if c = CHR 0x5C \<or> c = CHR 0x27 \<or> c = CHR 0x22 then Some c
      else map_of [(CHR ''n'', CHR 0x0A), (CHR ''r'', CHR 0x0D), (CHR ''t'', CHR 0x09), (CHR ''b'', CHR 0x08), (CHR ''f'', CHR 0x0C)] c)"

fun decodeCELString :: "string \<Rightarrow> boundary_error + string" where
  "decodeCELString [] = Inr []"
| "decodeCELString (c # s) =
     (if c \<noteq> CHR 0x5C then map_sum id ((#) c) (decodeCELString s)
      else case s of
             [] \<Rightarrow> Inl UnterminatedEscape
           | d # s \<Rightarrow> (case unescape d of None \<Rightarrow> Inl UnsupportedEscape | Some e \<Rightarrow> map_sum id ((#) e) (decodeCELString s)))"

definition parseStringArgument :: "string \<Rightarrow> boundary_error + string" where
  "parseStringArgument argument =
     (let trimmed = TrimSpace argument
      in if length trimmed < 2 then Inl LiteralExpected
         else if (hd trimmed \<noteq> CHR 0x27 \<and> hd trimmed \<noteq> CHR 0x22) \<or> last trimmed \<noteq> hd trimmed then Inl LiteralExpected
         else decodeCELString (butlast (tl trimmed)))"

definition normalizePrefix :: "string \<Rightarrow> boundary_error + string" where
  "normalizePrefix p =
     (if TrimSpace p = [] then Inl PrefixRequired
      else Inr (if last p \<noteq> CHR ''/'' then p @ ''/'' else p))"

section \<open>Regular expressions\<close>

text \<open>A group \<open>.+\<close>: not empty, and \<open>.\<close> is not a newline.\<close>

definition dot_plus :: "string \<Rightarrow> bool" where
  "dot_plus s \<longleftrightarrow> s \<noteq> [] \<and> CHR 0x0A \<notin> set s"

text \<open>What is between \<open>p\<close> and a closing parenthesis at the end.\<close>

definition between :: "string \<Rightarrow> string \<Rightarrow> string option" where
  "between p s =
     (case strip p s of
        None \<Rightarrow> None
      | Some r \<Rightarrow> if r \<noteq> [] \<and> last r = CHR '')'' then Some (butlast r) else None)"

definition resource_call :: string where
  "resource_call = ''resource.name.startsWith(''"

definition attribute_call :: string where
  "attribute_call = ''api.getAttribute(''"

definition starts_call :: string where
  "starts_call = '').startsWith(''"

definition resourcePrefixRE :: "string \<Rightarrow> string option" where
  "resourcePrefixRE s =
     (case between resource_call s of None \<Rightarrow> None | Some m \<Rightarrow> if dot_plus m then Some m else None)"

text \<open>
  The ways to write a string as \<open>a @ sep @ b\<close>, the longest \<open>a\<close> first: the order in which a greedy group is tried.
\<close>

fun splits :: "string \<Rightarrow> string \<Rightarrow> (string \<times> string) list" where
  "splits sep [] = (if sep = [] then [([], [])] else [])"
| "splits sep (c # s) =
     map (\<lambda>(a, b). (c # a, b)) (splits sep s) @ (if HasPrefix (c # s) sep then [([], drop (length sep) (c # s))] else [])"

definition is_re_space :: "char \<Rightarrow> bool" where
  "is_re_space c \<longleftrightarrow> c \<in> {CHR 0x09, CHR 0x0A, CHR 0x0C, CHR 0x0D, CHR '' ''}"

text \<open>What is left after \<open>\s*\<close>, the most white space first.\<close>

fun after_spaces :: "string \<Rightarrow> string list" where
  "after_spaces [] = [[]]"
| "after_spaces (c # s) = (if is_re_space c then after_spaces s else []) @ [c # s]"

definition tail_matches :: "string \<Rightarrow> (string \<times> string) list" where
  "tail_matches r = [(m2, m3). r' \<leftarrow> after_spaces r, (m2, m3) \<leftarrow> splits starts_call r', dot_plus m2, dot_plus m3]"

definition listPrefixRE :: "string \<Rightarrow> (string \<times> string \<times> string) option" where
  "listPrefixRE s =
     (case between attribute_call s of
        None \<Rightarrow> None
      | Some body \<Rightarrow>
          (case [(m1, m2, m3). (m1, r) \<leftarrow> splits '','' body, dot_plus m1, (m2, m3) \<leftarrow> tail_matches r] of
             [] \<Rightarrow> None
           | m # _ \<Rightarrow> Some m))"

section \<open>Conditions\<close>

text \<open>The loop of \<open>splitOrExpression\<close>: the part read so far, reversed, the open quote, and whether a backslash was read.\<close>

fun split_or :: "string \<Rightarrow> char option \<Rightarrow> bool \<Rightarrow> string \<Rightarrow> string list option" where
  "split_or cur q esc [] = (if q \<noteq> None then None else Some [rev cur])"
| "split_or cur q esc (c # s) =
     (if esc then split_or (c # cur) q False s
      else case q of
             Some d \<Rightarrow> split_or (c # cur) (if c = d then None else q) (c = CHR 0x5C) s
           | None \<Rightarrow>
               if c = CHR 0x27 \<or> c = CHR 0x22 then split_or (c # cur) (Some c) False s
               else if c = CHR ''|'' \<and> take 1 s = ''|'' then map_option ((#) (rev cur)) (split_or [] None False (drop 1 s))
               else split_or (c # cur) None False s)"

definition splitOrExpression :: "string \<Rightarrow> boundary_error + string list" where
  "splitOrExpression e = (case split_or [] None False e of None \<Rightarrow> Inl UnterminatedLiteral | Some parts \<Rightarrow> Inr parts)"

definition resource_prefix :: "string \<Rightarrow> string \<Rightarrow> string" where
  "resource_prefix bucket collection = ''projects/_/buckets/'' @ bucket @ ''/'' @ collection @ ''/''"

definition parseSingleExpression :: "string \<Rightarrow> string \<Rightarrow> boundary_error + string" where
  "parseSingleExpression bucket e =
     (case resourcePrefixRE e of
        Some m \<Rightarrow>
          (case parseStringArgument m of
             Inl err \<Rightarrow> Inl err
           | Inr p \<Rightarrow>
               (case strip (resource_prefix bucket ''objects'') p of
                  Some q \<Rightarrow> normalizePrefix q
                | None \<Rightarrow>
                    (case strip (resource_prefix bucket ''folders'') p of
                       Some q \<Rightarrow> normalizePrefix q
                     | None \<Rightarrow> Inl ForeignBucket)))
      | None \<Rightarrow>
          (case listPrefixRE e of
             Some (m1, m2, m3) \<Rightarrow>
               (case parseStringArgument m1 of
                  Inl err \<Rightarrow> Inl err
                | Inr attribute \<Rightarrow>
                    (case parseStringArgument m2 of
                       Inl err \<Rightarrow> Inl err
                     | Inr defaultValue \<Rightarrow>
                         (case parseStringArgument m3 of
                            Inl err \<Rightarrow> Inl err
                          | Inr objectPrefix \<Rightarrow>
                              if attribute \<noteq> ''storage.googleapis.com/objectListPrefix'' \<or> defaultValue \<noteq> [] then Inl UnsupportedAttribute
                              else normalizePrefix objectPrefix)))
           | None \<Rightarrow> Inl UnsupportedExpression))"

text \<open>The parts must agree on the prefix; \<open>seen\<close> is the prefix of the first.\<close>

fun same_prefix :: "string \<Rightarrow> string option \<Rightarrow> string list \<Rightarrow> boundary_error + string" where
  "same_prefix bucket seen [] = Inr (the_default [] seen)"
| "same_prefix bucket seen (part # parts) =
     (case parseSingleExpression bucket (TrimSpace part) of
        Inl err \<Rightarrow> Inl err
      | Inr p \<Rightarrow>
          (case seen of
             None \<Rightarrow> same_prefix bucket (Some p) parts
           | Some q \<Rightarrow> if p \<noteq> q then Inl PrefixesDiffer else same_prefix bucket seen parts))"

definition parsePrefixExpression :: "string \<Rightarrow> string \<Rightarrow> boundary_error + string" where
  "parsePrefixExpression bucket e =
     (case splitOrExpression e of Inl err \<Rightarrow> Inl err | Inr parts \<Rightarrow> same_prefix bucket None parts)"

section \<open>Boundaries\<close>

definition bucket_path :: string where
  "bucket_path = ''//storage.googleapis.com/projects/_/buckets/''"

definition parseBucket :: "string \<Rightarrow> boundary_error + string" where
  "parseBucket r =
     (case strip bucket_path r of
        Some b \<Rightarrow> if b \<noteq> [] \<and> CHR ''/'' \<notin> set b then Inr b else Inl (UnsupportedResource r)
      | None \<Rightarrow> Inl (UnsupportedResource r))"

fun check_permissions :: "string list \<Rightarrow> boundary_error + string list" where
  "check_permissions [] = Inr []"
| "check_permissions (p # ps) =
     (if p \<notin> set supportedPermissions then Inl (UnsupportedPermission p) else map_sum id ((#) p) (check_permissions ps))"

definition parsePermissions :: "string list \<Rightarrow> boundary_error + string list" where
  "parsePermissions ps = (if ps = [] then Inl PermissionsRequired else check_permissions ps)"

definition parse_condition :: "string \<Rightarrow> AvailabilityCondition option \<Rightarrow> boundary_error + string \<times> AvailabilityCondition option" where
  "parse_condition bucket cond =
     (case cond of
        None \<Rightarrow> Inr ([], None)
      | Some c \<Rightarrow>
          (let c = c\<lparr>Expression := TrimSpace (Expression c)\<rparr>
           in if Expression c = [] then Inl ExpressionRequired
              else if length (Expression c) > maxExpressionLength then Inl ExpressionTooLong
              else (case parsePrefixExpression bucket (Expression c) of Inl err \<Rightarrow> Inl err | Inr p \<Rightarrow> Inr (p, Some c))))"

definition parse_rule :: "ruleDoc \<Rightarrow> boundary_error + Rule" where
  "parse_rule node =
     (case parseBucket (docResource node) of
        Inl err \<Rightarrow> Inl err
      | Inr bucket \<Rightarrow>
          (case parsePermissions (docPermissions node) of
             Inl err \<Rightarrow> Inl err
           | Inr perms \<Rightarrow>
               (case parse_condition bucket (docCondition node) of
                  Inl err \<Rightarrow> Inl err
                | Inr (p, c) \<Rightarrow>
                    Inr \<lparr>AvailableResource = docResource node, Bucket = bucket, ObjectPrefix = p, Permissions = perms, Condition = c\<rparr>)))"

fun parse_rules :: "ruleDoc list \<Rightarrow> boundary_error + Rule list" where
  "parse_rules [] = Inr []"
| "parse_rules (node # nodes) =
     (case parse_rule node of Inl err \<Rightarrow> Inl err | Inr r \<Rightarrow> map_sum id ((#) r) (parse_rules nodes))"

definition ParseOptions :: "(string \<Rightarrow> ruleDoc list option) \<Rightarrow> string \<Rightarrow> boundary_error + Rule list" where
  "ParseOptions unmarshal options =
     (if TrimSpace options = [] then Inl OptionsRequired
      else case unmarshal options of
             None \<Rightarrow> Inl OptionsInvalid
           | Some nodes \<Rightarrow>
               if nodes = [] then Inl RulesRequired
               else if length nodes > maxRules then Inl TooManyRules
               else parse_rules nodes)"

section \<open>Enforcement\<close>

text \<open>\<open>claim raw\<close> is \<open>None\<close> when the payload is not JSON, and \<open>Some None\<close> when it has no boundary.\<close>

definition rulesFromToken :: "(string \<Rightarrow> Rule list option option) \<Rightarrow> string \<Rightarrow> Rule list option" where
  "rulesFromToken claim token =
     (case payload token of
        None \<Rightarrow> None
      | Some raw \<Rightarrow> (case claim raw of None \<Rightarrow> None | Some boundary \<Rightarrow> boundary))"

definition RulesFromAuthorization :: "(string \<Rightarrow> Rule list option option) \<Rightarrow> string \<Rightarrow> Rule list option" where
  "RulesFromAuthorization claim authorization = rulesFromToken claim (BearerToken authorization)"

fun acceptedPermissions :: "Op \<Rightarrow> string list" where
  "acceptedPermissions ReadObject = [PermissionLegacyObjectReader, PermissionObjectViewer]"
| "acceptedPermissions List = [PermissionObjectViewer, PermissionLegacyBucketWriter]"
| "acceptedPermissions WriteObject = [PermissionLegacyBucketWriter]"
| "acceptedPermissions DeleteObject = [PermissionLegacyBucketWriter]"
| "acceptedPermissions BucketAdmin = []"

definition hasAnyPermission :: "string list \<Rightarrow> string list \<Rightarrow> bool" where
  "hasAnyPermission granted accepted = list_ex (\<lambda>g. list_ex (EqualFold g) accepted) granted"

definition rule_admits :: "Op \<Rightarrow> string \<Rightarrow> string \<Rightarrow> Rule \<Rightarrow> bool" where
  "rule_admits op bucket name r \<longleftrightarrow>
     Bucket r = bucket \<and> HasPrefix name (ObjectPrefix r) \<and> hasAnyPermission (Permissions r) (acceptedPermissions op)"

datatype denial = ErrDenied

definition Allowed :: "(string \<Rightarrow> Rule list option option) \<Rightarrow> string \<Rightarrow> Op \<Rightarrow> string \<Rightarrow> string \<Rightarrow> denial option" where
  "Allowed claim authorization op bucket name =
     (case RulesFromAuthorization claim authorization of
        None \<Rightarrow> None
      | Some rules \<Rightarrow>
          if op = BucketAdmin then Some ErrDenied
          else if list_ex (rule_admits op bucket name) rules then None
          else Some ErrDenied)"


section \<open>Documented conditions\<close>

text \<open>
  The conditions of the documentation, as clients write them: a prefix of the resource name of an object or a
  folder, a prefix of the listing, or the first and the last together. A literal is written in single quotes.
\<close>

definition cel_escape :: "char \<Rightarrow> string" where
  "cel_escape c =
     (if c = CHR 0x5C \<or> c = CHR 0x27 \<or> c = CHR 0x22 then [CHR 0x5C, c]
      else case map_of [(CHR 0x0A, CHR ''n''), (CHR 0x0D, CHR ''r''), (CHR 0x09, CHR ''t''), (CHR 0x08, CHR ''b''), (CHR 0x0C, CHR ''f'')] c of
             None \<Rightarrow> [c] | Some d \<Rightarrow> [CHR 0x5C, d])"

definition cel_body :: "string \<Rightarrow> string" where
  "cel_body s = concat (map cel_escape s)"

definition cel_quote :: "string \<Rightarrow> string" where
  "cel_quote s = [CHR 0x27] @ cel_body s @ [CHR 0x27]"

definition name_term :: "string \<Rightarrow> string" where
  "name_term s = resource_call @ cel_quote s @ '')''"

definition list_term :: "string \<Rightarrow> string" where
  "list_term s = attribute_call @ cel_quote ''storage.googleapis.com/objectListPrefix'' @ '', '' @ cel_quote [] @ starts_call @ cel_quote s @ '')''"

datatype condition = OnObjects | OnFolders | OnListing | OnObjectsOrListing

fun condition_text :: "string \<Rightarrow> condition \<Rightarrow> string \<Rightarrow> string" where
  "condition_text bucket OnObjects p = name_term (resource_prefix bucket ''objects'' @ p)"
| "condition_text bucket OnFolders p = name_term (resource_prefix bucket ''folders'' @ p)"
| "condition_text bucket OnListing p = list_term p"
| "condition_text bucket OnObjectsOrListing p = name_term (resource_prefix bucket ''objects'' @ p) @ '' || '' @ list_term p"

text \<open>Their value for a request with the given resource name and listing prefix.\<close>

fun condition_holds :: "string \<Rightarrow> condition \<Rightarrow> string \<Rightarrow> string \<Rightarrow> string \<Rightarrow> bool" where
  "condition_holds bucket OnObjects p res lst \<longleftrightarrow> HasPrefix res (resource_prefix bucket ''objects'' @ p)"
| "condition_holds bucket OnFolders p res lst \<longleftrightarrow> HasPrefix res (resource_prefix bucket ''folders'' @ p)"
| "condition_holds bucket OnListing p res lst \<longleftrightarrow> HasPrefix lst p"
| "condition_holds bucket OnObjectsOrListing p res lst \<longleftrightarrow>
     HasPrefix res (resource_prefix bucket ''objects'' @ p) \<or> HasPrefix lst p"

definition with_slash :: "string \<Rightarrow> string" where
  "with_slash p = (if last p \<noteq> CHR ''/'' then p @ ''/'' else p)"

subsection \<open>Literals\<close>

lemma cel_escape_cases:
  "cel_escape c = [c] \<and> c \<noteq> CHR 0x5C \<and> c \<noteq> CHR 0x27 \<and> c \<noteq> CHR 0x22 \<and> c \<noteq> CHR 0x0A \<or>
   (\<exists>d. cel_escape c = [CHR 0x5C, d] \<and> unescape d = Some c \<and> d \<noteq> CHR 0x0A)"
  by (auto simp: cel_escape_def unescape_def)

lemma decode_escape: "decodeCELString (cel_escape c @ s) = map_sum id ((#) c) (decodeCELString s)"
  using cel_escape_cases [of c] by auto

lemma decode_body: "decodeCELString (cel_body s) = Inr s"
  by (induction s) (simp_all add: cel_body_def decode_escape)

lemma parse_quote: "parseStringArgument (cel_quote s) = Inr s"
proof -
  have "TrimSpace (cel_quote s) = cel_quote s" by (rule TrimSpace_plain) (simp_all add: cel_quote_def plain_byte_def byte_def)
  then show ?thesis by (simp add: parseStringArgument_def cel_quote_def butlast_append decode_body)
qed

lemma body_no_newline: "CHR 0x0A \<notin> set (cel_body s)"
proof -
  have "CHR 0x0A \<notin> set (cel_escape c)" for c using cel_escape_cases [of c] by auto
  then show ?thesis by (simp add: cel_body_def)
qed

lemma dot_plus_quote: "dot_plus (cel_quote s)"
  using body_no_newline [of s] by (auto simp: dot_plus_def cel_quote_def)

lemma strip_append [simp]: "strip p (p @ s) = Some s"
  by (simp add: strip_def)

lemma between_append: "between p (p @ m @ '')'') = Some m"
  by (simp add: between_def)

lemma name_term_match: "resourcePrefixRE (name_term s) = Some (cel_quote s)"
  using between_append [of resource_call "cel_quote s"] by (simp add: resourcePrefixRE_def name_term_def dot_plus_quote)


subsection \<open>The greedy match\<close>

lemma splits_sound: "(a, b) \<in> set (splits sep s) \<Longrightarrow> s = a @ sep @ b"
proof (induction s arbitrary: a)
  case (Cons c s)
  then show ?case by (auto simp: HasPrefix_def split: if_splits) (metis append_take_drop_id)
qed (auto split: if_splits)

lemma Contains_append: "Contains s sub \<Longrightarrow> Contains (t @ s) sub"
  by (induction t) auto

lemma splits_none: "\<not> Contains s sep \<Longrightarrow> sep \<noteq> [] \<Longrightarrow> splits sep s = []"
  by (induction s) auto

lemma splits_skip: "c \<notin> set z \<Longrightarrow> splits [c] (z @ w) = map (\<lambda>(a, b). (z @ a, b)) (splits [c] w)"
proof (induction z)
  case (Cons d z)
  then show ?case by (auto simp: HasPrefix_def comp_def split_beta)
qed (simp add: split_beta)

lemma splits_at: "splits [c] (x @ c # y) = map (\<lambda>(a, b). (x @ c # a, b)) (splits [c] y) @ (x, y) # map (\<lambda>(a, b). (a, b @ c # y)) (splits [c] x)"
  by (induction x) (auto simp: HasPrefix_def comp_def split_beta)

lemma after_spaces_suffix: "r' \<in> set (after_spaces r) \<Longrightarrow> \<exists>t. r = t @ r'"
proof (induction r)
  case (Cons c r)
  show ?case
  proof (cases "r' = c # r")
    case False
    with Cons have "\<exists>t. r = t @ r'" by (auto split: if_splits)
    then show ?thesis by (metis append_Cons)
  qed simp
qed simp

lemma list_none: "(\<And>x. x \<in> set xs \<Longrightarrow> f x = []) \<Longrightarrow> concat (map f xs) = []"
  by (simp add: concat_eq_Nil_conv)

lemma list_term_match:
  assumes "\<not> Contains (cel_quote p) starts_call"
  shows "listPrefixRE (list_term p) = Some (cel_quote ''storage.googleapis.com/objectListPrefix'', cel_quote [], cel_quote p)"
proof -
  let ?attr = "cel_quote ''storage.googleapis.com/objectListPrefix''" and ?z = "CHR '' '' # cel_quote [] @ starts_call"
  let ?y = "?z @ cel_quote p"
  have body: "between attribute_call (list_term p) = Some (?attr @ CHR '','' # ?y)"
    using between_append [of attribute_call "?attr @ CHR '','' # ?y"] by (simp add: list_term_def)
  have none: "splits starts_call r' = []" if "(a, b) \<in> set (splits '','' (cel_quote p))" "r' \<in> set (after_spaces b)" for a b r'
  proof -
    from splits_sound [OF that(1)] after_spaces_suffix [OF that(2)] obtain t where "cel_quote p = (a @ '','' @ t) @ r'" by auto
    with assms have "\<not> Contains r' starts_call" using Contains_append by metis
    then show ?thesis by (rule splits_none) (simp add: starts_call_def)
  qed
  have z: "CHR '','' \<notin> set ?z" by (simp add: cel_quote_def cel_body_def starts_call_def)
  have after: "after_spaces ?y = [cel_quote [] @ starts_call @ cel_quote p, ?y]"
    by (simp add: cel_quote_def cel_body_def is_re_space_def)
  have here: "splits starts_call (cel_quote [] @ starts_call @ cel_quote p) = [(cel_quote [], cel_quote p)]"
    using splits_none [OF assms] by (simp add: cel_quote_def cel_body_def starts_call_def HasPrefix_def)
  have "tail_matches (snd x) = []" if "x \<in> set (splits '','' (cel_quote p))" for x
    using none [of "fst x" "snd x"] that by (auto simp: tail_matches_def)
  moreover obtain l where "tail_matches ?y = (cel_quote [], cel_quote p) # l"
    unfolding tail_matches_def after by (simp add: here dot_plus_quote)
  moreover have "splits '','' (?attr @ CHR '','' # ?y) =
      map (\<lambda>(a, b). (?attr @ CHR '','' # ?z @ a, b)) (splits '','' (cel_quote p)) @
      (?attr, ?y) # map (\<lambda>(a, b). (a, b @ CHR '','' # ?y)) (splits '','' ?attr)"
    unfolding splits_at splits_skip [OF z] by (simp add: comp_def split_beta)
  ultimately show ?thesis
    unfolding listPrefixRE_def body by (simp add: dot_plus_quote list_none comp_def split_beta)
qed


subsection \<open>Splitting at the top level\<close>

lemma split_or_plain:
  "\<forall>c \<in> set t. c \<noteq> CHR 0x27 \<and> c \<noteq> CHR 0x22 \<and> c \<noteq> CHR ''|'' \<Longrightarrow>
     split_or cur None False (t @ rest) = split_or (rev t @ cur) None False rest"
  by (induction t arbitrary: cur) auto

lemma split_or_body:
  "split_or cur (Some (CHR 0x27)) False (cel_body s @ rest) = split_or (rev (cel_body s) @ cur) (Some (CHR 0x27)) False rest"
proof (induction s arbitrary: cur)
  case (Cons c s)
  have "split_or cur (Some (CHR 0x27)) False (cel_escape c @ x) = split_or (rev (cel_escape c) @ cur) (Some (CHR 0x27)) False x" for cur x
    using cel_escape_cases [of c] by auto
  with Cons show ?case by (simp add: cel_body_def)
qed (simp add: cel_body_def)

lemma split_or_quote: "split_or cur None False (cel_quote s @ rest) = split_or (rev (cel_quote s) @ cur) None False rest"
  by (simp add: cel_quote_def split_or_body)

lemma split_or_term:
  "split_or cur None False (name_term s @ rest) = split_or (rev (name_term s) @ cur) None False rest"
  "split_or cur None False (list_term s @ rest) = split_or (rev (list_term s) @ cur) None False rest"
  by (simp_all add: name_term_def list_term_def split_or_quote split_or_plain resource_call_def attribute_call_def starts_call_def)

lemma split_single: "split_or [] None False (name_term s) = Some [name_term s]" "split_or [] None False (list_term s) = Some [list_term s]"
  using split_or_term [of "[]" s "[]"] by simp_all

lemma split_double: "split_or [] None False (name_term s @ '' || '' @ list_term t) = Some [name_term s @ '' '', '' '' @ list_term t]"
  using split_or_term(1) [of "[]" s "'' || '' @ list_term t"] split_or_term(2) [of "'' ''" t "[]"] by simp

subsection \<open>Trimming\<close>

lemma TrimRight_space: "TrimRightSpace (s @ '' '') = TrimRightSpace s"
proof -
  have "white_len_end (s @ '' '') = 1" by (simp add: white_len_end_def white_runes_def byte_def)
  then show ?thesis by (subst TrimRightSpace.simps) simp
qed

lemma TrimLeft_space: "TrimLeftSpace ('' '' @ s) = TrimLeftSpace s"
proof -
  have "white_len ('' '' @ s) = 1" by (simp add: white_len_def white_runes_def byte_def)
  then show ?thesis by (subst TrimLeftSpace.simps) simp
qed

lemma term_plain:
  "plain_byte (hd (name_term s)) \<and> plain_byte (last (name_term s)) \<and> name_term s \<noteq> []"
  "plain_byte (hd (list_term s)) \<and> plain_byte (last (list_term s)) \<and> list_term s \<noteq> []"
  by (simp_all add: name_term_def list_term_def resource_call_def attribute_call_def plain_byte_def byte_def)

lemma Trim_name: "TrimSpace (name_term s) = name_term s" "TrimSpace (name_term s @ '' '') = name_term s"
proof -
  show t: "TrimSpace (name_term s) = name_term s" using term_plain(1) [of s] by (intro TrimSpace_plain) auto
  obtain r where "name_term s = CHR ''r'' # r" by (simp add: name_term_def resource_call_def)
  then have "TrimLeftSpace (name_term s @ u) = name_term s @ u" for u by (simp add: TrimLeftSpace_plain plain_byte_def byte_def)
  from this [of "'' ''"] this [of "[]"] t show "TrimSpace (name_term s @ '' '') = name_term s" by (simp add: TrimSpace_def TrimRight_space)
qed

lemma Trim_list: "TrimSpace (list_term s) = list_term s" "TrimSpace ('' '' @ list_term s) = list_term s"
proof -
  show t: "TrimSpace (list_term s) = list_term s" using term_plain(2) [of s] by (intro TrimSpace_plain) auto
  then show "TrimSpace ('' '' @ list_term s) = list_term s" unfolding TrimSpace_def TrimLeft_space .
qed

subsection \<open>What a documented condition selects\<close>

lemma name_term_not_list: "resourcePrefixRE (list_term s) = None"
  by (simp add: resourcePrefixRE_def between_def strip_def HasPrefix_def list_term_def attribute_call_def resource_call_def)

lemma normalize_slash: "TrimSpace p \<noteq> [] \<Longrightarrow> normalizePrefix p = Inr (with_slash p)"
  by (simp add: normalizePrefix_def with_slash_def)

lemma strip_other: "strip (resource_prefix b ''objects'') (resource_prefix b ''folders'' @ p) = None"
  by (simp add: strip_def HasPrefix_def resource_prefix_def)

lemma single_name:
  "TrimSpace p \<noteq> [] \<Longrightarrow> parseSingleExpression b (name_term (resource_prefix b ''objects'' @ p)) = Inr (with_slash p)"
  "TrimSpace p \<noteq> [] \<Longrightarrow> parseSingleExpression b (name_term (resource_prefix b ''folders'' @ p)) = Inr (with_slash p)"
  by (simp_all add: parseSingleExpression_def name_term_match parse_quote strip_other normalize_slash)

lemma single_list:
  "TrimSpace p \<noteq> [] \<Longrightarrow> \<not> Contains (cel_quote p) starts_call \<Longrightarrow> parseSingleExpression b (list_term p) = Inr (with_slash p)"
  by (simp add: parseSingleExpression_def name_term_not_list list_term_match parse_quote normalize_slash)

lemma condition_parsed:
  assumes "TrimSpace p \<noteq> []" "\<not> Contains (cel_quote p) starts_call"
  shows "parsePrefixExpression b (condition_text b f p) = Inr (with_slash p)"
  using assms
  by (cases f) (simp_all add: parsePrefixExpression_def splitOrExpression_def split_single split_double [simplified] Trim_name Trim_list [simplified]
      single_name single_list)

definition collection :: "condition \<Rightarrow> string" where
  "collection f = (if f = OnFolders then ''folders'' else ''objects'')"


definition quoted_prefix :: string where
  "quoted_prefix = ''it'' @ [CHR 0x27] @ ''s || mine/''"


text \<open>A prefix without a final slash is narrowed: the condition holds for this name, and the name is not admitted.\<close>

theorem prefix_without_slash_is_narrowed:
  "parsePrefixExpression ''b'' (condition_text ''b'' OnObjects ''img'') = Inr ''img/'' \<and>
   condition_holds ''b'' OnObjects ''img'' (resource_prefix ''b'' ''objects'' @ ''img1.png'') [] \<and> \<not> HasPrefix ''img1.png'' ''img/''"
  by code_simp

text \<open>A conjunction is outside the documented subset, and is accepted as one literal that runs over both operands.\<close>

theorem conjunction_is_accepted:
  "parsePrefixExpression ''b''
     (name_term (resource_prefix ''b'' ''objects'' @ ''x'') @ '' && '' @ name_term (resource_prefix ''b'' ''objects'' @ ''y'')) =
   Inr (''x'' @ [CHR 0x27] @ '') && resource.name.startsWith('' @ [CHR 0x27] @ ''projects/_/buckets/b/objects/y/'')"
  by code_simp

subsection \<open>What an accepted boundary admits\<close>

lemma check_permissions_Inr: "check_permissions ps = Inr qs \<longleftrightarrow> qs = ps \<and> set ps \<subseteq> set supportedPermissions"
proof (induction ps arbitrary: qs)
  case (Cons p ps)
  then show ?case by (cases "check_permissions ps") auto
qed auto

lemma parse_rule_Inr:
  "parse_rule node = Inr r \<Longrightarrow>
     docResource node = bucket_path @ Bucket r \<and> Bucket r \<noteq> [] \<and> CHR ''/'' \<notin> set (Bucket r) \<and>
     Permissions r = docPermissions node \<and> set (Permissions r) \<subseteq> set supportedPermissions \<and>
     (case docCondition node of
        None \<Rightarrow> ObjectPrefix r = []
      | Some c \<Rightarrow> parsePrefixExpression (Bucket r) (TrimSpace (Expression c)) = Inr (ObjectPrefix r))"
  by (auto simp: parse_rule_def parseBucket_def parsePermissions_def parse_condition_def check_permissions_Inr strip_def HasPrefix_def Let_def
      split: sum.splits option.splits if_splits prod.splits) (metis append_take_drop_id)+

lemma parse_rules_Inr: "parse_rules nodes = Inr rules \<Longrightarrow> list_all2 (\<lambda>node r. parse_rule node = Inr r) nodes rules"
proof (induction nodes arbitrary: rules)
  case (Cons node nodes)
  then show ?case by (cases "parse_rules nodes") (auto split: sum.splits)
qed simp

lemma supported_fold:
  "p \<in> set supportedPermissions \<Longrightarrow> a \<in> set (acceptedPermissions op) \<Longrightarrow> EqualFold p a \<longleftrightarrow> p = a"
proof -
  have "\<forall>p \<in> set supportedPermissions. \<forall>a \<in> set supportedPermissions. EqualFold p a \<longleftrightarrow> p = a" by code_simp
  moreover have "set (acceptedPermissions op) \<subseteq> set supportedPermissions" by (cases op) (auto simp: supportedPermissions_def)
  ultimately show "p \<in> set supportedPermissions \<Longrightarrow> a \<in> set (acceptedPermissions op) \<Longrightarrow> EqualFold p a \<longleftrightarrow> p = a" by blast
qed

text \<open>The meaning of a rule of the options document.\<close>

definition node_admits :: "Op \<Rightarrow> string \<Rightarrow> string \<Rightarrow> ruleDoc \<Rightarrow> bool" where
  "node_admits op bucket name node \<longleftrightarrow>
     docResource node = bucket_path @ bucket \<and>
     (\<exists>p \<in> set (docPermissions node). p \<in> set (acceptedPermissions op)) \<and>
     (case docCondition node of
        None \<Rightarrow> True
      | Some c \<Rightarrow> \<exists>prefix. parsePrefixExpression bucket (TrimSpace (Expression c)) = Inr prefix \<and> HasPrefix name prefix)"

lemma rule_admits_node: "parse_rule node = Inr r \<Longrightarrow> rule_admits op bucket name r \<longleftrightarrow> node_admits op bucket name node"
proof -
  assume "parse_rule node = Inr r"
  note r = parse_rule_Inr [OF this]
  have "hasAnyPermission (Permissions r) (acceptedPermissions op) \<longleftrightarrow> (\<exists>p \<in> set (docPermissions node). p \<in> set (acceptedPermissions op))"
    using r supported_fold [of _ _ op] by (fastforce simp: hasAnyPermission_def list_ex_iff)
  moreover have "Bucket r = bucket \<longleftrightarrow> docResource node = bucket_path @ bucket" using r by auto
  ultimately show ?thesis
    using r by (auto simp: rule_admits_def node_admits_def HasPrefix_def split: option.splits)
qed

lemma rules_admit_nodes:
  assumes "parse_rules nodes = Inr rules"
  shows "list_ex (rule_admits op bucket name) rules \<longleftrightarrow> (\<exists>node \<in> set nodes. node_admits op bucket name node)"
  using parse_rules_Inr [OF assms] by (induction rule: list_all2_induct) (auto simp: rule_admits_node)

end
