(* ===== verification/Token_Service.thy ===== *)
theory Token_Service
  imports Downscope
begin

text \<open>
  \<open>internal/gcp/auth\<close>: the token endpoint. A form is the function that gives the first value of each field; the JSON
  encoders and decoders, the message authentication code and the clock (seconds since the epoch) are arguments. A grant
  answers with a token or with the code and the description of an OAuth error.
\<close>

section \<open>Data\<close>

definition GrantTypeJWTBearer :: string where
  "GrantTypeJWTBearer = ''urn:ietf:params:oauth:grant-type:jwt-bearer''"

definition GrantTypeRefreshToken :: string where
  "GrantTypeRefreshToken = ''refresh_token''"

definition GrantTypeTokenExchange :: string where
  "GrantTypeTokenExchange = ''urn:ietf:params:oauth:grant-type:token-exchange''"

definition TokenTypeAccessToken :: string where
  "TokenTypeAccessToken = ''urn:ietf:params:oauth:token-type:access_token''"

definition accessTokenTTLSeconds :: int where
  "accessTokenTTLSeconds = 3600"

record Config =
  CfgProjectID :: string
  CfgServiceAccount :: string

type_synonym form = "string \<Rightarrow> string"

datatype description = Text string | BoundaryRefused boundary_error

text \<open>A success carries the access token, the issued token type (empty where the response has none) and the lifetime.\<close>

datatype response = Issued string string int | OAuthError string description

text \<open>The claims of an assertion; \<open>exp\<close> may be absent, not a number, or a number.\<close>

record assertionClaims =
  AIssuer :: string
  ASubject :: string
  AProjectID :: string
  AExpiresAt :: "int option option"

record tokenClaims =
  TEmail :: string
  TSubject :: string
  TProjectID :: string
  TExpiresAt :: int

record downscopedClaims = tokenClaims +
  AccessBoundary :: "Rule list"

text \<open>The encoders and decoders of JSON and the code that signs.\<close>

record codec =
  marshal_access :: "tokenClaims \<Rightarrow> string"
  marshal_downscoped :: "downscopedClaims \<Rightarrow> string"
  unmarshal_assertion :: "string \<Rightarrow> assertionClaims option"
  unmarshal_claims :: "string \<Rightarrow> claims option"
  unmarshal_options :: "string \<Rightarrow> ruleDoc list option"
  mac :: "string \<Rightarrow> string"

section \<open>Signing\<close>

definition jwt_header :: string where
  "jwt_header = EncodeToString (''{'' @ [CHR 0x22] @ ''alg'' @ [CHR 0x22] @ '':'' @ [CHR 0x22] @ ''HS256'' @ [CHR 0x22] @ '','' @
     [CHR 0x22] @ ''typ'' @ [CHR 0x22] @ '':'' @ [CHR 0x22] @ ''JWT'' @ [CHR 0x22] @ ''}'')"

definition signJWT :: "codec \<Rightarrow> string \<Rightarrow> string" where
  "signJWT j raw =
     (let signingInput = jwt_header @ ''.'' @ EncodeToString raw
      in signingInput @ ''.'' @ EncodeToString (mac j signingInput))"

definition MintAccessToken :: "codec \<Rightarrow> int \<Rightarrow> string \<Rightarrow> string \<Rightarrow> string" where
  "MintAccessToken j now sa project =
     signJWT j (marshal_access j \<lparr>TEmail = sa, TSubject = sa, TProjectID = project, TExpiresAt = now + accessTokenTTLSeconds\<rparr>)"

definition MintDownscopedToken :: "codec \<Rightarrow> int \<Rightarrow> string \<Rightarrow> string \<Rightarrow> Rule list \<Rightarrow> string" where
  "MintDownscopedToken j now sa project rules =
     signJWT j (marshal_downscoped j
       \<lparr>TEmail = sa, TSubject = sa, TProjectID = project, TExpiresAt = now + accessTokenTTLSeconds, AccessBoundary = rules\<rparr>)"

section \<open>Grants\<close>

definition parseAssertion :: "codec \<Rightarrow> int \<Rightarrow> string \<Rightarrow> string + assertionClaims" where
  "parseAssertion j now assertion =
     (if assertion = [] then Inl ''assertion is required''
      else let parts = Split assertion (CHR ''.'')
           in if length parts \<noteq> 3 then Inl ''assertion is not a well-formed JWT''
              else case DecodeString (parts ! 1) of
                     None \<Rightarrow> Inl ''assertion payload is not valid base64url''
                   | Some raw \<Rightarrow>
                       (case unmarshal_assertion j raw of
                          None \<Rightarrow> Inl ''assertion payload is not valid JSON''
                        | Some c \<Rightarrow>
                            if AIssuer c = [] \<and> ASubject c = [] then Inl ''assertion is missing iss/sub''
                            else (case AExpiresAt c of
                                    None \<Rightarrow> Inr c
                                  | Some None \<Rightarrow> Inl ''assertion exp is not a number''
                                  | Some (Some exp) \<Rightarrow> if now > exp then Inl ''assertion has expired'' else Inr c)))"

definition writeToken :: "codec \<Rightarrow> int \<Rightarrow> string \<Rightarrow> string \<Rightarrow> response" where
  "writeToken j now sa project = Issued (MintAccessToken j now sa project) [] accessTokenTTLSeconds"

definition serveJWTBearer :: "codec \<Rightarrow> Config \<Rightarrow> int \<Rightarrow> form \<Rightarrow> response" where
  "serveJWTBearer j cfg now form =
     (case parseAssertion j now (TrimSpace (form ''assertion'')) of
        Inl err \<Rightarrow> OAuthError ''invalid_grant'' (Text err)
      | Inr c \<Rightarrow>
          (let sa = (if ASubject c \<noteq> [] then ASubject c else AIssuer c);
               sa = (if sa = [] then CfgServiceAccount cfg else sa);
               project = (if AProjectID c = [] then CfgProjectID cfg else AProjectID c)
           in writeToken j now sa project))"

definition serveRefreshToken :: "codec \<Rightarrow> Config \<Rightarrow> int \<Rightarrow> form \<Rightarrow> response" where
  "serveRefreshToken j cfg now form =
     (if TrimSpace (form ''refresh_token'') = [] then OAuthError ''invalid_request'' (Text ''refresh_token is required'')
      else writeToken j now (CfgServiceAccount cfg) (CfgProjectID cfg))"

definition serveTokenExchange :: "codec \<Rightarrow> Config \<Rightarrow> int \<Rightarrow> form \<Rightarrow> response" where
  "serveTokenExchange j cfg now form =
     (let subjectToken = TrimSpace (form ''subject_token''); options = TrimSpace (form ''options'')
      in if TrimSpace (form ''subject_token_type'') \<noteq> TokenTypeAccessToken then
           OAuthError ''invalid_request'' (Text (''subject_token_type must be '' @ TokenTypeAccessToken))
         else if TrimSpace (form ''requested_token_type'') \<noteq> TokenTypeAccessToken then
           OAuthError ''invalid_request'' (Text (''requested_token_type must be '' @ TokenTypeAccessToken))
         else if subjectToken = [] then OAuthError ''invalid_request'' (Text ''subject_token is required'')
         else if options = [] then OAuthError ''invalid_request'' (Text ''options is required'')
         else case ParseOptions (unmarshal_options j) options of
                Inl err \<Rightarrow> OAuthError ''invalid_grant'' (BoundaryRefused err)
              | Inr rules \<Rightarrow>
                  (let sa = ServiceAccountFromToken (unmarshal_claims j) subjectToken;
                       sa = (if sa = [] then CfgServiceAccount cfg else sa);
                       project = ProjectFromToken (unmarshal_claims j) subjectToken;
                       project = (if project = [] then CfgProjectID cfg else project)
                   in Issued (MintDownscopedToken j now sa project rules) TokenTypeAccessToken accessTokenTTLSeconds))"

text \<open>The registry of grants as \<open>NewService\<close> fills it, and the endpoint; \<open>None\<close> is a form that cannot be parsed.\<close>

definition grants :: "(string \<times> (codec \<Rightarrow> Config \<Rightarrow> int \<Rightarrow> form \<Rightarrow> response)) list" where
  "grants = [(GrantTypeJWTBearer, serveJWTBearer), (GrantTypeRefreshToken, serveRefreshToken), (GrantTypeTokenExchange, serveTokenExchange)]"

definition ServeToken :: "codec \<Rightarrow> Config \<Rightarrow> int \<Rightarrow> form option \<Rightarrow> response" where
  "ServeToken j cfg now body =
     (case body of
        None \<Rightarrow> OAuthError ''invalid_request'' (Text ''malformed form body'')
      | Some form \<Rightarrow>
          (let grantType = TrimSpace (form ''grant_type'')
           in if grantType = [] then OAuthError ''invalid_request'' (Text ''grant_type is required'')
              else case map_of grants grantType of
                     None \<Rightarrow> OAuthError ''unsupported_grant_type'' (Text ''Unsupported grant type'')
                   | Some handler \<Rightarrow> handler j cfg now form))"

section \<open>Tokens carry their claims\<close>

lemma header_chars: "CHR ''.'' \<notin> set jwt_header"
  using EncodeToString_chars by (auto simp: jwt_header_def)

lemma signed_payload: "payload (signJWT j raw) = Some raw"
  using payload_of_token [OF header_chars, of "EncodeToString (mac j (jwt_header @ ''.'' @ EncodeToString raw))" raw] EncodeToString_chars
  by (fastforce simp: signJWT_def Let_def)

lemma signed_bearer: "BearerToken (''Bearer '' @ signJWT j raw) = signJWT j raw"
proof (rule BearerToken_plain)
  have "hd jwt_header = CHR ''e'' \<and> jwt_header \<noteq> []" by code_simp
  then show "signJWT j raw \<noteq> []" "plain_byte (hd (signJWT j raw))"
    by (simp_all add: signJWT_def Let_def plain_byte_def byte_def)
  show "plain_byte (last (signJWT j raw))"
  proof (cases "EncodeToString (mac j (jwt_header @ ''.'' @ EncodeToString raw))" rule: rev_cases)
    case Nil
    then show ?thesis by (simp add: signJWT_def Let_def plain_byte_def byte_def)
  next
    case (snoc s c)
    then have "plain_byte c" using EncodeToString_chars by (metis in_set_conv_decomp)
    with snoc show ?thesis by (simp add: signJWT_def Let_def)
  qed
qed

section \<open>A downscoped token is confined to its boundary\<close>

lemma exchanged:
  assumes "ServeToken j cfg now (Some form) = Issued token TokenTypeAccessToken ttl"
  obtains sa project rules where "ParseOptions (unmarshal_options j) (TrimSpace (form ''options'')) = Inr rules"
    "token = MintDownscopedToken j now sa project rules"
proof -
  have type: "TokenTypeAccessToken \<noteq> []" by (simp add: TokenTypeAccessToken_def)
  from assms have "serveTokenExchange j cfg now form = Issued token TokenTypeAccessToken ttl"
    using type
    by (auto simp: ServeToken_def Let_def grants_def serveJWTBearer_def serveRefreshToken_def writeToken_def split: if_splits sum.splits)
  with that show ?thesis by (auto simp: serveTokenExchange_def Let_def split: if_splits sum.splits)
qed

lemma ParseOptions_Inr: "ParseOptions u options = Inr rules \<Longrightarrow> u options = Some nodes \<Longrightarrow> parse_rules nodes = Inr rules \<and> nodes \<noteq> []"
  by (auto simp: ParseOptions_def split: if_splits option.splits)

text \<open>
  C8: A token that the endpoint issues for a credential access boundary, sent back as a bearer credential, permits an
  operation exactly when the operation is not an administration of buckets and some rule of the boundary in
  the request names the bucket, grants a role that covers the operation, and has no condition or one whose prefix the object
  name starts with. The claim of the token is assumed to decode to the rules that were encoded.
\<close>

theorem downscoped_token_enforces_boundary:
  assumes "ServeToken j cfg now (Some form) = Issued token TokenTypeAccessToken ttl"
    and "unmarshal_options j (TrimSpace (form ''options'')) = Some nodes"
    and "\<And>c. parse_rules nodes = Inr (AccessBoundary c) \<Longrightarrow> claim (marshal_downscoped j c) = Some (Some (AccessBoundary c))"
  shows "Allowed claim (''Bearer '' @ token) op bucket name = None \<longleftrightarrow>
    op \<noteq> BucketAdmin \<and> (\<exists>node \<in> set nodes. node_admits op bucket name node)"
proof -
  from exchanged [OF assms(1)] obtain sa project rules where
    r: "ParseOptions (unmarshal_options j) (TrimSpace (form ''options'')) = Inr rules" "token = MintDownscopedToken j now sa project rules" .
  from ParseOptions_Inr [OF r(1) assms(2)] have rules: "parse_rules nodes = Inr rules" by simp
  with assms(3) have "RulesFromAuthorization claim (''Bearer '' @ token) = Some rules"
    by (simp add: RulesFromAuthorization_def rulesFromToken_def r(2) MintDownscopedToken_def signed_bearer [simplified] signed_payload)
  then show ?thesis by (simp add: Allowed_def rules_admit_nodes [OF rules] list_ex_iff [symmetric])
qed

text \<open>A reader of one folder.\<close>

definition demo_node :: ruleDoc where
  "demo_node = \<lparr>docResource = bucket_path @ ''logs'', docPermissions = [PermissionObjectViewer],
     docCondition = Some \<lparr>Expression = condition_text ''logs'' OnObjects ''app/'', Title = [], Description = []\<rparr>\<rparr>"

definition demo_rule :: Rule where
  "demo_rule = \<lparr>AvailableResource = bucket_path @ ''logs'', Bucket = ''logs'', ObjectPrefix = ''app/'', Permissions = [PermissionObjectViewer],
     Condition = Some \<lparr>Expression = condition_text ''logs'' OnObjects ''app/'', Title = [], Description = []\<rparr>\<rparr>"

definition demo_codec :: codec where
  "demo_codec = \<lparr>marshal_access = (\<lambda>_. []), marshal_downscoped = (\<lambda>_. ''{}''), unmarshal_assertion = (\<lambda>_. None),
     unmarshal_claims = (\<lambda>_. None), unmarshal_options = (\<lambda>_. Some [demo_node]), mac = (\<lambda>_. ''0123'')\<rparr>"

definition demo_form :: form where
  "demo_form k = the_default [] (map_of [(''grant_type'', GrantTypeTokenExchange), (''subject_token_type'', TokenTypeAccessToken),
     (''requested_token_type'', TokenTypeAccessToken), (''subject_token'', ''owner''), (''options'', ''{}'')] k)"

definition demo_token :: string where
  "demo_token = MintDownscopedToken demo_codec 0 ''sa'' ''p'' [demo_rule]"

lemma demo_parse: "parse_rules [demo_node] = Inr [demo_rule]"
  by code_simp

lemma demo_issued: "ServeToken demo_codec \<lparr>CfgProjectID = ''p'', CfgServiceAccount = ''sa''\<rparr> 0 (Some demo_form) = Issued demo_token TokenTypeAccessToken 3600"
  by code_simp

theorem downscoped_token_enforces_boundary_witness:
  "Allowed (\<lambda>_. Some (Some [demo_rule])) (''Bearer '' @ demo_token) ReadObject ''logs'' ''app/1'' = None \<and>
   Allowed (\<lambda>_. Some (Some [demo_rule])) (''Bearer '' @ demo_token) ReadObject ''logs'' ''db/1'' \<noteq> None"
proof -
  note t = downscoped_token_enforces_boundary [OF demo_issued, of "[demo_node]" "\<lambda>_. Some (Some [demo_rule])" ReadObject "''logs''"]
  have u: "unmarshal_options demo_codec (TrimSpace (demo_form ''options'')) = Some [demo_node]" by (simp add: demo_codec_def)
  have adm: "rule_admits ReadObject ''logs'' ''app/1'' demo_rule" "\<not> rule_admits ReadObject ''logs'' ''db/1'' demo_rule" by code_simp+
  then have "node_admits ReadObject ''logs'' ''app/1'' demo_node" "\<not> node_admits ReadObject ''logs'' ''db/1'' demo_node"
    using rules_admit_nodes [OF demo_parse, of ReadObject "''logs''"] by simp_all
  with t [OF u] demo_parse show ?thesis by simp
qed

end
