(* ===== verification/Store_Util.thy ===== *)
theory Store_Util
  imports Go_Prelude Go_Float
begin

text \<open>
  What the GCP stores share: decoded JSON values, and the atomic read-modify-write of \<open>internal/gcp/storeutil\<close>. The lock is held
  from the read to the write, so that the three callbacks are one step of the store.
\<close>

text \<open>A decoded JSON value, or one converted from a protocol buffer, which has integers of its own.\<close>

datatype any = ANil | AStr string | ABool bool | AFloat float64 | AInt int | ANumber string | AMap "(string \<times> any) list" | AList "any list"

definition AtomicUpdate :: "('s \<Rightarrow> 'a option) \<Rightarrow> ('a option \<Rightarrow> 'e + 'a) \<Rightarrow> ('a \<Rightarrow> 's \<Rightarrow> 's) \<Rightarrow> 's \<Rightarrow> 'e + 's \<times> 'a" where
  "AtomicUpdate get mutate put s = (case mutate (get s) of Inl err \<Rightarrow> Inl err | Inr nxt \<Rightarrow> Inr (put nxt s, nxt))"

text \<open>\<open>n, _ = strconv.ParseInt(s, 10, 64)\<close>: the value left when the error is ignored.\<close>

definition ParseInt_lax :: "string \<Rightarrow> int" where
  "ParseInt_lax s = (case parse_int s of None \<Rightarrow> 0 | Some i \<Rightarrow> if i < - (2 ^ 63) then - (2 ^ 63) else if i \<ge> 2 ^ 63 then 2 ^ 63 - 1 else i)"

lemma ParseInt_lax_Itoa [simp]: "in_int64 i \<Longrightarrow> ParseInt_lax (Itoa i) = i"
  by (simp add: ParseInt_lax_def in_int64_def)

end
