(* ===== verification/Cas_Contract.thy ===== *)
theory Cas_Contract
  imports Go_Prelude
begin

text \<open>
  Optimistic concurrency: a store has a version, a conditional write names the version its writer read, and is refused unless
  the store still has it. The contract is shared by the etags of policies and by the generations of objects.
\<close>

text \<open>The writers, all conditioned on the version \<open>v\<close>, in the order in which they take the store's lock; the list of those that were served.\<close>

fun attempts :: "('v \<Rightarrow> 'w \<Rightarrow> 's \<Rightarrow> 's option) \<Rightarrow> 'v \<Rightarrow> 'w list \<Rightarrow> 's \<Rightarrow> 's \<times> 'w list" where
  "attempts put v [] s = (s, [])"
| "attempts put v (w # ws) s =
     (case put v w s of
        None \<Rightarrow> attempts put v ws s
      | Some s' \<Rightarrow> (case attempts put v ws s' of (t, won) \<Rightarrow> (t, w # won)))"

locale conditional_store =
  fixes version :: "'s \<Rightarrow> 'v"
    and put :: "'v \<Rightarrow> 'w \<Rightarrow> 's \<Rightarrow> 's option"
    and stamp :: "'w \<Rightarrow> 'v"
    and sound :: "'w \<Rightarrow> bool"
  assumes refused: "version s \<noteq> v \<Longrightarrow> put v w s = None"
    and stamped: "put v w s = Some s' \<Longrightarrow> sound w \<Longrightarrow> version s' = stamp w"
begin

lemma all_refused:
  assumes "version s \<noteq> v"
  shows "attempts put v ws s = (s, [])"
  using assms by (induction ws) (simp_all add: refused)

lemma first_wins:
  assumes "put v w s = Some s'" "sound w" "stamp w \<noteq> v"
  shows "attempts put v (w # ws) s = (s', [w])"
proof -
  have "version s' \<noteq> v" using stamped assms by simp
  then show ?thesis using assms(1) by (simp add: all_refused)
qed

lemma at_most_one_wins:
  assumes "\<forall>w \<in> set ws. sound w \<and> stamp w \<noteq> v"
  shows "attempts put v ws s = (s, []) \<or> (\<exists>w s'. w \<in> set ws \<and> put v w s = Some s' \<and> attempts put v ws s = (s', [w]))"
  using assms
proof (induction ws)
  case (Cons w ws)
  show ?case
  proof (cases "put v w s")
    case (Some s')
    with Cons.prems first_wins [OF Some] show ?thesis by auto
  qed (use Cons in auto)
qed simp

end

end
