(* ===== verification/Iam_Policy.thy ===== *)
theory Iam_Policy
  imports Resource_Store Store_Util Cas_Contract Go_Strings Go_Base64
begin

text \<open>
  \<open>internal/gcp/policy\<close>: IAM policies kept in the resource store, with optimistic concurrency control by etags, and the
  authorization of Cloud KMS operations by them. The JSON encoders and decoders and SHA-1 are arguments.
\<close>

section \<open>Data\<close>

record Policy =
  PVersion :: int
  PEtag :: string
  PBindings :: "any list"

record policy_codec =
  marshal_policy :: "Policy \<Rightarrow> string"
  unmarshal_policy :: "string \<Rightarrow> Policy \<Rightarrow> Policy"
  marshal_bindings :: "any list \<Rightarrow> string"
  sha1 :: "string \<Rightarrow> string"

datatype policy_error = EtagMismatch | InvalidVersion | ConditionNeedsVersion3 | StoreFailed | PermissionDenied string string

definition DefaultEtag :: string where
  "DefaultEtag = ''ACAB''"

definition GlobalRegion :: string where
  "GlobalRegion = ''global''"

definition default_policy :: Policy where
  "default_policy = \<lparr>PVersion = 1, PEtag = DefaultEtag, PBindings = []\<rparr>"

text \<open>\<open>base64.StdEncoding\<close>, with padding.\<close>

definition std_char :: "nat \<Rightarrow> char" where
  "std_char n = (if n = 62 then CHR ''+'' else if n = 63 then CHR ''/'' else url_char n)"

definition StdEncode :: "string \<Rightarrow> string" where
  "StdEncode s = (let t = map std_char (enc_bytes (map of_char s)) in t @ replicate ((4 - length t mod 4) mod 4) (CHR ''=''))"

definition Etag :: "policy_codec \<Rightarrow> string \<Rightarrow> string" where
  "Etag j s = StdEncode (sha1 j s)"

definition EtagFor :: "policy_codec \<Rightarrow> any list \<Rightarrow> string" where
  "EtagFor j bindings = Etag j (marshal_bindings j bindings)"

section \<open>Versions\<close>

definition is_integral :: "float64 \<Rightarrow> bool" where
  "is_integral x = (case x of FFin s m e \<Rightarrow> e \<ge> 0 \<or> m mod 2 ^ nat (- e) = 0 | _ \<Rightarrow> False)"

text \<open>\<open>int(v)\<close> of an integral number; out of range the conversion yields the least integer.\<close>

definition int_of_float :: "float64 \<Rightarrow> int" where
  "int_of_float x =
     (case x of
        FFin s m e \<Rightarrow>
          let n = int (if e \<ge> 0 then m * 2 ^ nat e else m div 2 ^ nat (- e)); i = (if s then - n else n)
          in if in_int64 i then i else - (2 ^ 63)
      | _ \<Rightarrow> - (2 ^ 63))"

definition parseVersion :: "any option \<Rightarrow> policy_error + int option" where
  "parseVersion raw =
     (case raw of
        None \<Rightarrow> Inr None
      | Some ANil \<Rightarrow> Inr None
      | Some (AFloat v) \<Rightarrow> if \<not> is_integral v then Inl InvalidVersion else Inr (Some (int_of_float v))
      | Some (AInt v) \<Rightarrow> Inr (Some v)
      | Some (ANumber s) \<Rightarrow> (case Atoi s of None \<Rightarrow> Inl InvalidVersion | Some n \<Rightarrow> Inr (Some n))
      | _ \<Rightarrow> Inl InvalidVersion)"

definition resolveVersion :: "any option \<Rightarrow> bool \<Rightarrow> policy_error + int" where
  "resolveVersion raw conditional =
     (case parseVersion raw of
        Inl err \<Rightarrow> Inl err
      | Inr v \<Rightarrow>
          if v \<noteq> None \<and> the v \<noteq> 0 \<and> the v \<noteq> 1 \<and> the v \<noteq> 3 then Inl InvalidVersion
          else let v = (if v = Some 0 then None else v)
               in if conditional then (if v = Some 1 then Inl ConditionNeedsVersion3 else Inr 3)
                  else Inr (the_default 1 v))"

definition hasCondition :: "any list \<Rightarrow> bool" where
  "hasCondition bindings =
     list_ex (\<lambda>b. case b of AMap m \<Rightarrow> (case map_of m ''condition'' of Some (AMap c) \<Rightarrow> c \<noteq> [] | _ \<Rightarrow> False) | _ \<Rightarrow> False) bindings"

section \<open>Reading and writing policies\<close>

definition Load :: "policy_codec \<Rightarrow> string \<Rightarrow> string \<Rightarrow> string \<Rightarrow> MemoryResourceStore \<Rightarrow> Policy" where
  "Load j account resourceType i s =
     (case (Get account GlobalRegion resourceType i s :: unit store_error + ResourceEntry) of
        Inl _ \<Rightarrow> default_policy
      | Inr e \<Rightarrow> unmarshal_policy j (Data e) default_policy)"

type_synonym body = "(string \<times> any) list"

definition policy_body :: "body \<Rightarrow> body" where
  "policy_body b = (case map_of b ''policy'' of Some (AMap p) \<Rightarrow> p | _ \<Rightarrow> b)"

definition body_bindings :: "body \<Rightarrow> any list" where
  "body_bindings b = (case map_of (policy_body b) ''bindings'' of Some (AList bs) \<Rightarrow> bs | _ \<Rightarrow> [])"

definition body_etag :: "body \<Rightarrow> string" where
  "body_etag b = (case map_of (policy_body b) ''etag'' of Some (AStr e) \<Rightarrow> e | _ \<Rightarrow> [])"

text \<open>The function passed to \<open>UpsertAtomic\<close>.\<close>

definition check_and_write ::
    "policy_codec \<Rightarrow> string \<Rightarrow> string \<Rightarrow> string \<Rightarrow> Policy \<Rightarrow> ResourceEntry \<Rightarrow> bool \<Rightarrow> policy_error + ResourceEntry" where
  "check_and_write j reqEtag resourceType i pol current exists =
     (let existing = (if exists then unmarshal_policy j (Data current) default_policy else default_policy)
      in if reqEtag \<noteq> [] \<and> reqEtag \<noteq> PEtag existing then Inl EtagMismatch
         else Inr (zero_entry\<lparr>Type := resourceType, ID := i, Data := marshal_policy j pol\<rparr>))"

definition Set ::
    "policy_codec \<Rightarrow> time \<Rightarrow> string \<Rightarrow> string \<Rightarrow> string \<Rightarrow> body \<Rightarrow> MemoryResourceStore \<Rightarrow> policy_error + MemoryResourceStore \<times> Policy" where
  "Set j now account resourceType i body s =
     (let bindings = body_bindings body
      in case resolveVersion (map_of (policy_body body) ''version'') (hasCondition bindings) of
           Inl err \<Rightarrow> Inl err
         | Inr version \<Rightarrow>
             (let pol = \<lparr>PVersion = version, PEtag = EtagFor j bindings, PBindings = bindings\<rparr>
              in case UpsertAtomic now account GlobalRegion resourceType i
                        (check_and_write j (body_etag body) resourceType i pol) s of
                   Inl (ErrMutate err) \<Rightarrow> Inl err
                 | Inl _ \<Rightarrow> Inl StoreFailed
                 | Inr (s', _) \<Rightarrow> Inr (s', pol)))"

definition ToMap :: "Policy \<Rightarrow> body" where
  "ToMap p = [(''version'', AInt (PVersion p)), (''etag'', AStr (PEtag p)), (''bindings'', AList (PBindings p))]"

definition TestPermissions :: "string list \<Rightarrow> string list" where
  "TestPermissions ps = ps"

definition body_permissions :: "body \<Rightarrow> string list" where
  "body_permissions b =
     (case map_of b ''permissions'' of
        Some (AList items) \<Rightarrow> List.map_filter (\<lambda>it. case it of AStr s \<Rightarrow> Some s | _ \<Rightarrow> None) items
      | _ \<Rightarrow> [])"

section \<open>Authorization of KMS operations\<close>

definition PermCryptoKeyUseToEncrypt :: string where "PermCryptoKeyUseToEncrypt = ''cloudkms.cryptoKeyVersions.useToEncrypt''"
definition PermCryptoKeyUseToDecrypt :: string where "PermCryptoKeyUseToDecrypt = ''cloudkms.cryptoKeyVersions.useToDecrypt''"
definition PermCryptoKeyUseToSign :: string where "PermCryptoKeyUseToSign = ''cloudkms.cryptoKeyVersions.useToSign''"
definition PermCryptoKeyUseToVerify :: string where "PermCryptoKeyUseToVerify = ''cloudkms.cryptoKeyVersions.useToVerify''"
definition PermCryptoKeyViewPublicKey :: string where "PermCryptoKeyViewPublicKey = ''cloudkms.cryptoKeyVersions.viewPublicKey''"

definition kmsCryptoPermissions :: "string list" where
  "kmsCryptoPermissions =
     [PermCryptoKeyUseToEncrypt, PermCryptoKeyUseToDecrypt, PermCryptoKeyUseToSign, PermCryptoKeyUseToVerify, PermCryptoKeyViewPublicKey]"

definition kmsRolePermissions :: "(string \<times> string list) list" where
  "kmsRolePermissions =
     [(''roles/owner'', kmsCryptoPermissions),
      (''roles/editor'', kmsCryptoPermissions),
      (''roles/cloudkms.admin'', kmsCryptoPermissions),
      (''roles/cloudkms.cryptooperator'', [PermCryptoKeyUseToEncrypt, PermCryptoKeyUseToDecrypt, PermCryptoKeyUseToSign, PermCryptoKeyUseToVerify]),
      (''roles/cloudkms.cryptokeyencrypterdecrypter'', [PermCryptoKeyUseToEncrypt, PermCryptoKeyUseToDecrypt]),
      (''roles/cloudkms.cryptokeyencrypter'', [PermCryptoKeyUseToEncrypt]),
      (''roles/cloudkms.cryptokeydecrypter'', [PermCryptoKeyUseToDecrypt]),
      (''roles/cloudkms.signerverifier'', [PermCryptoKeyUseToSign, PermCryptoKeyUseToVerify, PermCryptoKeyViewPublicKey]),
      (''roles/cloudkms.signer'', [PermCryptoKeyUseToSign]),
      (''roles/cloudkms.verifier'', [PermCryptoKeyUseToVerify, PermCryptoKeyViewPublicKey]),
      (''roles/cloudkms.publickeyviewer'', [PermCryptoKeyViewPublicKey])]"

definition binding_role :: "any \<Rightarrow> string option" where
  "binding_role b =
     (case b of AMap m \<Rightarrow> Some (case map_of m ''role'' of Some (AStr r) \<Rightarrow> r | _ \<Rightarrow> []) | _ \<Rightarrow> None)"

definition role_grants :: "(string \<Rightarrow> string) \<Rightarrow> string \<Rightarrow> string \<Rightarrow> bool" where
  "role_grants uni permission role \<longleftrightarrow>
     permission \<in> set (the_default [] (map_of kmsRolePermissions (ToLower uni (TrimSpace role))))"

text \<open>The loop over the bindings; a binding that is no map is skipped.\<close>

fun some_binding_grants :: "(string \<Rightarrow> string) \<Rightarrow> string \<Rightarrow> any list \<Rightarrow> bool" where
  "some_binding_grants uni permission [] = False"
| "some_binding_grants uni permission (b # bs) =
     (case binding_role b of
        None \<Rightarrow> some_binding_grants uni permission bs
      | Some role \<Rightarrow> role_grants uni permission role \<or> some_binding_grants uni permission bs)"

definition AuthorizeKMS ::
    "policy_codec \<Rightarrow> (string \<Rightarrow> string) \<Rightarrow> string \<Rightarrow> string \<Rightarrow> string \<Rightarrow> string \<Rightarrow> string \<Rightarrow> MemoryResourceStore \<Rightarrow> policy_error option" where
  "AuthorizeKMS j uni account policyType i permission resource s =
     (let p = Load j account policyType i s
      in if PBindings p = [] then None
         else if some_binding_grants uni permission (PBindings p) then None
         else Some (PermissionDenied permission resource))"

section \<open>Updates are conditional on the etag\<close>

lemma Load_alt:
  "Load j a t i s =
     (case fmlookup (entries s) (key a GlobalRegion t i) of None \<Rightarrow> default_policy | Some e \<Rightarrow> unmarshal_policy j (Data e) default_policy)"
  by (simp add: Load_def Get_def split: option.splits)

definition body_version :: "body \<Rightarrow> policy_error + int" where
  "body_version body = resolveVersion (map_of (policy_body body) ''version'') (hasCondition (body_bindings body))"

definition body_policy :: "policy_codec \<Rightarrow> body \<Rightarrow> int \<Rightarrow> Policy" where
  "body_policy j body v = \<lparr>PVersion = v, PEtag = EtagFor j (body_bindings body), PBindings = body_bindings body\<rparr>"

text \<open>A set that succeeds had no etag or the current one, and writes its policy.\<close>

lemma Set_Inr:
  assumes "Set j now a t i body s = Inr (s', p)"
  obtains v e where "body_version body = Inr v" "p = body_policy j body v" "body_etag body = [] \<or> body_etag body = PEtag (Load j a t i s)"
    "entries s' = fmupd (key a GlobalRegion t i) e (entries s)" "Data e = marshal_policy j p"
  using assms
  by (auto simp: Set_def Let_def UpsertAtomic_def check_and_write_def Load_alt GlobalRegion_def body_version_def body_policy_def
      split: sum.splits option.splits if_splits)

lemma Set_stale:
  "body_version body = Inr v \<Longrightarrow> body_etag body \<noteq> [] \<Longrightarrow> body_etag body \<noteq> PEtag (Load j a t i s) \<Longrightarrow> Set j now a t i body s = Inl EtagMismatch"
  by (auto simp: Set_def Let_def UpsertAtomic_def check_and_write_def Load_alt GlobalRegion_def body_version_def
      split: sum.splits option.splits)

lemma Set_current:
  "body_version body = Inr v \<Longrightarrow> body_etag body = [] \<or> body_etag body = PEtag (Load j a t i s) \<Longrightarrow>
     \<exists>s'. Set j now a t i body s = Inr (s', body_policy j body v)"
  by (auto simp: Set_def Let_def UpsertAtomic_def check_and_write_def Load_alt GlobalRegion_def body_version_def body_policy_def
      split: sum.splits option.splits)

lemma Load_after_Set:
  assumes "Set j now a t i body s = Inr (s', p)" "unmarshal_policy j (marshal_policy j p) default_policy = p"
  shows "Load j a' t' i' s' = (if key a' GlobalRegion t' i' = key a GlobalRegion t i then p else Load j a' t' i' s)"
proof -
  from Set_Inr [OF assms(1)] obtain e where "entries s' = fmupd (key a GlobalRegion t i) e (entries s)" "Data e = marshal_policy j p" by metis
  with assms(2) show ?thesis by (simp add: Load_alt)
qed

text \<open>A request that sends an etag, and whether its policy decodes to what was encoded.\<close>

definition set_at :: "policy_codec \<Rightarrow> string \<Rightarrow> string \<Rightarrow> string \<Rightarrow> string \<Rightarrow> time \<times> body \<Rightarrow> MemoryResourceStore \<Rightarrow> MemoryResourceStore option" where
  "set_at j a t i etag w s =
     (case w of (now, body) \<Rightarrow>
        if etag = [] \<or> body_etag body \<noteq> etag then None
        else (case Set j now a t i body s of Inl err \<Rightarrow> None | Inr (s', p) \<Rightarrow> Some s'))"

definition decodes :: "policy_codec \<Rightarrow> time \<times> body \<Rightarrow> bool" where
  "decodes j w \<longleftrightarrow>
     (case body_version (snd w) of
        Inl err \<Rightarrow> True
      | Inr v \<Rightarrow> unmarshal_policy j (marshal_policy j (body_policy j (snd w) v)) default_policy = body_policy j (snd w) v)"

lemma set_at_Some:
  assumes "set_at j a t i etag w s = Some s'"
  obtains v p where "Set j (fst w) a t i (snd w) s = Inr (s', p)" "body_version (snd w) = Inr v" "p = body_policy j (snd w) v"
    "PEtag (Load j a t i s) = etag"
proof -
  from assms obtain p where set: "Set j (fst w) a t i (snd w) s = Inr (s', p)" and e: "body_etag (snd w) = etag" "etag \<noteq> []"
    by (auto simp: set_at_def split: prod.splits sum.splits if_splits)
  from Set_Inr [OF set] obtain v where "body_version (snd w) = Inr v" "p = body_policy j (snd w) v"
    "body_etag (snd w) = [] \<or> body_etag (snd w) = PEtag (Load j a t i s)" by metis
  with set e that show thesis by simp
qed

interpretation policy_sets: conditional_store "\<lambda>s. PEtag (Load j a t i s)" "set_at j a t i" "\<lambda>w. EtagFor j (body_bindings (snd w))" "decodes j"
  for j a t i
proof
  fix s s' :: MemoryResourceStore and etag w
  show "set_at j a t i etag w s = None" if "PEtag (Load j a t i s) \<noteq> etag"
    using that by (auto elim: set_at_Some intro: option.exhaust)
  show "PEtag (Load j a t i s') = EtagFor j (body_bindings (snd w))" if "set_at j a t i etag w s = Some s'" "decodes j w"
    using that by (auto simp: decodes_def body_policy_def elim!: set_at_Some dest!: Load_after_Set [where a' = a and t' = t and i' = i])
qed

text \<open>
  C16: Of any number of writers that read the same policy of a resource and send its etag back, exactly the first to take the lock
  is served, when its request is valid and changes the etag; its policy is the one read afterwards, and no other
  resource's policy changes; a later writer that sends the old etag is told of the mismatch. The stored policy is assumed to decode to what was encoded.
\<close>

theorem one_policy_writer_wins:
  assumes "PEtag (Load j a t i s) = etag" "etag \<noteq> []" "body_etag body = etag" "body_version body = Inr v" "decodes j (now, body)"
    and "EtagFor j (body_bindings body) \<noteq> etag"
  shows "\<exists>s'. attempts (set_at j a t i) etag ((now, body) # ws) s = (s', [(now, body)]) \<and> Load j a t i s' = body_policy j body v \<and>
    (\<forall>a' t' i'. key a' GlobalRegion t' i' \<noteq> key a GlobalRegion t i \<longrightarrow> Load j a' t' i' s' = Load j a' t' i' s) \<and>
    (\<forall>now' body' v'. body_etag body' = etag \<and> body_version body' = Inr v' \<longrightarrow> Set j now' a t i body' s' = Inl EtagMismatch)"
proof -
  from Set_current [OF assms(4), of j a t i s now] assms(1,3) obtain s' where s': "Set j now a t i body s = Inr (s', body_policy j body v)" by auto
  then have "set_at j a t i etag (now, body) s = Some s'" using assms(2,3) by (simp add: set_at_def)
  then have "attempts (set_at j a t i) etag ((now, body) # ws) s = (s', [(now, body)])"
    using assms(5,6) by (intro policy_sets.first_wins) simp_all
  moreover have "unmarshal_policy j (marshal_policy j (body_policy j body v)) default_policy = body_policy j body v"
    using assms(4,5) by (simp add: decodes_def)
  ultimately show ?thesis using Load_after_Set [OF s'] assms(2,6) Set_stale by (auto simp: body_policy_def)
qed

text \<open>
  An update of the version alone keeps the etag, which is derived from the bindings, and is overwritten by a writer that
  read the policy before it.
\<close>

theorem version_update_is_overwritten:
  assumes "Set j now a t i body s = Inr (s', p)" "unmarshal_policy j (marshal_policy j p) default_policy = p"
    and "EtagFor j (body_bindings body) = PEtag (Load j a t i s)"
    and "body_etag body' = PEtag (Load j a t i s)" "body_version body' = Inr v"
  shows "\<exists>s''. Set j now' a t i body' s' = Inr (s'', body_policy j body' v)"
proof (rule Set_current [OF assms(5)])
  from assms(1,3) have "PEtag p = PEtag (Load j a t i s)" by (auto simp: body_policy_def elim: Set_Inr)
  with Load_after_Set [OF assms(1,2), of a t i] assms(4) show "body_etag body' = [] \<or> body_etag body' = PEtag (Load j a t i s')" by simp
qed

definition bound_policy :: Policy where
  "bound_policy = \<lparr>PVersion = 1, PEtag = ''YWJj'', PBindings = [AMap [(''role'', AStr ''roles/viewer'')]]\<rparr>"

definition const_codec :: policy_codec where
  "const_codec = \<lparr>marshal_policy = (\<lambda>_. ''{}''), unmarshal_policy = (\<lambda>_ _. bound_policy), marshal_bindings = (\<lambda>_. []), sha1 = (\<lambda>_. ''abc'')\<rparr>"

definition bind_body :: body where
  "bind_body = [(''policy'', AMap [(''etag'', AStr DefaultEtag), (''bindings'', AList [AMap [(''role'', AStr ''roles/viewer'')]])])]"

lemma bind_body_facts: "body_version bind_body = Inr 1" "body_etag bind_body = DefaultEtag" "body_policy const_codec bind_body 1 = bound_policy"
  by code_simp+

theorem one_policy_writer_wins_witness:
  "\<exists>s'. attempts (set_at const_codec ''p'' ''topic'' ''t'') DefaultEtag [(0, bind_body), (1, bind_body)] NewMemoryResourceStore = (s', [(0, bind_body)]) \<and>
     Load const_codec ''p'' ''topic'' ''t'' s' = bound_policy"
proof -
  have "PEtag (Load const_codec ''p'' ''topic'' ''t'' NewMemoryResourceStore) = DefaultEtag" "DefaultEtag \<noteq> []"
    by (simp_all add: Load_alt NewMemoryResourceStore_def default_policy_def DefaultEtag_def)
  moreover have "decodes const_codec (0, bind_body)" by (simp add: decodes_def bind_body_facts const_codec_def) (code_simp)
  moreover have "EtagFor const_codec (body_bindings bind_body) \<noteq> DefaultEtag" by code_simp
  ultimately show ?thesis
    using one_policy_writer_wins [of const_codec "''p''" "''topic''" "''t''" NewMemoryResourceStore DefaultEtag bind_body 1 0 "[(1, bind_body)]"]
      bind_body_facts by metis
qed

text \<open>A KMS operation is authorized exactly when the key has no bindings or one of them has a role that grants the permission.\<close>

lemma some_binding_grants_iff:
  "some_binding_grants uni permission bs \<longleftrightarrow> (\<exists>b \<in> set bs. \<exists>role. binding_role b = Some role \<and> role_grants uni permission role)"
  by (induction bs) (auto split: option.splits)

theorem kms_authorization_exact:
  "AuthorizeKMS j uni a t i permission resource s = None \<longleftrightarrow>
     PBindings (Load j a t i s) = [] \<or>
     (\<exists>b \<in> set (PBindings (Load j a t i s)). \<exists>role. binding_role b = Some role \<and> role_grants uni permission role)"
  by (simp add: AuthorizeKMS_def Let_def some_binding_grants_iff)

end
