(* ===== verification/Gcs_Store.thy ===== *)
theory Gcs_Store
  imports Store_Util Cas_Contract
begin

text \<open>
  \<open>internal/gcp/store/gcs\<close>: the metadata store of Cloud Storage: buckets, the generations of objects with their
  preconditions, soft deletion, and resumable uploads. Every operation runs under the store's lock.
\<close>

section \<open>Data\<close>

datatype gcs_error = ErrNoSuchBucket | ErrNoSuchObject | ErrNoSuchUpload | ErrBucketNotEmpty | ErrAlreadyExists | ErrPreconditionFailed

record Precondition =
  GenerationMatch :: "int option"
  GenerationNotMatch :: "int option"
  MetagenerationMatch :: "int option"
  MetagenerationNotMatch :: "int option"

record ObjectRetention =
  RetainUntilTime :: time
  Mode :: string

record TombstoneOptions =
  OptSoftDeleted :: bool
  OptHardDeleteTime :: time

record ObjectMeta =
  Bucket :: string
  Name :: string
  Generation :: string
  Metageneration :: string
  ContentType :: string
  ContentEncoding :: string
  Size :: int
  MD5Hash :: string
  CRC32C :: string
  StorageClass :: string
  Metadata :: "(string, string) fmap"
  ComponentCount :: int
  TimeCreated :: time
  Updated :: time
  Retention :: "ObjectRetention option"
  TemporaryHold :: bool
  EventBasedHold :: bool
  TimeDeleted :: "time option"
  SoftDeleted :: bool
  HardDeleteTime :: time
  KmsKeyName :: string
  WrappedDEK :: string
  CSEKeySHA256 :: string

record ResumableSession =
  UploadID :: string
  UBucket :: string
  UName :: string
  UContentType :: string
  Length :: int
  TmpPath :: string
  LastAccess :: time

type_synonym bucket_meta = "(string, any) fmap"
type_synonym gens = "ObjectMeta list"

record MemoryObjectStore =
  buckets :: "(string, bucket_meta) fmap"
  objects :: "(string, (string, gens) fmap) fmap"
  uploads :: "(string, ResumableSession) fmap"

definition NewMemoryObjectStore :: MemoryObjectStore where
  "NewMemoryObjectStore = \<lparr>buckets = fmempty, objects = fmempty, uploads = fmempty\<rparr>"

section \<open>Metagenerations and preconditions\<close>

definition BucketMetageneration :: "bucket_meta \<Rightarrow> string" where
  "BucketMetageneration meta = (case fmlookup meta ''metageneration'' of Some (AStr s) \<Rightarrow> if s \<noteq> [] then s else ''1'' | _ \<Rightarrow> ''1'')"

definition normalizeBucketMeta :: "bucket_meta \<Rightarrow> bucket_meta" where
  "normalizeBucketMeta meta =
     (case fmlookup meta ''metageneration'' of Some (AStr _) \<Rightarrow> meta | _ \<Rightarrow> fmupd ''metageneration'' (AStr ''1'') meta)"

definition nextMetageneration :: "string \<Rightarrow> string" where
  "nextMetageneration m = (case Atoi m of None \<Rightarrow> ''1'' | Some n \<Rightarrow> Itoa (wrap64 (n + 1)))"

definition BucketMetagenerationMatches :: "bucket_meta \<Rightarrow> Precondition option \<Rightarrow> bool" where
  "BucketMetagenerationMatches meta p =
     (case p of
        None \<Rightarrow> True
      | Some p \<Rightarrow>
          let metagen = ParseInt_lax (BucketMetageneration meta)
          in \<not> (case MetagenerationMatch p of Some m \<Rightarrow> metagen \<noteq> m | None \<Rightarrow> False) \<and>
             \<not> (case MetagenerationNotMatch p of Some m \<Rightarrow> metagen = m | None \<Rightarrow> False))"

text \<open>\<open>current\<close> is \<open>None\<close> where the source passes a zero value and \<open>exists = false\<close>.\<close>

definition objectPreconditionMatches :: "ObjectMeta option \<Rightarrow> Precondition option \<Rightarrow> bool" where
  "objectPreconditionMatches current p =
     (case p of
        None \<Rightarrow> True
      | Some p \<Rightarrow>
          let gen = (case current of None \<Rightarrow> 0 | Some m \<Rightarrow> ParseInt_lax (Generation m));
              metagen = (case current of None \<Rightarrow> 0 | Some m \<Rightarrow> ParseInt_lax (Metageneration m));
              exists = current \<noteq> None
          in (case GenerationMatch p of None \<Rightarrow> True | Some g \<Rightarrow> if \<not> exists then g = 0 else gen = g) \<and>
             (case GenerationNotMatch p of None \<Rightarrow> True | Some g \<Rightarrow> exists \<and> gen \<noteq> g) \<and>
             (case MetagenerationMatch p of None \<Rightarrow> True | Some g \<Rightarrow> exists \<and> metagen = g) \<and>
             (case MetagenerationNotMatch p of None \<Rightarrow> True | Some g \<Rightarrow> \<not> (exists \<and> metagen = g)))"

definition normalizeMeta :: "time \<Rightarrow> ObjectMeta \<Rightarrow> ObjectMeta" where
  "normalizeMeta now m =
     (let m = (if ContentType m = [] then m\<lparr>ContentType := ''application/octet-stream''\<rparr> else m);
          m = (if StorageClass m = [] then m\<lparr>StorageClass := ''STANDARD''\<rparr> else m);
          m = (if IsZero (TimeCreated m) then m\<lparr>TimeCreated := now\<rparr> else m)
      in if IsZero (Updated m) then m\<lparr>Updated := TimeCreated m\<rparr> else m)"

section \<open>Buckets\<close>

definition CreateBucket :: "string \<Rightarrow> string \<Rightarrow> bucket_meta \<Rightarrow> MemoryObjectStore \<Rightarrow> gcs_error + MemoryObjectStore" where
  "CreateBucket projectID name meta s =
     (if fmlookup (buckets s) name \<noteq> None then Inl ErrAlreadyExists
      else Inr (s\<lparr>buckets := fmupd name (normalizeBucketMeta (fmupd ''projectId'' (AStr projectID) (fmupd ''name'' (AStr name) meta))) (buckets s)\<rparr>))"

definition GetBucket :: "string \<Rightarrow> MemoryObjectStore \<Rightarrow> gcs_error + bucket_meta" where
  "GetBucket name s = (case fmlookup (buckets s) name of None \<Rightarrow> Inl ErrNoSuchBucket | Some meta \<Rightarrow> Inr (normalizeBucketMeta meta))"

definition UpdateBucketMeta :: "string \<Rightarrow> bucket_meta \<Rightarrow> MemoryObjectStore \<Rightarrow> gcs_error + MemoryObjectStore" where
  "UpdateBucketMeta name meta s =
     (if fmlookup (buckets s) name = None then Inl ErrNoSuchBucket else Inr (s\<lparr>buckets := fmupd name meta (buckets s)\<rparr>))"

definition UpdateBucketMetaAtomic ::
    "string \<Rightarrow> (bucket_meta \<Rightarrow> gcs_error + bucket_meta) \<Rightarrow> MemoryObjectStore \<Rightarrow> gcs_error + MemoryObjectStore \<times> bucket_meta" where
  "UpdateBucketMetaAtomic name mutate s =
     AtomicUpdate (\<lambda>s. fmlookup (buckets s) name)
       (\<lambda>current. case current of
                    None \<Rightarrow> Inl ErrNoSuchBucket
                  | Some meta \<Rightarrow>
                      (case mutate meta of
                         Inl err \<Rightarrow> Inl err
                       | Inr nxt \<Rightarrow> Inr (normalizeBucketMeta (fmupd ''name'' (AStr name) nxt))))
       (\<lambda>nxt s. s\<lparr>buckets := fmupd name nxt (buckets s)\<rparr>) s"

definition gens_of :: "string \<Rightarrow> string \<Rightarrow> MemoryObjectStore \<Rightarrow> gens" where
  "gens_of bucket name s = the_default [] (fmlookup (the_default fmempty (fmlookup (objects s) bucket)) name)"

definition DeleteBucketChecked :: "string \<Rightarrow> Precondition option \<Rightarrow> MemoryObjectStore \<Rightarrow> gcs_error + MemoryObjectStore" where
  "DeleteBucketChecked name p s =
     (case fmlookup (buckets s) name of
        None \<Rightarrow> Inl ErrNoSuchBucket
      | Some meta \<Rightarrow>
          if \<not> BucketMetagenerationMatches meta p then Inl ErrPreconditionFailed
          else if \<not> fmpred (\<lambda>_ gens. list_all SoftDeleted gens) (the_default fmempty (fmlookup (objects s) name)) then Inl ErrBucketNotEmpty
          else Inr (s\<lparr>buckets := fmdrop name (buckets s), objects := fmdrop name (objects s)\<rparr>))"

definition DeleteBucket :: "string \<Rightarrow> MemoryObjectStore \<Rightarrow> gcs_error + MemoryObjectStore" where
  "DeleteBucket name s = DeleteBucketChecked name None s"

definition bucket_names :: "MemoryObjectStore \<Rightarrow> string list" where
  "bucket_names s = sorted_list_of_set (fset (fmdom (buckets s)))"

definition ListBuckets :: "string \<Rightarrow> MemoryObjectStore \<Rightarrow> bucket_meta list" where
  "ListBuckets projectID s =
     List.map_filter (\<lambda>name.
         let meta = the_default fmempty (fmlookup (buckets s) name);
             pid = (case fmlookup meta ''projectId'' of Some (AStr p) \<Rightarrow> p | _ \<Rightarrow> [])
         in if projectID \<noteq> [] \<and> pid \<noteq> projectID then None
            else Some (normalizeBucketMeta (fmupd ''name'' (AStr name) meta))) (bucket_names s)"

section \<open>Generations\<close>

definition live :: "ObjectMeta \<Rightarrow> bool" where
  "live m \<longleftrightarrow> TimeDeleted m = None"

definition liveGeneration :: "gens \<Rightarrow> ObjectMeta option" where
  "liveGeneration gens = find live (rev gens)"

definition replaceLiveGeneration :: "gens \<Rightarrow> ObjectMeta \<Rightarrow> gens" where
  "replaceLiveGeneration gens meta = filter (\<lambda>g. \<not> live g) gens @ [meta]"

definition set_gens :: "string \<Rightarrow> string \<Rightarrow> gens \<Rightarrow> MemoryObjectStore \<Rightarrow> MemoryObjectStore" where
  "set_gens bucket name gens s =
     s\<lparr>objects := fmupd bucket (fmupd name gens (the_default fmempty (fmlookup (objects s) bucket))) (objects s)\<rparr>"

definition named :: "time \<Rightarrow> string \<Rightarrow> string \<Rightarrow> ObjectMeta \<Rightarrow> ObjectMeta" where
  "named now bucket name meta = normalizeMeta now (meta\<lparr>Bucket := bucket, Name := name\<rparr>)"

definition PutObjectMetaChecked ::
    "time \<Rightarrow> string \<Rightarrow> string \<Rightarrow> ObjectMeta \<Rightarrow> Precondition option \<Rightarrow> MemoryObjectStore \<Rightarrow> gcs_error + MemoryObjectStore" where
  "PutObjectMetaChecked now bucket name meta p s =
     (if fmlookup (buckets s) bucket = None then Inl ErrNoSuchBucket
      else if \<not> objectPreconditionMatches (liveGeneration (gens_of bucket name s)) p then Inl ErrPreconditionFailed
      else Inr (set_gens bucket name (replaceLiveGeneration (gens_of bucket name s) (named now bucket name meta)) s))"

definition PutObjectMeta :: "time \<Rightarrow> string \<Rightarrow> string \<Rightarrow> ObjectMeta \<Rightarrow> MemoryObjectStore \<Rightarrow> gcs_error + MemoryObjectStore" where
  "PutObjectMeta now bucket name meta s =
     (if fmlookup (buckets s) bucket = None then Inl ErrNoSuchBucket
      else Inr (set_gens bucket name (replaceLiveGeneration (gens_of bucket name s) (named now bucket name meta)) s))"

definition archive :: "time \<Rightarrow> gens \<Rightarrow> gens" where
  "archive now gens = map (\<lambda>g. if live g then g\<lparr>TimeDeleted := Some now\<rparr> else g) gens"

definition PutObjectGenerationChecked ::
    "time \<Rightarrow> time \<Rightarrow> string \<Rightarrow> string \<Rightarrow> ObjectMeta \<Rightarrow> Precondition option \<Rightarrow> MemoryObjectStore \<Rightarrow> gcs_error + MemoryObjectStore" where
  "PutObjectGenerationChecked now now' bucket name meta p s =
     (if fmlookup (buckets s) bucket = None then Inl ErrNoSuchBucket
      else if \<not> objectPreconditionMatches (liveGeneration (gens_of bucket name s)) p then Inl ErrPreconditionFailed
      else Inr (set_gens bucket name (archive now' (gens_of bucket name s) @ [named now bucket name meta]) s))"

definition PutObjectGeneration :: "time \<Rightarrow> time \<Rightarrow> string \<Rightarrow> string \<Rightarrow> ObjectMeta \<Rightarrow> MemoryObjectStore \<Rightarrow> gcs_error + MemoryObjectStore" where
  "PutObjectGeneration now now' bucket name meta s =
     (if fmlookup (buckets s) bucket = None then Inl ErrNoSuchBucket
      else Inr (set_gens bucket name (archive now' (gens_of bucket name s) @ [named now bucket name meta]) s))"

text \<open>The mutable fields, taken from \<open>meta\<close>; everything else is kept.\<close>

definition update_fields :: "ObjectMeta \<Rightarrow> ObjectMeta \<Rightarrow> ObjectMeta" where
  "update_fields meta cur =
     cur\<lparr>ContentType := ContentType meta, ContentEncoding := ContentEncoding meta, StorageClass := StorageClass meta,
         Metadata := Metadata meta, TemporaryHold := TemporaryHold meta, EventBasedHold := EventBasedHold meta,
         Retention := Retention meta, Metageneration := Metageneration meta, Updated := Updated meta\<rparr>"

text \<open>The last index of a live generation, and the first of a generation by its number.\<close>

definition live_index :: "gens \<Rightarrow> nat option" where
  "live_index gens = map_option fst (find (\<lambda>(i, g). live g) (rev (enumerate 0 gens)))"

definition generation_index :: "string \<Rightarrow> gens \<Rightarrow> nat option" where
  "generation_index generation gens = map_option fst (find (\<lambda>(i, g). Generation g = generation) (enumerate 0 gens))"

definition UpdateObjectMetaChecked ::
    "time \<Rightarrow> string \<Rightarrow> string \<Rightarrow> ObjectMeta \<Rightarrow> Precondition option \<Rightarrow> MemoryObjectStore \<Rightarrow> gcs_error + MemoryObjectStore" where
  "UpdateObjectMetaChecked now bucket name meta p s =
     (let gens = gens_of bucket name s
      in case live_index gens of
           None \<Rightarrow> Inl ErrNoSuchObject
         | Some i \<Rightarrow>
             if \<not> objectPreconditionMatches (Some (gens ! i)) p then Inl ErrPreconditionFailed
             else Inr (set_gens bucket name (gens[i := update_fields (named now bucket name meta) (gens ! i)]) s))"

definition UpdateObjectGenerationMetaChecked ::
    "time \<Rightarrow> string \<Rightarrow> string \<Rightarrow> string \<Rightarrow> ObjectMeta \<Rightarrow> Precondition option \<Rightarrow> MemoryObjectStore \<Rightarrow> gcs_error + MemoryObjectStore" where
  "UpdateObjectGenerationMetaChecked now bucket name generation meta p s =
     (let gens = gens_of bucket name s
      in case generation_index generation gens of
           None \<Rightarrow> Inl ErrNoSuchObject
         | Some i \<Rightarrow>
             if \<not> objectPreconditionMatches (Some (gens ! i)) p then Inl ErrPreconditionFailed
             else Inr (set_gens bucket name (gens[i := update_fields (named now bucket name (meta\<lparr>Generation := generation\<rparr>)) (gens ! i)]) s))"

section \<open>Reading and deleting\<close>

definition object_gens :: "string \<Rightarrow> string \<Rightarrow> MemoryObjectStore \<Rightarrow> gens option" where
  "object_gens bucket name s = Option.bind (fmlookup (objects s) bucket) (\<lambda>objs. fmlookup objs name)"

definition drop_object :: "string \<Rightarrow> string \<Rightarrow> MemoryObjectStore \<Rightarrow> MemoryObjectStore" where
  "drop_object bucket name s =
     s\<lparr>objects := fmupd bucket (fmdrop name (the_default fmempty (fmlookup (objects s) bucket))) (objects s)\<rparr>"

definition DeleteObjectMetaChecked :: "string \<Rightarrow> string \<Rightarrow> Precondition option \<Rightarrow> MemoryObjectStore \<Rightarrow> gcs_error + MemoryObjectStore" where
  "DeleteObjectMetaChecked bucket name p s =
     (case object_gens bucket name s of
        None \<Rightarrow> Inl ErrNoSuchObject
      | Some gens \<Rightarrow>
          if \<not> objectPreconditionMatches (liveGeneration gens) p then Inl ErrPreconditionFailed
          else Inr (drop_object bucket name s))"

definition DeleteObjectMeta :: "string \<Rightarrow> string \<Rightarrow> MemoryObjectStore \<Rightarrow> gcs_error + MemoryObjectStore" where
  "DeleteObjectMeta bucket name s =
     (case object_gens bucket name s of None \<Rightarrow> Inl ErrNoSuchObject | Some gens \<Rightarrow> Inr (drop_object bucket name s))"

definition applyTombstone :: "time \<Rightarrow> TombstoneOptions \<Rightarrow> ObjectMeta \<Rightarrow> ObjectMeta" where
  "applyTombstone now opts m =
     m\<lparr>TimeDeleted := Some now, SoftDeleted := OptSoftDeleted opts, HardDeleteTime := if OptSoftDeleted opts then OptHardDeleteTime opts else 0\<rparr>"

definition TombstoneObjectMetaChecked ::
    "time \<Rightarrow> string \<Rightarrow> string \<Rightarrow> TombstoneOptions \<Rightarrow> Precondition option \<Rightarrow> MemoryObjectStore \<Rightarrow> gcs_error + MemoryObjectStore \<times> ObjectMeta" where
  "TombstoneObjectMetaChecked now bucket name opts p s =
     (case object_gens bucket name s of
        None \<Rightarrow> Inl ErrNoSuchObject
      | Some gens \<Rightarrow>
          (case live_index gens of
             None \<Rightarrow> Inl ErrNoSuchObject
           | Some i \<Rightarrow>
               if \<not> objectPreconditionMatches (liveGeneration gens) p then Inl ErrPreconditionFailed
               else let m = applyTombstone now opts (gens ! i) in Inr (set_gens bucket name (gens[i := m]) s, m)))"

definition TombstoneObjectMeta ::
    "time \<Rightarrow> string \<Rightarrow> string \<Rightarrow> TombstoneOptions \<Rightarrow> MemoryObjectStore \<Rightarrow> gcs_error + MemoryObjectStore \<times> ObjectMeta" where
  "TombstoneObjectMeta now bucket name opts s =
     (case object_gens bucket name s of
        None \<Rightarrow> Inl ErrNoSuchObject
      | Some gens \<Rightarrow>
          (case live_index gens of
             None \<Rightarrow> Inl ErrNoSuchObject
           | Some i \<Rightarrow> let m = applyTombstone now opts (gens ! i) in Inr (set_gens bucket name (gens[i := m]) s, m)))"

definition GetObjectMeta :: "string \<Rightarrow> string \<Rightarrow> MemoryObjectStore \<Rightarrow> gcs_error + ObjectMeta" where
  "GetObjectMeta bucket name s =
     (case object_gens bucket name s of
        None \<Rightarrow> Inl ErrNoSuchObject
      | Some gens \<Rightarrow> (case liveGeneration gens of None \<Rightarrow> Inl ErrNoSuchObject | Some m \<Rightarrow> Inr m))"

definition GetObjectGeneration :: "string \<Rightarrow> string \<Rightarrow> string \<Rightarrow> MemoryObjectStore \<Rightarrow> gcs_error + ObjectMeta" where
  "GetObjectGeneration bucket name generation s =
     (case find (\<lambda>m. Generation m = generation) (gens_of bucket name s) of None \<Rightarrow> Inl ErrNoSuchObject | Some m \<Rightarrow> Inr m)"

definition DeleteObjectGeneration ::
    "string \<Rightarrow> string \<Rightarrow> string \<Rightarrow> Precondition option \<Rightarrow> MemoryObjectStore \<Rightarrow> gcs_error + MemoryObjectStore \<times> ObjectMeta" where
  "DeleteObjectGeneration bucket name generation p s =
     (case object_gens bucket name s of
        None \<Rightarrow> Inl ErrNoSuchObject
      | Some gens \<Rightarrow>
          if \<not> objectPreconditionMatches (liveGeneration gens) p then Inl ErrPreconditionFailed
          else case generation_index generation gens of
                 None \<Rightarrow> Inl ErrNoSuchObject
               | Some i \<Rightarrow>
                   let gens' = take i gens @ drop (Suc i) gens
                   in Inr (if gens' = [] then drop_object bucket name s else set_gens bucket name gens' s, gens ! i))"

section \<open>Lists\<close>

definition object_names :: "string \<Rightarrow> MemoryObjectStore \<Rightarrow> string list" where
  "object_names bucket s = sorted_list_of_set (fset (fmdom (the_default fmempty (fmlookup (objects s) bucket))))"

text \<open>The lists are sorted after they are collected; \<open>names\<close> lists the keys in the order of the iteration over the map.\<close>

definition ListObjects :: "string list \<Rightarrow> string \<Rightarrow> MemoryObjectStore \<Rightarrow> gcs_error + ObjectMeta list" where
  "ListObjects names bucket s =
     (if fmlookup (buckets s) bucket = None then Inl ErrNoSuchBucket
      else Inr (sort_key Name (List.map_filter (\<lambda>name. liveGeneration (gens_of bucket name s)) names)))"

definition ListObjectVersions :: "string list \<Rightarrow> string \<Rightarrow> MemoryObjectStore \<Rightarrow> gcs_error + ObjectMeta list" where
  "ListObjectVersions names bucket s =
     (if fmlookup (buckets s) bucket = None then Inl ErrNoSuchBucket
      else Inr (sort_key Name (sort_key (\<lambda>m. - ParseInt_lax (Generation m))
                 (concat (map (\<lambda>name. gens_of bucket name s) names)))))"

definition all_generations :: "MemoryObjectStore \<Rightarrow> ObjectMeta list" where
  "all_generations s =
     concat (map (\<lambda>b. concat (map (\<lambda>n. gens_of b n s) (object_names b s))) (sorted_list_of_set (fset (fmdom (objects s)))))"

definition MaxGeneration :: "MemoryObjectStore \<Rightarrow> string" where
  "MaxGeneration s =
     (let m = fold (\<lambda>m mx. case Atoi (Generation m) of None \<Rightarrow> mx | Some g \<Rightarrow> if g > mx then g else mx) (all_generations s) (- 1)
      in if m < 0 then [] else Itoa m)"

section \<open>Resumable uploads\<close>

definition InitResumable :: "ResumableSession \<Rightarrow> MemoryObjectStore \<Rightarrow> gcs_error + MemoryObjectStore" where
  "InitResumable u s =
     (if fmlookup (uploads s) (UploadID u) \<noteq> None then Inl ErrAlreadyExists else Inr (s\<lparr>uploads := fmupd (UploadID u) u (uploads s)\<rparr>))"

definition GetResumable :: "string \<Rightarrow> MemoryObjectStore \<Rightarrow> gcs_error + ResumableSession" where
  "GetResumable i s = (case fmlookup (uploads s) i of None \<Rightarrow> Inl ErrNoSuchUpload | Some u \<Rightarrow> Inr u)"

definition UpdateResumable :: "ResumableSession \<Rightarrow> MemoryObjectStore \<Rightarrow> gcs_error + MemoryObjectStore" where
  "UpdateResumable u s =
     (if fmlookup (uploads s) (UploadID u) = None then Inl ErrNoSuchUpload else Inr (s\<lparr>uploads := fmupd (UploadID u) u (uploads s)\<rparr>))"

definition DeleteResumable :: "string \<Rightarrow> MemoryObjectStore \<Rightarrow> gcs_error + MemoryObjectStore" where
  "DeleteResumable i s = (if fmlookup (uploads s) i = None then Inl ErrNoSuchUpload else Inr (s\<lparr>uploads := fmdrop i (uploads s)\<rparr>))"

definition DeleteResumableByBucket :: "string \<Rightarrow> MemoryObjectStore \<Rightarrow> MemoryObjectStore" where
  "DeleteResumableByBucket bucket s =
     s\<lparr>uploads := fmfilter (\<lambda>i. case fmlookup (uploads s) i of None \<Rightarrow> False | Some u \<Rightarrow> UBucket u \<noteq> bucket) (uploads s)\<rparr>"

definition ListStaleResumable :: "string list \<Rightarrow> time \<Rightarrow> MemoryObjectStore \<Rightarrow> ResumableSession list" where
  "ListStaleResumable ids cutoff s =
     filter (\<lambda>u. LastAccess u < cutoff)
       (List.map_filter (fmlookup (uploads s)) ids)"

definition Reset :: "MemoryObjectStore \<Rightarrow> MemoryObjectStore" where
  "Reset s = s\<lparr>buckets := fmempty, objects := fmempty, uploads := fmempty\<rparr>"

definition IsEmpty :: "MemoryObjectStore \<Rightarrow> bool" where
  "IsEmpty s \<longleftrightarrow> buckets s = fmempty \<and> objects s = fmempty \<and> uploads s = fmempty"

section \<open>Snapshots\<close>

record bucketRow =
  RowName :: string
  RowProjectID :: string
  RowLocation :: string
  RowStorageClass :: string
  RowMeta :: bucket_meta

record gcsSnap =
  SnapBuckets :: "bucketRow list"
  SnapObjects :: "ObjectMeta list"
  SnapUploads :: "ResumableSession list"

definition meta_string :: "bucket_meta \<Rightarrow> string \<Rightarrow> string" where
  "meta_string meta k = (case fmlookup meta k of Some (AStr v) \<Rightarrow> v | _ \<Rightarrow> [])"

definition bucket_row :: "string \<Rightarrow> bucket_meta \<Rightarrow> bucketRow" where
  "bucket_row name meta =
     \<lparr>RowName = name, RowProjectID = meta_string meta ''projectId'', RowLocation = meta_string meta ''location'',
      RowStorageClass = meta_string meta ''storageClass'', RowMeta = meta\<rparr>"

text \<open>The orders of the iterations over the buckets, over the names of objects by bucket, and over the uploads are arguments.\<close>

definition Snapshot :: "string list \<Rightarrow> (string \<times> string) list \<Rightarrow> string list \<Rightarrow> MemoryObjectStore \<Rightarrow> gcsSnap" where
  "Snapshot bs os us s =
     \<lparr>SnapBuckets = List.map_filter (\<lambda>b. map_option (bucket_row b) (fmlookup (buckets s) b)) bs,
      SnapObjects = concat (map (\<lambda>(b, n). gens_of b n s) os),
      SnapUploads = List.map_filter (fmlookup (uploads s)) us\<rparr>"

definition set_string :: "string \<Rightarrow> string \<Rightarrow> bucket_meta \<Rightarrow> bucket_meta" where
  "set_string k v meta = (if v \<noteq> [] then fmupd k (AStr v) meta else meta)"

definition restored_meta :: "bucketRow \<Rightarrow> bucket_meta" where
  "restored_meta b =
     normalizeBucketMeta (set_string ''storageClass'' (RowStorageClass b) (set_string ''location'' (RowLocation b)
       (set_string ''projectId'' (RowProjectID b) (RowMeta b))))"

definition add_object :: "ObjectMeta \<Rightarrow> (string, (string, gens) fmap) fmap \<Rightarrow> (string, (string, gens) fmap) fmap" where
  "add_object m objs =
     (let byName = the_default fmempty (fmlookup objs (Bucket m))
      in fmupd (Bucket m) (fmupd (Name m) (the_default [] (fmlookup byName (Name m)) @ [m]) byName) objs)"

definition Restore :: "string + gcsSnap \<Rightarrow> MemoryObjectStore \<Rightarrow> string + MemoryObjectStore" where
  "Restore doc s =
     (case doc of
        Inl err \<Rightarrow> Inl err
      | Inr snap \<Rightarrow>
          Inr (s\<lparr>buckets := fold (\<lambda>b. fmupd (RowName b) (restored_meta b)) (SnapBuckets snap) fmempty,
                 objects := fold add_object (SnapObjects snap) fmempty,
                 uploads := fold (\<lambda>u. fmupd (UploadID u) u) (SnapUploads snap) fmempty\<rparr>))"

section \<open>Where the operations write\<close>

lemma gens_of_set_gens: "gens_of b' n' (set_gens b n gens s) = (if b' = b \<and> n' = n then gens else gens_of b' n' s)"
  by (simp add: gens_of_def set_gens_def)

lemma gens_of_drop_object: "gens_of b' n' (drop_object b n s) = (if b' = b \<and> n' = n then [] else gens_of b' n' s)"
  by (auto simp: gens_of_def drop_object_def)

lemma buckets_gens [simp]: "buckets (set_gens b n gens s) = buckets s" "buckets (drop_object b n s) = buckets s"
  "uploads (set_gens b n gens s) = uploads s" "uploads (drop_object b n s) = uploads s"
  by (simp_all add: set_gens_def drop_object_def)

lemma gens_of_bucket [simp]: "gens_of b n (s\<lparr>buckets := x\<rparr>) = gens_of b n s" "gens_of b n (s\<lparr>uploads := u\<rparr>) = gens_of b n s"
  by (simp_all add: gens_of_def)

lemma object_gens_Some: "object_gens b n s = Some gens \<Longrightarrow> gens_of b n s = gens"
  by (auto simp: object_gens_def gens_of_def bind_eq_Some_conv)

lemma object_gens_None: "object_gens b n s = None \<Longrightarrow> gens_of b n s = []"
  by (cases "fmlookup (objects s) b") (auto simp: object_gens_def gens_of_def)

lemma named_simps [simp]:
  "Bucket (named now b n m) = b" "Name (named now b n m) = n" "Generation (named now b n m) = Generation m"
  "live (named now b n m) = live m" "Metageneration (named now b n m) = Metageneration m"
  by (simp_all add: named_def normalizeMeta_def Let_def live_def)

lemma update_simps [simp]:
  "Bucket (update_fields m c) = Bucket c" "Name (update_fields m c) = Name c" "Generation (update_fields m c) = Generation c" "live (update_fields m c) = live c"
  by (simp_all add: update_fields_def live_def)

lemma tombstone_simps [simp]:
  "Bucket (applyTombstone now opts m) = Bucket m" "Name (applyTombstone now opts m) = Name m" "Generation (applyTombstone now opts m) = Generation m"
  "\<not> live (applyTombstone now opts m)"
  by (simp_all add: applyTombstone_def live_def)

section \<open>One live generation\<close>

text \<open>
  The generations of a name: they carry its name, their numbers are distinct, at most one is live, and it is the last.
\<close>

definition ok_gens :: "string \<Rightarrow> string \<Rightarrow> gens \<Rightarrow> bool" where
  "ok_gens b n gens \<longleftrightarrow>
     (\<forall>g \<in> set gens. Bucket g = b \<and> Name g = n) \<and> distinct (map Generation gens) \<and> (\<forall>g \<in> set (butlast gens). \<not> live g)"

definition gcs_inv :: "MemoryObjectStore \<Rightarrow> bool" where
  "gcs_inv s \<longleftrightarrow>
     (\<forall>b n. ok_gens b n (gens_of b n s)) \<and> (\<forall>b n. gens_of b n s \<noteq> [] \<longrightarrow> fmlookup (buckets s) b \<noteq> None) \<and>
     (\<forall>i u. fmlookup (uploads s) i = Some u \<longrightarrow> UploadID u = i)"

lemma ok_Nil [simp]: "ok_gens b n []"
  by (simp add: ok_gens_def)

lemma ok_append: "ok_gens b n gens \<Longrightarrow> \<forall>g \<in> set gens. \<not> live g \<Longrightarrow> Bucket m = b \<Longrightarrow> Name m = n \<Longrightarrow>
   Generation m \<notin> Generation ` set gens \<Longrightarrow> ok_gens b n (gens @ [m])"
  by (auto simp: ok_gens_def)

lemma ok_filter: "ok_gens b n gens \<Longrightarrow> ok_gens b n (filter (\<lambda>g. \<not> live g) gens)"
  by (auto simp: ok_gens_def List.distinct_map_filter dest: in_set_butlastD)

lemma ok_remove: "ok_gens b n gens \<Longrightarrow> i < length gens \<Longrightarrow> ok_gens b n (take i gens @ drop (Suc i) gens)"
proof -
  assume ok: "ok_gens b n gens" and i: "i < length gens"
  define xs where "xs = take i gens"
  define ys where "ys = drop (Suc i) gens"
  have g: "gens = xs @ gens ! i # ys" using i by (simp add: xs_def ys_def id_take_nth_drop)
  have "set (butlast (xs @ ys)) \<subseteq> set (butlast gens)" by (subst g) (auto simp: butlast_append dest: in_set_butlastD)
  moreover have "distinct (map Generation (xs @ ys))" using ok by (subst (asm) g) (auto simp: ok_gens_def)
  moreover have "set (xs @ ys) \<subseteq> set gens" by (subst g) auto
  ultimately show ?thesis using ok by (auto simp: ok_gens_def xs_def ys_def)
qed

lemma live_last:
  assumes "ok_gens b n gens"
  shows "liveGeneration gens = (if gens \<noteq> [] \<and> live (last gens) then Some (last gens) else None)"
    and "live_index gens = (if gens \<noteq> [] \<and> live (last gens) then Some (length gens - 1) else None)"
proof -
  have "liveGeneration gens = (if gens \<noteq> [] \<and> live (last gens) then Some (last gens) else None) \<and>
    live_index gens = (if gens \<noteq> [] \<and> live (last gens) then Some (length gens - 1) else None)"
  proof (cases gens rule: rev_cases)
    case (snoc xs x)
    with assms have "\<forall>g \<in> set xs. \<not> live g" by (simp add: ok_gens_def)
    then have "find live (rev xs) = None" "find (\<lambda>(i, g). live g) (rev (enumerate 0 xs)) = None"
      by (auto simp: find_None_iff enumerate_eq_zip dest: set_zip_rightD)
    with snoc show ?thesis by (auto simp: liveGeneration_def live_index_def enumerate_append_eq)
  qed (simp add: liveGeneration_def live_index_def)
  then show "liveGeneration gens = (if gens \<noteq> [] \<and> live (last gens) then Some (last gens) else None)"
    "live_index gens = (if gens \<noteq> [] \<and> live (last gens) then Some (length gens - 1) else None)" by simp_all
qed

lemma ok_update_last:
  assumes "ok_gens b n gens" "gens \<noteq> []" "Bucket m = b" "Name m = n" "Generation m = Generation (last gens)"
  shows "ok_gens b n (gens[length gens - 1 := m])"
  using assms by (cases gens rule: rev_cases) (auto simp: ok_gens_def)

lemma ok_update:
  assumes "ok_gens b n gens" "i < length gens" "Generation m = Generation (gens ! i)" "Bucket m = b" "Name m = n" "live m = live (gens ! i)"
  shows "ok_gens b n (gens[i := m])"
proof -
  have "map Generation (gens[i := m]) = map Generation gens" using assms(2,3) by (simp add: map_update list_update_same_conv)
  moreover have "\<forall>g \<in> set (gens[i := m]). Bucket g = b \<and> Name g = n"
    using assms by (auto simp: ok_gens_def dest!: subsetD [OF set_update_subset_insert])
  moreover have "\<not> live g" if "g \<in> set (butlast (gens[i := m]))" for g
  proof -
    from that obtain k where k: "k < length gens - 1" "g = (gens[i := m]) ! k" by (auto simp: in_set_conv_nth nth_butlast)
    then have "live g = live (gens ! k)" using assms(2,6) by (cases "k = i") auto
    moreover have "gens ! k \<in> set (butlast gens)" using k(1) by (metis length_butlast nth_butlast nth_mem)
    ultimately show ?thesis using assms(1) by (simp add: ok_gens_def)
  qed
  ultimately show ?thesis using assms(1) by (simp add: ok_gens_def)
qed

lemma ok_archive: "ok_gens b n gens \<Longrightarrow> ok_gens b n (archive now gens) \<and> (\<forall>g \<in> set (archive now gens). \<not> live g) \<and>
   Generation ` set (archive now gens) = Generation ` set gens"
proof -
  assume ok: "ok_gens b n gens"
  have "map Generation (archive now gens) = map Generation gens" by (simp add: archive_def)
  moreover from this have "Generation ` set (archive now gens) = Generation ` set gens" by (metis set_map)
  moreover have "\<forall>g \<in> set (archive now gens). \<not> live g \<and> Bucket g = b \<and> Name g = n" using ok by (auto simp: archive_def ok_gens_def live_def)
  ultimately show ?thesis by (auto simp: ok_gens_def dest: in_set_butlastD) (use ok in \<open>simp add: ok_gens_def\<close>)
qed

lemma generation_index_Some: "generation_index g gens = Some i \<Longrightarrow> i < length gens \<and> Generation (gens ! i) = g"
  by (auto simp: generation_index_def find_Some_iff enumerate_eq_zip split_beta)

section \<open>Reachable stores\<close>

text \<open>The operations without a precondition are the checked ones with none.\<close>

lemma unchecked_put: "PutObjectMeta now b n m s = PutObjectMetaChecked now b n m None s"
  "PutObjectGeneration now now' b n m s = PutObjectGenerationChecked now now' b n m None s"
  by (simp_all add: PutObjectMeta_def PutObjectMetaChecked_def PutObjectGeneration_def PutObjectGenerationChecked_def objectPreconditionMatches_def)

lemma unchecked_delete: "DeleteObjectMeta b n s = DeleteObjectMetaChecked b n None s"
  "TombstoneObjectMeta now b n opts s = TombstoneObjectMetaChecked now b n opts None s"
  by (simp_all add: DeleteObjectMeta_def DeleteObjectMetaChecked_def TombstoneObjectMeta_def TombstoneObjectMetaChecked_def
      objectPreconditionMatches_def split: option.split)

text \<open>
  Every operation that changes the store. An object is put with a generation number that its name has not used, as the provider
  draws numbers from one counter, and it is put live.
\<close>

inductive gcs_reach :: "MemoryObjectStore \<Rightarrow> bool" where
  new: "gcs_reach NewMemoryObjectStore"
| create: "gcs_reach s \<Longrightarrow> CreateBucket pid b meta s = Inr s' \<Longrightarrow> gcs_reach s'"
| update: "gcs_reach s \<Longrightarrow> UpdateBucketMeta b meta s = Inr s' \<Longrightarrow> gcs_reach s'"
| atomic: "gcs_reach s \<Longrightarrow> UpdateBucketMetaAtomic b mutate s = Inr (s', meta) \<Longrightarrow> gcs_reach s'"
| delete_bucket: "gcs_reach s \<Longrightarrow> DeleteBucketChecked b p s = Inr s' \<Longrightarrow> gcs_reach s'"
| put: "gcs_reach s \<Longrightarrow> live m \<Longrightarrow> Generation m \<notin> Generation ` set (gens_of b n s) \<Longrightarrow>
    PutObjectMetaChecked now b n m p s = Inr s' \<Longrightarrow> gcs_reach s'"
| put_generation: "gcs_reach s \<Longrightarrow> live m \<Longrightarrow> Generation m \<notin> Generation ` set (gens_of b n s) \<Longrightarrow>
    PutObjectGenerationChecked now now' b n m p s = Inr s' \<Longrightarrow> gcs_reach s'"
| update_meta: "gcs_reach s \<Longrightarrow> UpdateObjectMetaChecked now b n m p s = Inr s' \<Longrightarrow> gcs_reach s'"
| update_generation: "gcs_reach s \<Longrightarrow> UpdateObjectGenerationMetaChecked now b n g m p s = Inr s' \<Longrightarrow> gcs_reach s'"
| delete: "gcs_reach s \<Longrightarrow> DeleteObjectMetaChecked b n p s = Inr s' \<Longrightarrow> gcs_reach s'"
| tombstone: "gcs_reach s \<Longrightarrow> TombstoneObjectMetaChecked now b n opts p s = Inr (s', m) \<Longrightarrow> gcs_reach s'"
| delete_generation: "gcs_reach s \<Longrightarrow> DeleteObjectGeneration b n g p s = Inr (s', m) \<Longrightarrow> gcs_reach s'"
| init: "gcs_reach s \<Longrightarrow> InitResumable u s = Inr s' \<Longrightarrow> gcs_reach s'"
| update_upload: "gcs_reach s \<Longrightarrow> UpdateResumable u s = Inr s' \<Longrightarrow> gcs_reach s'"
| delete_upload: "gcs_reach s \<Longrightarrow> DeleteResumable i s = Inr s' \<Longrightarrow> gcs_reach s'"
| delete_uploads: "gcs_reach s \<Longrightarrow> gcs_reach (DeleteResumableByBucket b s)"
| reset: "gcs_reach s \<Longrightarrow> gcs_reach (Reset s)"

lemma inv_ok: "gcs_inv s \<Longrightarrow> ok_gens b n (gens_of b n s)"
  by (simp add: gcs_inv_def)

lemma inv_bucket_of: "gcs_inv s \<Longrightarrow> gens_of b n s \<noteq> [] \<Longrightarrow> fmlookup (buckets s) b \<noteq> None"
  unfolding gcs_inv_def by blast

lemma inv_upload: "gcs_inv s \<Longrightarrow> fmlookup (uploads s) i = Some u \<Longrightarrow> UploadID u = i"
  by (simp add: gcs_inv_def)

lemma gcs_invI:
  assumes "\<And>b n. ok_gens b n (gens_of b n s)" "\<And>b n. gens_of b n s \<noteq> [] \<Longrightarrow> fmlookup (buckets s) b \<noteq> None"
    "\<And>i u. fmlookup (uploads s) i = Some u \<Longrightarrow> UploadID u = i"
  shows "gcs_inv s"
  using assms unfolding gcs_inv_def by blast

lemma inv_set_gens: "gcs_inv s \<Longrightarrow> ok_gens b n gens \<Longrightarrow> fmlookup (buckets s) b \<noteq> None \<Longrightarrow> gcs_inv (set_gens b n gens s)"
  by (rule gcs_invI) (auto simp: gens_of_set_gens inv_ok inv_upload dest: inv_bucket_of split: if_splits)

lemma inv_drop_object: "gcs_inv s \<Longrightarrow> gcs_inv (drop_object b n s)"
  by (rule gcs_invI) (auto simp: gens_of_drop_object inv_ok inv_upload dest: inv_bucket_of split: if_splits)

lemma inv_buckets:
  assumes "gcs_inv s" "fmdom (buckets s) |\<subseteq>| fmdom bs"
  shows "gcs_inv (s\<lparr>buckets := bs\<rparr>)"
proof (rule gcs_invI)
  fix b n
  assume "gens_of b n (s\<lparr>buckets := bs\<rparr>) \<noteq> []"
  with assms(1) have "b |\<in>| fmdom (buckets s)" by (simp add: inv_bucket_of fmdomI fmlookup_dom_iff flip: not_None_eq)
  with assms(2) have "b |\<in>| fmdom bs" by auto
  then show "fmlookup (buckets (s\<lparr>buckets := bs\<rparr>)) b \<noteq> None" by (auto simp: fmlookup_dom_iff)
qed (use assms(1) in \<open>simp_all add: inv_ok inv_upload\<close>)

lemma inv_uploads: "gcs_inv s \<Longrightarrow> (\<And>i u. fmlookup us i = Some u \<Longrightarrow> UploadID u = i) \<Longrightarrow> gcs_inv (s\<lparr>uploads := us\<rparr>)"
  by (rule gcs_invI) (auto simp: inv_ok dest: inv_bucket_of)

lemma inv_delete_bucket:
  assumes "gcs_inv s" "DeleteBucketChecked b p s = Inr s'"
  shows "gcs_inv s'"
proof -
  from assms have "s' = s\<lparr>buckets := fmdrop b (buckets s), objects := fmdrop b (objects s)\<rparr>"
    by (auto simp: DeleteBucketChecked_def split: option.splits if_splits)
  then have "gens_of b' n' s' = (if b' = b then [] else gens_of b' n' s)" for b' n' by (simp add: gens_of_def)
  with assms \<open>s' = _\<close> show ?thesis by (simp add: gcs_inv_def)
qed

lemma inv_put:
  assumes "gcs_inv s" "live m" "Generation m \<notin> Generation ` set (gens_of b n s)" "PutObjectMetaChecked now b n m p s = Inr s'"
  shows "gcs_inv s'"
proof -
  note ok = inv_ok [OF assms(1), of b n]
  from assms have "s' = set_gens b n (replaceLiveGeneration (gens_of b n s) (named now b n m)) s" "fmlookup (buckets s) b \<noteq> None"
    by (auto simp: PutObjectMetaChecked_def split: if_splits)
  moreover have "ok_gens b n (replaceLiveGeneration (gens_of b n s) (named now b n m))"
    unfolding replaceLiveGeneration_def by (rule ok_append [OF ok_filter [OF ok]]) (use assms(3) in auto)
  ultimately show ?thesis using assms(1) by (simp add: inv_set_gens)
qed

lemma inv_put_generation:
  assumes "gcs_inv s" "live m" "Generation m \<notin> Generation ` set (gens_of b n s)" "PutObjectGenerationChecked now now' b n m p s = Inr s'"
  shows "gcs_inv s'"
proof -
  note ok = inv_ok [OF assms(1), of b n]
  from assms have "s' = set_gens b n (archive now' (gens_of b n s) @ [named now b n m]) s" "fmlookup (buckets s) b \<noteq> None"
    by (auto simp: PutObjectGenerationChecked_def split: if_splits)
  moreover have "ok_gens b n (archive now' (gens_of b n s) @ [named now b n m])"
    using ok_archive [OF ok, of now'] assms(3) by (intro ok_append) auto
  ultimately show ?thesis using assms(1) by (simp add: inv_set_gens)
qed

lemma inv_update_meta:
  assumes "gcs_inv s" "UpdateObjectMetaChecked now b n m p s = Inr s'"
  shows "gcs_inv s'"
proof -
  note ok = inv_ok [OF assms(1), of b n]
  let ?g = "gens_of b n s"
  from assms have s': "?g \<noteq> []" "s' = set_gens b n (?g[length ?g - 1 := update_fields (named now b n m) (?g ! (length ?g - 1))]) s"
    by (auto simp: UpdateObjectMetaChecked_def Let_def live_last [OF ok] split: if_splits option.splits)
  have "ok_gens b n (?g[length ?g - 1 := update_fields (named now b n m) (?g ! (length ?g - 1))])"
    using ok s'(1) by (intro ok_update) (auto simp: ok_gens_def)
  with s' assms(1) show ?thesis by (simp add: inv_set_gens inv_bucket_of)
qed

lemma inv_update_generation:
  assumes "gcs_inv s" "UpdateObjectGenerationMetaChecked now b n g m p s = Inr s'"
  shows "gcs_inv s'"
proof -
  note ok = inv_ok [OF assms(1), of b n]
  let ?g = "gens_of b n s"
  from assms obtain i where i: "generation_index g ?g = Some i"
    and s': "s' = set_gens b n (?g[i := update_fields (named now b n (m\<lparr>Generation := g\<rparr>)) (?g ! i)]) s"
    by (auto simp: UpdateObjectGenerationMetaChecked_def Let_def split: if_splits option.splits)
  from generation_index_Some [OF i] have l: "i < length ?g" by simp
  then have "?g ! i \<in> set ?g" "?g \<noteq> []" by auto
  moreover from this have "ok_gens b n (?g[i := update_fields (named now b n (m\<lparr>Generation := g\<rparr>)) (?g ! i)])"
    using ok by (intro ok_update [OF ok l]) (simp_all add: ok_gens_def)
  ultimately
   show ?thesis using s' assms(1) by (simp add: inv_set_gens inv_bucket_of)
qed

lemma inv_tombstone:
  assumes "gcs_inv s" "TombstoneObjectMetaChecked now b n opts p s = Inr (s', m)"
  shows "gcs_inv s'"
proof -
  note ok = inv_ok [OF assms(1), of b n]
  let ?g = "gens_of b n s"
  have [simp]: "live_index [] = None" by (simp add: live_index_def)
  from assms have s': "?g \<noteq> []" "s' = set_gens b n (?g[length ?g - 1 := applyTombstone now opts (?g ! (length ?g - 1))]) s"
    by (auto simp: TombstoneObjectMetaChecked_def Let_def live_last [OF ok] dest!: object_gens_Some split: if_splits option.splits)
  have "ok_gens b n (?g[length ?g - 1 := applyTombstone now opts (?g ! (length ?g - 1))])"
    using ok s'(1) by (intro ok_update_last) (auto simp: ok_gens_def last_conv_nth)
  with s' assms(1) show ?thesis by (simp add: inv_set_gens inv_bucket_of)
qed

lemma inv_delete_generation:
  assumes "gcs_inv s" "DeleteObjectGeneration b n g p s = Inr (s', m)"
  shows "gcs_inv s'"
proof -
  note ok = inv_ok [OF assms(1), of b n]
  let ?g = "gens_of b n s"
  from assms obtain i where i: "generation_index g ?g = Some i"
    and s': "s' = (if take i ?g @ drop (Suc i) ?g = [] then drop_object b n s else set_gens b n (take i ?g @ drop (Suc i) ?g) s)"
    by (auto simp: DeleteObjectGeneration_def Let_def dest!: object_gens_Some split: if_splits option.splits)
  from generation_index_Some [OF i] have "i < length ?g" "?g \<noteq> []" by auto
  with s' assms(1) ok_remove [OF ok] show ?thesis by (simp add: inv_set_gens inv_bucket_of inv_drop_object)
qed

lemma reach_inv: "gcs_reach s \<Longrightarrow> gcs_inv s"
proof (induction rule: gcs_reach.induct)
  case new
  show ?case by (simp add: gcs_inv_def NewMemoryObjectStore_def gens_of_def)
next
  case (create s pid b meta s')
  then show ?case by (auto simp: CreateBucket_def split: if_splits intro!: inv_buckets)
next
  case (update s b meta s')
  then show ?case by (auto simp: UpdateBucketMeta_def split: if_splits intro!: inv_buckets)
next
  case (atomic s b mutate s' meta)
  then show ?case by (auto simp: UpdateBucketMetaAtomic_def AtomicUpdate_def split: option.splits sum.splits intro!: inv_buckets)
next
  case (delete s b n p s')
  then show ?case by (auto simp: DeleteObjectMetaChecked_def inv_drop_object split: option.splits if_splits)
next
  case (init s u s')
  then show ?case by (auto simp: InitResumable_def inv_upload split: if_splits intro!: inv_uploads)
next
  case (update_upload s u s')
  then show ?case by (auto simp: UpdateResumable_def inv_upload split: if_splits intro!: inv_uploads)
next
  case (delete_upload s i s')
  then show ?case by (auto simp: DeleteResumable_def inv_upload split: if_splits intro!: inv_uploads)
next
  case (delete_uploads s b)
  then show ?case by (auto simp: DeleteResumableByBucket_def inv_upload split: if_splits intro!: inv_uploads)
next
  case (reset s)
  show ?case by (simp add: gcs_inv_def Reset_def gens_of_def)
qed (blast intro: inv_delete_bucket inv_put inv_put_generation inv_update_meta inv_update_generation inv_tombstone inv_delete_generation)+

section \<open>What readers see\<close>

lemma live_unique:
  assumes "ok_gens b n gens"
  shows "liveGeneration gens = Some m \<longleftrightarrow> filter live gens = [m]"
proof (cases gens rule: rev_cases)
  case (snoc xs x)
  with assms have "\<forall>g \<in> set xs. \<not> live g" by (simp add: ok_gens_def)
  then have "filter live xs = []" "find live (rev xs) = None" by (auto simp: filter_empty_conv find_None_iff)
  with snoc show ?thesis by (simp add: liveGeneration_def)
qed (simp add: liveGeneration_def)

lemma read_live: "GetObjectMeta b n s = Inr m \<longleftrightarrow> liveGeneration (gens_of b n s) = Some m"
  by (cases "object_gens b n s")
    (auto simp: GetObjectMeta_def object_gens_None object_gens_Some liveGeneration_def split: option.splits)

lemma read_generation:
  assumes "ok_gens b n (gens_of b n s)"
  shows "GetObjectGeneration b n g s = Inr m \<longleftrightarrow> m \<in> set (gens_of b n s) \<and> Generation m = g"
proof -
  let ?g = "gens_of b n s"
  have "m = m'" if "m \<in> set ?g" "m' \<in> set ?g" "Generation m = Generation m'" for m m'
    using assms that by (auto simp: ok_gens_def distinct_map inj_on_def)
  moreover have "m' \<in> set ?g \<and> Generation m' = g" if "find (\<lambda>m. Generation m = g) ?g = Some m'" for m'
    using that by (auto simp: find_Some_iff)
  moreover have "\<not> (m \<in> set ?g \<and> Generation m = g)" if "find (\<lambda>m. Generation m = g) ?g = None"
    using that by (auto simp: find_None_iff)
  ultimately show ?thesis unfolding GetObjectGeneration_def
    by (cases "find (\<lambda>m. Generation m = g) ?g") (simp_all, blast)
qed

text \<open>A list of the names of a bucket's objects, in some order.\<close>

definition enumerates :: "string list \<Rightarrow> string \<Rightarrow> MemoryObjectStore \<Rightarrow> bool" where
  "enumerates names b s \<longleftrightarrow> distinct names \<and> set names = fset (fmdom (the_default fmempty (fmlookup (objects s) b)))"

lemma list_live:
  assumes "gcs_inv s" "enumerates ns b s" "ListObjects ns b s = Inr ms"
  shows "sorted_wrt (<) (map Name ms) \<and> (\<forall>m. m \<in> set ms \<longleftrightarrow> (\<exists>n. liveGeneration (gens_of b n s) = Some m))"
proof -
  let ?live = "\<lambda>n. liveGeneration (gens_of b n s)"
  have name: "Name m = n" if "?live n = Some m" for n m
  proof -
    from that have "m \<in> set (gens_of b n s)" by (auto simp: liveGeneration_def find_Some_iff rev_nth)
    then show ?thesis using inv_ok [OF assms(1), of b n] by (simp add: ok_gens_def)
  qed
  have ms: "ms = sort_key Name (List.map_filter ?live ns)" using assms(3) by (auto simp: ListObjects_def split: if_splits)
  have "map Name (List.map_filter ?live ns) = filter (\<lambda>n. ?live n \<noteq> None) ns"
    by (induction ns) (auto simp: List.map_filter_def name)
  then have "distinct (map Name (List.map_filter ?live ns))" using assms(2) by (simp add: enumerates_def)
  then have "distinct (map Name ms)" unfolding ms by (simp add: distinct_map)
  then have "sorted_wrt (<) (map Name ms)" by (simp add: ms strict_sorted_iff)
  moreover have "n \<in> set ns" if "?live n = Some m" for n m
    using that assms(2) by (cases "fmlookup (the_default fmempty (fmlookup (objects s) b)) n")
      (auto simp: enumerates_def gens_of_def liveGeneration_def fmlookup_dom_iff)
  then have "m \<in> set ms \<longleftrightarrow> (\<exists>n. ?live n = Some m)" for m
    by (force simp: ms List.map_filter_def)
  ultimately show ?thesis by blast
qed

section \<open>The generation counter\<close>

text \<open>\<open>provider/storage\<close>: the counter starts at the clock, is moved to the highest stored number, and is incremented before each use.\<close>

definition seedGeneration :: "MemoryObjectStore \<Rightarrow> int \<Rightarrow> int" where
  "seedGeneration s gen = (case Atoi (MaxGeneration s) of None \<Rightarrow> gen | Some maxGen \<Rightarrow> if maxGen \<ge> gen then maxGen else gen)"

definition nextGen :: "int \<Rightarrow> int \<times> string" where
  "nextGen gen = (let gen = wrap64 (gen + 1) in (gen, Itoa gen))"

lemma fold_max:
  "init \<le> fold (\<lambda>m mx. case f m of None \<Rightarrow> mx | Some (g :: int) \<Rightarrow> if g > mx then g else mx) ms init"
  "m \<in> set ms \<Longrightarrow> f m = Some g \<Longrightarrow> g \<le> fold (\<lambda>m mx. case f m of None \<Rightarrow> mx | Some g \<Rightarrow> if g > mx then g else mx) ms init"
  "fold (\<lambda>m mx. case f m of None \<Rightarrow> mx | Some g \<Rightarrow> if g > mx then g else mx) ms init \<in> insert init {g. \<exists>m \<in> set ms. f m = Some g}"
proof (induction ms arbitrary: init)
  case (Cons x ms)
  { case 1 show ?case using Cons.IH(1) by (cases "f x") (auto, meson less_le_not_le order_trans) }
  { case 2
    then show ?case
    proof (cases "m = x")
      case True
      with 2 show ?thesis using Cons.IH(1) by (auto, meson linorder_not_less order_trans)
    qed (use 2 Cons.IH(2) in auto) }
  { case 3 show ?case using Cons.IH(3) [of init] Cons.IH(3) [of "the (f x)"] by (cases "f x") auto }
qed simp_all

lemma gens_in_all: "m \<in> set (gens_of b n s) \<Longrightarrow> m \<in> set (all_generations s)"
  by (cases "fmlookup (objects s) b"; cases "fmlookup (the_default fmempty (fmlookup (objects s) b)) n")
    (force simp: all_generations_def object_names_def gens_of_def fmlookup_dom_iff)+

lemma seed_above:
  assumes "m \<in> set (gens_of b n s)" "Atoi (Generation m) = Some g" "0 \<le> g"
  shows "g \<le> seedGeneration s gen"
proof -
  define mx where "mx = fold (\<lambda>m mx. case Atoi (Generation m) of None \<Rightarrow> mx | Some g \<Rightarrow> if g > mx then g else mx) (all_generations s) (- 1)"
  have "g \<le> mx" unfolding mx_def using fold_max(2) [of m _ "\<lambda>m. Atoi (Generation m)"] gens_in_all [OF assms(1)] assms(2) by blast
  moreover have "mx \<in> insert (- 1) {g. \<exists>m \<in> set (all_generations s). Atoi (Generation m) = Some g}"
    unfolding mx_def by (rule fold_max(3))
  then have "in_int64 mx" by (auto simp: Atoi_def in_int64_def split: option.splits if_splits)
  ultimately show ?thesis using assms(3) by (auto simp: seedGeneration_def MaxGeneration_def Atoi_Itoa simp flip: mx_def)
qed

section \<open>Snapshots keep the store\<close>

definition in_objects :: "string \<Rightarrow> string \<Rightarrow> (string, (string, gens) fmap) fmap \<Rightarrow> gens" where
  "in_objects b n objs = the_default [] (fmlookup (the_default fmempty (fmlookup objs b)) n)"

lemma gens_of_in_objects: "gens_of b n s = in_objects b n (objects s)"
  by (simp add: gens_of_def in_objects_def)

lemma in_objects_empty [simp]: "in_objects b n fmempty = []"
  by (simp add: in_objects_def)

lemma in_add_object: "in_objects b n (add_object m objs) = in_objects b n objs @ (if Bucket m = b \<and> Name m = n then [m] else [])"
  by (auto simp: in_objects_def add_object_def Let_def)

lemma in_add_objects: "in_objects b n (fold add_object ms objs) = in_objects b n objs @ filter (\<lambda>m. Bucket m = b \<and> Name m = n) ms"
  by (induction ms arbitrary: objs) (simp_all add: in_add_object)

lemma filter_gens:
  assumes "gcs_inv s"
  shows "filter (\<lambda>m. Bucket m = b \<and> Name m = n) (gens_of b' n' s) = (if b' = b \<and> n' = n then gens_of b n s else [])"
proof -
  have "\<forall>m \<in> set (gens_of b' n' s). Bucket m = b' \<and> Name m = n'" using inv_ok [OF assms] by (simp add: ok_gens_def)
  then show ?thesis by (auto simp: filter_empty_conv intro: filter_True)
qed

lemma filter_all:
  assumes "gcs_inv s" "distinct ps"
  shows "filter (\<lambda>m. Bucket m = b \<and> Name m = n) (concat (map (\<lambda>(b, n). gens_of b n s) ps)) = (if (b, n) \<in> set ps then gens_of b n s else [])"
  using assms(2) by (induction ps) (simp_all add: filter_gens [OF assms(1)] split_beta, auto)

lemma fold_fmupd_key:
  assumes "\<And>i a. fmlookup m i = Some a \<Longrightarrow> k (g i a) = i"
  shows "fmlookup (fold (\<lambda>x. fmupd (k x) (v x)) (List.map_filter (\<lambda>i. map_option (g i) (fmlookup m i)) is) m0) i =
    (case fmlookup m i of Some a \<Rightarrow> if i \<in> set is then Some (v (g i a)) else fmlookup m0 i | None \<Rightarrow> fmlookup m0 i)"
proof (induction "is" arbitrary: m0)
  case (Cons j "is")
  show ?case
  proof (cases "fmlookup m j")
    case (Some a)
    with assms show ?thesis by (cases "fmlookup m i") (auto simp: List.map_filter_simps Cons.IH)
  qed (auto simp: List.map_filter_simps Cons.IH split: option.splits)
qed (simp add: List.map_filter_simps split: option.split)

text \<open>Lists of the keys of the store's maps, in the orders that the snapshot's iterations take.\<close>

definition covers :: "string list \<Rightarrow> (string \<times> string) list \<Rightarrow> string list \<Rightarrow> MemoryObjectStore \<Rightarrow> bool" where
  "covers bs ps us s \<longleftrightarrow>
     set bs = fset (fmdom (buckets s)) \<and> set us = fset (fmdom (uploads s)) \<and> distinct ps \<and>
     (\<forall>b n. (b, n) \<in> set ps \<longleftrightarrow> object_gens b n s \<noteq> None)"

lemma gens_restored:
  assumes "gcs_inv s" "covers bs ps us s" "Restore (Inr (Snapshot bs ps us s)) t = Inr s'"
  shows "gens_of b n s' = gens_of b n s"
proof -
  from assms(3) have "objects s' = fold add_object (concat (map (\<lambda>(b, n). gens_of b n s) ps)) fmempty"
    by (auto simp: Restore_def Snapshot_def)
  then have "gens_of b n s' = (if (b, n) \<in> set ps then gens_of b n s else [])"
    using assms(1,2) by (simp add: gens_of_in_objects [of b n s'] in_add_objects covers_def filter_all)
  with assms(2) show ?thesis by (auto simp: covers_def dest: object_gens_None)
qed

lemma fmdom_Some: "set xs = fset (fmdom m) \<Longrightarrow> fmlookup m k = Some v \<Longrightarrow> k \<in> set xs"
  by (simp add: fmdomI)

lemma uploads_restored:
  assumes "gcs_inv s" "covers bs ps us s" "Restore (Inr (Snapshot bs ps us s)) t = Inr s'"
  shows "uploads s' = uploads s"
proof (rule fmap_ext)
  fix i
  have "uploads s' = fold (\<lambda>u. fmupd (UploadID u) u) (List.map_filter (\<lambda>i. map_option (\<lambda>u. u) (fmlookup (uploads s) i)) us) fmempty"
    using assms(3) by (auto simp: Restore_def Snapshot_def option.map_ident)
  then have "fmlookup (uploads s') i = (case fmlookup (uploads s) i of Some a \<Rightarrow> if i \<in> set us then Some a else None | None \<Rightarrow> None)"
    using fold_fmupd_key [of "uploads s" UploadID "\<lambda>_ u. u" "\<lambda>u. u" us fmempty i] inv_upload [OF assms(1)] by (simp split: option.split)
  then show "fmlookup (uploads s') i = fmlookup (uploads s) i"
    using assms(2) by (auto simp: covers_def fmdomI split: option.splits)
qed

lemma restored_row: "restored_meta (bucket_row b meta) = normalizeBucketMeta meta"
proof -
  have "set_string k (meta_string meta k) m = m" if "fmlookup m k = fmlookup meta k" for k m
    using that by (auto simp: set_string_def meta_string_def fmap_ext split: option.splits any.splits intro!: fmap_ext)
  then show ?thesis by (simp add: restored_meta_def bucket_row_def)
qed

lemma normalize_idem [simp]: "normalizeBucketMeta (normalizeBucketMeta m) = normalizeBucketMeta m"
  by (auto simp: normalizeBucketMeta_def split: option.splits any.splits)

lemma buckets_restored:
  assumes "covers bs ps us s" "Restore (Inr (Snapshot bs ps us s)) t = Inr s'"
  shows "GetBucket b s' = GetBucket b s"
proof -
  have "buckets s' = fold (\<lambda>b. fmupd (RowName b) (restored_meta b)) (List.map_filter (\<lambda>b. map_option (bucket_row b) (fmlookup (buckets s) b)) bs) fmempty"
    using assms(2) by (auto simp: Restore_def Snapshot_def)
  then have "fmlookup (buckets s') b =
      (case fmlookup (buckets s) b of Some a \<Rightarrow> if b \<in> set bs then Some (restored_meta (bucket_row b a)) else None | None \<Rightarrow> None)"
    using fold_fmupd_key [of "buckets s" RowName bucket_row restored_meta bs fmempty b] by (simp add: bucket_row_def split: option.split)
  then show ?thesis using assms(1) by (auto simp: GetBucket_def covers_def restored_row fmdomI split: option.splits)
qed

section \<open>The store's contract\<close>

definition sample_object :: "string \<Rightarrow> ObjectMeta" where
  "sample_object gen =
     \<lparr>Bucket = [], Name = [], Generation = gen, Metageneration = ''1'', ContentType = [], ContentEncoding = [], Size = 0, MD5Hash = [],
      CRC32C = [], StorageClass = [], Metadata = fmempty, ComponentCount = 0, TimeCreated = 1, Updated = 1, Retention = None,
      TemporaryHold = False, EventBasedHold = False, TimeDeleted = None, SoftDeleted = False, HardDeleteTime = 0, KmsKeyName = [],
      WrappedDEK = [], CSEKeySHA256 = []\<rparr>"

lemma sample_object_simps [simp]: "live (sample_object g)" "Generation (sample_object g) = g"
  by (simp_all add: sample_object_def live_def)

definition if_generation :: "int \<Rightarrow> Precondition" where
  "if_generation g = \<lparr>GenerationMatch = Some g, GenerationNotMatch = None, MetagenerationMatch = None, MetagenerationNotMatch = None\<rparr>"

definition sample_store :: MemoryObjectStore where
  "sample_store =
     set_gens ''b'' ''o'' [named 1 ''b'' ''o'' (sample_object (Itoa 7))]
       (NewMemoryObjectStore\<lparr>buckets := fmupd ''b'' (normalizeBucketMeta (fmupd ''projectId'' (AStr ''p'') (fmupd ''name'' (AStr ''b'') fmempty))) fmempty\<rparr>)"

lemma sample_bucket:
  "CreateBucket ''p'' ''b'' fmempty NewMemoryObjectStore =
     Inr (NewMemoryObjectStore\<lparr>buckets := fmupd ''b'' (normalizeBucketMeta (fmupd ''projectId'' (AStr ''p'') (fmupd ''name'' (AStr ''b'') fmempty))) fmempty\<rparr>)"
  by (simp add: CreateBucket_def NewMemoryObjectStore_def)

lemma sample_reach: "gcs_reach sample_store"
proof -
  note b = gcs_reach.create [OF gcs_reach.new sample_bucket]
  show ?thesis
    by (rule gcs_reach.put [OF b, of "sample_object (Itoa 7)" "''b''" "''o''" 1 None])
      (simp_all add: gens_of_def NewMemoryObjectStore_def PutObjectMetaChecked_def objectPreconditionMatches_def
        replaceLiveGeneration_def sample_store_def)
qed

lemma sample_gens: "gens_of b n sample_store = (if b = ''b'' \<and> n = ''o'' then [named 1 ''b'' ''o'' (sample_object (Itoa 7))] else [])"
  by (simp add: sample_store_def gens_of_set_gens) (simp add: gens_of_def NewMemoryObjectStore_def)

text \<open>
  C3: In every store that the operations reach, reading a name returns its one live generation: a read succeeds exactly when the
  live generations of the name are a single one, and returns that one; a generation is read by its number exactly when the store
  has it; and the list of a bucket holds, whatever the order in which the map is iterated, exactly the objects that reads by name
  return, strictly sorted by name.
\<close>

theorem one_live_generation:
  assumes "gcs_reach s"
  shows "(GetObjectMeta b n s = Inr m \<longleftrightarrow> filter live (gens_of b n s) = [m]) \<and>
    (GetObjectGeneration b n g s = Inr m \<longleftrightarrow> m \<in> set (gens_of b n s) \<and> Generation m = g) \<and>
    (enumerates names b s \<and> ListObjects names b s = Inr ms \<longrightarrow>
       sorted_wrt (<) (map Name ms) \<and> (\<forall>m. m \<in> set ms \<longleftrightarrow> (\<exists>n. GetObjectMeta b n s = Inr m)))"
proof -
  note inv = reach_inv [OF assms]
  show ?thesis using live_unique [OF inv_ok [OF inv]] read_generation [OF inv_ok [OF inv]] list_live [OF inv]
    by (auto simp: read_live)
qed

theorem one_live_generation_witness:
  "ListObjects [''o''] ''b'' sample_store = Inr [named 1 ''b'' ''o'' (sample_object (Itoa 7))] \<and>
   GetObjectMeta ''b'' ''o'' sample_store = Inr (named 1 ''b'' ''o'' (sample_object (Itoa 7)))"
proof -
  have "enumerates [''o''] ''b'' sample_store"
    by (simp add: enumerates_def sample_store_def set_gens_def NewMemoryObjectStore_def)
  moreover have live: "live (named 1 ''b'' ''o'' (sample_object (Itoa 7)))" by simp
  moreover have "ListObjects [''o''] ''b'' sample_store = Inr [named 1 ''b'' ''o'' (sample_object (Itoa 7))]"
    using live by (simp add: ListObjects_def sample_gens liveGeneration_def List.map_filter_simps) (simp add: sample_store_def)
  ultimately show ?thesis
    using one_live_generation [OF sample_reach, of "''b''" "''o''" "named 1 ''b'' ''o'' (sample_object (Itoa 7))" "Itoa 7" "[''o'']"]
    by (simp add: sample_gens)
qed

text \<open>The number that a precondition compares, and a put, plain or versioned, that is conditioned on it.\<close>

definition object_version :: "string \<Rightarrow> string \<Rightarrow> MemoryObjectStore \<Rightarrow> int" where
  "object_version b n s = (case liveGeneration (gens_of b n s) of None \<Rightarrow> 0 | Some m \<Rightarrow> ParseInt_lax (Generation m))"

definition put_at :: "string \<Rightarrow> string \<Rightarrow> int \<Rightarrow> bool \<times> time \<times> time \<times> ObjectMeta \<Rightarrow> MemoryObjectStore \<Rightarrow> MemoryObjectStore option" where
  "put_at b n g w s =
     (case w of (versioned, now, now', m) \<Rightarrow>
        (case if versioned then PutObjectGenerationChecked now now' b n m (Some (if_generation g)) s
              else PutObjectMetaChecked now b n m (Some (if_generation g)) s of
           Inl err \<Rightarrow> None
         | Inr s' \<Rightarrow> Some s'))"

definition put_meta :: "bool \<times> time \<times> time \<times> ObjectMeta \<Rightarrow> ObjectMeta" where
  "put_meta w = (case w of (versioned, now, now', m) \<Rightarrow> m)"

definition put_named :: "string \<Rightarrow> string \<Rightarrow> bool \<times> time \<times> time \<times> ObjectMeta \<Rightarrow> ObjectMeta" where
  "put_named b n w = (case w of (versioned, now, now', m) \<Rightarrow> named now b n m)"

lemma matches_generation [simp]:
  "objectPreconditionMatches (liveGeneration (gens_of b n s)) (Some (if_generation g)) \<longleftrightarrow> object_version b n s = g"
  by (auto simp: objectPreconditionMatches_def if_generation_def object_version_def Let_def split: option.split)

lemma put_at_Some:
  assumes "put_at b n g w s = Some s'"
  obtains old where "s' = set_gens b n (old @ [put_named b n w]) s" "\<forall>r \<in> set (gens_of b n s). \<not> live r \<longrightarrow> r \<in> set old"
    "\<forall>r \<in> set old. \<not> live r" "object_version b n s = g" "fmlookup (buckets s) b \<noteq> None"
  using assms
  by (fastforce simp: put_at_def put_named_def PutObjectMetaChecked_def PutObjectGenerationChecked_def replaceLiveGeneration_def archive_def
      live_def split: prod.splits if_splits)

lemma put_at_version:
  "object_version b n s = g \<Longrightarrow> fmlookup (buckets s) b \<noteq> None \<Longrightarrow> \<exists>s'. put_at b n g w s = Some s'"
  by (auto simp: put_at_def PutObjectMetaChecked_def PutObjectGenerationChecked_def split: prod.split)

lemma live_put: "live (put_meta w) \<Longrightarrow> liveGeneration (old @ [put_named b n w]) = Some (put_named b n w)"
  by (auto simp: liveGeneration_def put_meta_def put_named_def split: prod.splits)

lemma put_named_Generation [simp]: "Generation (put_named b n w) = Generation (put_meta w)"
  by (simp add: put_named_def put_meta_def split: prod.split)

interpretation gcs_puts: conditional_store "object_version b n" "put_at b n" "\<lambda>w. ParseInt_lax (Generation (put_meta w))" "\<lambda>w. live (put_meta w)"
  for b n
proof
  fix s s' :: MemoryObjectStore and g w
  show "put_at b n g w s = None" if "object_version b n s \<noteq> g"
    using that by (auto elim: put_at_Some intro: option.exhaust)
  show "object_version b n s' = ParseInt_lax (Generation (put_meta w))" if "put_at b n g w s = Some s'" "live (put_meta w)"
    using that by (auto simp: object_version_def gens_of_set_gens live_put elim!: put_at_Some)
qed

text \<open>A write of the name that is conditioned on a number other than the current one, and is not a put.\<close>

lemma other_writes_refused:
  assumes "object_gens b n s = Some (old @ [m])" "live m" "\<forall>r \<in> set old. \<not> live r" "ParseInt_lax (Generation m) \<noteq> g"
  shows "UpdateObjectMetaChecked now b n m' (Some (if_generation g)) s = Inl ErrPreconditionFailed \<and>
    DeleteObjectMetaChecked b n (Some (if_generation g)) s = Inl ErrPreconditionFailed \<and>
    TombstoneObjectMetaChecked now b n opts (Some (if_generation g)) s = Inl ErrPreconditionFailed"
proof -
  have gens: "gens_of b n s = old @ [m]" using object_gens_Some [OF assms(1)] .
  have "live_index (old @ [m]) = Some (length old)" using assms(2) by (simp add: live_index_def enumerate_append_eq)
  moreover have live: "liveGeneration (old @ [m]) = Some m" using assms(2) by (simp add: liveGeneration_def)
  moreover have "object_version b n s \<noteq> g" using assms(4) live by (simp add: object_version_def gens)
  then have "\<not> objectPreconditionMatches (Some m) (Some (if_generation g))" using matches_generation [of b n s g] live by (simp add: gens)
  ultimately show ?thesis using assms(1) gens
    by (simp add: UpdateObjectMetaChecked_def DeleteObjectMetaChecked_def TombstoneObjectMetaChecked_def)
qed

text \<open>
  C5: Of any number of writers that put an object, plainly or as a new version, on the condition that its generation is
  still the current one, exactly the first to take the lock succeeds. Its object is the live one afterwards, every retained generation is kept,
  no other name changes, and updates, deletes and tombstones on the same condition fail. With the number 0 this is the
  creation of an object only if it is absent.
\<close>

theorem one_conditional_writer_wins:
  assumes "fmlookup (buckets s) b \<noteq> None" "object_version b n s = g" "live (put_meta w)" "ParseInt_lax (Generation (put_meta w)) \<noteq> g"
  shows "\<exists>s'. attempts (put_at b n) g (w # ws) s = (s', [w]) \<and> GetObjectMeta b n s' = Inr (put_named b n w) \<and>
    (\<forall>r \<in> set (gens_of b n s). \<not> live r \<longrightarrow> r \<in> set (gens_of b n s')) \<and>
    (\<forall>b' n'. (b', n') \<noteq> (b, n) \<longrightarrow> gens_of b' n' s' = gens_of b' n' s) \<and>
    UpdateObjectMetaChecked now b n m' (Some (if_generation g)) s' = Inl ErrPreconditionFailed \<and>
    DeleteObjectMetaChecked b n (Some (if_generation g)) s' = Inl ErrPreconditionFailed \<and>
    TombstoneObjectMetaChecked now b n opts (Some (if_generation g)) s' = Inl ErrPreconditionFailed"
proof -
  from put_at_version [OF assms(2,1)] obtain s' where put: "put_at b n g w s = Some s'" by blast
  then obtain old where s': "s' = set_gens b n (old @ [put_named b n w]) s" and kept: "\<forall>r \<in> set (gens_of b n s). \<not> live r \<longrightarrow> r \<in> set old"
    and old: "\<forall>r \<in> set old. \<not> live r" by (elim put_at_Some) blast
  have "GetObjectMeta b n s' = Inr (put_named b n w)" by (simp add: read_live s' gens_of_set_gens live_put [OF assms(3)])
  moreover have "live (put_named b n w)" using assms(3) by (simp add: put_named_def put_meta_def split: prod.splits)
  moreover have "object_gens b n s' = Some (old @ [put_named b n w])" by (simp add: s' object_gens_def set_gens_def)
  ultimately show ?thesis using gcs_puts.first_wins [OF put assms(3,4)] other_writes_refused [of b n s' old "put_named b n w" g] old kept assms(4)
    by (auto simp: s' gens_of_set_gens)
qed

theorem one_conditional_writer_wins_witness:
  "\<exists>s'. attempts (put_at ''b'' ''o'') 7 [(False, 2, 2, sample_object (Itoa 8)), (True, 3, 3, sample_object (Itoa 9))] sample_store =
     (s', [(False, 2, 2, sample_object (Itoa 8))])"
proof -
  have "in_int64 7" "in_int64 8" by (simp_all add: in_int64_def)
  then have "object_version ''b'' ''o'' sample_store = 7" "ParseInt_lax (Generation (put_meta (False, 2, 2, sample_object (Itoa 8)))) \<noteq> 7"
    by (simp_all add: object_version_def sample_gens liveGeneration_def put_meta_def)
  moreover have "fmlookup (buckets sample_store) ''b'' \<noteq> None" "live (put_meta (False, 2, 2, sample_object (Itoa 8)))"
    by (simp_all add: sample_store_def put_meta_def)
  ultimately show ?thesis
    using one_conditional_writer_wins [of sample_store "''b''" "''o''" 7 "(False, 2, 2, sample_object (Itoa 8))" "[(True, 3, 3, sample_object (Itoa 9))]"]
    by metis
qed



text \<open>
  A bucket whose objects are all soft-deleted is deleted together with them: a comment of \<open>DeleteBucketChecked\<close> says that they are
  retained with the bucket, and a bucket created again under the name does not find them.
\<close>

theorem deleted_bucket_loses_soft_deleted:
  assumes "DeleteBucketChecked b p s = Inr s'" "CreateBucket pid b meta s' = Inr s''"
  shows "gens_of b n s' = [] \<and> gens_of b n s'' = []"
  using assms by (auto simp: DeleteBucketChecked_def CreateBucket_def gens_of_def split: option.splits if_splits)

end
