(* ===== verification/Secret_Rules.thy ===== *)
theory Secret_Rules
  imports Go_Float Go_Time
begin

text \<open>
  The rules of \<open>internal/gcp/service/secretmanager\<close> on the fields of a secret: durations, expirations and delays of destruction
  (\<open>expiration.go\<close>), topics and rotation schedules (\<open>rotation.go\<close>). An error is the constructor of the message with the values it renders.
\<close>

section \<open>Durations\<close>

datatype lifecycle_error =
    NotSeconds string
  | DestroyTTLRange string
  | ExpiresTooSoon
  | ExpiresTooLate
  | NotRFC3339 string
  | TooManyTopics nat
  | NotATopic nat string
  | PeriodRange string
  | NextTimeMissing
  | NextTimeTooSoon
  | NextTimeTooLate
  | TopicsMissing

definition MinSecretExpirationLead :: duration where "MinSecretExpirationLead = 60 * Second"

definition MaxSecretExpiration :: duration where "MaxSecretExpiration = 3153600000 * Second"

definition MinVersionDestroyTTL :: duration where "MinVersionDestroyTTL = 24 * Hour"

definition MaxVersionDestroyTTL :: duration where "MaxVersionDestroyTTL = 1000 * 24 * Hour"

text \<open>\<open>strings.Cut(s, ".")\<close>: the text before the first point, the text behind it, and whether there is one.\<close>

definition cut_point :: "string \<Rightarrow> string \<times> string \<times> bool" where
  "cut_point s = (case IndexByte s CHR ''.'' of None \<Rightarrow> (s, [], False) | Some i \<Rightarrow> (take i s, drop (Suc i) s, True))"

definition MaxInt64 :: int where
  "MaxInt64 = 2 ^ 63 - 1"

definition parse_nanos :: "string \<Rightarrow> bool \<Rightarrow> int option" where
  "parse_nanos digs found =
     (if digs \<noteq> [] \<or> found then
        if digs = [] \<or> length digs > 9 \<or> \<not> list_all is_digit digs then None
        else Some (int (dec_val 0 (digs @ replicate (9 - length digs) CHR ''0'')))
      else Some 0)"

definition parseDurationSeconds :: "string \<Rightarrow> string \<Rightarrow> lifecycle_error + duration" where
  "parseDurationSeconds field s =
     (let raw = TrimSpace s
      in if \<not> HasSuffix raw ''s'' then Inl (NotSeconds field)
         else case cut_point (TrimSuffix raw ''s'') of
           (whole, digs, found) \<Rightarrow>
             (case Atoi whole of
                None \<Rightarrow> Inl (NotSeconds field)
              | Some secs \<Rightarrow>
                  if secs < 0 \<or> HasPrefix whole ''+'' then Inl (NotSeconds field)
                  else case parse_nanos digs found of
                         None \<Rightarrow> Inl (NotSeconds field)
                       | Some nanos \<Rightarrow>
                           let maxSecs = MaxInt64 div Second
                           in if secs > maxSecs \<or> secs = maxSecs \<and> nanos > MaxInt64 - maxSecs * Second then Inl (NotSeconds field)
                              else Inr (secs * Second + nanos)))"

text \<open>\<open>DurationString\<close>: a negative duration goes through its number of seconds as a float.\<close>

definition group_fraction :: "string \<Rightarrow> string" where
  "group_fraction digs = (if HasSuffix digs ''000000'' then take 3 digs else if HasSuffix digs ''000'' then take 6 digs else digs)"

definition DurationString :: "duration \<Rightarrow> string" where
  "DurationString d =
     (if d < 0 then FormatFloat_f (Seconds d) @ ''s''
      else let secs = d div Second; nanos = d - secs * Second
           in if nanos = 0 then Itoa secs @ ''s''
              else Itoa secs @ ''.'' @ group_fraction (fmt_0d 9 nanos) @ ''s'')"

section \<open>Expirations and delays\<close>

definition ValidateVersionDestroyTTL :: "duration \<Rightarrow> lifecycle_error option" where
  "ValidateVersionDestroyTTL d =
     (if d < MinVersionDestroyTTL \<or> d > MaxVersionDestroyTTL then Some (DestroyTTLRange (DurationString d)) else None)"

definition ParseVersionDestroyTTL :: "string \<Rightarrow> lifecycle_error + duration" where
  "ParseVersionDestroyTTL v =
     (case parseDurationSeconds ''versionDestroyTtl'' v of
        Inl err \<Rightarrow> Inl err
      | Inr d \<Rightarrow> (case ValidateVersionDestroyTTL d of Some err \<Rightarrow> Inl err | None \<Rightarrow> Inr d))"

definition ValidateExpireTime :: "time \<Rightarrow> time \<Rightarrow> lifecycle_error option" where
  "ValidateExpireTime t now =
     (if t < now + MinSecretExpirationLead then Some ExpiresTooSoon
      else if t > now + MaxSecretExpiration then Some ExpiresTooLate
      else None)"

definition ExpireTimeFromTTL :: "duration \<Rightarrow> time \<Rightarrow> lifecycle_error + time" where
  "ExpireTimeFromTTL ttl now = (case ValidateExpireTime (now + ttl) now of Some err \<Rightarrow> Inl err | None \<Rightarrow> Inr (now + ttl))"

definition ParseTTL :: "string \<Rightarrow> time \<Rightarrow> lifecycle_error + time" where
  "ParseTTL raw now = (case parseDurationSeconds ''ttl'' raw of Inl err \<Rightarrow> Inl err | Inr d \<Rightarrow> ExpireTimeFromTTL d now)"

definition ParseExpireTime :: "string \<Rightarrow> time \<Rightarrow> lifecycle_error + time" where
  "ParseExpireTime raw now =
     (case ParseRFC3339 raw of
        None \<Rightarrow> Inl (NotRFC3339 raw)
      | Some t \<Rightarrow> (case ValidateExpireTime t now of Some err \<Rightarrow> Inl err | None \<Rightarrow> Inr t))"

section \<open>Topics and rotation schedules\<close>

record ManagedRotation =
  MState :: string
  InstanceID :: string
  Username :: string

record Rotation =
  NextRotationTime :: string
  RotationPeriod :: string
  Managed :: "ManagedRotation option"

definition MaxSecretTopics :: nat where "MaxSecretTopics = 10"

definition MinNextRotationLead :: duration where "MinNextRotationLead = 300 * Second"

definition MinRotationPeriod :: duration where "MinRotationPeriod = 3600 * Second"

definition MaxRotationSpan :: duration where "MaxRotationSpan = 3153600000 * Second"

definition ParseRotationDuration :: "string \<Rightarrow> lifecycle_error + duration" where
  "ParseRotationDuration s = parseDurationSeconds ''rotation.rotationPeriod'' s"

definition validTopicName :: "string \<Rightarrow> bool" where
  "validTopicName t = (case Split t CHR ''/'' of [a, p, b, n] \<Rightarrow> a = ''projects'' \<and> p \<noteq> [] \<and> b = ''topics'' \<and> n \<noteq> [] | _ \<Rightarrow> False)"

fun check_topics :: "nat \<Rightarrow> string list \<Rightarrow> lifecycle_error option" where
  "check_topics i [] = None"
| "check_topics i (t # ts) = (if \<not> validTopicName t then Some (NotATopic i t) else check_topics (Suc i) ts)"

definition ValidateTopics :: "string list \<Rightarrow> lifecycle_error option" where
  "ValidateTopics topics = (if length topics > MaxSecretTopics then Some (TooManyTopics (length topics)) else check_topics 0 topics)"

definition check_period :: "string \<Rightarrow> lifecycle_error option" where
  "check_period period =
     (if period = [] then None
      else case ParseRotationDuration period of
             Inl err \<Rightarrow> Some err
           | Inr d \<Rightarrow> if d < MinRotationPeriod \<or> d > MaxRotationSpan then Some (PeriodRange period) else None)"

definition check_next :: "time \<Rightarrow> time \<Rightarrow> lifecycle_error option" where
  "check_next next_time now =
     (if next_time < now + MinNextRotationLead then Some NextTimeTooSoon
      else if next_time > now + MaxRotationSpan then Some NextTimeTooLate
      else None)"

definition ValidateRotation :: "Rotation option \<Rightarrow> string list \<Rightarrow> time \<Rightarrow> bool \<Rightarrow> lifecycle_error option" where
  "ValidateRotation rot topics now nextTimeSupplied =
     (case rot of
        None \<Rightarrow> None
      | Some rot \<Rightarrow>
          (case ValidateTopics topics of
             Some err \<Rightarrow> Some err
           | None \<Rightarrow>
               (case check_period (RotationPeriod rot) of
                  Some err \<Rightarrow> Some err
                | None \<Rightarrow>
                    if NextRotationTime rot = [] then
                      if RotationPeriod rot \<noteq> [] then Some NextTimeMissing else None
                    else
                      (case ParseRFC3339 (NextRotationTime rot) of
                         None \<Rightarrow> Some (NotRFC3339 (NextRotationTime rot))
                       | Some next_time \<Rightarrow>
                           (case if nextTimeSupplied then check_next next_time now else None of
                              Some err \<Rightarrow> Some err
                            | None \<Rightarrow> if topics = [] then Some TopicsMissing else None)))))"

definition no_schedule :: "Rotation \<Rightarrow> bool" where
  "no_schedule r \<longleftrightarrow> NextRotationTime r = [] \<and> RotationPeriod r = [] \<and> Managed r = None"

definition MergedRotation :: "Rotation option \<Rightarrow> Rotation option \<Rightarrow> bool \<Rightarrow> bool \<Rightarrow> bool \<Rightarrow> Rotation option" where
  "MergedRotation current incoming selectAll nextTime period =
     (if selectAll then
        case incoming of
          Some inc \<Rightarrow>
            if no_schedule inc then
              (case current of Some cur \<Rightarrow> if Managed cur \<noteq> None then Some \<lparr>NextRotationTime = [], RotationPeriod = [], Managed = Managed cur\<rparr> else None | None \<Rightarrow> None)
            else Some (case current of Some cur \<Rightarrow> inc\<lparr>Managed := Managed cur\<rparr> | None \<Rightarrow> inc)
        | None \<Rightarrow>
            (case current of Some cur \<Rightarrow> if Managed cur \<noteq> None then Some \<lparr>NextRotationTime = [], RotationPeriod = [], Managed = Managed cur\<rparr> else None | None \<Rightarrow> None)
      else
        let out = the_default \<lparr>NextRotationTime = [], RotationPeriod = [], Managed = None\<rparr> current;
            out = (case incoming of
                     None \<Rightarrow> out
                   | Some inc \<Rightarrow>
                       let out = (if nextTime then out\<lparr>NextRotationTime := NextRotationTime inc\<rparr> else out)
                       in if period then out\<lparr>RotationPeriod := RotationPeriod inc\<rparr> else out)
        in if no_schedule out then None else Some out)"

section \<open>Durations round-trip\<close>

lemma Itoa_digits: "0 \<le> i \<Longrightarrow> list_all is_digit (Itoa i) \<and> Itoa i \<noteq> []"
  by (simp add: Itoa_def)

lemma is_digit_plain: "is_digit c \<Longrightarrow> plain_byte c"
  by (simp add: is_digit_iff plain_byte_def byte_def)

lemma IndexByte_None: "c \<notin> set s \<Longrightarrow> IndexByte s c = None"
  by (induction s) auto

lemma IndexByte_at: "c \<notin> set s \<Longrightarrow> IndexByte (s @ c # t) c = Some (length s)"
  by (induction s) auto

lemma no_point: "list_all is_digit s \<Longrightarrow> CHR ''.'' \<notin> set s"
  by (auto simp: list_all_iff is_digit_def)

lemma cut_digits: "list_all is_digit s \<Longrightarrow> cut_point s = (s, [], False)" "list_all is_digit s \<Longrightarrow> cut_point (s @ CHR ''.'' # t) = (s, t, True)"
  by (simp_all add: cut_point_def no_point IndexByte_None IndexByte_at)

lemma suffix_zeros: "length digs = 9 \<Longrightarrow> HasSuffix digs z \<Longrightarrow> digs = take (9 - length z) digs @ z"
  by (metis HasSuffix_def append_take_drop_id)

lemma group_fraction_value:
  assumes "length digs = 9"
  shows "\<exists>k. k \<le> 9 \<and> 0 < k \<and> group_fraction digs = take k digs \<and> take k digs @ replicate (9 - k) CHR ''0'' = digs"
proof -
  have "take 3 digs @ replicate 6 CHR ''0'' = digs" if "HasSuffix digs ''000000''"
    using suffix_zeros [OF assms that] by (simp add: numeral_eq_Suc)
  moreover have "take 6 digs @ replicate 3 CHR ''0'' = digs" if "HasSuffix digs ''000''"
    using suffix_zeros [OF assms that] by (simp add: numeral_eq_Suc)
  ultimately show ?thesis using assms
    by (auto simp: group_fraction_def intro: exI [of _ 3] exI [of _ 6] exI [of _ 9])
qed

lemma parse_group:
  assumes "0 \<le> n" "n < 10 ^ 9"
  shows "parse_nanos (group_fraction (fmt_0d 9 n)) True = Some n \<and> group_fraction (fmt_0d 9 n) \<noteq> []"
proof -
  let ?z = "zpad 9 (nat n)"
  have z: "fmt_0d 9 n = ?z" using assms(1) by (simp add: fmt_0d_def)
  have len: "length ?z = 9" using assms by (intro length_zpad) (simp_all add: nat_less_iff)
  from group_fraction_value [OF len] obtain k where k: "k \<le> 9" "0 < k" "group_fraction ?z = take k ?z"
    "take k ?z @ replicate (9 - k) CHR ''0'' = ?z" by blast
  have "list_all is_digit (take k ?z)" using digits_zpad [of 9 "nat n"] by (auto simp: list_all_iff dest: in_set_takeD)
  then show ?thesis using k len assms(1) dec_val_zpad [of 9 "nat n"] by (auto simp: z parse_nanos_def)
qed

lemma parse_text:
  assumes "0 \<le> secs" "secs \<le> MaxInt64 div Second" "0 \<le> nanos" "nanos < Second" "secs * Second + nanos \<le> MaxInt64"
    and "t = [] \<and> nanos = 0 \<or> t \<noteq> [] \<and> parse_nanos t True = Some nanos"
  shows "parseDurationSeconds field (Itoa secs @ (if t = [] then [] else ''.'' @ t) @ ''s'') = Inr (secs * Second + nanos)"
proof -
  note d = Itoa_digits [OF assms(1)]
  have "hd (Itoa secs @ x) = hd (Itoa secs)" "is_digit (hd (Itoa secs))" for x using d by (cases "Itoa secs"; simp)+
  then have trim: "TrimSpace (Itoa secs @ (if t = [] then [] else ''.'' @ t) @ ''s'') = Itoa secs @ (if t = [] then [] else ''.'' @ t) @ ''s''"
    by (intro TrimSpace_plain) (use d in \<open>auto simp: is_digit_plain\<close>, simp_all add: plain_byte_def byte_def)
  have in64: "in_int64 secs" using assms(1,2) by (simp add: in_int64_def MaxInt64_def Second_def)
  have plus: "\<not> HasPrefix (Itoa secs) ''+''" using d by (cases "Itoa secs") (auto simp: HasPrefix_def is_digit_def)
  have cut: "cut_point (Itoa secs @ (if t = [] then [] else ''.'' @ t)) = (Itoa secs, t, t \<noteq> [])"
    using cut_digits [of "Itoa secs"] d by simp
  have nanos: "parse_nanos t (t \<noteq> []) = Some nanos" using assms(6) by (auto simp: parse_nanos_def)
  have "TrimSuffix ((Itoa secs @ (if t = [] then [] else ''.'' @ t)) @ ''s'') ''s'' = Itoa secs @ (if t = [] then [] else ''.'' @ t)"
    "HasSuffix ((Itoa secs @ (if t = [] then [] else ''.'' @ t)) @ ''s'') ''s''"
    by (simp_all only: TrimSuffix_append HasSuffix_append)
  then show ?thesis using assms(1,2,5) in64 plus cut nanos
    by (simp add: parseDurationSeconds_def trim Atoi_Itoa Let_def) auto
qed

lemma parse_nanos_range: "parse_nanos digs found = Some n \<Longrightarrow> 0 \<le> n"
  by (auto simp: parse_nanos_def split: if_splits)

lemma parsed_range: "parseDurationSeconds field s = Inr d \<Longrightarrow> 0 \<le> d"
  by (auto simp: parseDurationSeconds_def Let_def Second_def split: prod.splits option.splits if_splits dest!: parse_nanos_range)

lemma digit_val_less: "is_digit c \<Longrightarrow> digit_val c < 10"
  by (auto simp: is_digit_iff digit_val_def)

lemma dec_val_bound: "list_all is_digit s \<Longrightarrow> dec_val 0 s < 10 ^ length s"
proof (induction s rule: rev_induct)
  case (snoc c s)
  then have "dec_val 0 s < 10 ^ length s" "digit_val c < 10" by (simp_all add: digit_val_less)
  then show ?case by (simp add: dec_val_append)
qed simp

lemma parse_nanos_bound:
  assumes "parse_nanos digs found = Some n"
  shows "n < Second"
proof (cases "digs \<noteq> [] \<or> found")
  case True
  let ?p = "digs @ replicate (9 - length digs) CHR ''0''"
  from True assms have "n = int (dec_val 0 ?p)" "length ?p = 9" "list_all is_digit ?p"
    by (auto simp: parse_nanos_def is_digit_def list_all_iff split: if_splits)
  moreover have "dec_val 0 ?p < 10 ^ length ?p" by (rule dec_val_bound) fact
  ultimately show ?thesis by (simp add: Second_def)
qed (use assms in \<open>simp add: parse_nanos_def Second_def\<close>)

lemma parsed_bound:
  assumes "parseDurationSeconds field s = Inr d"
  shows "d \<le> MaxInt64"
proof -
  from assms obtain secs nanos digs found where "d = secs * Second + nanos" "parse_nanos digs found = Some nanos"
    "\<not> (secs > MaxInt64 div Second \<or> secs = MaxInt64 div Second \<and> nanos > MaxInt64 - MaxInt64 div Second * Second)"
    by (auto simp: parseDurationSeconds_def Let_def split: prod.splits option.splits if_splits)
  with parse_nanos_bound [of digs found nanos] show ?thesis by (auto simp: MaxInt64_def Second_def)
qed

lemma print_parse:
  assumes "0 \<le> d" "d \<le> MaxInt64"
  shows "parseDurationSeconds field (DurationString d) = Inr d"
proof -
  define secs where "secs = d div Second"
  define nanos where "nanos = d - secs * Second"
  have r: "0 \<le> secs" "secs \<le> MaxInt64 div Second" "0 \<le> nanos" "nanos < Second" "d = secs * Second + nanos"
    using assms by (auto simp: secs_def nanos_def Second_def MaxInt64_def minus_div_mult_eq_mod zdiv_mono1)
  have print: "DurationString d = (if nanos = 0 then Itoa secs @ ''s'' else Itoa secs @ ''.'' @ group_fraction (fmt_0d 9 nanos) @ ''s'')"
    using assms(1) by (simp add: DurationString_def Let_def flip: secs_def nanos_def) (simp add: nanos_def)
  show ?thesis
  proof (cases "nanos = 0")
    case True
    then show ?thesis unfolding print using parse_text [of secs 0 "[]" field] r assms(2) by (simp add: Second_def)
  next
    case False
    have "parse_nanos (group_fraction (fmt_0d 9 nanos)) True = Some nanos \<and> group_fraction (fmt_0d 9 nanos) \<noteq> []"
      using r by (intro parse_group) (simp_all add: Second_def)
    then show ?thesis unfolding print using parse_text [of secs nanos "group_fraction (fmt_0d 9 nanos)" field] False r assms(2) by simp
  qed
qed



text \<open>The comment of the parser says that a negative value is rejected; a minus sign before a whole part of zero is dropped.\<close>

theorem negative_fraction_is_accepted: "parseDurationSeconds field ''-0.5s'' = Inr 500000000"
proof -
  have "TrimSpace ''-0.5s'' = ''-0.5s''" by (rule TrimSpace_plain) (simp_all add: plain_byte_def byte_def)
  moreover have "HasSuffix ''-0.5s'' ''s''" "TrimSuffix ''-0.5s'' ''s'' = ''-0.5''" "cut_point ''-0.5'' = (''-0'', ''5'', True)"
    by (simp_all add: HasSuffix_def TrimSuffix_def cut_point_def)
  moreover have "replicate 8 CHR ''0'' = ''00000000''" by (simp add: numeral_eq_Suc)
  then have "parse_nanos ''5'' True = Some 500000000" by (simp add: parse_nanos_def is_digit_def digit_val_def)
  moreover have "Atoi ''-0'' = Some 0" "HasPrefix ''-0'' ''+'' = False"
    by (simp_all add: Atoi_def parse_int_def parse_nat_def is_digit_def digit_val_def in_int64_def HasPrefix_def)
  ultimately show ?thesis by (simp add: parseDurationSeconds_def Let_def MaxInt64_def Second_def)
qed

end
