(* ===== verification/Secret_Store.thy ===== *)
theory Secret_Store
  imports Secret_Rules Store_Util
begin

text \<open>
  \<open>internal/gcp/store/secretmanager\<close>: secrets by project, their versions, and the in-memory store. Every operation runs
  under the store's lock.
\<close>

section \<open>Data\<close>

datatype secret_error = ErrNoSuchSecret | ErrNoSuchVersion | ErrAlreadyExists

type_synonym CustomerManagedEncryption = string

record Replica =
  Location :: string
  CME :: "CustomerManagedEncryption option"

record Replication =
  Automatic :: "CustomerManagedEncryption option option"
  UserManaged :: "Replica list option"

record CMEKBinding =
  BLocation :: string
  BKmsKeyName :: string

definition named_key :: "CustomerManagedEncryption option \<Rightarrow> string option" where
  "named_key cme = (case cme of Some k \<Rightarrow> if k \<noteq> [] then Some k else None | None \<Rightarrow> None)"

definition CMEKBindings :: "Replication option \<Rightarrow> CMEKBinding list" where
  "CMEKBindings r =
     (case r of
        None \<Rightarrow> []
      | Some r \<Rightarrow>
          (case Automatic r of
             Some cme \<Rightarrow> (case named_key cme of Some k \<Rightarrow> [\<lparr>BLocation = ''global'', BKmsKeyName = k\<rparr>] | None \<Rightarrow> [])
           | None \<Rightarrow>
               (case UserManaged r of
                  Some reps \<Rightarrow> List.map_filter (\<lambda>rep. map_option (\<lambda>k. \<lparr>BLocation = Location rep, BKmsKeyName = k\<rparr>) (named_key (CME rep))) reps
                | None \<Rightarrow> [])))"

definition WrapKey :: "Replication option \<Rightarrow> string" where
  "WrapKey r = (case CMEKBindings r of [] \<Rightarrow> [] | b # _ \<Rightarrow> BKmsKeyName b)"

record Secret =
  ID :: string
  Labels :: "(string, string) fmap"
  Annotations :: "(string, string) fmap"
  Topics :: "string list"
  SCreateTime :: time
  NextVer :: int
  SRotation :: "Rotation option"
  VersionAliases :: "(string, int) fmap"
  SReplication :: "Replication option"
  SKmsKeyName :: string
  VersionDestroyTTL :: string
  ExpireTime :: time

definition ReplicationPolicy :: "Secret \<Rightarrow> Replication" where
  "ReplicationPolicy s =
     (case SReplication s of
        Some r \<Rightarrow> r
      | None \<Rightarrow> \<lparr>Automatic = Some (if SKmsKeyName s \<noteq> [] then Some (SKmsKeyName s) else None), UserManaged = None\<rparr>)"

definition SetReplication :: "Replication option \<Rightarrow> Secret \<Rightarrow> Secret" where
  "SetReplication r s = s\<lparr>SReplication := r, SKmsKeyName := WrapKey r\<rparr>"

record ReplicaDEK =
  DLocation :: string
  DKmsKeyName :: string
  DWrappedDEK :: string

record Version =
  SecretID :: string
  VersionID :: string
  State :: string
  CreateTime :: time
  DestroyTime :: time
  ScheduledDestroyTime :: time
  Data :: string
  KmsKeyName :: string
  WrappedDEK :: string
  ReplicaDEKs :: "ReplicaDEK list"

record MemoryStore =
  secrets :: "(string, (string, Secret) fmap) fmap"
  versions :: "(string, (string, Version) fmap) fmap"

definition NewMemoryStore :: MemoryStore where
  "NewMemoryStore = \<lparr>secrets = fmempty, versions = fmempty\<rparr>"

definition vkey :: "string \<Rightarrow> string \<Rightarrow> string" where
  "vkey projectID secretID = projectID @ ''/'' @ secretID"

section \<open>Secrets\<close>

text \<open>A read through a missing inner map finds nothing.\<close>

definition find_secret :: "string \<Rightarrow> string \<Rightarrow> MemoryStore \<Rightarrow> Secret option" where
  "find_secret p i s = fmlookup (the_default fmempty (fmlookup (secrets s) p)) i"

definition set_secret :: "string \<Rightarrow> string \<Rightarrow> Secret \<Rightarrow> MemoryStore \<Rightarrow> MemoryStore" where
  "set_secret p i sec s = s\<lparr>secrets := fmupd p (fmupd i sec (the_default fmempty (fmlookup (secrets s) p))) (secrets s)\<rparr>"

definition CreateSecret :: "string \<Rightarrow> string \<Rightarrow> Secret \<Rightarrow> MemoryStore \<Rightarrow> MemoryStore \<times> secret_error option" where
  "CreateSecret p i sec s =
     (let s = (if fmlookup (secrets s) p = None then s\<lparr>secrets := fmupd p fmempty (secrets s)\<rparr> else s)
      in if find_secret p i s \<noteq> None then (s, Some ErrAlreadyExists) else (set_secret p i sec s, None))"

definition GetSecret :: "string \<Rightarrow> string \<Rightarrow> MemoryStore \<Rightarrow> secret_error + Secret" where
  "GetSecret p i s = (case find_secret p i s of None \<Rightarrow> Inl ErrNoSuchSecret | Some sec \<Rightarrow> Inr sec)"

definition UpdateSecret :: "string \<Rightarrow> string \<Rightarrow> Secret \<Rightarrow> MemoryStore \<Rightarrow> secret_error + MemoryStore" where
  "UpdateSecret p i sec s = (if find_secret p i s = None then Inl ErrNoSuchSecret else Inr (set_secret p i sec s))"

definition UpdateSecretAtomic ::
    "string \<Rightarrow> string \<Rightarrow> (Secret \<Rightarrow> 'e + Secret) \<Rightarrow> MemoryStore \<Rightarrow> (secret_error + 'e) + MemoryStore \<times> Secret" where
  "UpdateSecretAtomic p i mutate s =
     AtomicUpdate (find_secret p i)
       (\<lambda>current. case current of
                    None \<Rightarrow> Inl (Inl ErrNoSuchSecret)
                  | Some sec \<Rightarrow> (case mutate sec of Inl err \<Rightarrow> Inl (Inr err) | Inr nxt \<Rightarrow> Inr nxt))
       (set_secret p i) s"

definition drop_secret :: "string \<Rightarrow> string \<Rightarrow> MemoryStore \<Rightarrow> MemoryStore" where
  "drop_secret p i s =
     s\<lparr>secrets := fmupd p (fmdrop i (the_default fmempty (fmlookup (secrets s) p))) (secrets s), versions := fmdrop (vkey p i) (versions s)\<rparr>"

definition DeleteSecret :: "string \<Rightarrow> string \<Rightarrow> MemoryStore \<Rightarrow> secret_error + MemoryStore" where
  "DeleteSecret p i s = (if find_secret p i s = None then Inl ErrNoSuchSecret else Inr (drop_secret p i s))"

text \<open>The condition of \<open>DeleteSecretIf\<close> may be nil.\<close>

definition DeleteSecretIf ::
    "string \<Rightarrow> string \<Rightarrow> (Secret \<Rightarrow> 'e option) option \<Rightarrow> MemoryStore \<Rightarrow> (secret_error + 'e) + MemoryStore" where
  "DeleteSecretIf p i cond s =
     (case find_secret p i s of
        None \<Rightarrow> Inl (Inl ErrNoSuchSecret)
      | Some sec \<Rightarrow>
          (case Option.bind cond (\<lambda>c. c sec) of
             Some err \<Rightarrow> Inl (Inr err)
           | None \<Rightarrow> Inr (drop_secret p i s)))"

text \<open>The lists are sorted after they are collected; the argument lists the keys in the order of the iteration over the map.\<close>

definition ListSecrets :: "string list \<Rightarrow> string \<Rightarrow> MemoryStore \<Rightarrow> Secret list" where
  "ListSecrets ids p s = sort_key ID (List.map_filter (\<lambda>i. find_secret p i s) ids)"

section \<open>Versions\<close>

definition find_version :: "string \<Rightarrow> string \<Rightarrow> string \<Rightarrow> MemoryStore \<Rightarrow> Version option" where
  "find_version p i n s = fmlookup (the_default fmempty (fmlookup (versions s) (vkey p i))) n"

definition set_version :: "string \<Rightarrow> string \<Rightarrow> string \<Rightarrow> Version \<Rightarrow> MemoryStore \<Rightarrow> MemoryStore" where
  "set_version p i n v s =
     s\<lparr>versions := fmupd (vkey p i) (fmupd n v (the_default fmempty (fmlookup (versions s) (vkey p i)))) (versions s)\<rparr>"

definition CreateVersion :: "string \<Rightarrow> Version \<Rightarrow> MemoryStore \<Rightarrow> MemoryStore" where
  "CreateVersion p v s = set_version p (SecretID v) (VersionID v) v s"

definition GetVersion :: "string \<Rightarrow> string \<Rightarrow> string \<Rightarrow> MemoryStore \<Rightarrow> secret_error + Version" where
  "GetVersion p i n s = (case find_version p i n s of None \<Rightarrow> Inl ErrNoSuchVersion | Some v \<Rightarrow> Inr v)"

definition ListVersions :: "string list \<Rightarrow> string \<Rightarrow> string \<Rightarrow> MemoryStore \<Rightarrow> Version list" where
  "ListVersions ids p i s = sort_key VersionID (List.map_filter (\<lambda>n. find_version p i n s) ids)"

definition UpdateVersion :: "string \<Rightarrow> Version \<Rightarrow> MemoryStore \<Rightarrow> secret_error + MemoryStore" where
  "UpdateVersion p v s =
     (if find_version p (SecretID v) (VersionID v) s = None then Inl ErrNoSuchVersion
      else Inr (set_version p (SecretID v) (VersionID v) v s))"

definition UpdateVersionIf ::
    "string \<Rightarrow> string \<Rightarrow> string \<Rightarrow> (Version \<Rightarrow> 'e + Version) \<Rightarrow> MemoryStore \<Rightarrow> (secret_error + 'e) + MemoryStore \<times> Version" where
  "UpdateVersionIf p i n mutate s =
     (case find_version p i n s of
        None \<Rightarrow> Inl (Inl ErrNoSuchVersion)
      | Some cur \<Rightarrow>
          (case mutate cur of
             Inl err \<Rightarrow> Inl (Inr err)
           | Inr nxt \<Rightarrow>
               let nxt = nxt\<lparr>SecretID := SecretID cur, VersionID := VersionID cur\<rparr>
               in Inr (set_version p i n nxt s, nxt)))"

definition NextVersion :: "string \<Rightarrow> string \<Rightarrow> MemoryStore \<Rightarrow> secret_error + MemoryStore \<times> int" where
  "NextVersion p i s =
     (case find_secret p i s of
        None \<Rightarrow> Inl ErrNoSuchSecret
      | Some sec \<Rightarrow> Inr (set_secret p i (sec\<lparr>NextVer := wrap64 (NextVer sec + 1)\<rparr>) s, NextVer sec))"

definition Reset :: "MemoryStore \<Rightarrow> MemoryStore" where
  "Reset s = s\<lparr>secrets := fmempty, versions := fmempty\<rparr>"

section \<open>Snapshots\<close>

definition IsEmpty :: "MemoryStore \<Rightarrow> bool" where
  "IsEmpty s \<longleftrightarrow> secrets s = fmempty \<and> versions s = fmempty"

text \<open>The document has the two maps; either may be absent.\<close>

type_synonym snapshot_doc = "(string, (string, Secret) fmap) fmap option \<times> (string, (string, Version) fmap) fmap option"

definition Snapshot :: "MemoryStore \<Rightarrow> snapshot_doc" where
  "Snapshot s = (Some (secrets s), Some (versions s))"

definition Restore :: "string + snapshot_doc \<Rightarrow> MemoryStore \<Rightarrow> string + MemoryStore" where
  "Restore doc s =
     (case doc of
        Inl err \<Rightarrow> Inl err
      | Inr (secs, vers) \<Rightarrow> Inr (s\<lparr>secrets := the_default fmempty secs, versions := the_default fmempty vers\<rparr>))"

section \<open>Where the operations write\<close>

text \<open>A project has no slash in its name, so that the key of the versions of a secret determines the project and the secret.\<close>

definition project_ok :: "string \<Rightarrow> bool" where
  "project_ok p \<longleftrightarrow> CHR ''/'' \<notin> set p"

lemma vkey_inj: "project_ok p \<Longrightarrow> project_ok q \<Longrightarrow> vkey p i = vkey q j \<longleftrightarrow> p = q \<and> i = j"
  using field_cancel [of "CHR ''/''" p q i j] by (simp add: vkey_def project_ok_def)

lemma find_secret_set [simp]: "find_secret q j (set_secret p i sec s) = (if q = p \<and> j = i then Some sec else find_secret q j s)"
  by (auto simp: find_secret_def set_secret_def)

lemma find_secret_version [simp]: "find_secret q j (set_version p i n v s) = find_secret q j s"
  "find_version p i n (set_secret q j sec s) = find_version p i n s"
  by (simp_all add: find_secret_def find_version_def set_version_def set_secret_def)

lemma find_version_set_key:
  "find_version q j m (set_version p i n v s) = (if vkey q j = vkey p i \<and> m = n then Some v else find_version q j m s)"
  by (auto simp: find_version_def set_version_def)

lemma find_version_set:
  "project_ok p \<Longrightarrow> project_ok q \<Longrightarrow>
     find_version q j m (set_version p i n v s) = (if q = p \<and> j = i \<and> m = n then Some v else find_version q j m s)"
  by (simp add: find_version_set_key vkey_inj)

lemma find_secret_drop [simp]: "find_secret q j (drop_secret p i s) = (if q = p \<and> j = i then None else find_secret q j s)"
  by (auto simp: find_secret_def drop_secret_def)

lemma find_version_drop:
  "project_ok p \<Longrightarrow> project_ok q \<Longrightarrow> find_version q j m (drop_secret p i s) = (if q = p \<and> j = i then None else find_version q j m s)"
  by (auto simp: find_version_def drop_secret_def vkey_inj)

lemma restore_snapshot: "Restore (Inr (Snapshot s)) t = Inr s"
  by (simp add: Restore_def Snapshot_def)

end
