(* ===== verification/Gcp_Timestamp.thy ===== *)
theory Gcp_Timestamp
  imports Go_Time
begin

text \<open>
  \<open>internal/gcp/timestamp\<close>: the timestamps of responses, in UTC with 0, 3, 6 or 9 digits behind the point, and at the resolution
  of microseconds where the server made them.
\<close>

definition Truncate :: "time \<Rightarrow> time" where
  "Truncate t = t - t mod 1000"

text \<open>The layout without a zone is the text of \<open>FormatTime\<close> without its final \<open>Z\<close>.\<close>

definition ProtoJSON :: "time \<Rightarrow> string" where
  "ProtoJSON t =
     (let s = butlast (FormatTime t);
          s = TrimSuffix s ''000'';
          s = TrimSuffix s ''000'';
          s = TrimSuffix s ''.000''
      in s @ ''Z'')"

definition Canonical :: "time \<Rightarrow> string" where
  "Canonical t = ProtoJSON (Truncate t)"

section \<open>Timestamps parse back\<close>

lemma HasSuffix_snoc4:
  assumes "4 \<le> length z" "list_all is_digit z"
  shows "\<not> HasSuffix (p @ z) ''.000''"
proof
  assume "HasSuffix (p @ z) ''.000''"
  then have "drop (length z - 4) z = ''.000''" using assms(1) by (simp add: HasSuffix_def)
  then have "CHR ''.'' \<in> set z" by (metis in_set_dropD list.set_intros(1))
  with assms(2) show False by (auto simp: list_all_iff is_digit_def)
qed

lemma HasSuffix_within: "length t \<le> length z \<Longrightarrow> HasSuffix (p @ z) t \<longleftrightarrow> HasSuffix z t"
  by (simp add: HasSuffix_def)

lemma TrimSuffix_within: "length t \<le> length z \<Longrightarrow> TrimSuffix (p @ z) t = p @ TrimSuffix z t"
  by (simp add: TrimSuffix_def HasSuffix_within)

lemma dec_val_shift: "dec_val a (replicate n CHR ''0'') = a * 10 ^ n"
  by (induction n arbitrary: a) (simp_all add: digit_val_def)

lemma dec_val_concat: "dec_val a (xs @ ys) = dec_val (dec_val a xs) ys"
  by (induction xs arbitrary: a) simp_all

definition trim_groups :: "string \<Rightarrow> string" where
  "trim_groups z = TrimSuffix (TrimSuffix z ''000'') ''000''"

lemma trim_groups_cases:
  assumes "length z = 9"
  obtains k where "k \<in> {3, 6, 9}" "trim_groups z = take k z" "z = take k z @ replicate (9 - k) CHR ''0''"
proof -
  have z3: "replicate 3 CHR ''0'' = ''000''" by (simp add: numeral_eq_Suc)
  have z6: "replicate 6 CHR ''0'' = ''000000''" by (simp add: numeral_eq_Suc)
  show thesis
  proof (cases "HasSuffix z ''000''")
    case False
    with that [of 9] assms show thesis by (simp add: trim_groups_def TrimSuffix_def)
  next
    case True
    then have d6: "drop 6 z = ''000''" and t6: "TrimSuffix z ''000'' = take 6 z" using assms by (simp_all add: HasSuffix_def TrimSuffix_def)
    then have z: "z = take 6 z @ ''000''" by (metis append_take_drop_id)
    show thesis
    proof (cases "HasSuffix (take 6 z) ''000''")
      case True
      then have "drop 3 (take 6 z) = ''000''" "trim_groups z = take 3 z" using assms t6 by (simp_all add: HasSuffix_def TrimSuffix_def trim_groups_def)
      moreover have "take 6 z = take 3 (take 6 z) @ drop 3 (take 6 z)" by (rule append_take_drop_id [symmetric])
      ultimately have "take 6 z = take 3 z @ ''000''" by simp
      with z have "z = take 3 z @ ''000000''" by (metis append.assoc append_Cons append_Nil)
      with that [of 3] \<open>trim_groups z = take 3 z\<close> show thesis by (simp add: z6)
    next
      case False
      with that [of 6] t6 z show thesis by (simp add: trim_groups_def TrimSuffix_def z3)
    qed
  qed
qed

lemma ProtoJSON_text:
  assumes "z = zpad 9 (nat (c_nsec (civil_of t)))"
  shows "ProtoJSON t = seconds_text t @ (if trim_groups z = ''000'' then [] else CHR ''.'' # trim_groups z) @ ''Z''"
proof -
  have "nat (c_nsec (civil_of t)) < 10 ^ 9" using civil_of_range [of t] by (simp add: Second_def nat_less_iff)
  then have len: "length z = 9" unfolding assms by (intro length_zpad) simp_all
  have dig: "list_all is_digit z" using digits_zpad by (simp add: assms)
  have b: "butlast (FormatTime t) = (seconds_text t @ ''.'') @ z" by (simp add: FormatTime_text assms butlast_append)
  have len': "3 \<le> length (TrimSuffix z ''000'')" using len by (simp add: TrimSuffix_def)
  have two: "TrimSuffix (TrimSuffix ((seconds_text t @ ''.'') @ z) ''000'') ''000'' = (seconds_text t @ ''.'') @ trim_groups z"
    using len len' by (simp add: TrimSuffix_within trim_groups_def del: append_assoc)
  have three: "TrimSuffix ((seconds_text t @ ''.'') @ trim_groups z) ''.000'' = seconds_text t @ (if trim_groups z = ''000'' then [] else CHR ''.'' # trim_groups z)"
  proof (rule trim_groups_cases [OF len])
    fix k :: nat
    assume k: "k \<in> {3, 6, 9}" "trim_groups z = take k z"
    have digs: "list_all is_digit (trim_groups z)" using dig by (auto simp: k(2) list_all_iff dest: in_set_takeD)
    show ?thesis
    proof (cases "k = 3")
      case True
      then have "length (''.'' @ trim_groups z) = 4" using k(2) len by simp
      then have "HasSuffix (seconds_text t @ ''.'' @ trim_groups z) ''.000'' \<longleftrightarrow> trim_groups z = ''000''"
        by (subst HasSuffix_within) (auto simp: HasSuffix_def)
      then show ?thesis by (auto simp: TrimSuffix_def)
    next
      case False
      then have "4 \<le> length (trim_groups z)" using k len by auto
      with HasSuffix_snoc4 [OF _ digs, of "seconds_text t @ ''.''"] show ?thesis by (auto simp: TrimSuffix_def)
    qed
  qed
  show ?thesis unfolding ProtoJSON_def Let_def b two three by simp
qed

lemma fraction_value:
  assumes "length z = 9" "list_all is_digit z"
  shows "parse_fraction ((if trim_groups z = ''000'' then [] else CHR ''.'' # trim_groups z) @ ''Z'') = (int (dec_val 0 z), ''Z'')"
proof (rule trim_groups_cases [OF assms(1)])
  fix k :: nat
  assume k: "k \<in> {3, 6, 9}" "trim_groups z = take k z" "z = take k z @ replicate (9 - k) CHR ''0''"
  let ?t = "trim_groups z"
  have t: "list_all is_digit ?t" "length ?t = k" using k assms by (auto simp: list_all_iff dest: in_set_takeD)
  have v: "dec_val 0 z = dec_val 0 ?t * 10 ^ (9 - k)" by (subst k(3)) (simp add: dec_val_concat dec_val_shift k(2))
  have "takeWhile is_digit (?t @ ''Z'') = ?t" "dropWhile is_digit (?t @ ''Z'') = ''Z''"
    using t(1) by (auto simp: list_all_iff is_digit_def less_eq_char_def)
  moreover have "digit_at (CHR ''.'' # ?t @ ''Z'') 1" using t k(1) by (auto simp: digit_at_def nth_append list_all_length)
  ultimately have "parse_fraction (CHR ''.'' # ?t @ ''Z'') = (int (dec_val 0 z), ''Z'')"
    using t k(1) by (auto simp: parse_fraction_def v)
  moreover have "dec_val 0 z = 0 \<and> parse_fraction ''Z'' = (0, ''Z'')" if "?t = ''000''"
    using that by (simp add: v digit_val_def parse_fraction_def)
  ultimately show ?thesis by auto
qed

theorem timestamp_parses_back:
  assumes "year_4 t"
  shows "ParseRFC3339 (ProtoJSON t) = Some t"
proof -
  let ?z = "zpad 9 (nat (c_nsec (civil_of t)))"
  have n: "nat (c_nsec (civil_of t)) < 10 ^ 9" "0 \<le> c_nsec (civil_of t)" using civil_of_range [of t] by (simp_all add: Second_def nat_less_iff)
  then have "length ?z = 9" by (intro length_zpad) simp_all
  from fraction_value [OF this digits_zpad] n(2) dec_val_zpad [of 9 "nat (c_nsec (civil_of t))"]
  show ?thesis unfolding ProtoJSON_text [OF refl] by (intro ParseRFC3339_text [OF assms]) simp
qed

end
