(* ===== verification/Secret_Versions.thy ===== *)
theory Secret_Versions
  imports Secret_Store Gcp_Timestamp
begin

text \<open>
  The lifecycle of secrets and of their versions: \<open>internal/gcp/service/secretmanager\<close> (\<open>lifecycle.go\<close>, \<open>expiration.go\<close>, \<open>etag.go\<close>) and
  the version handlers of \<open>internal/gcp/provider/secretmanager\<close>. The handlers that change the state of a version are sequences of store
  calls with a reading of the clock at each; the handlers that add versions are steps of goroutines, one for each store call, that interleave.
  The encryption of a payload and the hash of an etag are arguments; notifications are left out.
\<close>

section \<open>Expiration and delayed destruction\<close>

definition Expired :: "Secret \<Rightarrow> time \<Rightarrow> bool" where
  "Expired sec now \<longleftrightarrow> \<not> IsZero (ExpireTime sec) \<and> \<not> now < ExpireTime sec"

definition ScheduledDestroyDue :: "Version \<Rightarrow> time \<Rightarrow> bool" where
  "ScheduledDestroyDue v now \<longleftrightarrow> State v \<noteq> ''DESTROYED'' \<and> \<not> IsZero (ScheduledDestroyTime v) \<and> \<not> now < ScheduledDestroyTime v"

definition ExpireSecretIfDue :: "time \<Rightarrow> string \<Rightarrow> string \<Rightarrow> MemoryStore \<Rightarrow> MemoryStore \<times> Secret option" where
  "ExpireSecretIfDue now p i s =
     (case DeleteSecretIf p i (Some (\<lambda>sec. if \<not> Expired sec now then Some () else None)) s of
        Inl err \<Rightarrow> (s, None)
      | Inr s' \<Rightarrow> (s', find_secret p i s))"

definition destroy_due :: "time \<Rightarrow> Version \<Rightarrow> unit + Version" where
  "destroy_due now cur =
     (if \<not> ScheduledDestroyDue cur now then Inl ()
      else Inr (cur\<lparr>State := ''DESTROYED'', DestroyTime := ScheduledDestroyTime cur\<rparr>))"

definition FinalizeScheduledDestroy ::
    "time \<Rightarrow> time \<Rightarrow> string \<Rightarrow> string \<Rightarrow> Version \<Rightarrow> MemoryStore \<Rightarrow> MemoryStore \<times> Version \<times> bool" where
  "FinalizeScheduledDestroy now now' p i v s =
     (if \<not> ScheduledDestroyDue v now then (s, v, False)
      else case UpdateVersionIf p i (VersionID v) (destroy_due now') s of
             Inl err \<Rightarrow> (case GetVersion p i (VersionID v) s of Inr fresh \<Rightarrow> (s, fresh, False) | Inl _ \<Rightarrow> (s, v, False))
           | Inr (s', out) \<Rightarrow> (s', out, True))"

datatype failure =
    SecretNotFound
  | VersionNotFound
  | EtagMismatch string
  | IsDestroyed string
  | NotEnabled string string

text \<open>The expiry sweep before a handler; \<open>c0\<close> and \<open>c1\<close> are its readings of the clock.\<close>

definition rejectExpired :: "time \<Rightarrow> time \<Rightarrow> string \<Rightarrow> string \<Rightarrow> MemoryStore \<Rightarrow> MemoryStore \<times> failure option" where
  "rejectExpired c0 c1 p i s =
     (case GetSecret p i s of
        Inl _ \<Rightarrow> (s, None)
      | Inr sec \<Rightarrow>
          if \<not> Expired sec c0 then (s, None)
          else let s' = fst (ExpireSecretIfDue c1 p i s)
               in (s', case GetSecret p i s' of Inl _ \<Rightarrow> Some SecretNotFound | Inr _ \<Rightarrow> None))"

section \<open>Etags\<close>

type_synonym version_etag = "string \<times> string \<times> string \<times> string \<Rightarrow> string"

definition VersionEtag :: "version_etag \<Rightarrow> string \<Rightarrow> string \<Rightarrow> string \<Rightarrow> string \<Rightarrow> string" where
  "VersionEtag h name createTime state scheduledDestroyTime = h (name, createTime, state, scheduledDestroyTime)"

definition CheckVersionEtag :: "version_etag \<Rightarrow> string \<Rightarrow> Version \<Rightarrow> string \<Rightarrow> failure option" where
  "CheckVersionEtag h name v supplied =
     (let scheduled = (if \<not> IsZero (ScheduledDestroyTime v) then Canonical (ScheduledDestroyTime v) else [])
      in if supplied = [] \<or> supplied = VersionEtag h name (Canonical (CreateTime v)) (State v) scheduled then None
         else Some (EtagMismatch name))"

section \<open>Changing the state of a version\<close>

text \<open>The mutation that \<open>setVersionState\<close> passes to \<open>UpdateVersionIf\<close>; \<open>name\<close> renders the name of the version.\<close>

definition transition :: "version_etag \<Rightarrow> (Version \<Rightarrow> string) \<Rightarrow> string \<Rightarrow> string \<Rightarrow> duration \<Rightarrow> time \<Rightarrow> Version \<Rightarrow> failure + Version" where
  "transition h name etag state destroyDelay now v =
     (case CheckVersionEtag h (name v) v etag of
        Some err \<Rightarrow> Inl err
      | None \<Rightarrow>
          if State v = ''DESTROYED'' then Inl (IsDestroyed (VersionID v))
          else if state = ''DESTROYED'' then
            if \<not> IsZero (ScheduledDestroyTime v) \<and> now < ScheduledDestroyTime v then Inr v
            else if destroyDelay > 0 then
              Inr (v\<lparr>State := ''DISABLED'', ScheduledDestroyTime := now + destroyDelay, DestroyTime := 0\<rparr>)
            else Inr (v\<lparr>State := ''DESTROYED'', DestroyTime := now, ScheduledDestroyTime := 0\<rparr>)
          else Inr (v\<lparr>ScheduledDestroyTime := 0, State := state\<rparr>))"

definition destroy_delay :: "Secret \<Rightarrow> duration" where
  "destroy_delay parent =
     (if VersionDestroyTTL parent \<noteq> [] then (case ParseVersionDestroyTTL (VersionDestroyTTL parent) of Inr d \<Rightarrow> d | Inl _ \<Rightarrow> 0) else 0)"

text \<open>The readings of the clock in the order of the calls.\<close>

record clock =
  c_check :: time
  c_expire :: time
  c_due :: time
  c_finalize :: time
  c_change :: time

definition finalize_stored :: "clock \<Rightarrow> string \<Rightarrow> string \<Rightarrow> string \<Rightarrow> MemoryStore \<Rightarrow> MemoryStore" where
  "finalize_stored c p i n s =
     (case GetVersion p i n s of Inr cur \<Rightarrow> fst (FinalizeScheduledDestroy (c_due c) (c_finalize c) p i cur s) | Inl _ \<Rightarrow> s)"

definition setVersionState ::
    "version_etag \<Rightarrow> (Version \<Rightarrow> string) \<Rightarrow> clock \<Rightarrow> string \<Rightarrow> string \<Rightarrow> string \<Rightarrow> string \<Rightarrow> string \<Rightarrow> MemoryStore \<Rightarrow> MemoryStore \<times> (failure + Version)" where
  "setVersionState h name c p i n state etag s =
     (case rejectExpired (c_check c) (c_expire c) p i s of
        (s, Some err) \<Rightarrow> (s, Inl err)
      | (s, None) \<Rightarrow>
          (case GetSecret p i s of
             Inl _ \<Rightarrow> (s, Inl SecretNotFound)
           | Inr parent \<Rightarrow>
               let s = finalize_stored c p i n s
               in case UpdateVersionIf p i n (transition h name etag state (destroy_delay parent) (c_change c)) s of
                    Inl (Inl _) \<Rightarrow> (s, Inl VersionNotFound)
                  | Inl (Inr err) \<Rightarrow> (s, Inl err)
                  | Inr (s', v) \<Rightarrow> (case GetSecret p i s' of Inl _ \<Rightarrow> (s', Inl SecretNotFound) | Inr _ \<Rightarrow> (s', Inr v))))"

section \<open>Reading a version\<close>

definition latest_loop :: "Version list \<Rightarrow> string \<times> int \<Rightarrow> string \<times> int" where
  "latest_loop vs start =
     fold (\<lambda>v (latest, latestN). case Atoi (VersionID v) of Some n \<Rightarrow> if n > latestN then (VersionID v, n) else (latest, latestN) | None \<Rightarrow> (latest, latestN)) vs start"

definition resolveVersion :: "string list \<Rightarrow> string \<Rightarrow> string \<Rightarrow> string \<Rightarrow> MemoryStore \<Rightarrow> secret_error + string" where
  "resolveVersion ids p i version s =
     (if version \<noteq> ''latest'' then Inr version
      else case latest_loop (ListVersions ids p i s) ([], - 1) of (latest, _) \<Rightarrow> if latest = [] then Inl ErrNoSuchVersion else Inr latest)"

text \<open>\<open>Access\<close> up to the decryption: the version whose payload is decrypted and returned.\<close>

definition Access :: "clock \<Rightarrow> string list \<Rightarrow> string \<Rightarrow> string \<Rightarrow> string \<Rightarrow> MemoryStore \<Rightarrow> MemoryStore \<times> (failure + Version)" where
  "Access c ids p i version s =
     (case rejectExpired (c_check c) (c_expire c) p i s of
        (s, Some err) \<Rightarrow> (s, Inl err)
      | (s, None) \<Rightarrow>
          (case resolveVersion ids p i version s of
             Inl _ \<Rightarrow> (s, Inl VersionNotFound)
           | Inr n \<Rightarrow>
               (case GetVersion p i n s of
                  Inl _ \<Rightarrow> (s, Inl VersionNotFound)
                | Inr v \<Rightarrow>
                    (case FinalizeScheduledDestroy (c_due c) (c_finalize c) p i v s of
                       (s', v', _) \<Rightarrow>
                         if State v' \<noteq> ''ENABLED'' then (s', Inl (NotEnabled (VersionID v') (State v'))) else (s', Inr v')))))"

section \<open>Adding versions\<close>

record PayloadWrap =
  WData :: string
  WKmsKeyName :: string
  WWrappedDEK :: string
  WReplicaDEKs :: "ReplicaDEK list"

definition new_version :: "time \<Rightarrow> string \<Rightarrow> int \<Rightarrow> PayloadWrap \<Rightarrow> Version" where
  "new_version now i n w =
     \<lparr>SecretID = i, VersionID = Itoa n, State = ''ENABLED'', CreateTime = now, DestroyTime = 0, ScheduledDestroyTime = 0, Data = WData w,
      KmsKeyName = WKmsKeyName w, WrappedDEK = WWrappedDEK w, ReplicaDEKs = WReplicaDEKs w\<rparr>"

definition managedRotationConfigured :: "Secret \<Rightarrow> bool" where
  "managedRotationConfigured sec \<longleftrightarrow> (case SRotation sec of None \<Rightarrow> False | Some r \<Rightarrow> Managed r \<noteq> None)"

text \<open>The mutation of \<open>appendManagedVersion\<close>: it takes the number, and records the managed rotation when one is enabled.\<close>

definition take_number :: "ManagedRotation option \<Rightarrow> Secret \<Rightarrow> unit + Secret" where
  "take_number cfg cur =
     (if cfg \<noteq> None \<and> managedRotationConfigured cur then Inl ()
      else let cur = cur\<lparr>NextVer := wrap64 (NextVer cur + 1)\<rparr>
           in Inr (if cfg = None then cur
                   else cur\<lparr>SRotation := Some ((the_default \<lparr>NextRotationTime = [], RotationPeriod = [], Managed = None\<rparr> (SRotation cur))\<lparr>Managed := cfg\<rparr>)\<rparr>))"

text \<open>
  Where a goroutine stands: about to take a number; with a number, about to read the secret and encrypt; encrypted before it takes a number,
  as managed rotation does; about to store its version.
\<close>

datatype job =
    Idle
  | Adding string string string
  | Numbered string string int string
  | Wrapped string string PayloadWrap "ManagedRotation option"
  | Ready string string int PayloadWrap
  | Ended

type_synonym config = "MemoryStore \<times> (nat \<Rightarrow> job)"

fun number_of :: "job \<Rightarrow> (string \<times> string \<times> int) option" where
  "number_of (Numbered p i n d) = Some (p, i, n)"
| "number_of (Ready p i n w) = Some (p, i, n)"
| "number_of _ = None"

fun target_of :: "job \<Rightarrow> string option" where
  "target_of (Adding p i d) = Some p"
| "target_of (Wrapped p i w cfg) = Some p"
| "target_of (Numbered p i n d) = Some p"
| "target_of (Ready p i n w) = Some p"
| "target_of _ = None"

text \<open>
  One store call. A secret is created with the number 1 next, and the updates of a secret by the other handlers keep the number.
\<close>

inductive secret_step :: "(Replication \<Rightarrow> string \<Rightarrow> PayloadWrap option) \<Rightarrow> version_etag \<Rightarrow> (Version \<Rightarrow> string) \<Rightarrow> config \<Rightarrow> config \<Rightarrow> bool"
  for enc h name where
  begin_add: "g k = Idle \<Longrightarrow> project_ok p \<Longrightarrow> secret_step enc h name (s, g) (s, g(k := Adding p i d))"
| number: "g k = Adding p i d \<Longrightarrow> NextVersion p i s = Inr (s', n) \<Longrightarrow>
    secret_step enc h name (s, g) (s', g(k := Numbered p i n d))"
| number_fail: "g k = Adding p i d \<Longrightarrow> NextVersion p i s = Inl e \<Longrightarrow> secret_step enc h name (s, g) (s, g(k := Ended))"
| encrypt: "g k = Numbered p i n d \<Longrightarrow> GetSecret p i s = Inr sec \<Longrightarrow> enc (ReplicationPolicy sec) d = Some w \<Longrightarrow>
    secret_step enc h name (s, g) (s, g(k := Ready p i n w))"
| encrypt_fail: "g k = Numbered p i n d \<Longrightarrow> secret_step enc h name (s, g) (s, g(k := Ended))"
| wrap: "g k = Idle \<Longrightarrow> project_ok p \<Longrightarrow> GetSecret p i s = Inr sec \<Longrightarrow> enc (ReplicationPolicy sec) d = Some w \<Longrightarrow>
    secret_step enc h name (s, g) (s, g(k := Wrapped p i w cfg))"
| managed: "g k = Wrapped p i w cfg \<Longrightarrow> find_secret p i s = Some sec \<Longrightarrow>
    UpdateSecretAtomic p i (take_number cfg) s = Inr (s', sec') \<Longrightarrow> secret_step enc h name (s, g) (s', g(k := Ready p i (NextVer sec) w))"
| managed_fail: "g k = Wrapped p i w cfg \<Longrightarrow> UpdateSecretAtomic p i (take_number cfg) s = Inl e \<Longrightarrow> secret_step enc h name (s, g) (s, g(k := Ended))"
| store: "g k = Ready p i n w \<Longrightarrow> secret_step enc h name (s, g) (CreateVersion p (new_version now i n w) s, g(k := Ended))"
| create: "project_ok p \<Longrightarrow> NextVer sec = 1 \<Longrightarrow> CreateSecret p i sec s = (s', r) \<Longrightarrow> secret_step enc h name (s, g) (s', g)"
| update: "project_ok p \<Longrightarrow> (\<And>sec sec'. mutate sec = Inr sec' \<Longrightarrow> NextVer sec' = NextVer sec) \<Longrightarrow>
    UpdateSecretAtomic p i (mutate :: Secret \<Rightarrow> failure + Secret) s = Inr (s', sec) \<Longrightarrow> secret_step enc h name (s, g) (s', g)"
| delete: "project_ok p \<Longrightarrow>
    DeleteSecretIf p i (cond :: (Secret \<Rightarrow> failure option) option) s = Inr s' \<Longrightarrow> secret_step enc h name (s, g) (s', g)"
| change: "project_ok p \<Longrightarrow> state \<in> {''ENABLED'', ''DISABLED'', ''DESTROYED''} \<Longrightarrow> 0 \<le> delay \<Longrightarrow> 0 < now \<Longrightarrow>
    UpdateVersionIf p i n (transition h name etag state delay now) s = Inr (s', v) \<Longrightarrow> secret_step enc h name (s, g) (s', g)"
| finalize: "project_ok p \<Longrightarrow> UpdateVersionIf p i n (destroy_due now) s = Inr (s', v) \<Longrightarrow> secret_step enc h name (s, g) (s', g)"

text \<open>
  A calm step deletes no secret that a goroutine holds a number of, and the numbers stay below the bound of an \<open>int\<close>. A deletion in between
  leaves the goroutine with a number of a secret that is gone.
\<close>

definition calm :: "config \<Rightarrow> config \<Rightarrow> bool" where
  "calm c c' \<longleftrightarrow>
     (\<forall>k p i n. number_of (snd c k) = Some (p, i, n) \<longrightarrow> find_secret p i (fst c') \<noteq> None) \<and>
     (\<forall>p i sec. find_secret p i (fst c) = Some sec \<longrightarrow> NextVer sec < 2 ^ 63 - 1)"

inductive secret_reach :: "(Replication \<Rightarrow> string \<Rightarrow> PayloadWrap option) \<Rightarrow> version_etag \<Rightarrow> (Version \<Rightarrow> string) \<Rightarrow> config \<Rightarrow> bool"
  for enc h name where
  init: "secret_reach enc h name (NewMemoryStore, \<lambda>_. Idle)"
| step: "secret_reach enc h name c \<Longrightarrow> secret_step enc h name c c' \<Longrightarrow> calm c c' \<Longrightarrow> secret_reach enc h name c'"

section \<open>What the steps keep\<close>

definition payload :: "Version \<Rightarrow> string \<times> string \<times> string \<times> ReplicaDEK list" where
  "payload v = (Data v, KmsKeyName v, WrappedDEK v, ReplicaDEKs v)"

definition version_ok :: "string \<Rightarrow> Version \<Rightarrow> bool" where
  "version_ok n v \<longleftrightarrow>
     VersionID v = n \<and> State v \<in> {''ENABLED'', ''DISABLED'', ''DESTROYED''} \<and> (State v = ''ENABLED'' \<longrightarrow> ScheduledDestroyTime v = 0) \<and>
     (State v = ''DESTROYED'' \<and> ScheduledDestroyTime v \<noteq> 0 \<longrightarrow> DestroyTime v = ScheduledDestroyTime v) \<and>
     (State v \<noteq> ''DESTROYED'' \<longrightarrow> DestroyTime v = 0)"

definition secrets_inv :: "config \<Rightarrow> bool" where
  "secrets_inv c \<longleftrightarrow>
     (\<forall>p i n v. project_ok p \<and> find_version p i n (fst c) = Some v \<longrightarrow>
        version_ok n v \<and> (\<exists>sec k. find_secret p i (fst c) = Some sec \<and> n = Itoa k \<and> 1 \<le> k \<and> k < NextVer sec)) \<and>
     (\<forall>k p i m. number_of (snd c k) = Some (p, i, m) \<longrightarrow>
        (\<exists>sec. find_secret p i (fst c) = Some sec \<and> 1 \<le> m \<and> m < NextVer sec) \<and> find_version p i (Itoa m) (fst c) = None) \<and>
     (\<forall>k l p i m. number_of (snd c k) = Some (p, i, m) \<and> number_of (snd c l) = Some (p, i, m) \<longrightarrow> k = l) \<and>
     (\<forall>k p. target_of (snd c k) = Some p \<longrightarrow> project_ok p) \<and>
     (\<forall>p i sec. find_secret p i (fst c) = Some sec \<longrightarrow> 1 \<le> NextVer sec)"

lemma secrets_invD:
  assumes "secrets_inv c"
  shows "project_ok p \<Longrightarrow> find_version p i n (fst c) = Some v \<Longrightarrow> version_ok n v"
    and "project_ok p \<Longrightarrow> find_version p i n (fst c) = Some v \<Longrightarrow> \<exists>sec k. find_secret p i (fst c) = Some sec \<and> n = Itoa k \<and> 1 \<le> k \<and> k < NextVer sec"
    and "number_of (snd c k) = Some (p, i, m) \<Longrightarrow> \<exists>sec. find_secret p i (fst c) = Some sec \<and> 1 \<le> m \<and> m < NextVer sec"
    and "number_of (snd c k) = Some (p, i, m) \<Longrightarrow> find_version p i (Itoa m) (fst c) = None"
    and "number_of (snd c k) = Some (p, i, m) \<Longrightarrow> number_of (snd c l) = Some (p, i, m) \<Longrightarrow> k = l"
    and "target_of (snd c k) = Some p \<Longrightarrow> project_ok p"
    and "find_secret p i (fst c) = Some sec \<Longrightarrow> 1 \<le> NextVer sec"
  using assms unfolding secrets_inv_def by blast+

lemma secrets_invI:
  assumes "\<And>p i n v. project_ok p \<Longrightarrow> find_version p i n s = Some v \<Longrightarrow>
      version_ok n v \<and> (\<exists>sec k. find_secret p i s = Some sec \<and> n = Itoa k \<and> 1 \<le> k \<and> k < NextVer sec)"
    and "\<And>k p i m. number_of (g k) = Some (p, i, m) \<Longrightarrow>
      (\<exists>sec. find_secret p i s = Some sec \<and> 1 \<le> m \<and> m < NextVer sec) \<and> find_version p i (Itoa m) s = None"
    and "\<And>k l p i m. number_of (g k) = Some (p, i, m) \<Longrightarrow> number_of (g l) = Some (p, i, m) \<Longrightarrow> k = l"
    and "\<And>k p. target_of (g k) = Some p \<Longrightarrow> project_ok p"
    and "\<And>p i sec. find_secret p i s = Some sec \<Longrightarrow> 1 \<le> NextVer sec"
  shows "secrets_inv (s, g)"
  using assms unfolding secrets_inv_def fst_conv snd_conv by blast

lemma number_target: "number_of j = Some (p, i, m) \<Longrightarrow> target_of j = Some p"
  by (cases j) auto

text \<open>A step that changes no store: the job keeps its number or drops it.\<close>

lemma inv_job:
  assumes inv: "secrets_inv (s, g)" and j: "number_of j = None \<or> number_of j = number_of (g k)" "\<And>p. target_of j = Some p \<Longrightarrow> project_ok p"
  shows "secrets_inv (s, g(k := j))"
proof -
  note I = secrets_invD [OF inv, unfolded fst_conv snd_conv]
  have num: "number_of ((g(k := j)) l) = Some x \<Longrightarrow> number_of (g l) = Some x" for l x using j(1) by (auto split: if_splits)
  show ?thesis
  proof (rule secrets_invI)
    fix l p assume "target_of ((g(k := j)) l) = Some p"
    then show "project_ok p" using j(2) I(6) by (auto split: if_splits)
  next
    fix l p i m assume "number_of ((g(k := j)) l) = Some (p, i, m)"
    from num [OF this] show "(\<exists>sec. find_secret p i s = Some sec \<and> 1 \<le> m \<and> m < NextVer sec) \<and> find_version p i (Itoa m) s = None"
      using I(3,4) by blast
  next
    fix l l' p i m assume "number_of ((g(k := j)) l) = Some (p, i, m)" "number_of ((g(k := j)) l') = Some (p, i, m)"
    from num [OF this(1)] num [OF this(2)] show "l = l'" by (rule I(5))
  next
    fix p i n v assume "project_ok p" "find_version p i n s = Some v"
    then show "version_ok n v \<and> (\<exists>sec k. find_secret p i s = Some sec \<and> n = Itoa k \<and> 1 \<le> k \<and> k < NextVer sec)" using I(1,2) by blast
  qed (rule I(7))
qed

text \<open>A goroutine takes the next number of a secret.\<close>

lemma inv_take:
  assumes inv: "secrets_inv (s, g)" and sec: "find_secret p i s = Some sec" and n: "number_of j = Some (p, i, NextVer sec)"
    and k: "target_of (g k) = Some p" "number_of (g k) = None" and sec': "NextVer sec' = NextVer sec + 1"
  shows "secrets_inv (set_secret p i sec' s, g(k := j))"
proof -
  note I = secrets_invD [OF inv, unfolded fst_conv snd_conv]
  have p: "project_ok p" using I(6) [OF k(1)] .
  have fresh: "find_version p i (Itoa (NextVer sec)) s = None"
    using I(2) [OF p, of i "Itoa (NextVer sec)"] sec by (cases "find_version p i (Itoa (NextVer sec)) s") auto
  have below: "m < NextVer sec" if "number_of (g l) = Some (p, i, m)" for l m using I(3) [OF that] sec by auto
  then have new: "number_of (g l) \<noteq> Some (p, i, NextVer sec)" for l by blast
  show ?thesis
  proof (rule secrets_invI)
    fix q j' n' v assume "project_ok q" "find_version q j' n' (set_secret p i sec' s) = Some v"
    then show "version_ok n' v \<and> (\<exists>sec k. find_secret q j' (set_secret p i sec' s) = Some sec \<and> n' = Itoa k \<and> 1 \<le> k \<and> k < NextVer sec)"
      using I(1,2) [of q j' n' v] sec sec' by fastforce
  next
    fix l q j' m assume "number_of ((g(k := j)) l) = Some (q, j', m)"
    then show "(\<exists>sec. find_secret q j' (set_secret p i sec' s) = Some sec \<and> 1 \<le> m \<and> m < NextVer sec) \<and> find_version q j' (Itoa m) (set_secret p i sec' s) = None"
      using I(3,4) [of l q j' m] I(7) [OF sec] n fresh sec sec' by (fastforce split: if_splits)
  next
    fix l l' q j' m assume "number_of ((g(k := j)) l) = Some (q, j', m)" "number_of ((g(k := j)) l') = Some (q, j', m)"
    then show "l = l'" using I(5) n new by (auto split: if_splits)
  next
    fix l q assume "target_of ((g(k := j)) l) = Some q"
    then show "project_ok q" using I(6) number_target [OF n] p by (auto split: if_splits)
  next
    fix q j' sec'' assume "find_secret q j' (set_secret p i sec' s) = Some sec''"
    then show "1 \<le> NextVer sec''" using I(7) sec sec' by (fastforce split: if_splits)
  qed
qed

text \<open>It stores its version under its number.\<close>

lemma inv_store:
  assumes inv: "secrets_inv (s, g)" and k: "number_of (g k) = Some (p, i, n)" and v: "version_ok (Itoa n) v"
  shows "secrets_inv (set_version p i (Itoa n) v s, g(k := Ended))"
proof -
  note I = secrets_invD [OF inv, unfolded fst_conv snd_conv]
  have p: "project_ok p" using I(6) number_target [OF k] by blast
  show ?thesis
  proof (rule secrets_invI)
    fix q j m w assume "project_ok q" "find_version q j m (set_version p i (Itoa n) v s) = Some w"
    then show "version_ok m w \<and> (\<exists>sec k. find_secret q j (set_version p i (Itoa n) v s) = Some sec \<and> m = Itoa k \<and> 1 \<le> k \<and> k < NextVer sec)"
      using I(1,2) [of q j m w] I(3) [OF k] v p by (auto simp: find_version_set split: if_splits)
  next
    fix l q j m assume l: "number_of ((g(k := Ended)) l) = Some (q, j, m)"
    then have "number_of (g l) = Some (q, j, m)" "l \<noteq> k" by (auto split: if_splits)
    moreover from this have "project_ok q" "(q, j, m) \<noteq> (p, i, n)" using I(5,6) k number_target by blast+
    ultimately show "(\<exists>sec. find_secret q j (set_version p i (Itoa n) v s) = Some sec \<and> 1 \<le> m \<and> m < NextVer sec) \<and>
        find_version q j (Itoa m) (set_version p i (Itoa n) v s) = None"
      using I(3,4) [of l q j m] p by (auto simp: find_version_set)
  qed (use I(5-7) in \<open>auto split: if_splits\<close>)
qed

text \<open>A stored version changes its state.\<close>

lemma inv_change:
  assumes inv: "secrets_inv (s, g)" and p: "project_ok p" "find_version p i n s = Some v" "version_ok n v'"
  shows "secrets_inv (set_version p i n v' s, g)"
proof -
  note I = secrets_invD [OF inv, unfolded fst_conv snd_conv]
  show ?thesis
  proof (rule secrets_invI)
    fix q j m w assume "project_ok q" "find_version q j m (set_version p i n v' s) = Some w"
    then show "version_ok m w \<and> (\<exists>sec k. find_secret q j (set_version p i n v' s) = Some sec \<and> m = Itoa k \<and> 1 \<le> k \<and> k < NextVer sec)"
      using I(1,2) [of q j m w] I(2) [OF p(1,2)] p by (auto simp: find_version_set split: if_splits)
  next
    fix l q j m assume l: "number_of (g l) = Some (q, j, m)"
    then have "project_ok q" "(q, j, Itoa m) \<noteq> (p, i, n)" using I(4,6) p(2) number_target by fastforce+
    then show "(\<exists>sec. find_secret q j (set_version p i n v' s) = Some sec \<and> 1 \<le> m \<and> m < NextVer sec) \<and>
        find_version q j (Itoa m) (set_version p i n v' s) = None"
      using I(3,4) [OF l] p by (auto simp: find_version_set)
  qed (use I(5-7) in auto)
qed

text \<open>A secret is written without taking a number: an update, or a creation.\<close>

lemma inv_secret:
  assumes inv: "secrets_inv (s, g)" and sec: "case find_secret p i s of Some sec \<Rightarrow> NextVer sec' = NextVer sec | None \<Rightarrow> NextVer sec' = 1"
  shows "secrets_inv (set_secret p i sec' s, g)"
proof -
  note I = secrets_invD [OF inv, unfolded fst_conv snd_conv]
  show ?thesis
  proof (rule secrets_invI)
    fix q j m w assume "project_ok q" "find_version q j m (set_secret p i sec' s) = Some w"
    then show "version_ok m w \<and> (\<exists>sec k. find_secret q j (set_secret p i sec' s) = Some sec \<and> m = Itoa k \<and> 1 \<le> k \<and> k < NextVer sec)"
      using I(1,2) [of q j m w] sec by fastforce
  next
    fix l q j m assume "number_of (g l) = Some (q, j, m)"
    then show "(\<exists>sec. find_secret q j (set_secret p i sec' s) = Some sec \<and> 1 \<le> m \<and> m < NextVer sec) \<and> find_version q j (Itoa m) (set_secret p i sec' s) = None"
      using I(3,4) [of l q j m] sec by fastforce
  next
    fix q j sec'' assume "find_secret q j (set_secret p i sec' s) = Some sec''"
    then show "1 \<le> NextVer sec''" using I(7) sec by (fastforce split: if_splits option.splits)
  qed (use I(5,6) in auto)
qed

lemma inv_drop:
  assumes inv: "secrets_inv (s, g)" and p: "project_ok p" "\<And>k n. number_of (g k) \<noteq> Some (p, i, n)"
  shows "secrets_inv (drop_secret p i s, g)"
proof -
  note I = secrets_invD [OF inv, unfolded fst_conv snd_conv]
  show ?thesis
  proof (rule secrets_invI)
    fix q j m w assume "project_ok q" "find_version q j m (drop_secret p i s) = Some w"
    then show "version_ok m w \<and> (\<exists>sec k. find_secret q j (drop_secret p i s) = Some sec \<and> m = Itoa k \<and> 1 \<le> k \<and> k < NextVer sec)"
      using I(1,2) [of q j m w] p by (auto simp: find_version_drop split: if_splits)
  next
    fix l q j m assume l: "number_of (g l) = Some (q, j, m)"
    then have "project_ok q" "(q, j) \<noteq> (p, i)" using I(6) p(2) number_target by blast+
    then show "(\<exists>sec. find_secret q j (drop_secret p i s) = Some sec \<and> 1 \<le> m \<and> m < NextVer sec) \<and> find_version q j (Itoa m) (drop_secret p i s) = None"
      using I(3,4) [OF l] p by (auto simp: find_version_drop)
  qed (use I(5-7) in \<open>auto split: if_splits\<close>)
qed

lemma UpdateVersionIf_Inr:
  assumes "UpdateVersionIf p i n mutate s = Inr (s', v)"
  obtains cur nxt where "find_version p i n s = Some cur" "mutate cur = Inr nxt" "v = nxt\<lparr>SecretID := SecretID cur, VersionID := VersionID cur\<rparr>"
    "s' = set_version p i n v s"
  using assms by (auto simp: UpdateVersionIf_def Let_def split: option.splits sum.splits)

lemma UpdateSecretAtomic_Inr:
  assumes "UpdateSecretAtomic p i mutate s = Inr (s', sec')"
  obtains sec where "find_secret p i s = Some sec" "mutate sec = Inr sec'" "s' = set_secret p i sec' s"
  using assms by (auto simp: UpdateSecretAtomic_def AtomicUpdate_def split: option.splits sum.splits)

lemma transition_cases:
  assumes "transition h name etag state delay now v = Inr v'"
  obtains "State v \<noteq> ''DESTROYED''" "v' = v"
  | "State v \<noteq> ''DESTROYED''" "v' = v\<lparr>State := ''DISABLED'', ScheduledDestroyTime := now + delay, DestroyTime := 0\<rparr>"
  | "State v \<noteq> ''DESTROYED''" "v' = v\<lparr>State := ''DESTROYED'', DestroyTime := now, ScheduledDestroyTime := 0\<rparr>"
  | "State v \<noteq> ''DESTROYED''" "state \<noteq> ''DESTROYED''" "v' = v\<lparr>ScheduledDestroyTime := 0, State := state\<rparr>"
  using assms unfolding transition_def by (auto split: option.splits if_splits)

lemma transition_Inr:
  assumes "transition h name etag state delay now v = Inr v'" "version_ok n v" "state \<in> {''ENABLED'', ''DISABLED'', ''DESTROYED''}"
  shows "State v \<noteq> ''DESTROYED'' \<and> payload v' = payload v \<and> version_ok n (v'\<lparr>SecretID := SecretID v, VersionID := VersionID v\<rparr>)"
  using assms(1)
proof (cases rule: transition_cases)
  case 4
  then show ?thesis using assms(2,3) by (elim insertE) (simp_all add: version_ok_def payload_def)
qed (use assms(2) in \<open>simp_all add: version_ok_def payload_def\<close>)

lemma destroy_due_Inr:
  assumes "destroy_due now v = Inr v'" "version_ok n v"
  shows "State v \<noteq> ''DESTROYED'' \<and> payload v' = payload v \<and> version_ok n (v'\<lparr>SecretID := SecretID v, VersionID := VersionID v\<rparr>)"
  using assms by (auto simp: destroy_due_def ScheduledDestroyDue_def version_ok_def payload_def split: if_splits)

lemma take_number_Inr: "take_number cfg sec = Inr sec' \<Longrightarrow> 1 \<le> NextVer sec \<Longrightarrow> NextVer sec < 2 ^ 63 - 1 \<Longrightarrow> NextVer sec' = NextVer sec + 1"
  by (auto simp: take_number_def Let_def in_int64_def split: if_splits)

lemma NextVersion_Inr:
  assumes "NextVersion p i s = Inr (s', n)" "\<And>sec. find_secret p i s = Some sec \<Longrightarrow> 1 \<le> NextVer sec \<and> NextVer sec < 2 ^ 63 - 1"
  obtains sec where "find_secret p i s = Some sec" "n = NextVer sec" "s' = set_secret p i (sec\<lparr>NextVer := NextVer sec + 1\<rparr>) s"
  using assms by (fastforce simp: NextVersion_def in_int64_def split: option.splits)

lemma CreateSecret_cases:
  assumes "CreateSecret p i sec s = (s', r)"
  obtains "find_secret p i s = None" "secrets s' = secrets (set_secret p i sec s)" "versions s' = versions s"
  | "\<And>q j. find_secret q j s' = find_secret q j s" "versions s' = versions s"
  using assms
  by (cases "fmlookup (secrets s) p") (auto simp: CreateSecret_def Let_def find_secret_def set_secret_def split: if_splits)

lemma CreateSecret_new:
  "find_secret p i s = None \<Longrightarrow> find_secret p i (fst (CreateSecret p i sec s)) = Some sec"
  "find_version q j m (fst (CreateSecret p i sec s)) = find_version q j m s"
  by (auto simp: CreateSecret_def Let_def find_secret_def find_version_def set_secret_def)

lemma inv_cong:
  assumes "secrets_inv (s, g)" "\<And>q j. find_secret q j s' = find_secret q j s" "versions s' = versions s"
  shows "secrets_inv (s', g)"
proof -
  have "find_version q j m s' = find_version q j m s" for q j m using assms(3) by (simp add: find_version_def)
  with assms(1,2) show ?thesis unfolding secrets_inv_def fst_conv snd_conv by simp
qed

lemma new_version_ok: "version_ok (Itoa n) (new_version now i n w)"
  by (simp add: version_ok_def new_version_def)

lemma step_inv: "secret_step enc h name c c' \<Longrightarrow> secrets_inv c \<Longrightarrow> calm c c' \<Longrightarrow> secrets_inv c'"
proof (induction rule: secret_step.induct)
  case (number g k p i d s s' n)
  note I = secrets_invD [OF number.prems(1), unfolded fst_conv snd_conv]
  have "1 \<le> NextVer sec \<and> NextVer sec < 2 ^ 63 - 1" if "find_secret p i s = Some sec" for sec
    using that I(7) number.prems(2) unfolding calm_def by auto
  then obtain sec where "find_secret p i s = Some sec" "n = NextVer sec" "s' = set_secret p i (sec\<lparr>NextVer := NextVer sec + 1\<rparr>) s"
    using NextVersion_Inr [OF number.hyps(2)] by blast
  then show ?case using number.hyps(1) by (auto intro!: inv_take [OF number.prems(1)])
next
  case (managed g k p i w cfg s sec s' sec')
  note I = secrets_invD [OF managed.prems(1), unfolded fst_conv snd_conv]
  from UpdateSecretAtomic_Inr [OF managed.hyps(3)] managed.hyps(2) have u: "take_number cfg sec = Inr sec'" "s' = set_secret p i sec' s" by auto
  have "NextVer sec < 2 ^ 63 - 1" using managed.prems(2) managed.hyps(2) unfolding calm_def by simp
  with u(1) I(7) [OF managed.hyps(2)] have "NextVer sec' = NextVer sec + 1" by (intro take_number_Inr)
  then show ?case using managed.hyps(1,2) u(2) by (auto intro!: inv_take [OF managed.prems(1)])
next
  case (encrypt g k p i n d s sec w)
  then have "project_ok p" using secrets_invD(6) [OF encrypt.prems(1), of k p] by simp
  with encrypt show ?case by (auto intro!: inv_job)
next
  case (store g k p i n w s now)
  then show ?case by (auto simp: CreateVersion_def new_version_def intro!: inv_store new_version_ok [unfolded new_version_def])
next
  case (create p sec i s s' r g)
  from create.hyps(3) show ?case
  proof (cases rule: CreateSecret_cases)
    case 1
    with create have "secrets_inv (set_secret p i sec s, g)" by (intro inv_secret) simp_all
    then show ?thesis by (rule inv_cong) (use 1 in \<open>simp_all add: find_secret_def set_secret_def\<close>)
  qed (use create.prems(1) inv_cong in blast)
next
  case (update p mutate i s s' sec g)
  then show ?case by (auto elim!: UpdateSecretAtomic_Inr intro!: inv_secret)
next
  case (delete p i cond s s' g)
  then have s': "s' = drop_secret p i s" by (auto simp: DeleteSecretIf_def split: option.splits if_splits)
  have "number_of (g k) \<noteq> Some (p, i, n)" for k n using delete.prems(2) s' unfolding calm_def by (metis find_secret_drop fst_conv snd_conv)
  then show ?case unfolding s' by (rule inv_drop [OF delete.prems(1) delete.hyps(1)])
next
  case (change p state delay now i n etag s s' v g)
  note I = secrets_invD [OF change.prems(1), unfolded fst_conv snd_conv]
  from change.hyps(5) show ?case
    by (rule UpdateVersionIf_Inr) (use I(1) change.hyps(1,2) change.prems(1) transition_Inr in \<open>auto intro!: inv_change\<close>)
next
  case (finalize p i n now s s' v g)
  note I = secrets_invD [OF finalize.prems(1), unfolded fst_conv snd_conv]
  from finalize.hyps(2) show ?case
    by (rule UpdateVersionIf_Inr) (use I(1) finalize.hyps(1) finalize.prems(1) destroy_due_Inr in \<open>auto intro!: inv_change\<close>)
qed (use secrets_invD(6) in \<open>auto intro!: inv_job\<close>)

lemma secret_reach_inv: "secret_reach enc h name c \<Longrightarrow> secrets_inv c"
proof (induction rule: secret_reach.induct)
  case init
  then show ?case by (rule secrets_invI) (simp_all add: NewMemoryStore_def find_secret_def find_version_def)
qed (rule step_inv)

text \<open>What a step keeps of a stored version.\<close>

definition kept :: "Version \<Rightarrow> Version \<Rightarrow> bool" where
  "kept v v' \<longleftrightarrow> payload v' = payload v \<and> SecretID v' = SecretID v \<and> VersionID v' = VersionID v \<and> (State v = ''DESTROYED'' \<longrightarrow> v' = v)"

lemma kept_refl [simp]: "kept v v"
  by (simp add: kept_def)

lemma step_keeps:
  assumes "secret_step enc h name c c'" "secrets_inv c" "project_ok q" "find_version q j m (fst c) = Some v"
  shows "find_secret q j (fst c') = None \<or> (\<exists>v'. find_version q j m (fst c') = Some v' \<and> kept v v')"
  using assms
proof (induction rule: secret_step.induct)
  case (number g k p i d s s' n)
  then show ?case by (auto simp: NextVersion_def split: option.splits)
next
  case (managed g k p i w cfg s sec s' sec')
  from managed.hyps(3) managed.prems(3) show ?case by (auto elim: UpdateSecretAtomic_Inr)
next
  case (store g k p i n w s now)
  note I = secrets_invD [OF store.prems(1), unfolded fst_conv snd_conv]
  have "project_ok p" "find_version p i (Itoa n) s = None" using I(4,6) [of k] store.hyps by simp_all
  with store.prems(2,3) show ?case by (auto simp: CreateVersion_def new_version_def find_version_set)
next
  case (create p sec i s s' r g)
  from create.hyps(3) create.prems(3) show ?case by (auto elim!: CreateSecret_cases simp: find_version_def)
next
  case (update p mutate i s s' sec g)
  from update.hyps(3) update.prems(3) show ?case by (auto elim: UpdateSecretAtomic_Inr)
next
  case (delete p i cond s s' g)
  then show ?case by (auto simp: DeleteSecretIf_def find_version_drop split: option.splits if_splits)
next
  case (change p state delay now i n etag s s' v' g)
  note I = secrets_invD(1) [OF change.prems(1), unfolded fst_conv snd_conv]
  from change.hyps(5) obtain cur nxt where u: "find_version p i n s = Some cur" "transition h name etag state delay now cur = Inr nxt"
    "v' = nxt\<lparr>SecretID := SecretID cur, VersionID := VersionID cur\<rparr>" "s' = set_version p i n v' s" by (rule UpdateVersionIf_Inr)
  from transition_Inr [OF u(2) I [OF change.hyps(1) u(1)] change.hyps(2)] have "kept cur v'" unfolding u(3) kept_def payload_def by auto
  with u change.prems(2,3) change.hyps(1) show ?case by (auto simp: find_version_set)
next
  case (finalize p i n now s s' v' g)
  note I = secrets_invD(1) [OF finalize.prems(1), unfolded fst_conv snd_conv]
  from finalize.hyps(2) obtain cur nxt where u: "find_version p i n s = Some cur" "destroy_due now cur = Inr nxt"
    "v' = nxt\<lparr>SecretID := SecretID cur, VersionID := VersionID cur\<rparr>" "s' = set_version p i n v' s" by (rule UpdateVersionIf_Inr)
  from destroy_due_Inr [OF u(2) I [OF finalize.hyps(1) u(1)]] have "kept cur v'" unfolding u(3) kept_def payload_def by auto
  with u finalize.prems(2,3) finalize.hyps(1) show ?case by (auto simp: find_version_set)
qed auto

section \<open>A run\<close>

definition plain_secret :: Secret where
  "plain_secret = \<lparr>ID = ''s'', Labels = fmempty, Annotations = fmempty, Topics = [], SCreateTime = 1, NextVer = 1, SRotation = None, VersionAliases = fmempty,
     SReplication = None, SKmsKeyName = [], VersionDestroyTTL = [], ExpireTime = 0\<rparr>"

definition plain_wrap :: "Replication \<Rightarrow> string \<Rightarrow> PayloadWrap option" where
  "plain_wrap repl d = Some \<lparr>WData = d, WKmsKeyName = [], WWrappedDEK = [], WReplicaDEKs = []\<rparr>"

text \<open>The secret of the run, with the next number \<open>n\<close>.\<close>

definition at_number :: "int \<Rightarrow> MemoryStore" where
  "at_number n = set_secret ''p'' ''s'' (plain_secret\<lparr>NextVer := n\<rparr>) (NewMemoryStore\<lparr>secrets := fmupd ''p'' fmempty fmempty\<rparr>)"

lemma Itoa_one: "Itoa 1 = ''1''"
  by code_simp

lemma empty_lookups [simp]: "find_secret q j NewMemoryStore = None" "find_version q j m NewMemoryStore = None"
  by (simp_all add: NewMemoryStore_def find_secret_def find_version_def)

lemma find_at_number [simp]:
  "find_secret q j (at_number n) = (if q = ''p'' \<and> j = ''s'' then Some (plain_secret\<lparr>NextVer := n\<rparr>) else None)"
  "find_version q j m (at_number n) = None"
  by (auto simp: at_number_def find_secret_def find_version_def set_secret_def NewMemoryStore_def)

lemma next_at_number: "n < 2 ^ 63 - 1 \<Longrightarrow> 1 \<le> n \<Longrightarrow> NextVersion ''p'' ''s'' (at_number n) = Inr (at_number (n + 1), n)"
  by (simp add: NextVersion_def in_int64_def) (simp add: at_number_def set_secret_def plain_secret_def)

lemma create_plain: "CreateSecret ''p'' ''s'' plain_secret NewMemoryStore = (at_number 1, None)"
  by (simp add: CreateSecret_def at_number_def NewMemoryStore_def find_secret_def plain_secret_def)

lemma project_p [simp]: "project_ok ''p''"
  by (simp add: project_ok_def)

lemma calm_sample:
  "(\<And>k q j m. number_of (g k) = Some (q, j, m) \<Longrightarrow> q = ''p'' \<and> j = ''s'') \<Longrightarrow> n < 2 ^ 63 - 1 \<Longrightarrow> calm (at_number n, g) (at_number m, g')"
  by (force simp: calm_def)

lemma calm_idle: "calm (NewMemoryStore, \<lambda>_. Idle) c"
  by (simp add: calm_def)

text \<open>Two goroutines have begun to add a version, and the first has taken its number.\<close>

definition adding :: "nat \<Rightarrow> job" where
  "adding = (\<lambda>_. Idle)(0 := Adding ''p'' ''s'' ''a'', 1 := Adding ''p'' ''s'' ''b'')"

lemma reach_two:
  "secret_reach plain_wrap h name (at_number 2, adding(0 := Numbered ''p'' ''s'' 1 ''a''))"
proof -
  have "secret_reach plain_wrap h name (at_number 1, \<lambda>_. Idle)"
    by (rule secret_reach.step [OF secret_reach.init _ calm_idle]) (rule secret_step.create [OF _ _ create_plain], simp_all add: plain_secret_def)
  from secret_reach.step [OF this secret_step.begin_add [where k = 0 and p = "''p''" and i = "''s''" and d = "''a''"]]
  have "secret_reach plain_wrap h name (at_number 1, (\<lambda>_. Idle)(0 := Adding ''p'' ''s'' ''a''))"
    using calm_sample [of "\<lambda>_. Idle" 1 1] by simp
  moreover have "secret_step plain_wrap h name (at_number 1, (\<lambda>_. Idle)(0 := Adding ''p'' ''s'' ''a'')) (at_number 1, adding)"
    unfolding adding_def by (intro secret_step.begin_add) simp_all
  ultimately have "secret_reach plain_wrap h name (at_number 1, adding)"
    by (rule secret_reach.step) (auto intro!: calm_sample split: if_splits)
  moreover have "secret_step plain_wrap h name (at_number 1, adding) (at_number 2, adding(0 := Numbered ''p'' ''s'' 1 ''a''))"
    using next_at_number [of 1] by (intro secret_step.number) (simp_all add: adding_def)
  ultimately show ?thesis by (rule secret_reach.step) (auto simp: adding_def intro!: calm_sample split: if_splits)
qed

section \<open>Properties\<close>

text \<open>
  C1: Whatever goroutines add versions, rotate, create, update and delete secrets and change the state of versions, in any interleaving of the
  store calls: two goroutines never hold the same number of a secret, a number that a goroutine holds is not stored yet, so that no
  version overwrites another, and a step keeps the payload and the name of every stored version as long as its secret exists, and a
  destroyed version as it is. The steps are calm: no secret is deleted while a goroutine holds one of its numbers.\<close>

theorem concurrent_adds_never_collide:
  assumes "secret_reach enc h name c" "secret_step enc h name c c'" "calm c c'"
  shows "(number_of (snd c' k) = Some (p, i, n) \<and> number_of (snd c' l) = Some (p, i, n) \<longrightarrow> k = l) \<and>
    (number_of (snd c' k) = Some (p, i, n) \<longrightarrow> find_version p i (Itoa n) (fst c') = None) \<and>
    (project_ok p \<and> find_version p i m (fst c) = Some v \<longrightarrow>
       find_secret p i (fst c') = None \<or> (\<exists>v'. find_version p i m (fst c') = Some v' \<and> kept v v'))"
proof -
  note I = secret_reach_inv [OF assms(1)]
  note I' = secrets_invD [OF step_inv [OF assms(2) I assms(3)]]
  show ?thesis using I'(4,5) step_keeps [OF assms(2) I] by blast
qed

theorem concurrent_adds_never_collide_witness:
  "\<exists>c c'. secret_reach plain_wrap (\<lambda>_. []) VersionID c \<and> secret_step plain_wrap (\<lambda>_. []) VersionID c c' \<and>
     number_of (snd c' 0) = Some (''p'', ''s'', 1) \<and> number_of (snd c' 1) = Some (''p'', ''s'', 2) \<and>
     find_version ''p'' ''s'' (Itoa 1) (fst c') = None \<and> find_version ''p'' ''s'' (Itoa 2) (fst c') = None"
proof -
  let ?c = "(at_number 2, adding(0 := Numbered ''p'' ''s'' 1 ''a''))"
  let ?c' = "(at_number 3, adding(0 := Numbered ''p'' ''s'' 1 ''a'', 1 := Numbered ''p'' ''s'' 2 ''b''))"
  have s: "secret_step plain_wrap (\<lambda>_. []) VersionID ?c ?c'"
    using next_at_number [of 2] by (intro secret_step.number) (simp_all add: adding_def)
  have "calm ?c ?c'" by (auto simp: adding_def intro!: calm_sample split: if_splits)
  from concurrent_adds_never_collide [OF reach_two s this] s reach_two show ?thesis
    by (intro exI [of _ ?c] exI [of _ ?c']) simp
qed



text \<open>Whatever the clock says when the change is made: an enable or a disable that found the version not due yet clears the schedule.\<close>

theorem enabling_ignores_the_instant:
  assumes "find_secret p i s = Some sec" "\<not> Expired sec (c_check c)" "find_version p i n s = Some v"
    and "\<not> ScheduledDestroyDue v (c_due c)" "State v \<noteq> ''DESTROYED''" "state \<noteq> ''DESTROYED''"
  shows "let v' = v\<lparr>ScheduledDestroyTime := 0, State := state\<rparr>
    in setVersionState h name c p i n state [] s = (set_version p i n v' s, Inr v')"
proof -
  have r: "rejectExpired (c_check c) (c_expire c) p i s = (s, None)" using assms(1,2) by (simp add: rejectExpired_def GetSecret_def)
  have f: "FinalizeScheduledDestroy (c_due c) (c_finalize c) p i v s = (s, v, False)" using assms(4) by (simp add: FinalizeScheduledDestroy_def)
  show ?thesis using assms(1,3,5,6) f r
    by (simp add: setVersionState_def finalize_stored_def GetSecret_def GetVersion_def UpdateVersionIf_def transition_def CheckVersionEtag_def Let_def)
qed

text \<open>
  Without calm: a goroutine takes the first number of a secret, another deletes the secret, the first stores its version, and a secret created
  under the same name then holds a version that was never added to it, with the number that its first version will take.
\<close>

theorem late_add_outlives_its_secret:
  "\<exists>c c' v. secret_reach plain_wrap h name c \<and> (secret_step plain_wrap h name)\<^sup>*\<^sup>* c c' \<and>
     find_secret ''p'' ''s'' (fst c') = Some plain_secret \<and> NextVer plain_secret = 1 \<and>
     find_version ''p'' ''s'' (Itoa 1) (fst c') = Some v \<and> Data v = ''a''"
proof -
  let ?w = "\<lparr>WData = ''a'', WKmsKeyName = [], WWrappedDEK = [], WReplicaDEKs = []\<rparr>"
  let ?c = "(at_number 2, adding(0 := Numbered ''p'' ''s'' 1 ''a''))"
  let ?v = "new_version 9 ''s'' 1 ?w"
  let ?d = "drop_secret ''p'' ''s'' (at_number 2)"
  let ?t = "CreateVersion ''p'' ?v ?d"
  let ?r = "secret_step plain_wrap h name"
  let ?f = "fst (CreateSecret ''p'' ''s'' plain_secret ?t)"
  have a: "?r ?c (at_number 2, adding(0 := Ready ''p'' ''s'' 1 ?w))"
    using secret_step.encrypt [of "adding(0 := Numbered ''p'' ''s'' 1 ''a'')" 0 "''p''" "''s''" 1 "''a''" "at_number 2" _ plain_wrap ?w h name]
    by (simp add: GetSecret_def plain_wrap_def)
  have b: "?r (at_number 2, adding(0 := Ready ''p'' ''s'' 1 ?w)) (?d, adding(0 := Ready ''p'' ''s'' 1 ?w))"
    by (rule secret_step.delete [where cond = None and p = "''p''" and i = "''s''"]) (simp_all add: DeleteSecretIf_def)
  have c: "?r (?d, adding(0 := Ready ''p'' ''s'' 1 ?w)) (?t, adding(0 := Ended))"
    using secret_step.store [of "adding(0 := Ready ''p'' ''s'' 1 ?w)" 0 "''p''" "''s''" 1 ?w plain_wrap h name ?d 9] by simp
  have d: "?r (?t, adding(0 := Ended)) (?f, adding(0 := Ended))"
    by (rule secret_step.create [OF project_p]) (simp_all add: plain_secret_def prod_eq_iff)
  have "?r\<^sup>*\<^sup>* ?c (?f, adding(0 := Ended))" using a b c d by (meson converse_rtranclp_into_rtranclp r_into_rtranclp)
  moreover have "find_secret ''p'' ''s'' ?f = Some plain_secret" by (rule CreateSecret_new) (simp add: CreateVersion_def)
  moreover have "find_version ''p'' ''s'' (Itoa 1) ?f = Some ?v"
    unfolding CreateSecret_new(2) by (simp add: CreateVersion_def new_version_def find_version_set_key)
  ultimately show ?thesis using reach_two [of h name] by (fastforce simp: plain_secret_def new_version_def)
qed

end
