(* ===== verification/Spec2Isabelle.thy ===== *)
theory Spec2Isabelle
  imports Sqs_Store Kinesis_Store Pubsub_Store Pubsub_Filter Operation_Filter Ordered_Listing Resource_Store
    Dynamo_Roundtrip Dynamo_Throttle Dynamo_Effects Sqs_Scopes Dynamo_Scopes Token_Service Iam_Policy Gcs_Store Secret_Versions
begin

text \<open>
  A verification library for the core of JaisCloud, an emulator of AWS and GCP services written in Go.

  \<^bold>\<open>The program.\<close> A request arrives over REST, gRPC or an AWS protocol, is decoded by an adapter
  or a transport, and is handled by a provider (\<open>internal/aws/provider\<close>, \<open>internal/gcp/provider\<close>,
  \<open>internal/gcp/service\<close>). The providers keep their state in stores, each an interface with an in-memory and
  a Postgres implementation, and share packages for list filters, orders, pages and
  attribute paths. The state and the decisions of the program are in the stores and in these shared packages;
  they are what this library models, with the packages that decide who a caller is and what a token permits. An operation
  of an in-memory store runs under the store's mutex from its first to its last statement, so an execution is a sequence of
  whole operations. The bundles that keep one store per account and region take their lock twice in a \<open>Get\<close>,
  and the Secret Manager handlers that add a version make several store calls; there an execution interleaves the parts.

  \<^bold>\<open>The theories and the code they model\<close> (file names are below \<open>src/\<close>):

  \<^item> \<open>Go_Prelude\<close>, \<open>Go_Strings\<close>, \<open>Go_Time\<close>, \<open>Go_Base64\<close>, \<open>Go_Float\<close>, \<open>Go_Float_Facts\<close>, \<open>Go_Number_Text\<close>: the parts of Go and of its
    standard library that the code uses. Strings are byte strings; maps are finite maps; a time is a number of nanoseconds;
    64-bit integers wrap where the code can overflow them. \<open>Go_Strings\<close> has Unicode white space and case-folding
    against ASCII words; the tables of \<open>strings.ToLower\<close> for non-ASCII text are an argument.
    \<open>Go_Time\<close> has the civil calendar, the fixed-width timestamp and RFC 3339 parsing, with the proofs that the text
    orders instants and that parsing undoes formatting. \<open>Go_Float\<close> has the 64-bit floats with rounding to nearest,
    \<open>Go_Number_Text\<close> their parsing and the formats that the code prints.
  \<^item> \<open>Sqs_Store\<close>: \<open>internal/aws/store/sqs\<close>, the in-memory message store: send with
    deduplication and FIFO numbering, receive with leases, delete, visibility changes, purge, counts,
    retention sweep, snapshot and restore.
  \<^item> \<open>Kinesis_Store\<close>: \<open>internal/aws/store/kinesis\<close>, streams and shards: put, iterators and get, split
    and merge, retention, consumers, tags, resource policies and stream mode, snapshot and restore.
  \<^item> \<open>Pubsub_Store\<close>: \<open>internal/gcp/store/pubsub\<close>, the message queues of subscriptions: publish, pull
    with leases, acknowledgement with ordering keys, deadlines, delivery versions, dead-letter attributes, acknowledgement identifiers, snapshot and restore.
  \<^item> \<open>Resource_Store\<close>: \<open>internal/store\<close>, the keyed store of resource documents that every provider uses.
  \<^item> \<open>Filter_Lexing\<close>, \<open>Pubsub_Filter\<close>: \<open>internal/gcp/pubsubfilter\<close>, subscription filters.
  \<^item> \<open>Aip160\<close>, \<open>Aip160_Filter\<close>, \<open>Aip160_Order\<close>: \<open>internal/gcp/aip160\<close>, list filters and orders;
    \<open>Operation_Filter\<close>: \<open>internal/gcp/operationfilter\<close>, the filter of long-running operations.
  \<^item> \<open>Paging\<close>: \<open>internal/gcp/paging\<close>, page sizes, pages and page following; \<open>Ordered_Listing\<close>: how the list
    methods compose orders and pages.
  \<^item> \<open>internal/aws/store/dynamodb\<close>, the item store: \<open>Dynamo_Heap\<close> (items as maps that a
    heap shares, with printing, comparison and encoding of values), \<open>Dynamo_Paths\<close> (nested attribute paths and projections),
    \<open>Dynamo_Expr\<close> and \<open>Dynamo_Roundtrip\<close> (the parser and evaluator of filter and condition expressions), \<open>Dynamo_Update\<close>
    (update expressions), \<open>Dynamo_Key\<close> (key conditions), \<open>Dynamo_Store\<close> (put, get, update, delete, query, scan, batches, transactions,
    tables and secondary indexes), \<open>Dynamo_Types\<close>, \<open>Dynamo_Index\<close>, \<open>Dynamo_Query\<close> (their invariants and results),
    \<open>Dynamo_Throttle\<close> (the write budget of a table), \<open>Dynamo_Effects\<close> (counters, and what failed operations leave), \<open>Dynamo_Snapshot\<close>.
  \<^item> \<open>Store_Bundle\<close>: \<open>internal/aws/store/bundle\<close>, one store per account and region; \<open>Sqs_Scopes\<close> and \<open>Dynamo_Scopes\<close>:
    the bundled SQS and DynamoDB stores (\<open>bundled.go\<close> of each).
  \<^item> \<open>Gcp_Identity\<close>: \<open>internal/gcp/identity\<close>, the project and account of a request; \<open>Downscope\<close>: \<open>internal/gcp/downscope\<close>, credential
    access boundaries; \<open>Token_Service\<close>: \<open>internal/gcp/auth\<close>, the grants of the token endpoint.
  \<^item> \<open>Store_Util\<close>: \<open>internal/gcp/storeutil\<close>, the atomic read-modify-write; \<open>Iam_Policy\<close>: \<open>internal/gcp/policy\<close>, policies over
    the resource store and the authorization of KMS operations.
  \<^item> \<open>Gcs_Store\<close>: \<open>internal/gcp/store/gcs\<close>, buckets, object generations, preconditions, soft deletion, resumable
    uploads, snapshot and restore, and the generation counter of \<open>internal/gcp/provider/storage\<close>.
  \<^item> \<open>Secret_Rules\<close>, \<open>Secret_Versions\<close>: \<open>internal/gcp/service/secretmanager\<close>, the rules on durations, expirations and rotation schedules
    and the lifecycle of versions, with the version handlers of \<open>internal/gcp/provider/secretmanager\<close>; \<open>Secret_Store\<close>:
    \<open>internal/gcp/store/secretmanager\<close>; \<open>Gcp_Timestamp\<close>: \<open>internal/gcp/timestamp\<close>.

  \<^bold>\<open>How state and operations correspond.\<close> A store struct is a record with the source's fields; an
  operation is a function from its arguments and the store to the new store and the results, with each early
  return as a branch. An error is a value: the constructor of an error type, or the code and text the source
  builds. The clock, random identifiers, hashes, signatures, JSON coders, the iteration order of a Go map and the result of an
  unstable sort are arguments, so that a theorem holds for each of their values. A loop is a recursive
  function. A parser is a function on the remaining tokens. Where a loop ends only because a callback makes
  progress (the clause parsers of \<open>Aip160\<close>), it is a partial function whose value \<open>None\<close> stands for not
  returning, and that it returns is proved. DynamoDB items are maps that callers, the store and results share; they are addresses
  of a heap, and an operation threads the heap and may panic.

  \<^bold>\<open>Interfaces.\<close> Contracts shared by several components are locales, proved about once and
  interpreted on the model's own definitions:

  \<^item> \<open>lease_store\<close> (\<open>Lease_Contract\<close>): a claimed message is not handed out again while its lease
    runs; interpreted for the receive of SQS and the pull of Pub/Sub.
  \<^item> \<open>keyed_store\<close> (\<open>Map_Contract\<close>): a store refines a map from keys to values; interpreted for the
    resource store and for the batch writes of the item store.
  \<^item> \<open>vivified\<close> and its extension \<open>snapshotted\<close> (\<open>Store_Bundle\<close>): what a kind of store owes its bundle, a fresh store that answers
    like an empty one and a snapshot that restores; interpreted for SQS and for DynamoDB.
  \<^item> \<open>conditional_store\<close> (\<open>Cas_Contract\<close>): of the writers that name the same version, one is served; interpreted for the
    etags of policies and for the conditional puts of objects.
  \<^item> \<open>clause_parser\<close> and its extension \<open>clause_syntax\<close> (\<open>Aip160\<close>): what a list surface's clause
    parser owes the shared parsers, and that clauses can be written; interpreted for the operations filter, for
    the generic field compiler and for its time clauses.
  \<^item> \<open>cursor_order\<close> (\<open>Page_Contract\<close>): an item is past another item's cursor exactly when it comes
    later; interpreted for \<open>Page\<close> (by key) and for \<open>PageOrdered\<close> with the orders of \<open>aip160\<close>.

  \<^bold>\<open>What the theorems show.\<close>

  \<^item> Queues: no message is delivered twice while its lease runs, however consumers interleave; FIFO groups
    and ordering keys are delivered and acknowledged in order; receive and pull return exactly the available
    messages; deduplication, retention, deletion and snapshots are exact.
  \<^item> Streams: the open shards always partition the hash space, so that each record goes to exactly
    one shard; following the iterators reads every record once; sequence numbers locate records; splitting and merging
    keep the ranges; no operation panics on a reachable store.
  \<^item> Resources: the store refines a map; lists and resets are exact per scope.
  \<^item> Filters: \<open>Compile\<close> of subscription filters accepts exactly the documented grammar and undoes
    printing; compiled operation and time filters hold exactly where their clauses do, with the
    documented precedence; compiling always ends.
  \<^item> Listings: page sizes are exactly the denoted integers within their ranges; following page tokens
    reads every item once in key order or in any requested order; following ends after \<open>MaxPages\<close> fetches.
  \<^item> Items: set, remove and resolve of attribute paths agree, and keep what lies beside the path; printed expressions parse
    back; secondary indexes hold exactly the items that have their keys, and an index query returns exactly the matching ones; a
    transaction checks every condition before it writes; batches refine a map; updates keep the types of values; the write budget
    admits no more writes than provisioned.
  \<^item> Scopes: however goroutines interleave the parts of \<open>Get\<close>, two hold the same store exactly when they asked for the same
    scope; the scopes of a bundle answer as separate stores; snapshots of all scopes restore.
  \<^item> Access: a downscoped token permits exactly what the rules of its boundary admit; documented conditions are confined to the
    names for which they hold; of the writers that send the same etag of a policy, one is served.
  \<^item> Objects: a name has at most one live generation, and reads and lists return exactly the live ones; of the writers
    conditioned on the same generation, one succeeds; a restored store continues the generation numbers.
  \<^item> Secrets: however goroutines add versions, no two take the same number, no version overwrites another, and payloads stay as
    stored; a version that is due for destruction is destroyed by every request that reads or changes it; durations parse back.
  \<^item> Deviations found while proving: several theorems state a behaviour that differs from what the code's
    comments promise (a cached order that outlives a restore, held acknowledgements after redelivery, a
    deduplication key that two groups share, tags stored by a refused call, publish order at equal times, projections that lose nested
    attributes, failed updates and transactions that keep part of their writes, maps that an update makes contain themselves, a query
    direction that is ignored, large counters in exponent form, a bundled restore that loses every scope when it fails, snapshots in
    map order, condition prefixes that are narrowed, conjunctions that are accepted as one literal, policy updates of the
    version alone that are overwritten, soft-deleted objects that go with their bucket,
    a version stored after its secret was deleted, negative durations that are accepted, an enable that ignores the instant of destruction).

  \<^bold>\<open>Bounds.\<close> Printing, comparing and encoding DynamoDB values recurse through the heap with fuel, one more than the number
  of its maps; it runs out only on a map that contains itself, where the code does not return. No other model has fuel.
  \<open>MaxPages\<close> is the code's own limit of 10000 fetches. The time theorems hold for the years 0 to 9999, where the timestamp has a
  fixed width. Texts of snapshots are valid UTF-8 and documents the JSON decoder accepts. Where a property rests on a JSON coder, that
  it decodes what it encoded is a hypothesis.

  \<^bold>\<open>Not modelled.\<close> Postgres stores, transports, adapters, generated code, the user interface and process
  wiring are input and output around the modelled core. Error texts that only render data are constructors
  carrying that data. The Unicode case tables are arguments. The remaining in-memory stores (Tasks, Scheduler, KMS,
  Workflows, Firestore, BigQuery, Datastore, S3, Step Functions), the providers that compose several stores, the workflow and
  query engines and the eventing brokers are not modelled; of the storage provider only its generation counter
  is, and of the Secret Manager provider only the adding, reading and state changes of versions.
\<close>

end
